(* ===== verification/Prelude.thy ===== *)
theory Prelude
  imports "HOL-Library.Countable" Main "HOL-Library.Word" "HOL-Library.List_Lexorder" "HOL-Library.Sublist"
begin

text \<open>
  The shared vocabulary of the development: byte strings and identifiers, Rust's \<open>Result\<close>
  over a mutable database (operations that return a result or an error and always a new
  state, because writes made before an error stay), the slice operations of the standard library the stores
  use to build and take apart keys, and the facts on the lexicographic order of byte strings on which every
  range scan rests.
\<close>

named_theorems op_simps \<open>rewrite rules of the state and error combinators\<close>
named_theorems key_simps \<open>rules that take apart separator-joined keys\<close>

type_synonym byte = "8 word"
type_synonym bytes = "byte list"
type_synonym u64 = "64 word"
type_synonym u32 = "32 word"

text \<open>Rust's \<open>String\<close> and the identifiers of ruma are their UTF-8 bytes.\<close>

type_synonym user_id = bytes
type_synonym room_id = bytes
type_synonym event_id = bytes
type_synonym device_id = bytes
type_synonym servername = bytes

text \<open>The byte string of an ASCII literal, as in \<^verbatim>\<open>b"..."\<close>.\<close>

definition ascii :: "string \<Rightarrow> bytes" where
  "ascii s = map of_char s"

lemma of_char_byte_inject: "(of_char c :: byte) = of_char d \<longleftrightarrow> c = d"
proof
  assume "(of_char c :: byte) = of_char d"
  then have "(of_nat (of_char c) :: byte) = of_nat (of_char d)" by (simp only: of_nat_of_char)
  then have "unat (of_nat (of_char c) :: byte) = unat (of_nat (of_char d) :: byte)" by simp
  then show "c = d" by (simp add: unat_of_nat)
qed simp

lemma ascii_inject [simp]: "ascii s = ascii t \<longleftrightarrow> s = t"
  by (simp add: ascii_def inj_map_eq_map inj_on_def of_char_byte_inject)

lemma ascii_simps:
  "ascii [] = []"
  "ascii (c # cs) = of_char c # ascii cs"
  by (simp_all add: ascii_def)

section \<open>Operations: a result or an error, and the new state\<close>

type_synonym ('e, 's, 'a) op = "'s \<Rightarrow> ('e + 'a) \<times> 's"

definition ret :: "'a \<Rightarrow> ('e, 's, 'a) op" where
  "ret x = (\<lambda>s. (Inr x, s))"

definition fail :: "'e \<Rightarrow> ('e, 's, 'a) op" where
  "fail e = (\<lambda>s. (Inl e, s))"

definition bind :: "('e, 's, 'a) op \<Rightarrow> ('a \<Rightarrow> ('e, 's, 'b) op) \<Rightarrow> ('e, 's, 'b) op" where
  "bind m f = (\<lambda>s. case m s of (Inl e, s') \<Rightarrow> (Inl e, s') | (Inr x, s') \<Rightarrow> f x s')"

text \<open>Sequencing with no value (\<^verbatim>\<open>m?; f\<close>).\<close>

definition andthen :: "('e, 's, 'a) op \<Rightarrow> ('e, 's, 'b) op \<Rightarrow> ('e, 's, 'b) op" where
  "andthen m f = bind m (\<lambda>_. f)"

definition gets :: "('s \<Rightarrow> 'a) \<Rightarrow> ('e, 's, 'a) op" where
  "gets f = (\<lambda>s. (Inr (f s), s))"

definition modify :: "('s \<Rightarrow> 's) \<Rightarrow> ('e, 's, unit) op" where
  "modify f = (\<lambda>s. (Inr (), f s))"

text \<open>A pure fallible value (\<^verbatim>\<open>r?\<close>), and a reader of the state that may fail.\<close>

definition of_res :: "'e + 'a \<Rightarrow> ('e, 's, 'a) op" where
  "of_res r = (\<lambda>s. (r, s))"

definition reads :: "('s \<Rightarrow> 'e + 'a) \<Rightarrow> ('e, 's, 'a) op" where
  "reads f = (\<lambda>s. (f s, s))"

text \<open>\<^verbatim>\<open>for x in xs { f(x)?; }\<close>\<close>

fun for_each :: "'a list \<Rightarrow> ('a \<Rightarrow> ('e, 's, unit) op) \<Rightarrow> ('e, 's, unit) op" where
  "for_each [] f = ret ()"
| "for_each (x # xs) f = bind (f x) (\<lambda>_. for_each xs f)"

lemma ret_apply [simp, op_simps]: "ret x s = (Inr x, s)"
  by (simp add: ret_def)

lemma fail_apply [simp, op_simps]: "fail e s = (Inl e, s)"
  by (simp add: fail_def)

lemma gets_apply [simp, op_simps]: "gets f s = (Inr (f s), s)"
  by (simp add: gets_def)

lemma modify_apply [simp, op_simps]: "modify f s = (Inr (), f s)"
  by (simp add: modify_def)

lemma of_res_apply [simp, op_simps]: "of_res r s = (r, s)"
  by (simp add: of_res_def)

lemma reads_apply [simp, op_simps]: "reads f s = (f s, s)"
  by (simp add: reads_def)

lemma bind_apply [op_simps]:
  "bind m f s = (case m s of (Inl e, s') \<Rightarrow> (Inl e, s') | (Inr x, s') \<Rightarrow> f x s')"
  by (simp add: bind_def)

lemma bind_ok [simp]: "m s = (Inr x, s') \<Longrightarrow> bind m f s = f x s'"
  by (simp add: bind_def)

lemma bind_err [simp]: "m s = (Inl e, s') \<Longrightarrow> bind m f s = (Inl e, s')"
  by (simp add: bind_def)

lemma andthen_ok [simp]: "m s = (Inr x, s') \<Longrightarrow> andthen m f s = f s'"
  by (simp add: andthen_def)

lemma andthen_err [simp]: "m s = (Inl e, s') \<Longrightarrow> andthen m f s = (Inl e, s')"
  by (simp add: andthen_def)

text \<open>\<^verbatim>\<open>match op { Ok(..) => .., Err(..) => .. }\<close>: the result as a value, the state kept.\<close>

definition attempt :: "('e, 's, 'a) op \<Rightarrow> ('f, 's, 'e + 'a) op" where
  "attempt p s = (case p s of (r, s') \<Rightarrow> (Inr r, s'))"

lemma attempt_apply [op_simps]: "attempt p s = (Inr (fst (p s)), snd (p s))"
  by (simp add: attempt_def split: prod.split)

lemma bind_InrE:
  assumes "bind m f s = (Inr y, t)"
  obtains x s' where "m s = (Inr x, s')" and "f x s' = (Inr y, t)"
  using assms by (auto simp: bind_def split: prod.splits sum.splits)

lemma andthen_InrE:
  assumes "andthen m f s = (Inr y, t)"
  obtains x s' where "m s = (Inr x, s')" and "f s' = (Inr y, t)"
  using assms unfolding andthen_def by (rule bind_InrE)

text \<open>A property that every round keeps holds after the loop, also when a round fails.\<close>

lemma for_each_invariant:
  assumes "P s"
    and "\<And>x s. x \<in> set xs \<Longrightarrow> P s \<Longrightarrow> P (snd (f x s))"
  shows "P (snd (for_each xs f s))"
  using assms
proof (induction xs arbitrary: s)
  case Nil
  then show ?case by simp
next
  case (Cons x xs)
  then have "P (snd (f x s))" by simp
  with Cons show ?case
    by (cases "f x s") (auto simp: bind_def split: sum.splits)
qed

lemma for_each_modify:
  "for_each xs (\<lambda>x. modify (g x)) s = (Inr (), fold g xs s)"
  by (induction xs arbitrary: s) (simp_all add: bind_def)

section \<open>Results\<close>

text \<open>\<^verbatim>\<open>Option<Result<T>>.transpose()\<close>, \<^verbatim>\<open>Result::ok\<close> and \<^verbatim>\<open>map_err\<close>.\<close>

definition transpose_opt :: "('e + 'a) option \<Rightarrow> 'e + 'a option" where
  "transpose_opt r = (case r of None \<Rightarrow> Inr None | Some (Inl e) \<Rightarrow> Inl e | Some (Inr x) \<Rightarrow> Inr (Some x))"

lemma transpose_opt_simps [simp]:
  "transpose_opt None = Inr None"
  "transpose_opt (Some (Inl e)) = Inl e"
  "transpose_opt (Some (Inr x)) = Inr (Some x)"
  by (simp_all add: transpose_opt_def)

definition res_ok :: "'e + 'a \<Rightarrow> 'a option" where
  "res_ok r = (case r of Inl _ \<Rightarrow> None | Inr x \<Rightarrow> Some x)"

lemma res_ok_simps [simp]: "res_ok (Inl e) = None" "res_ok (Inr x) = Some x"
  by (simp_all add: res_ok_def)

definition map_err :: "'f \<Rightarrow> 'e + 'a \<Rightarrow> 'f + 'a" where
  "map_err f r = (case r of Inl _ \<Rightarrow> Inl f | Inr x \<Rightarrow> Inr x)"

lemma map_err_simps [simp]: "map_err f (Inl e) = Inl f" "map_err f (Inr x) = Inr x"
  by (simp_all add: map_err_def)

definition map_res :: "('a \<Rightarrow> 'b) \<Rightarrow> 'e + 'a \<Rightarrow> 'e + 'b" where
  "map_res f r = (case r of Inl e \<Rightarrow> Inl e | Inr x \<Rightarrow> Inr (f x))"

lemma map_res_simps [simp]: "map_res f (Inl e) = Inl e" "map_res f (Inr x) = Inr (f x)"
  by (simp_all add: map_res_def)

definition bind_res :: "'e + 'a \<Rightarrow> ('a \<Rightarrow> 'e + 'b) \<Rightarrow> 'e + 'b" where
  "bind_res r f = (case r of Inl e \<Rightarrow> Inl e | Inr x \<Rightarrow> f x)"

lemma bind_res_simps [simp]: "bind_res (Inl e) f = Inl e" "bind_res (Inr x) f = f x"
  by (simp_all add: bind_res_def)

definition ok_or :: "'e \<Rightarrow> 'a option \<Rightarrow> 'e + 'a" where
  "ok_or e m = (case m of None \<Rightarrow> Inl e | Some x \<Rightarrow> Inr x)"

lemma ok_or_simps [simp]: "ok_or e None = Inl e" "ok_or e (Some x) = Inr x"
  by (simp_all add: ok_or_def)

lemma Let_apply [op_simps]: "(let x = v in f x) s = (let x = v in f x s)"
  by (simp add: Let_def)

text \<open>Collecting an iterator of results: the first error wins.\<close>

fun collect_res :: "('e + 'a) list \<Rightarrow> 'e + 'a list" where
  "collect_res [] = Inr []"
| "collect_res (r # rs) = bind_res r (\<lambda>x. map_res ((#) x) (collect_res rs))"

lemma collect_res_Inr: "collect_res (map (\<lambda>x. Inr (f x)) xs) = Inr (map f xs)"
  by (induction xs) simp_all

section \<open>Slices\<close>

definition sep :: byte where
  "sep = 0xff"

text \<open>
  \<^verbatim>\<open>slice.split(|b| b == 0xff)\<close> yields at least one part; \<^verbatim>\<open>splitn(n, ..)\<close>
  yields at most \<open>n\<close>, the last one with every later separator left in place;
  \<^verbatim>\<open>rsplit(..).next()\<close> is the part after the last separator.
\<close>

fun split_sep :: "bytes \<Rightarrow> bytes list" where
  "split_sep [] = [[]]"
| "split_sep (b # bs) =
     (if b = sep then [] # split_sep bs
      else (case split_sep bs of [] \<Rightarrow> [[b]] | p # ps \<Rightarrow> (b # p) # ps))"

fun splitn_sep :: "nat \<Rightarrow> bytes \<Rightarrow> bytes list" where
  "splitn_sep 0 bs = []"
| "splitn_sep (Suc 0) bs = [bs]"
| "splitn_sep (Suc (Suc n)) bs =
     (let p = takeWhile (\<lambda>b. b \<noteq> sep) bs; r = dropWhile (\<lambda>b. b \<noteq> sep) bs
      in (case r of [] \<Rightarrow> [p] | _ # r' \<Rightarrow> p # splitn_sep (Suc n) r'))"

definition rsplit_last :: "bytes \<Rightarrow> bytes" where
  "rsplit_last bs = rev (takeWhile (\<lambda>b. b \<noteq> sep) (rev bs))"

text \<open>\<open>parts.next()\<close>, \<open>parts.next()\<close>, ... on the list of parts.\<close>

definition nth_part :: "nat \<Rightarrow> 'a list \<Rightarrow> 'a option" where
  "nth_part i ps = (if i < length ps then Some (ps ! i) else None)"

text \<open>\<^verbatim>\<open>rsplit\<close> as an iterator: the parts in reverse order.\<close>

definition rsplit_sep :: "bytes \<Rightarrow> bytes list" where
  "rsplit_sep bs = rev (split_sep bs)"

lemma takeWhile_sep [key_simps]:
  "sep \<notin> set a \<Longrightarrow> takeWhile (\<lambda>b. b \<noteq> sep) (a @ sep # x) = a"
  by (induction a) auto

lemma dropWhile_sep [key_simps]:
  "sep \<notin> set a \<Longrightarrow> dropWhile (\<lambda>b. b \<noteq> sep) (a @ sep # x) = sep # x"
  by (induction a) auto

lemma split_sep_nosep [key_simps]: "sep \<notin> set a \<Longrightarrow> split_sep a = [a]"
  by (induction a) auto

lemma split_sep_append [key_simps]:
  "sep \<notin> set a \<Longrightarrow> split_sep (a @ sep # x) = a # split_sep x"
  by (induction a) auto

lemma splitn_sep_eval:
  "splitn_sep 2 bs =
     (case dropWhile (\<lambda>b. b \<noteq> sep) bs of
        [] \<Rightarrow> [takeWhile (\<lambda>b. b \<noteq> sep) bs]
      | _ # r \<Rightarrow> [takeWhile (\<lambda>b. b \<noteq> sep) bs, r])"
  "splitn_sep 3 bs =
     (case dropWhile (\<lambda>b. b \<noteq> sep) bs of
        [] \<Rightarrow> [takeWhile (\<lambda>b. b \<noteq> sep) bs]
      | _ # r \<Rightarrow> takeWhile (\<lambda>b. b \<noteq> sep) bs # splitn_sep 2 r)"
  using splitn_sep.simps(3) [of 0 bs] splitn_sep.simps(3) [of 1 bs]
  by (simp_all only: numeral_2_eq_2 numeral_3_eq_3 One_nat_def Let_def splitn_sep.simps(2))

lemma splitn_sep_2 [key_simps]:
  "sep \<notin> set a \<Longrightarrow> splitn_sep 2 (a @ sep # x) = [a, x]"
  by (simp add: numeral_2_eq_2 takeWhile_sep dropWhile_sep)

lemma nth_part_splitn_2D:
  assumes "nth_part (Suc 0) (splitn_sep 2 b) = Some x"
  shows "b = hd (splitn_sep 2 b) @ sep # x" and "sep \<notin> set (hd (splitn_sep 2 b))"
proof -
  let ?p = "takeWhile (\<lambda>b. b \<noteq> sep) b"
  have hd: "hd (splitn_sep 2 b) = ?p"
    by (simp add: numeral_2_eq_2 Let_def split: list.split)
  from assms obtain y where "dropWhile (\<lambda>b. b \<noteq> sep) b = y # x"
    by (cases "dropWhile (\<lambda>b. b \<noteq> sep) b")
       (simp_all add: numeral_2_eq_2 Let_def nth_part_def)
  moreover from this have "y = sep" using hd_dropWhile [of "\<lambda>b. b \<noteq> sep" b] by simp
  ultimately have "b = ?p @ sep # x" using takeWhile_dropWhile_id [of "\<lambda>b. b \<noteq> sep" b] by simp
  with hd show "b = hd (splitn_sep 2 b) @ sep # x" by simp
  show "sep \<notin> set (hd (splitn_sep 2 b))" by (auto simp: hd dest: set_takeWhileD)
qed

lemma splitn_sep_3 [key_simps]:
  "sep \<notin> set a \<Longrightarrow> sep \<notin> set b \<Longrightarrow> splitn_sep 3 (a @ sep # b @ sep # x) = [a, b, x]"
  by (simp add: numeral_3_eq_3 takeWhile_sep dropWhile_sep)

lemma rsplit_last_append [key_simps]:
  "sep \<notin> set a \<Longrightarrow> rsplit_last (x @ sep # a) = a"
  by (simp add: rsplit_last_def takeWhile_sep)

lemma sep_join_inject [key_simps]:
  assumes "sep \<notin> set a" and "sep \<notin> set b"
  shows "a @ sep # x = b @ sep # y \<longleftrightarrow> a = b \<and> x = y"
  using assms
proof (induction a arbitrary: b)
  case Nil
  then show ?case by (cases b) auto
next
  case (Cons c a)
  then show ?case by (cases b) auto
qed

lemma sep_join_prefix [key_simps]:
  assumes "sep \<notin> set a" and "sep \<notin> set b"
  shows "prefix (a @ [sep]) (b @ sep # y) \<longleftrightarrow> a = b"
  using assms sep_join_inject [of a b _ y] by (force simp: prefix_def)

section \<open>The lexicographic order of byte strings\<close>

lemma append_less_cancel [simp]:
  fixes p a b :: "'a::linorder list"
  shows "p @ a < p @ b \<longleftrightarrow> a < b"
  by (induction p) auto

lemma append_le_cancel [simp]:
  fixes p a b :: "'a::linorder list"
  shows "p @ a \<le> p @ b \<longleftrightarrow> a \<le> b"
  by (induction p) auto

lemma append_less_same_length:
  fixes a b x y :: "'a::linorder list"
  assumes "length a = length b"
  shows "a @ x < b @ y \<longleftrightarrow> a < b \<or> a = b \<and> x < y"
  using assms by (induction a b rule: list_induct2) auto

lemma append_le_same_length:
  fixes a b x y :: "'a::linorder list"
  assumes "length a = length b"
  shows "a @ x \<le> b @ y \<longleftrightarrow> a < b \<or> a = b \<and> x \<le> y"
  using assms by (induction a b rule: list_induct2) auto

lemma prefix_le:
  fixes p k :: "'a::linorder list"
  shows "prefix p k \<Longrightarrow> p \<le> k"
  by (induction p arbitrary: k) (auto simp: prefix_def)

text \<open>The keys with a given prefix form an interval that starts at the prefix.\<close>

lemma prefix_convex:
  fixes p k k' :: "'a::linorder list"
  assumes "p \<le> k" and "k \<le> k'" and "prefix p k'"
  shows "prefix p k"
  using assms
proof (induction p arbitrary: k k')
  case Nil
  then show ?case by simp
next
  case (Cons a p)
  from Cons.prems(3) obtain ks' where k': "k' = a # ks'" and "prefix p ks'"
    by (cases k') auto
  moreover from Cons.prems(1) obtain b ks where k: "k = b # ks"
    by (cases k) auto
  ultimately show ?case
    using Cons.prems Cons.IH [of ks ks'] by auto
qed

text \<open>
  A scan that starts at a key with the prefix and stops at the first key without it sees the
  same entries as a filter, in either direction.
\<close>

lemma takeWhile_prefix_asc:
  fixes p :: "'a::linorder list"
  assumes "sorted (map fst xs)" and "\<And>e. e \<in> set xs \<Longrightarrow> p \<le> fst e"
  shows "takeWhile (\<lambda>e. prefix p (fst e)) xs = filter (\<lambda>e. prefix p (fst e)) xs"
  using assms
proof (induction xs)
  case Nil
  then show ?case by simp
next
  case (Cons e xs)
  have "filter (\<lambda>e. prefix p (fst e)) xs = []" if np: "\<not> prefix p (fst e)"
  proof -
    have "\<not> prefix p (fst e')" if "e' \<in> set xs" for e'
    proof
      assume "prefix p (fst e')"
      moreover from that Cons.prems(1) have "fst e \<le> fst e'" by auto
      moreover have "p \<le> fst e" using Cons.prems(2) by simp
      ultimately have "prefix p (fst e)" by (meson prefix_convex)
      with np show False ..
    qed
    then show ?thesis by (simp add: filter_empty_conv)
  qed
  with Cons show ?case by simp
qed

lemma takeWhile_prefix_desc:
  fixes p :: "'a::linorder list"
  assumes "sorted_wrt (\<ge>) (map fst xs)"
    and "\<And>e. e \<in> set xs \<Longrightarrow> fst e \<le> p @ m"
  shows "takeWhile (\<lambda>e. prefix p (fst e)) xs = filter (\<lambda>e. prefix p (fst e)) xs"
  using assms
proof (induction xs)
  case Nil
  then show ?case by simp
next
  case (Cons e xs)
  have "filter (\<lambda>e. prefix p (fst e)) xs = []" if np: "\<not> prefix p (fst e)"
  proof -
    have "\<not> prefix p (fst e')" if "e' \<in> set xs" for e'
    proof
      assume p: "prefix p (fst e')"
      from that Cons.prems have "fst e' \<le> fst e" by auto
      with p have "p \<le> fst e" using prefix_le order_trans by blast
      moreover have "fst e \<le> p @ m" using Cons.prems by simp
      ultimately have "prefix p (fst e)" by (rule prefix_convex) simp
      with np show False ..
    qed
    then show ?thesis by (simp add: filter_empty_conv)
  qed
  with Cons show ?case by simp
qed

section \<open>Codecs\<close>

text \<open>
  What the server relies on of a JSON codec it is handed as a parameter: a printed value is read
  back. Every countable type has such a codec.
\<close>

definition codec :: "('b \<Rightarrow> 'a option) \<Rightarrow> ('a \<Rightarrow> 'b) \<Rightarrow> bool" where
  "codec parse print \<longleftrightarrow> (\<forall>x. parse (print x) = Some x)"

lemma codecD: "codec parse print \<Longrightarrow> parse (print x) = Some x"
  by (simp add: codec_def)

definition unary_print :: "'a::countable \<Rightarrow> bytes" where
  "unary_print x = replicate (to_nat x) 48"

definition unary_parse :: "bytes \<Rightarrow> 'a::countable option" where
  "unary_parse b = Some (from_nat (length b))"

lemma unary_codec: "codec unary_parse unary_print"
  by (simp add: codec_def unary_parse_def unary_print_def)

end
