(* ===== verification/Utils.thy ===== *)
theory Utils
  imports Prelude
begin

text \<open>
  The helpers of \<^verbatim>\<open>src/utils/mod.rs\<close> and the error type of \<^verbatim>\<open>src/utils/error.rs\<close>:
  big-endian counters, UTF-8 validation, the sorted intersection \<open>common_elements\<close>, state
  hashes and the mapping of errors to responses. Arithmetic on \<open>u64\<close> wraps, as in the release
  profile the server is built with. The digest of \<open>ring\<close> and the \<open>Display\<close> text
  of ruma's \<open>ErrorKind\<close> are parameters.
\<close>

section \<open>Errors\<close>

datatype ErrorKind =
    Forbidden | GuestAccessForbidden | ThreepidAuthFailed | ThreepidDenied
  | Unauthorized | UnknownToken bool | MissingToken
  | NotFound | Unrecognized | LimitExceeded | UserDeactivated | TooLarge
  | InvalidParam | Unknown | OtherKind string

datatype AuthType = AuthPassword | AuthDummy | AuthOther string

record UiaaInfo =
  flows :: "AuthType list list"
  completed :: "AuthType list"
  session :: "bytes option"
  auth_error :: "(ErrorKind \<times> string) option"

datatype error =
    ImageError
  | ReqwestError string
  | IoError string
  | FederationError servername nat string
  | BadServerResponse string
  | BadConfig string
  | BadDatabase string
  | Uiaa UiaaInfo
  | BadRequest ErrorKind string
  | Conflict string
  | Panic string \<comment> \<open>an \<open>unwrap\<close>, \<open>expect\<close>, \<open>assert!\<close> or slice index that fails\<close>

type_synonym 'a res = "error + 'a"

datatype response =
    AuthResponse UiaaInfo
  | MatrixError ErrorKind string nat

definition status_of_kind :: "ErrorKind \<Rightarrow> nat" where
  "status_of_kind k = (case k of
       Forbidden \<Rightarrow> 403 | GuestAccessForbidden \<Rightarrow> 403 | ThreepidAuthFailed \<Rightarrow> 403 | ThreepidDenied \<Rightarrow> 403
     | Unauthorized \<Rightarrow> 401 | UnknownToken _ \<Rightarrow> 401 | MissingToken \<Rightarrow> 401
     | NotFound \<Rightarrow> 404 | Unrecognized \<Rightarrow> 404
     | LimitExceeded \<Rightarrow> 429
     | UserDeactivated \<Rightarrow> 403
     | TooLarge \<Rightarrow> 413
     | _ \<Rightarrow> 400)"

definition error_display :: "(ErrorKind \<Rightarrow> string) \<Rightarrow> error \<Rightarrow> string" where
  "error_display disp e = (case e of
       ImageError \<Rightarrow> ''Could not generate an image.''
     | ReqwestError source \<Rightarrow> ''Could not connect to server: '' @ source
     | IoError source \<Rightarrow> ''Could not do this io: '' @ source
     | FederationError origin status m \<Rightarrow> m
     | BadServerResponse m \<Rightarrow> m
     | BadConfig m \<Rightarrow> m
     | BadDatabase m \<Rightarrow> m
     | Uiaa _ \<Rightarrow> ''uiaa''
     | BadRequest k m \<Rightarrow> disp k @ '': '' @ m
     | Conflict m \<Rightarrow> m
     | Panic m \<Rightarrow> m)"

definition to_response :: "(ErrorKind \<Rightarrow> string) \<Rightarrow> (servername \<Rightarrow> string) \<Rightarrow> error \<Rightarrow> response" where
  "to_response disp show_name e = (case e of
       Uiaa info \<Rightarrow> AuthResponse info
     | FederationError origin status m \<Rightarrow>
         MatrixError Unknown (''Answer from '' @ show_name origin @ '': '' @ m) status
     | BadRequest k _ \<Rightarrow> MatrixError k (error_display disp e) (status_of_kind k)
     | Conflict _ \<Rightarrow> MatrixError Unknown (error_display disp e) 409
     | _ \<Rightarrow> MatrixError Unknown (error_display disp e) 500)"

section \<open>Big-endian counters\<close>

definition to_be_bytes :: "u64 \<Rightarrow> bytes" where
  "to_be_bytes n = map (\<lambda>i. ucast (drop_bit (8 * i) n)) [7, 6, 5, 4, 3, 2, 1, 0]"

definition from_be_bytes :: "bytes \<Rightarrow> u64" where
  "from_be_bytes bs = foldl (\<lambda>acc b. acc * 256 + ucast b) 0 bs"

definition u64_from_bytes :: "bytes \<Rightarrow> unit + u64" where
  "u64_from_bytes bs = (if length bs = 8 then Inr (from_be_bytes bs) else Inl ())"

definition increment :: "bytes option \<Rightarrow> bytes option" where
  "increment old =
     (let number = (case map_option u64_from_bytes old of
                      Some (Inr n) \<Rightarrow> n + 1
                    | _ \<Rightarrow> 1)
      in Some (to_be_bytes number))"

text \<open>The value of a byte string read as a base-256 numeral.\<close>

definition be_val :: "bytes \<Rightarrow> nat" where
  "be_val bs = foldl (\<lambda>acc b. acc * 256 + unat b) 0 bs"

fun be_digits :: "nat \<Rightarrow> u64 \<Rightarrow> bytes" where
  "be_digits 0 n = []"
| "be_digits (Suc k) n = be_digits k (drop_bit 8 n) @ [ucast n]"

lemma to_be_bytes_digits: "to_be_bytes n = be_digits 8 n"
  by (simp add: to_be_bytes_def eval_nat_numeral)

lemma length_be_digits [simp]: "length (be_digits k n) = k"
  by (induction k arbitrary: n) auto

lemma length_to_be_bytes [simp]: "length (to_be_bytes n) = 8"
  by (simp add: to_be_bytes_def)

lemma be_val_snoc: "be_val (bs @ [b]) = be_val bs * 256 + unat b"
  by (simp add: be_val_def)

lemma be_val_Nil [simp]: "be_val [] = 0"
  by (simp add: be_val_def)

lemma be_val_Cons: "be_val (b # bs) = unat b * 256 ^ length bs + be_val bs"
proof (induction bs rule: rev_induct)
  case Nil
  then show ?case by (simp add: be_val_def)
next
  case (snoc c bs)
  then show ?case
    by (simp add: be_val_snoc append_Cons [symmetric] del: append_Cons)
qed

lemma be_val_bound: "be_val bs < 256 ^ length bs"
proof (induction bs)
  case Nil
  then show ?case by simp
next
  case (Cons b bs)
  have "unat b < 256" using unsigned_less [of b, where ?'a = nat] by simp
  then have "unat b \<le> 255" by simp
  then have "unat b * 256 ^ length bs \<le> 255 * 256 ^ length bs" by (rule mult_le_mono1)
  with Cons.IH show ?case
    unfolding be_val_Cons length_Cons power_Suc by linarith
qed

lemma be_val_less_iff:
  assumes "length bs = length cs"
  shows "bs < cs \<longleftrightarrow> be_val bs < be_val cs"
  using assms
proof (induction bs cs rule: list_induct2)
  case Nil
  then show ?case by simp
next
  case (Cons b bs c cs)
  let ?w = "256 ^ length cs :: nat"
  have bd: "be_val bs < ?w" "be_val cs < ?w"
    using be_val_bound [of bs] be_val_bound [of cs] Cons.hyps by simp_all
  have lt: "x * ?w + p < y * ?w + q" if "x < y" "p < ?w" for x y p q :: nat
  proof -
    from that have "Suc x * ?w \<le> y * ?w" by (intro mult_le_mono1) simp
    with that show ?thesis by simp
  qed
  consider "b < c" | "b = c" | "c < b" by (rule linorder_cases)
  then show ?case
  proof cases
    case 1
    then have "unat b < unat c" by (simp add: word_less_nat_alt)
    with 1 bd Cons.hyps show ?thesis by (simp add: be_val_Cons lt)
  next
    case 2
    with Cons show ?thesis by (simp add: be_val_Cons)
  next
    case 3
    then have "unat c < unat b" by (simp add: word_less_nat_alt)
    with 3 bd Cons.hyps show ?thesis
      using lt [of "unat c" "unat b" "be_val cs" "be_val bs"] by (auto simp: be_val_Cons)
  qed
qed

lemma be_val_inject:
  assumes "length bs = length cs"
  shows "be_val bs = be_val cs \<longleftrightarrow> bs = cs"
proof
  assume eq: "be_val bs = be_val cs"
  then have "\<not> bs < cs" "\<not> cs < bs"
    using assms be_val_less_iff [of bs cs] be_val_less_iff [of cs bs] by simp_all
  then show "bs = cs" by simp
qed simp

lemma be_val_digits: "be_val (be_digits k n) = unat n mod 256 ^ k"
proof (induction k arbitrary: n)
  case 0
  then show ?case by simp
next
  case (Suc k)
  have "unat (drop_bit 8 n) = unat n div 256"
    by (simp add: drop_bit_eq_div unat_div)
  moreover have "unat (ucast n :: byte) = unat n mod 256"
    by (simp add: unsigned_ucast_eq take_bit_eq_mod)
  ultimately show ?case
    by (simp add: Suc.IH be_val_snoc mod_mult2_eq)
qed

lemma be_val_to_be_bytes [simp]: "be_val (to_be_bytes n) = unat n"
  using unsigned_less [of n, where ?'a = nat] by (simp add: to_be_bytes_digits be_val_digits)

lemma from_be_bytes_val: "from_be_bytes bs = of_nat (be_val bs)"
proof (induction bs rule: rev_induct)
  case Nil
  then show ?case by (simp add: from_be_bytes_def)
next
  case (snoc b bs)
  then show ?case by (simp add: be_val_snoc from_be_bytes_def)
qed

lemma u64_from_to_be_bytes [simp]: "u64_from_bytes (to_be_bytes n) = Inr n"
  by (simp add: u64_from_bytes_def from_be_bytes_val)

lemma from_to_be_bytes: "from_be_bytes (to_be_bytes n) = n"
  using u64_from_to_be_bytes [of n] by (simp add: u64_from_bytes_def length_to_be_bytes)

lemma to_from_be_bytes:
  assumes "u64_from_bytes bs = Inr n"
  shows "to_be_bytes n = bs"
proof -
  from assms have len: "length bs = 8" and n: "n = of_nat (be_val bs)"
    by (auto simp: u64_from_bytes_def from_be_bytes_val split: if_splits)
  have "be_val bs < 2 ^ 64" using be_val_bound [of bs] len by simp
  then have "unat n = be_val bs" by (simp add: n unat_of_nat)
  then have "be_val (to_be_bytes n) = be_val bs" by simp
  then show ?thesis using be_val_inject [of "to_be_bytes n" bs] len by simp
qed

lemma to_be_bytes_less_iff [simp]: "to_be_bytes a < to_be_bytes b \<longleftrightarrow> a < b"
  by (simp add: be_val_less_iff word_less_nat_alt)

lemma to_be_bytes_inject [simp]: "to_be_bytes a = to_be_bytes b \<longleftrightarrow> a = b"
  by (metis be_val_to_be_bytes unsigned_word_eqI)

lemma to_be_bytes_le_iff [simp]: "to_be_bytes a \<le> to_be_bytes b \<longleftrightarrow> a \<le> b"
  by (simp add: order.order_iff_strict)

lemma to_be_bytes_nonempty [simp]: "to_be_bytes n \<noteq> []"
  by (simp add: to_be_bytes_def)

lemma append_to_be_bytes_inject [simp]:
  "to_be_bytes a @ x = to_be_bytes b @ y \<longleftrightarrow> a = b \<and> x = y"
  by simp

text \<open>Counters as key suffixes: order and equality of whole keys.\<close>

lemma counter_key_less [simp]:
  "to_be_bytes a @ x < to_be_bytes b @ y \<longleftrightarrow> a < b \<or> a = b \<and> x < y"
  by (simp add: append_less_same_length)

lemma counter_key_le [simp]:
  "to_be_bytes a @ x \<le> to_be_bytes b @ y \<longleftrightarrow> a < b \<or> a = b \<and> x \<le> y"
  by (simp add: append_le_same_length)

section \<open>Strings\<close>

text \<open>\<^verbatim>\<open>String::from_utf8\<close>: well-formed UTF-8 (no overlong forms, no surrogates, at most U+10FFFF).\<close>

definition utf8_cont :: "byte \<Rightarrow> bool" where
  "utf8_cont b \<longleftrightarrow> 0x80 \<le> b \<and> b \<le> 0xBF"

fun utf8_valid :: "bytes \<Rightarrow> bool" where
  "utf8_valid [] = True"
| "utf8_valid (b # bs) =
     (if b \<le> 0x7F then utf8_valid bs
      else if 0xC2 \<le> b \<and> b \<le> 0xDF then
        (case bs of c # r \<Rightarrow> utf8_cont c \<and> utf8_valid r | _ \<Rightarrow> False)
      else if 0xE0 \<le> b \<and> b \<le> 0xEF then
        (case bs of c # d # r \<Rightarrow>
            utf8_cont c \<and> (b = 0xE0 \<longrightarrow> 0xA0 \<le> c) \<and> (b = 0xED \<longrightarrow> c \<le> 0x9F) \<and>
            utf8_cont d \<and> utf8_valid r
         | _ \<Rightarrow> False)
      else if 0xF0 \<le> b \<and> b \<le> 0xF4 then
        (case bs of c # d # e # r \<Rightarrow>
            utf8_cont c \<and> (b = 0xF0 \<longrightarrow> 0x90 \<le> c) \<and> (b = 0xF4 \<longrightarrow> c \<le> 0x8F) \<and>
            utf8_cont d \<and> utf8_cont e \<and> utf8_valid r
         | _ \<Rightarrow> False)
      else False)"

definition string_from_bytes :: "bytes \<Rightarrow> unit + bytes" where
  "string_from_bytes bs = (if utf8_valid bs then Inr bs else Inl ())"

lemma utf8_cont_small: "utf8_cont c \<Longrightarrow> c \<noteq> sep"
  by (auto simp: utf8_cont_def sep_def)

text \<open>No string contains the separator byte: the reason why \<open>0xff\<close> separates key parts.\<close>

lemma utf8_no_sep: "utf8_valid bs \<Longrightarrow> sep \<notin> set bs"
proof (induction bs rule: utf8_valid.induct)
  case 1
  then show ?case by simp
next
  case (2 b bs)
  from "2.prems" have b: "b \<noteq> sep"
    by (auto simp: sep_def split: if_splits)
  consider (ascii) "b \<le> 0x7F" | (two) "\<not> b \<le> 0x7F" "0xC2 \<le> b \<and> b \<le> 0xDF"
    | (three) "\<not> b \<le> 0x7F" "\<not> (0xC2 \<le> b \<and> b \<le> 0xDF)" "0xE0 \<le> b \<and> b \<le> 0xEF"
    | (four) "\<not> b \<le> 0x7F" "\<not> (0xC2 \<le> b \<and> b \<le> 0xDF)" "\<not> (0xE0 \<le> b \<and> b \<le> 0xEF)"
        "0xF0 \<le> b \<and> b \<le> 0xF4"
    using "2.prems" by (auto split: if_splits)
  then show ?case
  proof cases
    case ascii
    with 2 b show ?thesis by simp
  next
    case two
    with "2.prems" obtain c r where "bs = c # r" "utf8_cont c" "utf8_valid r"
      by (auto split: list.splits)
    with two b "2.IH"(2) show ?thesis by (auto dest: utf8_cont_small)
  next
    case three
    with "2.prems" obtain c d r where "bs = c # d # r" "utf8_cont c" "utf8_cont d" "utf8_valid r"
      by (auto split: list.splits)
    with three b "2.IH"(3) show ?thesis by (auto dest: utf8_cont_small)
  next
    case four
    with "2.prems" obtain c d e r
      where "bs = c # d # e # r" "utf8_cont c" "utf8_cont d" "utf8_cont e" "utf8_valid r"
      by (auto split: list.splits)
    with four b "2.IH"(4) show ?thesis by (auto dest: utf8_cont_small)
  qed
qed

lemma string_from_bytes_valid [simp]: "utf8_valid bs \<Longrightarrow> string_from_bytes bs = Inr bs"
  by (simp add: string_from_bytes_def)

lemma utf8_valid_ascii: "list_all (\<lambda>c. (of_char c :: nat) < 128) s \<Longrightarrow> utf8_valid (ascii s)"
proof (induction s)
  case (Cons c s)
  then have c: "(of_char c :: nat) \<le> 127" by simp
  have "unat (of_nat (of_char c) :: byte) = of_char c" by (simp add: unat_of_nat)
  then have "unat (of_char c :: byte) = of_char c" by (simp only: of_nat_of_char)
  with c have "(of_char c :: byte) \<le> 0x7F" by (simp add: word_le_nat_alt)
  with Cons show ?case by (simp add: ascii_simps)
qed (simp add: ascii_simps)

section \<open>The intersection of sorted iterators\<close>

datatype Ordering = Less | Equal | Greater

text \<open>
  The inner loop over one peekable iterator (what is left of it is returned with the verdict),
  \<^verbatim>\<open>other_iterators.iter_mut().all(..)\<close>, which stops at the first iterator without the
  target, and the filter over the first iterator, which threads the others through.
\<close>

fun seek :: "('a \<Rightarrow> 'a \<Rightarrow> Ordering) \<Rightarrow> 'a \<Rightarrow> 'a list \<Rightarrow> bool \<times> 'a list" where
  "seek check_order target [] = (False, [])"
| "seek check_order target (element # it) =
     (case check_order element target of
        Greater \<Rightarrow> (False, element # it)
      | Equal \<Rightarrow> (True, element # it)
      | Less \<Rightarrow> seek check_order target it)"

fun seek_all :: "('a \<Rightarrow> 'a \<Rightarrow> Ordering) \<Rightarrow> 'a \<Rightarrow> 'a list list \<Rightarrow> bool \<times> 'a list list" where
  "seek_all check_order target [] = (True, [])"
| "seek_all check_order target (it # its) =
     (case seek check_order target it of
        (False, it') \<Rightarrow> (False, it' # its)
      | (True, it') \<Rightarrow>
          (case seek_all check_order target its of (b, its') \<Rightarrow> (b, it' # its')))"

fun common_filter :: "('a \<Rightarrow> 'a \<Rightarrow> Ordering) \<Rightarrow> 'a list \<Rightarrow> 'a list list \<Rightarrow> 'a list" where
  "common_filter check_order [] others = []"
| "common_filter check_order (target # ts) others =
     (case seek_all check_order target others of
        (b, others') \<Rightarrow>
          (if b then target # common_filter check_order ts others'
           else common_filter check_order ts others'))"

definition common_elements ::
    "'a list list \<Rightarrow> ('a \<Rightarrow> 'a \<Rightarrow> Ordering) \<Rightarrow> 'a list option" where
  "common_elements iterators check_order =
     (case iterators of
        [] \<Rightarrow> None
      | first_iterator # other_iterators \<Rightarrow>
          Some (common_filter check_order first_iterator other_iterators))"

text \<open>What \<open>common_elements\<close> asks of its comparison: the three outcomes of a strict linear order.\<close>

locale comparison =
  fixes check_order :: "'a \<Rightarrow> 'a \<Rightarrow> Ordering"
    and before :: "'a \<Rightarrow> 'a \<Rightarrow> bool"
  assumes cmp_Less: "check_order a b = Less \<longleftrightarrow> before a b"
    and cmp_Equal: "check_order a b = Equal \<longleftrightarrow> a = b"
    and cmp_Greater: "check_order a b = Greater \<longleftrightarrow> before b a"
    and before_trans: "before a b \<Longrightarrow> before b c \<Longrightarrow> before a c"
begin

definition in_order :: "'a list \<Rightarrow> bool" where
  "in_order = sorted_wrt (\<lambda>a b. a = b \<or> before a b)"

lemma not_before_self: "\<not> before a a"
  using cmp_Less [of a a] cmp_Equal [of a a] by auto

lemma in_order_Cons: "in_order (a # as) \<longleftrightarrow> (\<forall>b \<in> set as. a = b \<or> before a b) \<and> in_order as"
  by (simp add: in_order_def)

lemma in_order_dropWhile: "in_order as \<Longrightarrow> in_order (dropWhile P as)"
  by (induction as) (auto simp: in_order_Cons)

lemma seek_spec:
  "in_order it \<Longrightarrow> seek check_order t it = (t \<in> set it, dropWhile (\<lambda>e. before e t) it)"
proof (induction it)
  case Nil
  then show ?case by simp
next
  case (Cons e it)
  then show ?case
    using cmp_Less [of e t] cmp_Equal [of e t] cmp_Greater [of e t]
      not_before_self before_trans
    by (cases "check_order e t") (auto simp: in_order_Cons)
qed

definition advanced :: "'a \<Rightarrow> 'a list \<Rightarrow> 'a list \<Rightarrow> bool" where
  "advanced t it it' \<longleftrightarrow> it' = it \<or> it' = dropWhile (\<lambda>e. before e t) it"

lemma seek_all_spec:
  assumes "\<forall>it \<in> set its. in_order it"
  shows "fst (seek_all check_order t its) = (\<forall>it \<in> set its. t \<in> set it)"
    and "list_all2 (advanced t) its (snd (seek_all check_order t its))"
  using assms
  by (induction its)
     (auto simp: seek_spec advanced_def list_all2_refl split: prod.splits bool.splits)

lemma advanced_in_order: "advanced t it it' \<Longrightarrow> in_order it \<Longrightarrow> in_order it'"
  by (auto simp: advanced_def in_order_dropWhile)

lemma advanced_member:
  assumes "advanced t it it'" and "t = u \<or> before t u"
  shows "u \<in> set it' \<longleftrightarrow> u \<in> set it"
proof -
  have "u \<in> set (dropWhile (\<lambda>e. before e t) it) \<longleftrightarrow> u \<in> set it"
    using assms(2) not_before_self before_trans by (induction it) auto
  with assms(1) show ?thesis by (auto simp: advanced_def)
qed

lemma advanced_all_member:
  assumes "list_all2 (advanced t) its its'" and "t = u \<or> before t u"
  shows "(\<forall>it \<in> set its'. u \<in> set it) \<longleftrightarrow> (\<forall>it \<in> set its. u \<in> set it)"
  using assms by (induction rule: list_all2_induct) (auto simp: advanced_member)

lemma advanced_all_in_order:
  assumes "list_all2 (advanced t) its its'" and "\<forall>it \<in> set its. in_order it"
  shows "\<forall>it \<in> set its'. in_order it"
  using assms by (induction rule: list_all2_induct) (auto intro: advanced_in_order)

lemma common_filter_spec:
  assumes "in_order first" and "\<forall>it \<in> set others. in_order it"
  shows "common_filter check_order first others = filter (\<lambda>t. \<forall>it \<in> set others. t \<in> set it) first"
  using assms
proof (induction first arbitrary: others)
  case Nil
  then show ?case by simp
next
  case (Cons t ts)
  obtain b others' where sa: "seek_all check_order t others = (b, others')"
    by (cases "seek_all check_order t others")
  with seek_all_spec [OF Cons.prems(2), of t]
  have b: "b = (\<forall>it \<in> set others. t \<in> set it)" and adv: "list_all2 (advanced t) others others'"
    by simp_all
  have "common_filter check_order ts others' = filter (\<lambda>u. \<forall>it \<in> set others'. u \<in> set it) ts"
    using Cons.prems advanced_all_in_order [OF adv] by (intro Cons.IH) (auto simp: in_order_Cons)
  also have "\<dots> = filter (\<lambda>u. \<forall>it \<in> set others. u \<in> set it) ts"
    using Cons.prems(1) by (intro filter_cong refl advanced_all_member [OF adv]) (auto simp: in_order_Cons)
  finally show ?case using sa b by simp
qed

end

text \<open>\<^verbatim>\<open>Ord::cmp\<close> on byte strings, and the flipped comparison the search uses on descending scans.\<close>

definition bytes_cmp :: "bytes \<Rightarrow> bytes \<Rightarrow> Ordering" where
  "bytes_cmp a b = (if a < b then Less else if a = b then Equal else Greater)"

interpretation asc: comparison bytes_cmp "(<)"
  by unfold_locales (auto simp: bytes_cmp_def)

interpretation desc: comparison "\<lambda>a b. bytes_cmp b a" "(>)"
  by unfold_locales (auto simp: bytes_cmp_def)

section \<open>Hashes\<close>

text \<open>\<^verbatim>\<open>keys.join(&0xff)\<close>\<close>

fun join_sep :: "bytes list \<Rightarrow> bytes" where
  "join_sep [] = []"
| "join_sep [k] = k"
| "join_sep (k # ks) = k @ sep # join_sep ks"

definition calculate_hash :: "(bytes \<Rightarrow> bytes) \<Rightarrow> bytes list \<Rightarrow> bytes" where
  "calculate_hash sha256 keys = sha256 (join_sep keys)"

section \<open>Properties\<close>

text \<open>An eight-byte big-endian key decodes to the count it encodes, and the byte order of
  such keys is the numeric order of the counts.\<close>
theorem u64_keys:
  "u64_from_bytes (to_be_bytes n) = Inr n \<and> length (to_be_bytes n) = 8 \<and>
   (to_be_bytes m < to_be_bytes n \<longleftrightarrow> m < n)"
  by (simp add: length_to_be_bytes)

text \<open>On iterators that all ascend, or that all descend with the flipped comparison,
  \<open>common_elements\<close> keeps exactly the elements of the first iterator that occur in every other.\<close>
theorem common_elements_intersection:
  assumes "if descending then \<forall>it \<in> set (first # others). sorted_wrt (\<ge>) it
           else \<forall>it \<in> set (first # others). sorted it"
  shows "common_elements (first # others) (if descending then \<lambda>a b. bytes_cmp b a else bytes_cmp) =
         Some (filter (\<lambda>t. \<forall>it \<in> set others. t \<in> set it) first)"
proof (cases descending)
  case True
  have eq: "(\<lambda>a b. a = b \<or> a > b) = ((\<ge>) :: bytes \<Rightarrow> bytes \<Rightarrow> bool)"
    by (intro ext) (auto simp: le_less)
  from True assms show ?thesis
    using desc.common_filter_spec [of first others]
    by (simp add: common_elements_def desc.in_order_def eq)
next
  case False
  have eq: "(\<lambda>a b. a = b \<or> a < b) = ((\<le>) :: bytes \<Rightarrow> bytes \<Rightarrow> bool)"
    by (intro ext) (auto simp: le_less)
  from False assms show ?thesis
    using asc.common_filter_spec [of first others]
    by (simp add: common_elements_def asc.in_order_def eq)
qed

theorem common_elements_intersection_witness:
  "common_elements [[[1], [2], [5]], [[2], [4], [5], [6]], [[0], [2], [3], [5]]] bytes_cmp = Some [[2], [5]] \<and>
   common_elements [[[5], [2], [1]], [[6], [2]]] (\<lambda>a b. bytes_cmp b a) = Some [[2 :: 8 word]]"
  using common_elements_intersection [of False "[[1], [2], [5]]" "[[[2], [4], [5], [6]], [[0], [2], [3], [5]]]"]
    common_elements_intersection [of True "[[5], [2], [1]]" "[[[6], [2]]]"]
  by simp

end
