(* ===== verification/Json.thy ===== *)
theory Json
  imports Utils
begin

text \<open>
  JSON values as \<^verbatim>\<open>serde_json\<close> has them: an object is a map with ascending keys. The text
  form is left to the codec a component is handed; raw JSON (\<^verbatim>\<open>RawJsonValue\<close>) is
  identified with the value it denotes.
\<close>

datatype json =
    JNull
  | JBool bool
  | JInt int
  | JFloat bytes
  | JStr bytes
  | JArr "json list"
  | JObj "(bytes \<times> json) list"

instance json :: countable
  by countable_datatype

type_synonym jobj = "(bytes \<times> json) list"

text \<open>\<^verbatim>\<open>Map::get\<close>, \<^verbatim>\<open>Map::insert\<close> and \<^verbatim>\<open>Map::remove\<close>\<close>

abbreviation obj_get :: "jobj \<Rightarrow> bytes \<Rightarrow> json option" where
  "obj_get ob k \<equiv> map_of ob k"

fun obj_insert :: "bytes \<Rightarrow> json \<Rightarrow> jobj \<Rightarrow> jobj" where
  "obj_insert k v [] = [(k, v)]"
| "obj_insert k v ((k', v') # ob) =
     (if k < k' then (k, v) # (k', v') # ob
      else if k = k' then (k, v) # ob
      else (k', v') # obj_insert k v ob)"

definition obj_remove :: "bytes \<Rightarrow> jobj \<Rightarrow> jobj" where
  "obj_remove k ob = filter (\<lambda>e. fst e \<noteq> k) ob"

text \<open>\<^verbatim>\<open>json!({ .. })\<close>\<close>

definition obj_of :: "(bytes \<times> json) list \<Rightarrow> jobj" where
  "obj_of es = fold (\<lambda>(k, v). obj_insert k v) es []"

definition as_object :: "json \<Rightarrow> jobj option" where
  "as_object j = (case j of JObj ob \<Rightarrow> Some ob | _ \<Rightarrow> None)"

definition as_string :: "json \<Rightarrow> bytes option" where
  "as_string j = (case j of JStr s \<Rightarrow> Some s | _ \<Rightarrow> None)"

lemma as_object_JObj [simp]: "as_object (JObj ob) = Some ob"
  by (simp add: as_object_def)

lemma as_object_Some: "as_object j = Some ob \<longleftrightarrow> j = JObj ob"
  by (cases j) (auto simp: as_object_def)

lemma as_string_JStr [simp]: "as_string (JStr s) = Some s"
  by (simp add: as_string_def)

lemma obj_get_insert [simp]: "obj_get (obj_insert k v ob) k' = (if k' = k then Some v else obj_get ob k')"
  by (induction ob) auto

lemma obj_get_remove [simp]: "obj_get (obj_remove k ob) k' = (if k' = k then None else obj_get ob k')"
  by (induction ob) (auto simp: obj_remove_def)

lemma obj_get_of: "obj_get (obj_of es) k = map_of (rev es) k"
proof -
  have "map_of (fold (\<lambda>(k, v). obj_insert k v) es ob) k =
      (case map_of (rev es) k of Some v \<Rightarrow> Some v | None \<Rightarrow> map_of ob k)" for ob
    by (induction es arbitrary: ob) (auto simp: map_add_def split: option.splits)
  from this [of "[]"] show ?thesis by (simp add: obj_of_def split: option.split)
qed

text \<open>Objects keep their keys ascending, so an object is determined by its entries.\<close>

abbreviation obj_ok :: "jobj \<Rightarrow> bool" where
  "obj_ok ob \<equiv> sorted_wrt (<) (map fst ob)"

lemma fst_obj_insert: "fst ` set (obj_insert k v ob) = insert k (fst ` set ob)"
proof (induction ob)
  case (Cons e ob)
  then show ?case by (cases e) (simp add: insert_commute)
qed simp

lemma obj_ok_insert: "obj_ok ob \<Longrightarrow> obj_ok (obj_insert k v ob)"
proof (induction ob)
  case (Cons e ob)
  obtain k' v' where [simp]: "e = (k', v')" by (cases e)
  have below: "\<forall>x \<in> fst ` set ob. k' < x" and ob: "obj_ok ob" using Cons.prems by auto
  show ?case
  proof (cases k k' rule: linorder_cases)
    case less
    with below ob show ?thesis by (auto intro: less_trans)
  next
    case equal
    with below ob show ?thesis by auto
  next
    case greater
    then have "\<forall>x \<in> fst ` set (obj_insert k v ob). k' < x" using below by (simp add: fst_obj_insert)
    with greater Cons.IH [OF ob] show ?thesis by auto
  qed
qed simp

lemma obj_ok_of: "obj_ok (obj_of es)"
proof -
  have "obj_ok ob \<Longrightarrow> obj_ok (fold (\<lambda>(k, v). obj_insert k v) es ob)" for ob
    by (induction es arbitrary: ob) (auto simp: obj_ok_insert)
  then show ?thesis by (simp add: obj_of_def)
qed

lemma obj_ok_remove: "obj_ok ob \<Longrightarrow> obj_ok (obj_remove k ob)"
  by (simp add: obj_remove_def sorted_wrt_map sorted_wrt_filter)

lemma obj_ext:
  assumes "obj_ok ob" and "obj_ok ob'" and "\<And>k. obj_get ob k = obj_get ob' k"
  shows "ob = ob'"
proof -
  have d: "distinct (map fst ob)" "distinct (map fst ob')"
    using assms(1,2) by (simp_all add: strict_sorted_iff)
  have "set ob = set ob'"
  proof -
    have "e \<in> set ob \<longleftrightarrow> e \<in> set ob'" for e
      using assms(3) [of "fst e"] map_of_eq_Some_iff [OF d(1), of "fst e" "snd e"]
        map_of_eq_Some_iff [OF d(2), of "fst e" "snd e"]
      by simp
    then show ?thesis by blast
  qed
  have keys: "map fst ob = map fst ob'"
    using strict_sorted_equal [OF assms(1,2)] \<open>set ob = set ob'\<close> by simp
  have rebuild: "u = map (\<lambda>k. (k, the (obj_get u k))) (map fst u)" if "distinct (map fst u)" for u
  proof -
    have "map (\<lambda>e. (fst e, the (obj_get u (fst e)))) u = u"
      by (rule map_idI) (use that in \<open>auto simp: map_of_eq_Some_iff\<close>)
    then show ?thesis by (simp add: comp_def)
  qed
  show ?thesis
    using rebuild [OF d(1)] rebuild [OF d(2)] keys assms(3) by simp
qed

section \<open>Text\<close>

text \<open>
  A well-formed value has ascending keys in every object and valid UTF-8 in every string. What is
  relied on of \<^verbatim>\<open>serde_json\<close>'s text form is that such a value is read back.
\<close>

fun json_ok :: "json \<Rightarrow> bool" where
  "json_ok JNull = True"
| "json_ok (JBool b) = True"
| "json_ok (JInt i) = True"
| "json_ok (JFloat t) = True"
| "json_ok (JStr s) = utf8_valid s"
| "json_ok (JArr js) = (\<forall>j \<in> set js. json_ok j)"
| "json_ok (JObj ob) = (obj_ok ob \<and> (\<forall>e \<in> set ob. utf8_valid (fst e) \<and> json_ok (snd e)))"

record serde =
  json_parse :: "bytes \<Rightarrow> json option"
  json_print :: "json \<Rightarrow> bytes"

definition serde_ok :: "serde \<Rightarrow> bool" where
  "serde_ok J \<longleftrightarrow> (\<forall>j. json_ok j \<longrightarrow> json_parse J (json_print J j) = Some j)"

lemma serde_okD: "serde_ok J \<Longrightarrow> json_ok j \<Longrightarrow> json_parse J (json_print J j) = Some j"
  by (simp add: serde_ok_def)

definition example_serde :: serde where
  "example_serde = \<lparr>json_parse = unary_parse, json_print = unary_print\<rparr>"

lemma example_serde_ok: "serde_ok example_serde"
  using unary_codec by (auto simp: serde_ok_def example_serde_def codec_def)

lemma set_obj_insert: "set (obj_insert k v ob) \<subseteq> insert (k, v) (set ob)"
  by (induction k v ob rule: obj_insert.induct) auto

lemma set_obj_of: "set (obj_of es) \<subseteq> set es"
proof -
  have "set (fold (\<lambda>(k, v). obj_insert k v) es ob) \<subseteq> set es \<union> set ob" for ob
  proof (induction es arbitrary: ob)
    case (Cons e es)
    obtain k v where [simp]: "e = (k, v)" by (cases e)
    from Cons [of "obj_insert k v ob"] set_obj_insert [of k v ob] show ?case by auto
  qed simp
  from this [of "[]"] show ?thesis by (simp add: obj_of_def)
qed

lemma json_ok_obj_of:
  "\<forall>e \<in> set es. utf8_valid (fst e) \<and> json_ok (snd e) \<Longrightarrow> json_ok (JObj (obj_of es))"
  using set_obj_of [of es] by (auto simp: obj_ok_of)

end
