(* ===== verification/KvTree.thy ===== *)
theory KvTree
  imports Utils
begin

text \<open>
  The storage interface of \<^verbatim>\<open>src/database/abstraction.rs\<close> (trait \<open>KvTree\<close>) with the
  wrapper of \<^verbatim>\<open>src/database/abstraction/rocksdb.rs\<close> and the change notification of
  \<^verbatim>\<open>src/database/abstraction/watchers.rs\<close>. A tree (one column family, or one table in
  \<^verbatim>\<open>sqlite.rs\<close>) is what the engine keeps of it: a finite map from byte strings to byte
  strings that is iterated in the lexicographic order of its keys; it is represented by its
  strictly ascending list of entries. I/O failures of the engine are not modelled: a read or a write of a tree
  succeeds. The locale \<open>kv_store\<close> states what the stores rely on; every store lemma about scans
  is proved from these laws.
\<close>

section \<open>Ordered finite maps\<close>

typedef kvmap = "{es :: (bytes \<times> bytes) list. sorted_wrt (<) (map fst es)}"
  morphisms entries Kvmap
  by (rule exI [of _ "[]"]) simp

setup_lifting type_definition_kvmap

definition put_entry :: "bytes \<Rightarrow> bytes \<Rightarrow> (bytes \<times> bytes) list \<Rightarrow> (bytes \<times> bytes) list" where
  "put_entry k v es = takeWhile (\<lambda>e. fst e < k) es @ (k, v) # dropWhile (\<lambda>e. fst e \<le> k) es"

definition del_entry :: "bytes \<Rightarrow> (bytes \<times> bytes) list \<Rightarrow> (bytes \<times> bytes) list" where
  "del_entry k es = filter (\<lambda>e. fst e \<noteq> k) es"

lemma takeWhile_ascending:
  fixes es :: "('a::linorder \<times> 'b) list"
  shows "sorted_wrt (<) (map fst es) \<Longrightarrow> takeWhile (\<lambda>e. fst e < k) es = filter (\<lambda>e. fst e < k) es"
proof (induction es)
  case Nil
  then show ?case by simp
next
  case (Cons e es)
  have "\<not> fst x < k" if "\<not> fst e < k" "x \<in> set es" for x
  proof -
    from Cons.prems that have "fst e < fst x" by simp
    with that show ?thesis by (meson less_trans)
  qed
  then have "filter (\<lambda>e. fst e < k) es = []" if "\<not> fst e < k"
    using that by (simp add: filter_empty_conv)
  with Cons show ?case by simp
qed

lemma dropWhile_ascending:
  fixes es :: "('a::linorder \<times> 'b) list"
  shows "sorted_wrt (<) (map fst es) \<Longrightarrow> dropWhile (\<lambda>e. fst e \<le> k) es = filter (\<lambda>e. k < fst e) es"
proof (induction es)
  case Nil
  then show ?case by simp
next
  case (Cons e es)
  have "k < fst x" if "\<not> fst e \<le> k" "x \<in> set es" for x
  proof -
    from Cons.prems that have "fst e < fst x" by simp
    with that show ?thesis by (meson less_trans not_le)
  qed
  then have "filter (\<lambda>e. k < fst e) es = es" if "\<not> fst e \<le> k"
    using that by (simp add: filter_id_conv)
  with Cons show ?case by (auto simp: not_le)
qed

lemma sorted_put_entry:
  assumes "sorted_wrt (<) (map fst es)"
  shows "sorted_wrt (<) (map fst (put_entry k v es))"
proof -
  have filt: "sorted_wrt (<) (map fst (filter P es))" for P
    using assms by (simp add: sorted_wrt_map sorted_wrt_filter)
  show ?thesis
    using filt unfolding put_entry_def takeWhile_ascending [OF assms] dropWhile_ascending [OF assms]
    by (auto simp: sorted_wrt_append)
qed

lemma sorted_del_entry:
  "sorted_wrt (<) (map fst es) \<Longrightarrow> sorted_wrt (<) (map fst (del_entry k es))"
  by (simp add: del_entry_def sorted_wrt_map sorted_wrt_filter)

lemma map_of_filter_key:
  "map_of (filter (\<lambda>e. P (fst e)) es) k = (if P k then map_of es k else None)"
  by (induction es) auto

lemma map_of_put_entry:
  assumes "sorted_wrt (<) (map fst es)"
  shows "map_of (put_entry k v es) k' = (if k' = k then Some v else map_of es k')"
  unfolding put_entry_def takeWhile_ascending [OF assms] dropWhile_ascending [OF assms]
  using map_of_filter_key [of "\<lambda>x. x < k" es k'] map_of_filter_key [of "\<lambda>x. k < x" es k']
    map_of_filter_key [of "\<lambda>x. x < k" es k]
  by (cases k' k rule: linorder_cases) (auto simp: map_add_def split: option.split if_splits)

lemma map_of_del_entry: "map_of (del_entry k es) k' = (if k' = k then None else map_of es k')"
  by (induction es) (auto simp: del_entry_def)

lift_definition kvmap_empty :: kvmap is "[]"
  by simp

lift_definition kvmap_put :: "bytes \<Rightarrow> bytes \<Rightarrow> kvmap \<Rightarrow> kvmap" is put_entry
  by (rule sorted_put_entry)

lift_definition kvmap_del :: "bytes \<Rightarrow> kvmap \<Rightarrow> kvmap" is del_entry
  by (rule sorted_del_entry)

declare kvmap_empty.rep_eq [simp] kvmap_put.rep_eq [simp] kvmap_del.rep_eq [simp]

lemma entries_sorted [simp]: "sorted_wrt (<) (map fst (entries m))"
  using entries [of m] by simp

section \<open>Watchers\<close>

text \<open>
  A watcher is the channel registered for a prefix. Waking a key removes and signals the channel
  of every prefix of the key.
\<close>

definition watchers_watch :: "bytes \<Rightarrow> bytes set \<Rightarrow> bytes set" where
  "watchers_watch prefx w = insert prefx w"

definition watchers_wake :: "bytes \<Rightarrow> bytes set \<Rightarrow> bytes set \<times> bytes list" where
  "watchers_wake key w =
     (let triggered = filter (\<lambda>p. p \<in> w) (map (\<lambda>l. take l key) [0..<Suc (length key)])
      in (w - set triggered, triggered))"

lemma take_prefixes: "(\<lambda>l. take l key) ` {0..<Suc (length key)} = {p. prefix p key}"
proof
  show "{p. prefix p key} \<subseteq> (\<lambda>l. take l key) ` {0..<Suc (length key)}"
  proof
    fix p
    assume "p \<in> {p. prefix p key}"
    then have "p = take (length p) key" and "length p \<in> {0..<Suc (length key)}"
      by (auto simp: prefix_def)
    then show "p \<in> (\<lambda>l. take l key) ` {0..<Suc (length key)}"
      by (rule image_eqI)
  qed
qed (auto intro: take_is_prefix)

lemma set_triggered: "set (snd (watchers_wake key w)) = {p \<in> w. prefix p key}"
  unfolding watchers_wake_def Let_def snd_conv set_filter set_map set_upt take_prefixes
  by blast

section \<open>Trees\<close>

record kv_tree =
  store :: kvmap
  watchers :: "bytes set"

definition kv_empty :: kv_tree where
  "kv_empty = \<lparr>store = kvmap_empty, watchers = {}\<rparr>"

definition kv_get :: "kv_tree \<Rightarrow> bytes \<Rightarrow> bytes option" where
  "kv_get t k = map_of (entries (store t)) k"

definition kv_insert :: "bytes \<Rightarrow> bytes \<Rightarrow> kv_tree \<Rightarrow> kv_tree" where
  "kv_insert k v t =
     t\<lparr>store := kvmap_put k v (store t), watchers := fst (watchers_wake k (watchers t))\<rparr>"

definition kv_put_quiet :: "bytes \<Rightarrow> bytes \<Rightarrow> kv_tree \<Rightarrow> kv_tree" where
  "kv_put_quiet k v t = t\<lparr>store := kvmap_put k v (store t)\<rparr>"

definition kv_insert_batch :: "(bytes \<times> bytes) list \<Rightarrow> kv_tree \<Rightarrow> kv_tree" where
  "kv_insert_batch es t = fold (\<lambda>(k, v). kv_put_quiet k v) es t"

definition kv_remove :: "bytes \<Rightarrow> kv_tree \<Rightarrow> kv_tree" where
  "kv_remove k t = t\<lparr>store := kvmap_del k (store t)\<rparr>"

definition kv_iter :: "kv_tree \<Rightarrow> (bytes \<times> bytes) list" where
  "kv_iter t = entries (store t)"

definition kv_iter_from :: "bytes \<Rightarrow> bool \<Rightarrow> kv_tree \<Rightarrow> (bytes \<times> bytes) list" where
  "kv_iter_from from backwards t =
     (if backwards then rev (filter (\<lambda>e. fst e \<le> from) (kv_iter t))
      else filter (\<lambda>e. from \<le> fst e) (kv_iter t))"

definition kv_scan_prefix :: "bytes \<Rightarrow> kv_tree \<Rightarrow> (bytes \<times> bytes) list" where
  "kv_scan_prefix prefx t = takeWhile (\<lambda>e. prefix prefx (fst e)) (kv_iter_from prefx False t)"

definition kv_increment :: "bytes \<Rightarrow> kv_tree \<Rightarrow> bytes \<times> kv_tree" where
  "kv_increment k t =
     (let new = (case increment (kv_get t k) of Some b \<Rightarrow> b | None \<Rightarrow> [])
      in (new, kv_put_quiet k new t))"

definition kv_increment_batch :: "bytes list \<Rightarrow> kv_tree \<Rightarrow> kv_tree" where
  "kv_increment_batch ks t = fold (\<lambda>k t. snd (kv_increment k t)) ks t"

definition kv_watch_prefix :: "bytes \<Rightarrow> kv_tree \<Rightarrow> kv_tree" where
  "kv_watch_prefix prefx t = t\<lparr>watchers := watchers_watch prefx (watchers t)\<rparr>"

definition kv_clear :: "kv_tree \<Rightarrow> kv_tree" where
  "kv_clear t = fold (\<lambda>(k, _). kv_remove k) (kv_iter t) t"

text \<open>\<^verbatim>\<open>for (key, _) in tree.scan_prefix(prefix) { tree.remove(&key)?; }\<close>\<close>

definition kv_remove_prefix :: "bytes \<Rightarrow> kv_tree \<Rightarrow> kv_tree" where
  "kv_remove_prefix prefx t = fold (\<lambda>(k, _). kv_remove k) (kv_scan_prefix prefx t) t"

section \<open>The contract\<close>

locale kv_store =
  fixes get :: "'t \<Rightarrow> bytes \<Rightarrow> bytes option"
    and put :: "bytes \<Rightarrow> bytes \<Rightarrow> 't \<Rightarrow> 't"
    and del :: "bytes \<Rightarrow> 't \<Rightarrow> 't"
    and iter :: "'t \<Rightarrow> (bytes \<times> bytes) list"
  assumes get_put: "get (put k v t) k' = (if k' = k then Some v else get t k')"
    and get_del: "get (del k t) k' = (if k' = k then None else get t k')"
    and iter_ascending: "sorted_wrt (<) (map fst (iter t))"
    and iter_get: "(k, v) \<in> set (iter t) \<longleftrightarrow> get t k = Some v"
begin

lemma get_fold_del:
  "get (fold (\<lambda>(k, _). del k) es t) k' = (if k' \<in> fst ` set es then None else get t k')"
  by (induction es arbitrary: t) (auto simp: get_del)

lemma get_fold_put:
  "get (fold (\<lambda>(k, v). put k v) es t) k' =
     (case map_of (rev es) k' of Some v \<Rightarrow> Some v | None \<Rightarrow> get t k')"
  by (induction es arbitrary: t) (auto simp: get_put map_add_def split: option.splits)

lemma iter_sorted: "sorted (map fst (iter t))"
  using iter_ascending [of t] by (rule strict_sorted_imp_sorted)

lemma iter_distinct: "distinct (map fst (iter t))"
  using iter_ascending [of t] by (simp add: strict_sorted_iff)

text \<open>The order of the entries is determined by the map.\<close>

lemma iter_determined:
  assumes "\<And>k. get t k = get t' k"
  shows "iter t = iter t'"
proof -
  have rebuild: "iter u = map (\<lambda>k. (k, the (get u k))) (map fst (iter u))" for u
  proof -
    have "map (\<lambda>e. (fst e, the (get u (fst e)))) (iter u) = iter u"
      by (rule map_idI) (auto simp: iter_get)
    then show ?thesis by (simp add: comp_def)
  qed
  have "fst ` set (iter t) = fst ` set (iter t')"
    using assms by (auto simp: iter_get image_iff Bex_def)
  then have keys: "map fst (iter t) = map fst (iter t')"
    by (intro strict_sorted_equal iter_ascending) simp
  have "get t = get t'" using assms by blast
  with keys show ?thesis
    using rebuild [of t] rebuild [of t'] by simp
qed

lemma asc_range:
  assumes "prefix p from"
  shows "takeWhile (\<lambda>e. prefix p (fst e)) (filter (\<lambda>e. from \<le> fst e) (iter t)) =
         filter (\<lambda>e. prefix p (fst e) \<and> from \<le> fst e) (iter t)"
proof -
  have "takeWhile (\<lambda>e. prefix p (fst e)) (filter (\<lambda>e. from \<le> fst e) (iter t)) =
        filter (\<lambda>e. prefix p (fst e)) (filter (\<lambda>e. from \<le> fst e) (iter t))"
  proof (rule takeWhile_prefix_asc)
    show "sorted (map fst (filter (\<lambda>e. from \<le> fst e) (iter t)))"
      using iter_sorted by (rule sorted_filter)
    show "p \<le> fst e" if "e \<in> set (filter (\<lambda>e. from \<le> fst e) (iter t))" for e
      using that prefix_le [OF assms] by (auto intro: order_trans)
  qed
  then show ?thesis by (simp add: conj_commute)
qed

lemma desc_range:
  "takeWhile (\<lambda>e. prefix p (fst e)) (rev (filter (\<lambda>e. fst e \<le> p @ m) (iter t))) =
   rev (filter (\<lambda>e. prefix p (fst e) \<and> fst e \<le> p @ m) (iter t))"
proof -
  have "takeWhile (\<lambda>e. prefix p (fst e)) (rev (filter (\<lambda>e. fst e \<le> p @ m) (iter t))) =
        filter (\<lambda>e. prefix p (fst e)) (rev (filter (\<lambda>e. fst e \<le> p @ m) (iter t)))"
  proof (rule takeWhile_prefix_desc)
    have "sorted (map fst (filter (\<lambda>e. fst e \<le> p @ m) (iter t)))"
      using iter_sorted by (rule sorted_filter)
    then show "sorted_wrt (\<ge>) (map fst (rev (filter (\<lambda>e. fst e \<le> p @ m) (iter t))))"
      by (simp add: sorted_wrt_rev rev_map [symmetric])
  qed auto
  then show ?thesis by (simp add: rev_filter conj_commute)
qed

end

section \<open>The trees of the database meet the contract\<close>

lemma kv_get_insert [simp]: "kv_get (kv_insert k v t) k' = (if k' = k then Some v else kv_get t k')"
  by (simp add: kv_get_def kv_insert_def map_of_put_entry)

lemma kv_get_remove [simp]: "kv_get (kv_remove k t) k' = (if k' = k then None else kv_get t k')"
  by (simp add: kv_get_def kv_remove_def map_of_del_entry)

lemma kv_get_empty [simp]: "kv_get kv_empty k = None"
  by (simp add: kv_get_def kv_empty_def)

lemma kv_iter_get: "(k, v) \<in> set (kv_iter t) \<longleftrightarrow> kv_get t k = Some v"
proof -
  have "distinct (map fst (entries (store t)))"
    using entries_sorted [of "store t"] by (simp add: strict_sorted_iff)
  then show ?thesis by (simp add: kv_iter_def kv_get_def)
qed

lemma kv_get_put_quiet [simp]:
  "kv_get (kv_put_quiet k v t) k' = (if k' = k then Some v else kv_get t k')"
  by (simp add: kv_get_def kv_put_quiet_def map_of_put_entry)

lemma kv_iter_ascending: "sorted_wrt (<) (map fst (kv_iter t))"
  by (simp add: kv_iter_def)

interpretation kv: kv_store kv_get kv_insert kv_remove kv_iter
  by unfold_locales (rule kv_get_insert kv_get_remove kv_iter_ascending kv_iter_get)+

interpretation kvq: kv_store kv_get kv_put_quiet kv_remove kv_iter
  by unfold_locales (rule kv_get_put_quiet kv_get_remove kv_iter_ascending kv_iter_get)+

lemma kv_scan_prefix_filter:
  "kv_scan_prefix p t = filter (\<lambda>e. prefix p (fst e)) (kv_iter t)"
proof -
  have "(prefix p k \<and> p \<le> k) = prefix p k" for k
    using prefix_le [of p k] by blast
  then show ?thesis
    by (simp add: kv_scan_prefix_def kv_iter_from_def kv.asc_range)
qed

lemma set_kv_scan_prefix:
  "(k, v) \<in> set (kv_scan_prefix p t) \<longleftrightarrow> kv_get t k = Some v \<and> prefix p k"
  by (auto simp: kv_scan_prefix_filter kv_iter_get)

lemma sorted_kv_scan_prefix: "sorted_wrt (<) (map fst (kv_scan_prefix p t))"
  using kv.iter_ascending [of t]
  by (simp add: kv_scan_prefix_filter sorted_wrt_map sorted_wrt_filter)

lemma kv_get_remove_prefix [simp]:
  "kv_get (kv_remove_prefix p t) k = (if prefix p k then None else kv_get t k)"
proof -
  have "k \<in> fst ` set (kv_scan_prefix p t) \<longleftrightarrow> (\<exists>v. (k, v) \<in> set (kv_scan_prefix p t))"
    by (simp add: image_iff Bex_def)
  then have "k \<in> fst ` set (kv_scan_prefix p t) \<longleftrightarrow> prefix p k \<and> kv_get t k \<noteq> None"
    by (auto simp: set_kv_scan_prefix)
  then show ?thesis
    by (simp add: kv_remove_prefix_def kv.get_fold_del)
qed

lemma kv_get_insert_batch:
  "kv_get (kv_insert_batch es t) k =
     (case map_of (rev es) k of Some v \<Rightarrow> Some v | None \<Rightarrow> kv_get t k)"
  by (simp add: kv_insert_batch_def kvq.get_fold_put)

lemma kv_get_clear [simp]: "kv_get (kv_clear t) k = None"
proof -
  have "k \<in> fst ` set (kv_iter t) \<longleftrightarrow> (\<exists>v. (k, v) \<in> set (kv_iter t))"
    by (simp add: image_iff Bex_def)
  then have "k \<in> fst ` set (kv_iter t) \<longleftrightarrow> kv_get t k \<noteq> None"
    by (simp add: kv_iter_get)
  then show ?thesis by (simp add: kv_clear_def kv.get_fold_del)
qed

text \<open>The counter a tree holds under a key; a value that is not eight bytes counts as absent.\<close>

definition counter_at :: "kv_tree \<Rightarrow> bytes \<Rightarrow> u64" where
  "counter_at t k = (case kv_get t k of
       None \<Rightarrow> 0
     | Some b \<Rightarrow> (case u64_from_bytes b of Inl _ \<Rightarrow> 0 | Inr n \<Rightarrow> n))"

lemma kv_increment_eq:
  "kv_increment k t =
     (to_be_bytes (counter_at t k + 1), kv_put_quiet k (to_be_bytes (counter_at t k + 1)) t)"
  by (auto simp: kv_increment_def increment_def counter_at_def Let_def split: option.splits sum.splits)

lemma counter_at_put_quiet [simp]:
  "counter_at (kv_put_quiet k (to_be_bytes n) t) k' = (if k' = k then n else counter_at t k')"
  by (simp add: counter_at_def)

lemma counter_at_insert [simp]:
  "counter_at (kv_insert k (to_be_bytes n) t) k' = (if k' = k then n else counter_at t k')"
  by (simp add: counter_at_def)

section \<open>Properties\<close>

text \<open>A prefix scan returns exactly the entries whose key has the prefix, in ascending order
  of their keys.\<close>
theorem kv_scan_prefix_exact:
  "((k, v) \<in> set (kv_scan_prefix p t) \<longleftrightarrow> kv_get t k = Some v \<and> prefix p k) \<and>
   sorted_wrt (<) (map fst (kv_scan_prefix p t))"
  by (simp add: set_kv_scan_prefix sorted_kv_scan_prefix)

text \<open>An insert signals and unregisters exactly the watchers whose prefix the key has;
  an increment or a batch insert signals none of them.\<close>
theorem kv_wakes:
  "watchers (kv_insert k v t) = {p \<in> watchers t. \<not> prefix p k} \<and>
   set (snd (watchers_wake k (watchers t))) = {p \<in> watchers t. prefix p k} \<and>
   watchers (snd (kv_increment k t)) = watchers t \<and>
   watchers (kv_insert_batch es t) = watchers t"
proof -
  have "watchers (fold (\<lambda>(k, v). kv_put_quiet k v) es t) = watchers t"
    by (induction es arbitrary: t) (auto simp: kv_put_quiet_def)
  moreover have "fst (watchers_wake k w) = w - set (snd (watchers_wake k w))" for w
    by (simp add: watchers_wake_def Let_def)
  ultimately show ?thesis
    using set_triggered [of k "watchers t"]
    by (auto simp: kv_insert_def kv_increment_eq kv_put_quiet_def kv_insert_batch_def)
qed

end
