(* ===== verification/Globals.thy ===== *)
theory Globals
  imports KvTree "HOL-Library.Finite_Map"
begin

text \<open>
  The global tree of \<^verbatim>\<open>src/database/key_value/globals.rs\<close>: the event counter from which
  every token and every short id is drawn, the server's key pair, the signing keys of other servers
  and the schema version. Key generation, key parsing and the JSON form of the signing keys are parameters.
\<close>

section \<open>State\<close>

type_synonym ('s, 'a) dop = "(error, 's, 'a) op"

record globals_db =
  global :: kv_tree
  server_signingkeys :: kv_tree
  server_name :: servername

definition COUNTER :: bytes where
  "COUNTER = ascii ''c''"

text \<open>The last count that was handed out.\<close>

definition count :: "'a globals_db_scheme \<Rightarrow> u64" where
  "count s = counter_at (global s) COUNTER"

section \<open>The counter\<close>

definition next_count :: "('a globals_db_scheme, u64) dop" where
  "next_count s =
     (case kv_increment COUNTER (global s) of
        (b, t) \<Rightarrow>
          (map_err (BadDatabase ''Count has invalid bytes.'') (u64_from_bytes b), s\<lparr>global := t\<rparr>))"

definition current_count :: "'a globals_db_scheme \<Rightarrow> u64 res" where
  "current_count s =
     (case kv_get (global s) COUNTER of
        None \<Rightarrow> Inr 0
      | Some b \<Rightarrow> map_err (BadDatabase ''Count has invalid bytes.'') (u64_from_bytes b))"

lemma next_count_eq:
  "next_count s =
     (Inr (count s + 1),
      s\<lparr>global := kv_put_quiet COUNTER (to_be_bytes (count s + 1)) (global s)\<rparr>)"
  by (simp add: next_count_def kv_increment_eq count_def)

definition bump :: "'a globals_db_scheme \<Rightarrow> 'a globals_db_scheme" where
  "bump s = s\<lparr>global := kv_put_quiet COUNTER (to_be_bytes (count s + 1)) (global s)\<rparr>"

lemma next_count_bump [simp]: "next_count s = (Inr (count s + 1), bump s)"
  by (simp add: next_count_eq bump_def)

lemma count_bump [simp]: "count (bump s) = count s + 1"
  by (simp add: bump_def count_def)

lemma current_count_bump [simp]: "current_count (bump s) = Inr (count s + 1)"
  by (simp add: bump_def current_count_def)

lemma bump_frame [simp]:
  "server_signingkeys (bump s) = server_signingkeys s"
  "server_name (bump s) = server_name s"
  "globals_db.more (bump s) = globals_db.more s"
  by (simp_all add: bump_def)

text \<open>There is a next count: the counter is not at its largest value.\<close>

definition has_room :: "'a globals_db_scheme \<Rightarrow> bool" where
  "has_room s \<longleftrightarrow> count s \<noteq> -1"

lemma count_less_next: "has_room s \<Longrightarrow> count s < count s + 1"
  using inc_less_eq_triv_imp [of "count s"] by (auto simp: has_room_def not_less [symmetric])

lemma next_count_pos: "has_room s \<Longrightarrow> 0 < count s + 1"
  using count_less_next [of s] by (metis word_gt_0 word_not_simps(1))

section \<open>The key pair\<close>

definition generate_keypair :: "bytes \<Rightarrow> bytes \<Rightarrow> bytes" where
  "generate_keypair version der = version @ sep # der"

definition KEYPAIR :: bytes where
  "KEYPAIR = ascii ''keypair''"

definition load_keypair ::
    "bytes \<Rightarrow> (bytes \<Rightarrow> bytes \<Rightarrow> 'k option) \<Rightarrow> ('a globals_db_scheme, 'k) dop" where
  "load_keypair fresh from_der =
     bind (gets (\<lambda>s. kv_get (global s) KEYPAIR)) (\<lambda>stored.
     bind (case stored of
             None \<Rightarrow> andthen (modify (\<lambda>s. s\<lparr>global := kv_insert KEYPAIR fresh (global s)\<rparr>)) (ret fresh)
           | Some b \<Rightarrow> ret b) (\<lambda>keypair_bytes.
     let parts = splitn_sep 2 keypair_bytes in
     bind (of_res (map_err (BadDatabase ''Invalid version bytes in keypair.'')
             (string_from_bytes (hd parts)))) (\<lambda>version.
     bind (of_res (ok_or (BadDatabase ''Invalid keypair format in database.'') (nth_part 1 parts))) (\<lambda>key.
     of_res (ok_or (BadDatabase ''Private or public keys are invalid.'') (from_der key version))))))"

definition remove_keypair :: "('a globals_db_scheme, unit) dop" where
  "remove_keypair = modify (\<lambda>s. s\<lparr>global := kv_remove KEYPAIR (global s)\<rparr>)"

section \<open>Signing keys of other servers\<close>

record signing_keys =
  verify_keys :: "(bytes, bytes) fmap"
  old_verify_keys :: "(bytes, bytes) fmap"

instance signing_keys_ext :: (countable) countable
  by (rule countable_classI
      [of "\<lambda>k. to_nat (verify_keys k, old_verify_keys k, signing_keys.more k)"]) simp

definition no_keys :: signing_keys where
  "no_keys = \<lparr>verify_keys = fmempty, old_verify_keys = fmempty\<rparr>"

text \<open>\<open>parse\<close> and \<open>print\<close> are the JSON codec; an expired key is kept as the key alone.\<close>

definition add_signing_key ::
    "(bytes \<Rightarrow> signing_keys option) \<Rightarrow> (signing_keys \<Rightarrow> bytes) \<Rightarrow> servername \<Rightarrow> signing_keys \<Rightarrow>
     ('a globals_db_scheme, (bytes, bytes) fmap) dop" where
  "add_signing_key parse print origin new_keys s =
     (let stored = (case kv_get (server_signingkeys s) origin of
                      None \<Rightarrow> no_keys
                    | Some b \<Rightarrow> (case parse b of None \<Rightarrow> no_keys | Some k \<Rightarrow> k));
          keys = \<lparr>verify_keys = fmadd (verify_keys stored) (verify_keys new_keys),
                  old_verify_keys = fmadd (old_verify_keys stored) (old_verify_keys new_keys)\<rparr>
      in (Inr (fmadd (verify_keys keys) (old_verify_keys keys)),
          s\<lparr>server_signingkeys := kv_insert origin (print keys) (server_signingkeys s)\<rparr>))"

definition signing_keys_for ::
    "(bytes \<Rightarrow> signing_keys option) \<Rightarrow> servername \<Rightarrow> 'a globals_db_scheme \<Rightarrow> (bytes, bytes) fmap res" where
  "signing_keys_for parse origin s =
     Inr (case Option.bind (kv_get (server_signingkeys s) origin) parse of
            None \<Rightarrow> fmempty
          | Some keys \<Rightarrow> fmadd (verify_keys keys) (old_verify_keys keys))"

section \<open>The schema version\<close>

definition VERSION :: bytes where
  "VERSION = ascii ''version''"

definition database_version :: "'a globals_db_scheme \<Rightarrow> u64 res" where
  "database_version s =
     (case kv_get (global s) VERSION of
        None \<Rightarrow> Inr 0
      | Some b \<Rightarrow> map_err (BadDatabase ''Database version id is invalid.'') (u64_from_bytes b))"

definition bump_database_version :: "u64 \<Rightarrow> ('a globals_db_scheme, unit) dop" where
  "bump_database_version new_version =
     modify (\<lambda>s. s\<lparr>global := kv_insert VERSION (to_be_bytes new_version) (global s)\<rparr>)"

section \<open>Properties\<close>

definition globals_init :: "servername \<Rightarrow> globals_db" where
  "globals_init name = \<lparr>global = kv_empty, server_signingkeys = kv_empty, server_name = name\<rparr>"

text \<open>Once a key pair has been loaded, every later start loads the same key pair and leaves the
  database alone, whatever fresh key was generated for it.\<close>
theorem keypair_stable:
  assumes "load_keypair fresh from_der s = (Inr kp, s')"
  shows "load_keypair fresh' from_der s' = (Inr kp, s')"
  using assms
  by (cases "kv_get (global s) KEYPAIR")
     (auto simp: load_keypair_def op_simps Let_def split: prod.splits sum.splits)

theorem keypair_stable_witness:
  "load_keypair (generate_keypair [97] [1, 2]) (\<lambda>k v. Some (v, k))
     (snd (load_keypair (generate_keypair [98] [3, 4]) (\<lambda>k v. Some (v, k)) (globals_init []))) =
   (Inr ([98], [3, 4]),
    snd (load_keypair (generate_keypair [98] [3, 4]) (\<lambda>k v. Some (v, k)) (globals_init [])))"
proof (rule keypair_stable)
  show "load_keypair (generate_keypair [98] [3, 4]) (\<lambda>k v. Some (v, k)) (globals_init []) =
    (Inr ([98], [3, 4]),
     snd (load_keypair (generate_keypair [98] [3, 4]) (\<lambda>k v. Some (v, k)) (globals_init [])))"
    by (simp add: load_keypair_def globals_init_def generate_keypair_def op_simps Let_def splitn_sep_eval
        sep_def nth_part_def string_from_bytes_def)
qed

text \<open>Adding signing keys returns what a later lookup of that origin returns; it makes the new
  keys known, forgets no key id that was known, and leaves other origins alone, provided the JSON
  codec reads back what it prints.\<close>
theorem signing_keys_accumulate:
  assumes "codec parse print"
    and "add_signing_key parse print origin new_keys s = (Inr known, s')"
  shows "signing_keys_for parse origin s' = Inr known \<and>
    fmdom' (verify_keys new_keys) \<union> fmdom' (old_verify_keys new_keys) \<subseteq> fmdom' known \<and>
    (\<forall>before. signing_keys_for parse origin s = Inr before \<longrightarrow> fmdom' before \<subseteq> fmdom' known) \<and>
    (\<forall>other. other \<noteq> origin \<longrightarrow> signing_keys_for parse other s' = signing_keys_for parse other s)"
  using assms
  by (auto simp: add_signing_key_def signing_keys_for_def Let_def no_keys_def codecD split: option.splits)

theorem signing_keys_accumulate_witness:
  "signing_keys_for unary_parse [104]
     (snd (add_signing_key unary_parse unary_print [104]
        \<lparr>verify_keys = fmupd [1] [2] fmempty, old_verify_keys = fmempty\<rparr> (globals_init []))) =
   Inr (fmupd [1] [2] fmempty)"
  using signing_keys_accumulate [OF unary_codec, of "[104]"
      "\<lparr>verify_keys = fmupd [1] [2] fmempty, old_verify_keys = fmempty\<rparr>" "globals_init []"
      "fmupd [1] [2] fmempty"]
  by (simp add: add_signing_key_def globals_init_def no_keys_def)

end
