(* ===== verification/Short.thy ===== *)
theory Short
  imports Globals
begin

text \<open>
  Short ids (\<^verbatim>\<open>src/database/key_value/rooms/short.rs\<close>): event ids, state keys, state hashes
  and room ids are interned as counts, in one tree per direction with an in-memory cache in
  front. The caches are LRU caches that may drop entries; \<open>evict\<close> is such a loss, and the
  invariants hold in every state it leads to. Ruma's identifier grammars are a parameter. An event
  type is identified with its string form. The locale \<open>interning\<close> is the contract the rest of
  the server uses.
\<close>

section \<open>Identifier grammars\<close>

record ruma =
  is_event_id :: "bytes \<Rightarrow> bool"
  is_user_id :: "bytes \<Rightarrow> bool"
  is_room_id :: "bytes \<Rightarrow> bool"
  is_room_alias :: "bytes \<Rightarrow> bool"
  is_server_name :: "bytes \<Rightarrow> bool"
  user_server :: "bytes \<Rightarrow> servername"

text \<open>\<^verbatim>\<open>EventId::parse_arc\<close>, \<^verbatim>\<open>UserId::parse\<close> and their kin keep the string they accept.\<close>

definition parse_id :: "(bytes \<Rightarrow> bool) \<Rightarrow> bytes \<Rightarrow> unit + bytes" where
  "parse_id ok b = (if ok b then Inr b else Inl ())"

lemma parse_id_ok [simp]: "ok b \<Longrightarrow> parse_id ok b = Inr b"
  by (simp add: parse_id_def)

text \<open>The two-step decoding of a stored id: UTF-8, then the grammar.\<close>

definition id_from_bytes :: "(bytes \<Rightarrow> bool) \<Rightarrow> string \<Rightarrow> string \<Rightarrow> bytes \<Rightarrow> bytes res" where
  "id_from_bytes ok not_unicode invalid b =
     bind_res (map_err (BadDatabase not_unicode) (string_from_bytes b))
       (\<lambda>str. map_err (BadDatabase invalid) (parse_id ok str))"

lemma id_from_bytes_ok [simp]:
  "utf8_valid b \<Longrightarrow> ok b \<Longrightarrow> id_from_bytes ok m m' b = Inr b"
  by (simp add: id_from_bytes_def)

section \<open>State\<close>

record short_db = globals_db +
  eventid_shorteventid :: kv_tree
  shorteventid_eventid :: kv_tree
  statekey_shortstatekey :: kv_tree
  shortstatekey_statekey :: kv_tree
  statehash_shortstatehash :: kv_tree
  roomid_shortroomid :: kv_tree
  eventidshort_cache :: "event_id \<Rightarrow> u64 option"
  shorteventid_cache :: "u64 \<Rightarrow> event_id option"
  statekeyshort_cache :: "bytes \<times> bytes \<Rightarrow> u64 option"
  shortstatekey_cache :: "u64 \<Rightarrow> (bytes \<times> bytes) option"

section \<open>Operations\<close>

definition get_or_create_shorteventid :: "event_id \<Rightarrow> ('a short_db_scheme, u64) dop" where
  "get_or_create_shorteventid event_id =
     bind (gets (\<lambda>s. eventidshort_cache s event_id)) (\<lambda>hit.
     case hit of
       Some short \<Rightarrow> ret short
     | None \<Rightarrow>
         bind (gets (\<lambda>s. kv_get (eventid_shorteventid s) event_id)) (\<lambda>stored.
         bind (case stored of
                 Some shorteventid \<Rightarrow>
                   of_res (map_err (BadDatabase ''Invalid shorteventid in db.'') (u64_from_bytes shorteventid))
               | None \<Rightarrow>
                   bind next_count (\<lambda>shorteventid.
                   andthen (modify (\<lambda>s. s\<lparr>eventid_shorteventid :=
                       kv_insert event_id (to_be_bytes shorteventid) (eventid_shorteventid s)\<rparr>))
                   (andthen (modify (\<lambda>s. s\<lparr>shorteventid_eventid :=
                       kv_insert (to_be_bytes shorteventid) event_id (shorteventid_eventid s)\<rparr>))
                   (ret shorteventid)))) (\<lambda>short.
         andthen (modify (\<lambda>s. s\<lparr>eventidshort_cache := (eventidshort_cache s)(event_id \<mapsto> short)\<rparr>))
         (ret short))))"

definition statekey_bytes :: "bytes \<Rightarrow> bytes \<Rightarrow> bytes" where
  "statekey_bytes event_type state_key = event_type @ sep # state_key"

definition get_shortstatekey :: "bytes \<Rightarrow> bytes \<Rightarrow> ('a short_db_scheme, u64 option) dop" where
  "get_shortstatekey event_type state_key =
     bind (gets (\<lambda>s. statekeyshort_cache s (event_type, state_key))) (\<lambda>hit.
     case hit of
       Some short \<Rightarrow> ret (Some short)
     | None \<Rightarrow>
         bind (reads (\<lambda>s. transpose_opt (map_option
                 (\<lambda>b. map_err (BadDatabase ''Invalid shortstatekey in db.'') (u64_from_bytes b))
                 (kv_get (statekey_shortstatekey s) (statekey_bytes event_type state_key))))) (\<lambda>short.
         andthen (case short of
                    Some n \<Rightarrow> modify (\<lambda>s. s\<lparr>statekeyshort_cache :=
                        (statekeyshort_cache s)((event_type, state_key) \<mapsto> n)\<rparr>)
                  | None \<Rightarrow> ret ())
         (ret short)))"

definition get_or_create_shortstatekey :: "bytes \<Rightarrow> bytes \<Rightarrow> ('a short_db_scheme, u64) dop" where
  "get_or_create_shortstatekey event_type state_key =
     bind (gets (\<lambda>s. statekeyshort_cache s (event_type, state_key))) (\<lambda>hit.
     case hit of
       Some short \<Rightarrow> ret short
     | None \<Rightarrow>
         let statekey = statekey_bytes event_type state_key in
         bind (gets (\<lambda>s. kv_get (statekey_shortstatekey s) statekey)) (\<lambda>stored.
         bind (case stored of
                 Some shortstatekey \<Rightarrow>
                   of_res (map_err (BadDatabase ''Invalid shortstatekey in db.'') (u64_from_bytes shortstatekey))
               | None \<Rightarrow>
                   bind next_count (\<lambda>shortstatekey.
                   andthen (modify (\<lambda>s. s\<lparr>statekey_shortstatekey :=
                       kv_insert statekey (to_be_bytes shortstatekey) (statekey_shortstatekey s)\<rparr>))
                   (andthen (modify (\<lambda>s. s\<lparr>shortstatekey_statekey :=
                       kv_insert (to_be_bytes shortstatekey) statekey (shortstatekey_statekey s)\<rparr>))
                   (ret shortstatekey)))) (\<lambda>short.
         andthen (modify (\<lambda>s. s\<lparr>statekeyshort_cache :=
             (statekeyshort_cache s)((event_type, state_key) \<mapsto> short)\<rparr>))
         (ret short))))"

definition get_eventid_from_short :: "ruma \<Rightarrow> u64 \<Rightarrow> ('a short_db_scheme, event_id) dop" where
  "get_eventid_from_short R shorteventid =
     bind (gets (\<lambda>s. shorteventid_cache s shorteventid)) (\<lambda>hit.
     case hit of
       Some event_id \<Rightarrow> ret event_id
     | None \<Rightarrow>
         bind (reads (\<lambda>s. ok_or (BadDatabase ''Shorteventid does not exist'')
                 (kv_get (shorteventid_eventid s) (to_be_bytes shorteventid)))) (\<lambda>b.
         bind (of_res (id_from_bytes (is_event_id R)
                 ''EventID in shorteventid_eventid is invalid unicode.''
                 ''EventId in shorteventid_eventid is invalid.'' b)) (\<lambda>event_id.
         andthen (modify (\<lambda>s. s\<lparr>shorteventid_cache := (shorteventid_cache s)(shorteventid \<mapsto> event_id)\<rparr>))
         (ret event_id))))"

definition get_statekey_from_short :: "u64 \<Rightarrow> ('a short_db_scheme, bytes \<times> bytes) dop" where
  "get_statekey_from_short shortstatekey =
     bind (gets (\<lambda>s. shortstatekey_cache s shortstatekey)) (\<lambda>hit.
     case hit of
       Some result \<Rightarrow> ret result
     | None \<Rightarrow>
         bind (reads (\<lambda>s. ok_or (BadDatabase ''Shortstatekey does not exist'')
                 (kv_get (shortstatekey_statekey s) (to_be_bytes shortstatekey)))) (\<lambda>b.
         let parts = splitn_sep 2 b in
         bind (of_res (ok_or (BadDatabase ''Invalid statekey in shortstatekey_statekey.'')
                 (nth_part 1 parts))) (\<lambda>statekey_bytes.
         bind (of_res (map_err (BadDatabase ''Event type in shortstatekey_statekey is invalid unicode.'')
                 (string_from_bytes (hd parts)))) (\<lambda>event_type.
         bind (of_res (map_err (BadDatabase ''Statekey in shortstatekey_statekey is invalid unicode.'')
                 (string_from_bytes statekey_bytes))) (\<lambda>state_key.
         andthen (modify (\<lambda>s. s\<lparr>shortstatekey_cache :=
             (shortstatekey_cache s)(shortstatekey \<mapsto> (event_type, state_key))\<rparr>))
         (ret (event_type, state_key)))))))"

definition get_or_create_shortstatehash :: "bytes \<Rightarrow> ('a short_db_scheme, u64 \<times> bool) dop" where
  "get_or_create_shortstatehash state_hash =
     bind (gets (\<lambda>s. kv_get (statehash_shortstatehash s) state_hash)) (\<lambda>stored.
     case stored of
       Some shortstatehash \<Rightarrow>
         of_res (map_res (\<lambda>n. (n, True))
           (map_err (BadDatabase ''Invalid shortstatehash in db.'') (u64_from_bytes shortstatehash)))
     | None \<Rightarrow>
         bind next_count (\<lambda>shortstatehash.
         andthen (modify (\<lambda>s. s\<lparr>statehash_shortstatehash :=
             kv_insert state_hash (to_be_bytes shortstatehash) (statehash_shortstatehash s)\<rparr>))
         (ret (shortstatehash, False))))"

definition get_shortroomid :: "room_id \<Rightarrow> 'a short_db_scheme \<Rightarrow> u64 option res" where
  "get_shortroomid room_id s =
     transpose_opt (map_option
       (\<lambda>b. map_err (BadDatabase ''Invalid shortroomid in db.'') (u64_from_bytes b))
       (kv_get (roomid_shortroomid s) room_id))"

definition get_or_create_shortroomid :: "room_id \<Rightarrow> ('a short_db_scheme, u64) dop" where
  "get_or_create_shortroomid room_id =
     bind (gets (\<lambda>s. kv_get (roomid_shortroomid s) room_id)) (\<lambda>stored.
     case stored of
       Some short \<Rightarrow> of_res (map_err (BadDatabase ''Invalid shortroomid in db.'') (u64_from_bytes short))
     | None \<Rightarrow>
         bind next_count (\<lambda>short.
         andthen (modify (\<lambda>s. s\<lparr>roomid_shortroomid :=
             kv_insert room_id (to_be_bytes short) (roomid_shortroomid s)\<rparr>))
         (ret short)))"

section \<open>Tables of ids\<close>

text \<open>
  A table maps byte strings to counts that have been handed out, distinct keys to distinct
  counts. \<open>inverse_trees\<close> and the coherence predicates tie the reverse tree and the caches to it.
\<close>

definition id_of :: "kv_tree \<Rightarrow> bytes \<Rightarrow> u64 option" where
  "id_of t k = Option.bind (kv_get t k) (\<lambda>b. res_ok (u64_from_bytes b))"

definition id_table :: "kv_tree \<Rightarrow> u64 \<Rightarrow> bool" where
  "id_table t c \<longleftrightarrow>
     (\<forall>k b. kv_get t k = Some b \<longrightarrow> (\<exists>n. b = to_be_bytes n \<and> 0 < n \<and> n \<le> c)) \<and>
     (\<forall>k k' b. kv_get t k = Some b \<longrightarrow> kv_get t k' = Some b \<longrightarrow> k = k')"

definition inverse_trees :: "kv_tree \<Rightarrow> kv_tree \<Rightarrow> bool" where
  "inverse_trees f r \<longleftrightarrow> (\<forall>k b. kv_get f k = Some b \<longleftrightarrow> kv_get r b = Some k)"

definition coherent :: "('k \<Rightarrow> u64 option) \<Rightarrow> ('k \<Rightarrow> bytes) \<Rightarrow> kv_tree \<Rightarrow> bool" where
  "coherent cache enc t \<longleftrightarrow> (\<forall>k n. cache k = Some n \<longrightarrow> kv_get t (enc k) = Some (to_be_bytes n))"

definition rev_coherent :: "(u64 \<Rightarrow> 'k option) \<Rightarrow> ('k \<Rightarrow> bytes) \<Rightarrow> kv_tree \<Rightarrow> bool" where
  "rev_coherent cache enc t \<longleftrightarrow> (\<forall>n k. cache n = Some k \<longrightarrow> kv_get t (to_be_bytes n) = Some (enc k))"

lemma id_tableE:
  assumes "id_table t c" and "kv_get t k = Some b"
  obtains n where "b = to_be_bytes n" and "0 < n" and "n \<le> c"
  using assms by (auto simp: id_table_def)

lemma id_of_Some:
  assumes "id_table t c"
  shows "id_of t k = Some n \<longleftrightarrow> kv_get t k = Some (to_be_bytes n)"
  using assms by (auto simp: id_of_def split: bind_splits elim!: id_tableE)

lemma id_of_None:
  assumes "id_table t c"
  shows "id_of t k = None \<longleftrightarrow> kv_get t k = None"
  using assms by (auto simp: id_of_def split: bind_splits elim!: id_tableE)

lemma id_of_insert [simp]:
  "id_of (kv_insert k (to_be_bytes n) t) k' = (if k' = k then Some n else id_of t k')"
  by (simp add: id_of_def)

lemma id_table_bound: "id_table t c \<Longrightarrow> id_of t k = Some n \<Longrightarrow> 0 < n \<and> n \<le> c"
  by (auto simp: id_of_Some elim!: id_tableE)

lemma id_table_inj:
  "id_table t c \<Longrightarrow> id_of t k = Some n \<Longrightarrow> id_of t k' = Some n \<Longrightarrow> k = k'"
  by (auto simp: id_of_Some id_table_def)

lemma id_table_mono: "id_table t c \<Longrightarrow> c \<le> c' \<Longrightarrow> id_table t c'"
  unfolding id_table_def by (meson order_trans)

lemma id_table_fresh:
  assumes "id_table t c" and "c < n"
  shows "kv_get t k \<noteq> Some (to_be_bytes n)"
  using assms by (auto simp: not_le [symmetric] elim!: id_tableE)

lemma id_table_insert:
  assumes "id_table t c" and "c < n"
  shows "id_table (kv_insert k (to_be_bytes n) t) n"
proof -
  have "0 < n" using \<open>c < n\<close> by (metis word_gt_0 word_not_simps(1))
  with assms show ?thesis
    using id_table_fresh [OF assms] id_table_mono [OF assms(1), of n]
    by (auto simp: id_table_def)
qed

lemma inverse_treesD: "inverse_trees f r \<Longrightarrow> kv_get r b = Some k \<longleftrightarrow> kv_get f k = Some b"
  by (simp add: inverse_trees_def)

lemma inverse_trees_fresh:
  assumes "inverse_trees f r" and "\<And>k. kv_get f k \<noteq> Some b"
  shows "kv_get r b = None"
proof (cases "kv_get r b")
  case (Some k)
  then show ?thesis using assms(2) [of k] by (simp add: inverse_treesD [OF assms(1)])
qed

lemma inverse_trees_insert:
  assumes "inverse_trees f r" and "kv_get f k = None" and "\<And>k'. kv_get f k' \<noteq> Some b"
  shows "inverse_trees (kv_insert k b f) (kv_insert b k r)"
proof -
  have "kv_get r b' \<noteq> Some k" for b'
    using assms(2) by (simp add: inverse_treesD [OF assms(1)])
  moreover have "kv_get r b' = Some k' \<longleftrightarrow> kv_get f k' = Some b'" for k' b'
    by (rule inverse_treesD [OF assms(1)])
  ultimately show ?thesis
    using assms(3) inverse_trees_fresh [OF assms(1,3)] unfolding inverse_trees_def by auto
qed

lemma coherent_update:
  "coherent c enc t \<Longrightarrow> kv_get t (enc k) = Some (to_be_bytes n) \<Longrightarrow> coherent (c(k \<mapsto> n)) enc t"
  by (auto simp: coherent_def)

lemma coherent_insert:
  "coherent c enc t \<Longrightarrow> kv_get t k = None \<Longrightarrow> coherent c enc (kv_insert k b t)"
  by (auto simp: coherent_def)

lemma rev_coherent_insert:
  "rev_coherent c enc t \<Longrightarrow> kv_get t b = None \<Longrightarrow> rev_coherent c enc (kv_insert b k t)"
  by (auto simp: rev_coherent_def)

lemma rev_coherent_update:
  "rev_coherent c enc t \<Longrightarrow> kv_get t (to_be_bytes n) = Some (enc k) \<Longrightarrow>
   rev_coherent (c(n \<mapsto> k)) enc t"
  by (auto simp: rev_coherent_def)

section \<open>Invariant\<close>

definition statekey_enc :: "bytes \<times> bytes \<Rightarrow> bytes" where
  "statekey_enc k = statekey_bytes (fst k) (snd k)"

definition short_inv :: "'a short_db_scheme \<Rightarrow> bool" where
  "short_inv s \<longleftrightarrow>
     id_table (eventid_shorteventid s) (count s) \<and>
     inverse_trees (eventid_shorteventid s) (shorteventid_eventid s) \<and>
     id_table (statekey_shortstatekey s) (count s) \<and>
     inverse_trees (statekey_shortstatekey s) (shortstatekey_statekey s) \<and>
     id_table (statehash_shortstatehash s) (count s) \<and>
     id_table (roomid_shortroomid s) (count s) \<and>
     coherent (eventidshort_cache s) (\<lambda>e. e) (eventid_shorteventid s) \<and>
     rev_coherent (shorteventid_cache s) (\<lambda>e. e) (shorteventid_eventid s) \<and>
     coherent (statekeyshort_cache s) statekey_enc (statekey_shortstatekey s) \<and>
     rev_coherent (shortstatekey_cache s) statekey_enc (shortstatekey_statekey s) \<and>
     (\<forall>n k. shortstatekey_cache s n = Some k \<longrightarrow> sep \<notin> set (fst k))"

lemma bump_short_frame [simp]:
  "eventid_shorteventid (bump s) = eventid_shorteventid s"
  "shorteventid_eventid (bump s) = shorteventid_eventid s"
  "statekey_shortstatekey (bump s) = statekey_shortstatekey s"
  "shortstatekey_statekey (bump s) = shortstatekey_statekey s"
  "statehash_shortstatehash (bump s) = statehash_shortstatehash s"
  "roomid_shortroomid (bump s) = roomid_shortroomid s"
  "eventidshort_cache (bump s) = eventidshort_cache s"
  "shorteventid_cache (bump s) = shorteventid_cache s"
  "statekeyshort_cache (bump s) = statekeyshort_cache s"
  "shortstatekey_cache (bump s) = shortstatekey_cache s"
  "short_db.more (bump s) = short_db.more s"
  by (simp_all add: bump_def)

lemma count_short_update [simp]:
  "count (eventid_shorteventid_update f s) = count s"
  "count (shorteventid_eventid_update f s) = count s"
  "count (statekey_shortstatekey_update f s) = count s"
  "count (shortstatekey_statekey_update f s) = count s"
  "count (statehash_shortstatehash_update f s) = count s"
  "count (roomid_shortroomid_update f s) = count s"
  "count (eventidshort_cache_update g s) = count s"
  "count (shorteventid_cache_update h s) = count s"
  "count (statekeyshort_cache_update i s) = count s"
  "count (shortstatekey_cache_update j s) = count s"
  by (simp_all add: count_def)

lemma short_inv_bump: "short_inv s \<Longrightarrow> has_room s \<Longrightarrow> short_inv (bump s)"
  using count_less_next [of s] by (auto simp: short_inv_def intro: id_table_mono)

section \<open>What the operations do\<close>

lemma short_invD:
  assumes "short_inv s"
  shows "id_table (eventid_shorteventid s) (count s)"
    and "inverse_trees (eventid_shorteventid s) (shorteventid_eventid s)"
    and "id_table (statekey_shortstatekey s) (count s)"
    and "inverse_trees (statekey_shortstatekey s) (shortstatekey_statekey s)"
    and "id_table (statehash_shortstatehash s) (count s)"
    and "id_table (roomid_shortroomid s) (count s)"
    and "coherent (eventidshort_cache s) (\<lambda>e. e) (eventid_shorteventid s)"
    and "rev_coherent (shorteventid_cache s) (\<lambda>e. e) (shorteventid_eventid s)"
    and "coherent (statekeyshort_cache s) statekey_enc (statekey_shortstatekey s)"
    and "rev_coherent (shortstatekey_cache s) statekey_enc (shortstatekey_statekey s)"
    and "\<forall>n k. shortstatekey_cache s n = Some k \<longrightarrow> sep \<notin> set (fst k)"
  using assms by (simp_all add: short_inv_def)

definition event_known :: "event_id \<Rightarrow> u64 \<Rightarrow> 'a short_db_scheme \<Rightarrow> 'a short_db_scheme" where
  "event_known e n s = s\<lparr>eventidshort_cache := (eventidshort_cache s)(e \<mapsto> n)\<rparr>"

definition event_added :: "event_id \<Rightarrow> 'a short_db_scheme \<Rightarrow> 'a short_db_scheme" where
  "event_added e s = (bump s)
     \<lparr>eventid_shorteventid := kv_insert e (to_be_bytes (count s + 1)) (eventid_shorteventid s),
      shorteventid_eventid := kv_insert (to_be_bytes (count s + 1)) e (shorteventid_eventid s),
      eventidshort_cache := (eventidshort_cache s)(e \<mapsto> count s + 1)\<rparr>"

definition statekey_known :: "bytes \<times> bytes \<Rightarrow> u64 \<Rightarrow> 'a short_db_scheme \<Rightarrow> 'a short_db_scheme" where
  "statekey_known k n s = s\<lparr>statekeyshort_cache := (statekeyshort_cache s)(k \<mapsto> n)\<rparr>"

definition statekey_added :: "bytes \<times> bytes \<Rightarrow> 'a short_db_scheme \<Rightarrow> 'a short_db_scheme" where
  "statekey_added k s = (bump s)
     \<lparr>statekey_shortstatekey := kv_insert (statekey_enc k) (to_be_bytes (count s + 1)) (statekey_shortstatekey s),
      shortstatekey_statekey := kv_insert (to_be_bytes (count s + 1)) (statekey_enc k) (shortstatekey_statekey s),
      statekeyshort_cache := (statekeyshort_cache s)(k \<mapsto> count s + 1)\<rparr>"

definition statehash_added :: "bytes \<Rightarrow> 'a short_db_scheme \<Rightarrow> 'a short_db_scheme" where
  "statehash_added h s = (bump s)
     \<lparr>statehash_shortstatehash := kv_insert h (to_be_bytes (count s + 1)) (statehash_shortstatehash s)\<rparr>"

definition roomid_added :: "room_id \<Rightarrow> 'a short_db_scheme \<Rightarrow> 'a short_db_scheme" where
  "roomid_added r s = (bump s)
     \<lparr>roomid_shortroomid := kv_insert r (to_be_bytes (count s + 1)) (roomid_shortroomid s)\<rparr>"

lemma coherent_hit:
  "coherent c enc t \<Longrightarrow> c k = Some n \<Longrightarrow> kv_get t (enc k) = Some (to_be_bytes n)"
  by (simp add: coherent_def)

lemma get_or_create_shorteventid_known:
  assumes "short_inv s" and "id_of (eventid_shorteventid s) e = Some n"
  shows "get_or_create_shorteventid e s = (Inr n, event_known e n s)"
proof (cases "eventidshort_cache s e")
  case None
  with assms show ?thesis
    by (simp add: get_or_create_shorteventid_def event_known_def id_of_Some [OF short_invD(1)] op_simps)
next
  case (Some m)
  with assms have "m = n"
    using coherent_hit [OF short_invD(7) [OF assms(1)] Some] by (simp add: id_of_Some [OF short_invD(1)])
  with Some show ?thesis
    by (simp add: get_or_create_shorteventid_def event_known_def op_simps fun_upd_idem)
qed

lemma get_or_create_shorteventid_new:
  assumes "short_inv s" and "id_of (eventid_shorteventid s) e = None"
  shows "get_or_create_shorteventid e s = (Inr (count s + 1), event_added e s)"
proof (cases "eventidshort_cache s e")
  case None
  with assms show ?thesis
    by (simp add: get_or_create_shorteventid_def event_added_def id_of_None [OF short_invD(1)] op_simps)
next
  case (Some m)
  with assms show ?thesis
    using coherent_hit [OF short_invD(7) [OF assms(1)] Some] by (simp add: id_of_None [OF short_invD(1)])
qed

lemma get_or_create_shortstatekey_known:
  assumes "short_inv s" and "id_of (statekey_shortstatekey s) (statekey_enc k) = Some n"
  shows "get_or_create_shortstatekey (fst k) (snd k) s = (Inr n, statekey_known k n s)"
proof (cases "statekeyshort_cache s k")
  case None
  with assms show ?thesis
    by (simp add: get_or_create_shortstatekey_def Let_def statekey_known_def statekey_enc_def
        id_of_Some [OF short_invD(3)] op_simps)
next
  case (Some m)
  with assms have "m = n"
    using coherent_hit [OF short_invD(9) [OF assms(1)] Some] by (simp add: id_of_Some [OF short_invD(3)])
  with Some show ?thesis
    by (simp add: get_or_create_shortstatekey_def Let_def statekey_known_def op_simps fun_upd_idem)
qed

lemma get_or_create_shortstatekey_new:
  assumes "short_inv s" and "id_of (statekey_shortstatekey s) (statekey_enc k) = None"
  shows "get_or_create_shortstatekey (fst k) (snd k) s = (Inr (count s + 1), statekey_added k s)"
proof (cases "statekeyshort_cache s k")
  case None
  with assms show ?thesis
    by (simp add: get_or_create_shortstatekey_def Let_def statekey_added_def statekey_enc_def
        id_of_None [OF short_invD(3)] op_simps)
next
  case (Some m)
  with assms show ?thesis
    using coherent_hit [OF short_invD(9) [OF assms(1)] Some] by (simp add: id_of_None [OF short_invD(3)])
qed

lemma get_or_create_shortstatehash_known:
  assumes "short_inv s" and "id_of (statehash_shortstatehash s) h = Some n"
  shows "get_or_create_shortstatehash h s = (Inr (n, True), s)"
  using assms
  by (simp add: get_or_create_shortstatehash_def id_of_Some [OF short_invD(5)] op_simps)

lemma get_or_create_shortstatehash_new:
  assumes "short_inv s" and "id_of (statehash_shortstatehash s) h = None"
  shows "get_or_create_shortstatehash h s = (Inr (count s + 1, False), statehash_added h s)"
  using assms
  by (simp add: get_or_create_shortstatehash_def statehash_added_def id_of_None [OF short_invD(5)] op_simps)

lemma get_or_create_shortroomid_known:
  assumes "short_inv s" and "id_of (roomid_shortroomid s) r = Some n"
  shows "get_or_create_shortroomid r s = (Inr n, s)"
  using assms
  by (simp add: get_or_create_shortroomid_def id_of_Some [OF short_invD(6)] op_simps)

lemma get_or_create_shortroomid_new:
  assumes "short_inv s" and "id_of (roomid_shortroomid s) r = None"
  shows "get_or_create_shortroomid r s = (Inr (count s + 1), roomid_added r s)"
  using assms
  by (simp add: get_or_create_shortroomid_def roomid_added_def id_of_None [OF short_invD(6)] op_simps)

section \<open>Preservation\<close>

lemmas table_intros =
  id_table_insert inverse_trees_insert coherent_update coherent_insert rev_coherent_insert

lemma short_inv_event_known:
  assumes "short_inv s" and "id_of (eventid_shorteventid s) e = Some n"
  shows "short_inv (event_known e n s)"
  using assms short_invD [OF assms(1)]
  by (simp add: short_inv_def event_known_def id_of_Some [OF short_invD(1)] coherent_update)

lemma short_inv_statekey_known:
  assumes "short_inv s" and "id_of (statekey_shortstatekey s) (statekey_enc k) = Some n"
  shows "short_inv (statekey_known k n s)"
  using assms short_invD [OF assms(1)]
  by (simp add: short_inv_def statekey_known_def id_of_Some [OF short_invD(3)] coherent_update)

lemma short_inv_event_added:
  assumes inv: "short_inv s" and room: "has_room s" and new: "id_of (eventid_shorteventid s) e = None"
  shows "short_inv (event_added e s)"
proof -
  note b = short_invD [OF short_inv_bump [OF inv room], simplified]
  have none: "kv_get (eventid_shorteventid s) e = None"
    using new by (simp add: id_of_None [OF short_invD(1) [OF inv]])
  have fresh: "kv_get (eventid_shorteventid s) k \<noteq> Some (to_be_bytes (count s + 1))" for k
    by (rule id_table_fresh [OF short_invD(1) [OF inv] count_less_next [OF room]])
  have rfresh: "kv_get (shorteventid_eventid s) (to_be_bytes (count s + 1)) = None"
    by (rule inverse_trees_fresh [OF short_invD(2) [OF inv] fresh])
  show ?thesis
    unfolding short_inv_def event_added_def
    using b none fresh rfresh short_invD(1) [OF inv] count_less_next [OF room]
    by (simp add: table_intros)
qed

lemma short_inv_statekey_added:
  assumes inv: "short_inv s" and room: "has_room s"
    and new: "id_of (statekey_shortstatekey s) (statekey_enc k) = None"
  shows "short_inv (statekey_added k s)"
proof -
  note b = short_invD [OF short_inv_bump [OF inv room], simplified]
  have none: "kv_get (statekey_shortstatekey s) (statekey_enc k) = None"
    using new by (simp add: id_of_None [OF short_invD(3) [OF inv]])
  have fresh: "kv_get (statekey_shortstatekey s) k' \<noteq> Some (to_be_bytes (count s + 1))" for k'
    by (rule id_table_fresh [OF short_invD(3) [OF inv] count_less_next [OF room]])
  have rfresh: "kv_get (shortstatekey_statekey s) (to_be_bytes (count s + 1)) = None"
    by (rule inverse_trees_fresh [OF short_invD(4) [OF inv] fresh])
  show ?thesis
    unfolding short_inv_def statekey_added_def
    using b none fresh rfresh short_invD(3) [OF inv] count_less_next [OF room]
    by (simp add: table_intros)
qed

lemma short_inv_statehash_added:
  assumes "short_inv s" and "has_room s"
  shows "short_inv (statehash_added h s)"
  unfolding short_inv_def statehash_added_def
  using short_invD [OF short_inv_bump [OF assms], simplified] short_invD(5) [OF assms(1)]
    count_less_next [OF assms(2)]
  by (simp add: table_intros)

lemma short_inv_roomid_added:
  assumes "short_inv s" and "has_room s"
  shows "short_inv (roomid_added r s)"
  unfolding short_inv_def roomid_added_def
  using short_invD [OF short_inv_bump [OF assms], simplified] short_invD(6) [OF assms(1)]
    count_less_next [OF assms(2)]
  by (simp add: table_intros)

text \<open>An LRU cache may drop entries at any time: \<open>evict\<close> keeps only the entries of the given sets.\<close>

definition evict :: "event_id set \<Rightarrow> u64 set \<Rightarrow> (bytes \<times> bytes) set \<Rightarrow> u64 set \<Rightarrow>
    'a short_db_scheme \<Rightarrow> 'a short_db_scheme" where
  "evict A B C D s = s
     \<lparr>eventidshort_cache := eventidshort_cache s |` A,
      shorteventid_cache := shorteventid_cache s |` B,
      statekeyshort_cache := statekeyshort_cache s |` C,
      shortstatekey_cache := shortstatekey_cache s |` D\<rparr>"

lemma short_inv_evict: "short_inv s \<Longrightarrow> short_inv (evict A B C D s)"
  by (auto simp: short_inv_def evict_def coherent_def rev_coherent_def restrict_map_def split: if_splits)

section \<open>Reading ids back\<close>

lemma get_shortstatekey_eq:
  assumes "short_inv s"
  shows "\<exists>s'. get_shortstatekey ty sk s = (Inr (id_of (statekey_shortstatekey s) (statekey_enc (ty, sk))), s') \<and>
    short_inv s' \<and> (s' = s \<or> (\<exists>n. s' = statekey_known (ty, sk) n s))"
proof (cases "statekeyshort_cache s (ty, sk)")
  case (Some n)
  with assms coherent_hit [OF short_invD(9) [OF assms] Some] show ?thesis
    by (simp add: get_shortstatekey_def id_of_def op_simps)
next
  case None
  show ?thesis
  proof (cases "id_of (statekey_shortstatekey s) (statekey_enc (ty, sk))")
    case (Some n)
    then have "kv_get (statekey_shortstatekey s) (statekey_bytes ty sk) = Some (to_be_bytes n)"
      using assms by (simp add: statekey_enc_def id_of_Some [OF short_invD(3)])
    with None short_inv_statekey_known [OF assms Some] show ?thesis
      by (auto simp: get_shortstatekey_def statekey_enc_def statekey_known_def id_of_def op_simps)
  next
    case None' : None
    then have "kv_get (statekey_shortstatekey s) (statekey_bytes ty sk) = None"
      using assms by (simp add: statekey_enc_def id_of_None [OF short_invD(3)])
    with None assms show ?thesis
      by (simp add: get_shortstatekey_def statekey_enc_def id_of_def op_simps)
  qed
qed

lemma get_eventid_from_short_eq:
  assumes "short_inv s" and "id_of (eventid_shorteventid s) e = Some n"
    and "utf8_valid e" and "is_event_id R e"
  shows "get_eventid_from_short R n s =
    (Inr e, s\<lparr>shorteventid_cache := (shorteventid_cache s)(n \<mapsto> e)\<rparr>)"
proof -
  have "kv_get (shorteventid_eventid s) (to_be_bytes n) = Some e"
    using assms by (simp add: id_of_Some [OF short_invD(1)] inverse_treesD [OF short_invD(2)])
  moreover have "shorteventid_cache s n = Some e" if "shorteventid_cache s n \<noteq> None"
    using that calculation short_invD(8) [OF assms(1)] by (auto simp: rev_coherent_def)
  ultimately show ?thesis
    using assms(3,4) by (cases "shorteventid_cache s n")
      (simp_all add: get_eventid_from_short_def op_simps fun_upd_idem)
qed

lemma statekey_bytes_inject:
  "sep \<notin> set ty \<Longrightarrow> sep \<notin> set ty' \<Longrightarrow>
   statekey_bytes ty sk = statekey_bytes ty' sk' \<longleftrightarrow> ty = ty' \<and> sk = sk'"
  by (auto simp: statekey_bytes_def sep_join_inject)

lemma get_statekey_from_short_eq:
  assumes "short_inv s" and "id_of (statekey_shortstatekey s) (statekey_enc (ty, sk)) = Some n"
    and "utf8_valid ty" and "utf8_valid sk"
  shows "get_statekey_from_short n s =
    (Inr (ty, sk), s\<lparr>shortstatekey_cache := (shortstatekey_cache s)(n \<mapsto> (ty, sk))\<rparr>)"
proof -
  have stored: "kv_get (shortstatekey_statekey s) (to_be_bytes n) = Some (ty @ sep # sk)"
    using assms(1,2)
    by (simp add: id_of_Some [OF short_invD(3)] inverse_treesD [OF short_invD(4)]
        statekey_enc_def statekey_bytes_def)
  have hit: "k = (ty, sk)" if "shortstatekey_cache s n = Some k" for k
  proof -
    have "statekey_bytes (fst k) (snd k) = statekey_bytes ty sk"
      using that stored short_invD(10) [OF assms(1)]
      by (cases k) (auto simp: rev_coherent_def statekey_enc_def statekey_bytes_def)
    moreover have "sep \<notin> set (fst k)"
      using that short_invD(11) [OF assms(1)] by blast
    ultimately show ?thesis
      using utf8_no_sep [OF assms(3)] by (simp add: statekey_bytes_inject prod_eq_iff)
  qed
  show ?thesis
  proof (cases "shortstatekey_cache s n")
    case None
    with stored assms(3,4) utf8_no_sep [OF assms(3)] show ?thesis
      by (simp add: get_statekey_from_short_def op_simps splitn_sep_2 nth_part_def)
  next
    case (Some k)
    with hit [OF Some] show ?thesis
      by (simp add: get_statekey_from_short_def op_simps fun_upd_idem)
  qed
qed

text \<open>Both read-backs keep the invariant, whatever they return: they only fill their caches.\<close>

lemma short_inv_get_eventid_from_short:
  assumes "short_inv s"
  shows "short_inv (snd (get_eventid_from_short R n s))"
  using assms
  by (auto simp: get_eventid_from_short_def op_simps id_from_bytes_def parse_id_def string_from_bytes_def
      short_inv_def rev_coherent_update ok_or_def map_err_def bind_res_def split: option.splits sum.splits)

lemma short_inv_statekey_cached:
  assumes "short_inv s" and "kv_get (shortstatekey_statekey s) (to_be_bytes n) = Some b"
    and "nth_part (Suc 0) (splitn_sep 2 b) = Some x"
  shows "short_inv (s\<lparr>shortstatekey_cache := (shortstatekey_cache s)(n \<mapsto> (hd (splitn_sep 2 b), x))\<rparr>)"
  using assms(1,2) nth_part_splitn_2D [OF assms(3)]
  by (auto simp: short_inv_def statekey_enc_def statekey_bytes_def intro!: rev_coherent_update)

lemma short_inv_get_statekey_from_short:
  assumes "short_inv s"
  shows "short_inv (snd (get_statekey_from_short n s))"
proof (cases "shortstatekey_cache s n")
  case None
  show ?thesis
  proof (cases "kv_get (shortstatekey_statekey s) (to_be_bytes n)")
    case (Some b)
    with None assms short_inv_statekey_cached [OF assms Some] show ?thesis
      by (auto simp: get_statekey_from_short_def op_simps Let_def string_from_bytes_def ok_or_def
          split: option.splits)
  qed (use None assms in \<open>simp add: get_statekey_from_short_def op_simps\<close>)
qed (use assms in \<open>simp add: get_statekey_from_short_def op_simps\<close>)

section \<open>The contract of interning\<close>

locale interning =
  fixes inv :: "'s \<Rightarrow> bool"
    and room :: "'s \<Rightarrow> bool"
    and cnt :: "'s \<Rightarrow> u64"
    and ok :: "'k \<Rightarrow> bool"
    and lookup :: "'s \<Rightarrow> 'k \<Rightarrow> u64 option"
    and intern :: "'k \<Rightarrow> (error, 's, u64) op"
  assumes intern_known:
      "inv s \<Longrightarrow> ok k \<Longrightarrow> lookup s k = Some n \<Longrightarrow>
       \<exists>s'. intern k s = (Inr n, s') \<and> inv s' \<and> cnt s' = cnt s \<and>
         (\<forall>k'. ok k' \<longrightarrow> lookup s' k' = lookup s k')"
    and intern_new:
      "inv s \<Longrightarrow> ok k \<Longrightarrow> lookup s k = None \<Longrightarrow> room s \<Longrightarrow>
       \<exists>s'. intern k s = (Inr (cnt s + 1), s') \<and> inv s' \<and> cnt s' = cnt s + 1 \<and>
         (\<forall>k'. ok k' \<longrightarrow> lookup s' k' = (if k' = k then Some (cnt s + 1) else lookup s k'))"
    and lookup_inj:
      "inv s \<Longrightarrow> ok k \<Longrightarrow> ok k' \<Longrightarrow> lookup s k = Some n \<Longrightarrow> lookup s k' = Some n \<Longrightarrow> k = k'"
begin

lemma interned:
  assumes "inv s" and "ok k" and "lookup s k \<noteq> None \<or> room s"
  obtains n s' where "intern k s = (Inr n, s')" and "inv s'" and "lookup s' k = Some n"
    and "\<And>k' m. ok k' \<Longrightarrow> lookup s k' = Some m \<Longrightarrow> lookup s' k' = Some m"
proof (cases "lookup s k")
  case (Some n)
  with intern_known [OF assms(1,2)] assms(2) show thesis using that by metis
next
  case None
  with intern_new [OF assms(1,2) None] assms(2,3) show thesis using that by fastforce
qed

lemma idempotent:
  assumes "inv s" and "ok k" and "room s" and "intern k s = (Inr n, s')"
  shows "fst (intern k s') = Inr n \<and> lookup s' k = Some n"
proof -
  from interned [OF assms(1,2)] assms(3,4) have "inv s'" "lookup s' k = Some n"
    by (metis Inr_inject Pair_inject)+
  with intern_known [OF this(1) assms(2) this(2)] show ?thesis by auto
qed

lemma stable:
  assumes "inv s" and "ok k" and "room s" and "intern k s = (Inr n, s')"
    and "ok k'" and "lookup s k' = Some m"
  shows "lookup s' k' = Some m"
  using interned [OF assms(1,2)] assms(3-) by (metis Pair_inject)

lemma distinct_ids:
  assumes "inv s" and "ok k" and "room s" and "intern k s = (Inr n, s')"
    and "ok k'" and "room s'" and "intern k' s' = (Inr m, s'')"
  shows "n = m \<longleftrightarrow> k = k'"
proof -
  from interned [OF assms(1,2)] assms(3,4) have s': "inv s'" "lookup s' k = Some n"
    by (metis Inr_inject Pair_inject)+
  from interned [OF s'(1) assms(5)] assms(6,7) have s'': "inv s''" "lookup s'' k' = Some m"
    by (metis Inr_inject Pair_inject)+
  have "lookup s'' k = Some n"
    using stable [OF s'(1) assms(5,6,7,2) s'(2)] .
  with s'' lookup_inj [OF s''(1) assms(2,5)] show ?thesis by auto
qed

end

section \<open>The four kinds of ids\<close>

definition intern_hash :: "bytes \<Rightarrow> ('a short_db_scheme, u64) dop" where
  "intern_hash h = bind (get_or_create_shortstatehash h) (\<lambda>r. ret (fst r))"

lemma has_room_short [simp]:
  "has_room (event_known e n s) = has_room s" "count (event_known e n s) = count s"
  "has_room (statekey_known k n s) = has_room s" "count (statekey_known k n s) = count s"
  by (simp_all add: has_room_def event_known_def statekey_known_def)

lemma count_added [simp]:
  "count (event_added e s) = count s + 1" "count (statekey_added k s) = count s + 1"
  "count (statehash_added h s) = count s + 1" "count (roomid_added r s) = count s + 1"
  by (simp_all add: event_added_def statekey_added_def statehash_added_def roomid_added_def)

interpretation ev: interning short_inv has_room count "\<lambda>_. True"
  "\<lambda>s. id_of (eventid_shorteventid s)" get_or_create_shorteventid
proof (unfold_locales, goal_cases)
  case (1 s k n)
  then show ?case
    by (simp add: get_or_create_shorteventid_known short_inv_event_known)
       (simp add: event_known_def)
next
  case (2 s k)
  then show ?case
    by (simp add: get_or_create_shorteventid_new short_inv_event_added)
       (simp add: event_added_def)
next
  case (3 s k k' n)
  then show ?case using id_table_inj [OF short_invD(1)] by blast
qed

interpretation sk: interning short_inv has_room count "\<lambda>k. sep \<notin> set (fst k)"
  "\<lambda>s k. id_of (statekey_shortstatekey s) (statekey_enc k)"
  "\<lambda>k. get_or_create_shortstatekey (fst k) (snd k)"
proof (unfold_locales, goal_cases)
  case (1 s k n)
  then show ?case
    by (simp add: get_or_create_shortstatekey_known short_inv_statekey_known)
       (simp add: statekey_known_def)
next
  case (2 s k)
  then show ?case
    by (simp add: get_or_create_shortstatekey_new short_inv_statekey_added)
       (auto simp: statekey_added_def statekey_enc_def statekey_bytes_inject prod_eq_iff)
next
  case (3 s k k' n)
  then have "statekey_enc k = statekey_enc k'" using id_table_inj [OF short_invD(3)] by blast
  with 3 show ?case by (simp add: statekey_enc_def statekey_bytes_inject prod_eq_iff)
qed

interpretation sh: interning short_inv has_room count "\<lambda>_. True"
  "\<lambda>s. id_of (statehash_shortstatehash s)" intern_hash
proof (unfold_locales, goal_cases)
  case (1 s k n)
  then show ?case by (simp add: intern_hash_def get_or_create_shortstatehash_known op_simps)
next
  case (2 s k)
  then show ?case
    by (simp add: intern_hash_def get_or_create_shortstatehash_new short_inv_statehash_added op_simps)
       (simp add: statehash_added_def)
next
  case (3 s k k' n)
  then show ?case using id_table_inj [OF short_invD(5)] by blast
qed

interpretation rm: interning short_inv has_room count "\<lambda>_. True"
  "\<lambda>s. id_of (roomid_shortroomid s)" get_or_create_shortroomid
proof (unfold_locales, goal_cases)
  case (1 s k n)
  then show ?case by (simp add: get_or_create_shortroomid_known)
next
  case (2 s k)
  then show ?case
    by (simp add: get_or_create_shortroomid_new short_inv_roomid_added)
       (simp add: roomid_added_def)
next
  case (3 s k k' n)
  then show ?case using id_table_inj [OF short_invD(6)] by blast
qed

section \<open>Properties\<close>

definition short_init :: "servername \<Rightarrow> short_db" where
  "short_init name = globals_db.extend (globals_init name)
     \<lparr>short_db.eventid_shorteventid = kv_empty, shorteventid_eventid = kv_empty,
      statekey_shortstatekey = kv_empty, shortstatekey_statekey = kv_empty,
      statehash_shortstatehash = kv_empty, roomid_shortroomid = kv_empty,
      eventidshort_cache = Map.empty, shorteventid_cache = Map.empty,
      statekeyshort_cache = Map.empty, shortstatekey_cache = Map.empty\<rparr>"

lemma count_init [simp]: "global s = kv_empty \<Longrightarrow> count s = 0"
  by (simp add: count_def counter_at_def)

lemma short_inv_init:
  "short_inv (short_init name)" "has_room (short_init name)"
  by (simp_all add: short_inv_def short_init_def globals_init_def globals_db.defs has_room_def
      id_table_def inverse_trees_def coherent_def rev_coherent_def)

text \<open>C38: Interning an event id succeeds, and the short id it returns is turned back into that
  event id, also after the caches have lost entries.\<close>
theorem shorteventid_roundtrip:
  assumes "short_inv s" and "has_room s" and "utf8_valid e" and "is_event_id R e"
  shows "\<exists>n s'. get_or_create_shorteventid e s = (Inr n, s') \<and> short_inv s' \<and>
    fst (get_eventid_from_short R n (evict A B C D s')) = Inr e \<and>
    fst (get_or_create_shorteventid e (evict A B C D s')) = Inr n"
proof -
  obtain n s' where step: "get_or_create_shorteventid e s = (Inr n, s')" "short_inv s'"
    and id: "id_of (eventid_shorteventid s') e = Some n"
    using ev.interned [OF assms(1), of e] assms(2) by metis
  have "id_of (eventid_shorteventid (evict A B C D s')) e = Some n"
    using id by (simp add: evict_def)
  with step short_inv_evict [OF step(2)] assms(3,4) show ?thesis
    by (auto simp: get_eventid_from_short_eq get_or_create_shorteventid_known)
qed

theorem shorteventid_roundtrip_witness:
  "\<exists>n s'. get_or_create_shorteventid [36, 97] (short_init []) = (Inr n, s') \<and>
    fst (get_eventid_from_short
      \<lparr>is_event_id = \<lambda>b. hd b = 36, is_user_id = \<lambda>b. hd b = 64, is_room_id = \<lambda>b. hd b = 33,
       is_room_alias = \<lambda>b. hd b = 35, is_server_name = \<lambda>_. True, user_server = \<lambda>b. b\<rparr>
      n (evict {} {} {} {} s')) = Inr [36, 97]"
  using shorteventid_roundtrip [of "short_init []" "[36, 97]"
      "\<lparr>is_event_id = \<lambda>b. hd b = 36, is_user_id = \<lambda>b. hd b = 64, is_room_id = \<lambda>b. hd b = 33,
       is_room_alias = \<lambda>b. hd b = 35, is_server_name = \<lambda>_. True, user_server = \<lambda>b. b\<rparr>"
      "{}" "{}" "{}" "{}"]
  by (auto simp: short_inv_init)

text \<open>Interning a state key succeeds, and its short id is turned back into the event type and
  the state key, also after the caches have lost entries.\<close>
theorem shortstatekey_roundtrip:
  assumes "short_inv s" and "has_room s" and "utf8_valid ty" and "utf8_valid key"
  shows "\<exists>n s'. get_or_create_shortstatekey ty key s = (Inr n, s') \<and> short_inv s' \<and>
    fst (get_statekey_from_short n (evict A B C D s')) = Inr (ty, key) \<and>
    fst (get_shortstatekey ty key (evict A B C D s')) = Inr (Some n)"
proof -
  have "sep \<notin> set (fst (ty, key))" using utf8_no_sep [OF assms(3)] by simp
  then obtain n s' where step: "get_or_create_shortstatekey ty key s = (Inr n, s')" "short_inv s'"
    and id: "id_of (statekey_shortstatekey s') (statekey_enc (ty, key)) = Some n"
    using sk.interned [OF assms(1), of "(ty, key)"] assms(2) unfolding fst_conv snd_conv by metis
  let ?t = "evict A B C D s'"
  have id': "id_of (statekey_shortstatekey ?t) (statekey_enc (ty, key)) = Some n"
    using id by (simp add: evict_def)
  have inv': "short_inv ?t" by (rule short_inv_evict [OF step(2)])
  have "fst (get_statekey_from_short n ?t) = Inr (ty, key)"
    using get_statekey_from_short_eq [OF inv' id' assms(3,4)] by simp
  moreover have "fst (get_shortstatekey ty key ?t) = Inr (Some n)"
    using get_shortstatekey_eq [OF inv', of ty key] id' by auto
  ultimately show ?thesis using step by blast
qed

theorem shortstatekey_roundtrip_witness:
  "\<exists>n s'. get_or_create_shortstatekey [109] [97] (short_init []) = (Inr n, s') \<and>
    fst (get_statekey_from_short n (evict {} {} {} {} s')) = Inr ([109], [97])"
  using shortstatekey_roundtrip [of "short_init []" "[109]" "[97]" "{}" "{}" "{}" "{}"]
  by (auto simp: short_inv_init)

text \<open>C37: Two event ids are given the same short id exactly when they are equal, and likewise two
  room ids and two state hashes, whatever happened to be interned before.\<close>
theorem short_ids_distinct:
  assumes "short_inv s" and "has_room s" and "has_room s'"
  shows "(get_or_create_shorteventid k s = (Inr n, s') \<longrightarrow>
           get_or_create_shorteventid k' s' = (Inr m, s'') \<longrightarrow> (n = m \<longleftrightarrow> k = k')) \<and>
         (get_or_create_shortroomid k s = (Inr n, s') \<longrightarrow>
           get_or_create_shortroomid k' s' = (Inr m, s'') \<longrightarrow> (n = m \<longleftrightarrow> k = k')) \<and>
         (get_or_create_shortstatehash k s = (Inr (n, known), s') \<longrightarrow>
           get_or_create_shortstatehash k' s' = (Inr (m, known'), s'') \<longrightarrow> (n = m \<longleftrightarrow> k = k'))"
proof (intro conjI impI)
  show "n = m \<longleftrightarrow> k = k'"
    if "get_or_create_shorteventid k s = (Inr n, s')" "get_or_create_shorteventid k' s' = (Inr m, s'')"
    using ev.distinct_ids [OF assms(1) _ assms(2) that(1) _ assms(3) that(2)] by simp
  show "n = m \<longleftrightarrow> k = k'"
    if "get_or_create_shortroomid k s = (Inr n, s')" "get_or_create_shortroomid k' s' = (Inr m, s'')"
    using rm.distinct_ids [OF assms(1) _ assms(2) that(1) _ assms(3) that(2)] by simp
  show "n = m \<longleftrightarrow> k = k'"
    if "get_or_create_shortstatehash k s = (Inr (n, known), s')"
      "get_or_create_shortstatehash k' s' = (Inr (m, known'), s'')"
    using sh.distinct_ids [OF assms(1) _ assms(2), of k n s' k' m s''] that assms(3)
    by (simp add: intern_hash_def op_simps)
qed

theorem short_ids_distinct_witness:
  "get_or_create_shortroomid [33, 97] (short_init []) = (Inr 1, roomid_added [33, 97] (short_init [])) \<and>
   get_or_create_shortroomid [33, 98] (roomid_added [33, 97] (short_init [])) =
     (Inr 2, roomid_added [33, 98] (roomid_added [33, 97] (short_init []))) \<and>
   ((1 :: u64) = 2 \<longleftrightarrow> [33, 97] = [33, 98 :: 8 word])"
proof -
  have init: "id_of (roomid_shortroomid (short_init [])) k = None" "count (short_init []) = 0" for k
    by (simp_all add: short_init_def globals_init_def globals_db.defs id_of_def)
  have one: "get_or_create_shortroomid [33, 97] (short_init []) =
      (Inr 1, roomid_added [33, 97] (short_init []))"
    by (simp add: get_or_create_shortroomid_new short_inv_init init)
  have room: "has_room (roomid_added [33, 97] (short_init []))"
    by (simp add: has_room_def init)
  have "id_of (roomid_shortroomid (roomid_added [33, 97] (short_init []))) [33, 98] = None"
    unfolding roomid_added_def by (simp add: init)
  then have two: "get_or_create_shortroomid [33, 98] (roomid_added [33, 97] (short_init [])) =
      (Inr 2, roomid_added [33, 98] (roomid_added [33, 97] (short_init [])))"
    by (simp add: get_or_create_shortroomid_new short_inv_roomid_added short_inv_init init)
  show ?thesis
    using one two short_ids_distinct [OF short_inv_init room, where k = "[33, 97]" and n = 1 and
        k' = "[33, 98]" and m = 2 and s'' = "roomid_added [33, 98] (roomid_added [33, 97] (short_init []))"]
    by blast
qed

end
