(* ===== verification/Pdu.thy ===== *)
theory Pdu
  imports Json Short
begin

text \<open>
  Events (\<^verbatim>\<open>src/service/pdu.rs\<close>): the struct, the JSON form that serde derives for it, the
  views of an event that are sent to clients and servers, and redaction. Ruma's reference hash is
  a parameter.
\<close>

section \<open>The event and its JSON form\<close>

record PduEvent =
  event_id :: event_id
  room_id :: room_id
  sender :: user_id
  origin_server_ts :: nat
  kind :: bytes
  content :: json
  state_key :: "bytes option"
  prev_events :: "event_id list"
  depth :: nat
  auth_events :: "event_id list"
  redacts :: "event_id option"
  unsigned :: "json option"
  hashes :: bytes
  signatures :: "json option"

definition MAX_UINT :: nat where
  "MAX_UINT = 9007199254740991"

definition j_opt :: "bytes \<Rightarrow> ('a \<Rightarrow> json) \<Rightarrow> 'a option \<Rightarrow> (bytes \<times> json) list" where
  "j_opt k f m = (case m of None \<Rightarrow> [] | Some x \<Rightarrow> [(k, f x)])"

definition json_of_pdu :: "PduEvent \<Rightarrow> json" where
  "json_of_pdu p = JObj (obj_of (
     [(ascii ''event_id'', JStr (event_id p)),
      (ascii ''room_id'', JStr (room_id p)),
      (ascii ''sender'', JStr (sender p)),
      (ascii ''origin_server_ts'', JInt (int (origin_server_ts p))),
      (ascii ''type'', JStr (kind p)),
      (ascii ''content'', content p)] @
     j_opt (ascii ''state_key'') JStr (state_key p) @
     [(ascii ''prev_events'', JArr (map JStr (prev_events p))),
      (ascii ''depth'', JInt (int (depth p))),
      (ascii ''auth_events'', JArr (map JStr (auth_events p)))] @
     j_opt (ascii ''redacts'') JStr (redacts p) @
     j_opt (ascii ''unsigned'') (\<lambda>j. j) (unsigned p) @
     [(ascii ''hashes'', JObj [(ascii ''sha256'', JStr (hashes p))])] @
     j_opt (ascii ''signatures'') (\<lambda>j. j) (signatures p)))"

definition p_id :: "(bytes \<Rightarrow> bool) \<Rightarrow> json \<Rightarrow> bytes option" where
  "p_id ok j = Option.bind (as_string j) (\<lambda>s. if ok s then Some s else None)"

definition p_uint :: "json \<Rightarrow> nat option" where
  "p_uint j = (case j of JInt i \<Rightarrow> if 0 \<le> i \<and> nat i \<le> MAX_UINT then Some (nat i) else None | _ \<Rightarrow> None)"

fun p_all :: "('a \<Rightarrow> 'b option) \<Rightarrow> 'a list \<Rightarrow> 'b list option" where
  "p_all f [] = Some []"
| "p_all f (x # xs) = Option.bind (f x) (\<lambda>y. map_option ((#) y) (p_all f xs))"

definition p_ids :: "(bytes \<Rightarrow> bool) \<Rightarrow> json \<Rightarrow> bytes list option" where
  "p_ids ok j = (case j of JArr js \<Rightarrow> p_all (p_id ok) js | _ \<Rightarrow> None)"

text \<open>An optional field may be absent or null.\<close>

definition p_opt :: "jobj \<Rightarrow> bytes \<Rightarrow> (json \<Rightarrow> 'a option) \<Rightarrow> 'a option option" where
  "p_opt ob k f = (case obj_get ob k of
       None \<Rightarrow> Some None
     | Some j \<Rightarrow> if j = JNull then Some None else map_option Some (f j))"

definition p_hash :: "json \<Rightarrow> bytes option" where
  "p_hash j = Option.bind (as_object j) (\<lambda>ob. Option.bind (obj_get ob (ascii ''sha256'')) as_string)"

definition pdu_of_json :: "ruma \<Rightarrow> json \<Rightarrow> PduEvent option" where
  "pdu_of_json R j =
     Option.bind (as_object j) (\<lambda>ob. let get = (\<lambda>k f. Option.bind (obj_get ob (ascii k)) f) in
     Option.bind (get ''event_id'' (p_id (is_event_id R))) (\<lambda>e_id.
     Option.bind (get ''room_id'' (p_id (is_room_id R))) (\<lambda>r_id.
     Option.bind (get ''sender'' (p_id (is_user_id R))) (\<lambda>snd_id.
     Option.bind (Option.bind (obj_get ob (ascii ''origin_server_ts'')) p_uint) (\<lambda>ts.
     Option.bind (get ''type'' as_string) (\<lambda>ty.
     Option.bind (obj_get ob (ascii ''content'')) (\<lambda>cont.
     Option.bind (p_opt ob (ascii ''state_key'') as_string) (\<lambda>skey.
     Option.bind (Option.bind (obj_get ob (ascii ''prev_events'')) (p_ids (is_event_id R))) (\<lambda>prev.
     Option.bind (Option.bind (obj_get ob (ascii ''depth'')) p_uint) (\<lambda>dep.
     Option.bind (Option.bind (obj_get ob (ascii ''auth_events'')) (p_ids (is_event_id R))) (\<lambda>auth.
     Option.bind (p_opt ob (ascii ''redacts'') (p_id (is_event_id R))) (\<lambda>red.
     Option.bind (p_opt ob (ascii ''unsigned'') Some) (\<lambda>uns.
     Option.bind (get ''hashes'' p_hash) (\<lambda>hsh.
     Option.bind (p_opt ob (ascii ''signatures'') Some) (\<lambda>sigs.
     Some \<lparr>event_id = e_id, room_id = r_id, sender = snd_id, origin_server_ts = ts, kind = ty,
       content = cont, state_key = skey, prev_events = prev, depth = dep, auth_events = auth,
       redacts = red, unsigned = uns, hashes = hsh, signatures = sigs\<rparr>)))))))))))))))"

section \<open>Redaction\<close>

definition allowed_keys :: "bytes \<Rightarrow> bytes list" where
  "allowed_keys ty =
     (if ty = ascii ''m.room.member'' then
        [ascii ''join_authorised_via_users_server'', ascii ''membership'']
      else if ty = ascii ''m.room.create'' then [ascii ''creator'']
      else if ty = ascii ''m.room.join_rules'' then [ascii ''join_rule'']
      else if ty = ascii ''m.room.power_levels'' then
        [ascii ''ban'', ascii ''events'', ascii ''events_default'', ascii ''kick'', ascii ''redact'',
         ascii ''state_default'', ascii ''users'', ascii ''users_default'']
      else if ty = ascii ''m.room.history_visibility'' then [ascii ''history_visibility'']
      else [])"

definition keep_allowed :: "bytes list \<Rightarrow> jobj \<Rightarrow> jobj" where
  "keep_allowed allowed old_content =
     snd (fold (\<lambda>key (old_content, new_content).
            case obj_get old_content key of
              Some value \<Rightarrow> (obj_remove key old_content, obj_insert key value new_content)
            | None \<Rightarrow> (old_content, new_content)) allowed (old_content, []))"

text \<open>On an error the event keeps its cleared \<open>unsigned\<close>; the callers drop it then.\<close>

definition redact :: "PduEvent \<Rightarrow> PduEvent \<Rightarrow> PduEvent res" where
  "redact reason p =
     (case as_object (content p) of
        None \<Rightarrow> Inl (BadDatabase ''PDU in db has invalid content.'')
      | Some old_content \<Rightarrow>
          Inr (p\<lparr>unsigned := Some (JObj [(ascii ''redacted_because'', json_of_pdu reason)]),
                 content := JObj (keep_allowed (allowed_keys (kind p)) old_content)\<rparr>))"

definition remove_transaction_id :: "PduEvent \<Rightarrow> PduEvent res" where
  "remove_transaction_id p =
     (case unsigned p of
        None \<Rightarrow> Inr p
      | Some u \<Rightarrow>
          (case as_object u of
             None \<Rightarrow> Inl (BadDatabase ''Invalid unsigned in pdu event'')
           | Some ob \<Rightarrow> Inr (p\<lparr>unsigned := Some (JObj (obj_remove (ascii ''transaction_id'') ob))\<rparr>)))"

section \<open>Views\<close>

definition j_null :: "('a \<Rightarrow> json) \<Rightarrow> 'a option \<Rightarrow> json" where
  "j_null f m = (case m of None \<Rightarrow> JNull | Some x \<Rightarrow> f x)"

definition sync_fields :: "PduEvent \<Rightarrow> (bytes \<times> json) list" where
  "sync_fields p =
     [(ascii ''content'', content p),
      (ascii ''type'', JStr (kind p)),
      (ascii ''event_id'', JStr (event_id p)),
      (ascii ''sender'', JStr (sender p)),
      (ascii ''origin_server_ts'', JInt (int (origin_server_ts p))),
      (ascii ''unsigned'', j_null (\<lambda>j. j) (unsigned p))]"

definition to_sync_room_event :: "PduEvent \<Rightarrow> json" where
  "to_sync_room_event p = JObj (obj_of (sync_fields p @
     j_opt (ascii ''state_key'') JStr (state_key p) @ j_opt (ascii ''redacts'') JStr (redacts p)))"

definition to_any_event :: "PduEvent \<Rightarrow> json" where
  "to_any_event p = JObj (obj_of (sync_fields p @ [(ascii ''room_id'', JStr (room_id p))] @
     j_opt (ascii ''state_key'') JStr (state_key p) @ j_opt (ascii ''redacts'') JStr (redacts p)))"

definition to_room_event :: "PduEvent \<Rightarrow> json" where
  "to_room_event p = JObj (obj_of (sync_fields p @ [(ascii ''room_id'', JStr (room_id p))] @
     j_opt (ascii ''state_key'') JStr (state_key p) @ j_opt (ascii ''redacts'') JStr (redacts p)))"

definition to_state_event :: "PduEvent \<Rightarrow> json" where
  "to_state_event p = JObj (obj_of (sync_fields p @
     [(ascii ''room_id'', JStr (room_id p)), (ascii ''state_key'', j_null JStr (state_key p))]))"

definition to_sync_state_event :: "PduEvent \<Rightarrow> json" where
  "to_sync_state_event p = JObj (obj_of (sync_fields p @ [(ascii ''state_key'', j_null JStr (state_key p))]))"

definition to_stripped_state_event :: "PduEvent \<Rightarrow> json" where
  "to_stripped_state_event p = JObj (obj_of
     [(ascii ''content'', content p),
      (ascii ''type'', JStr (kind p)),
      (ascii ''sender'', JStr (sender p)),
      (ascii ''state_key'', j_null JStr (state_key p))])"

definition to_member_event :: "PduEvent \<Rightarrow> json" where
  "to_member_event p = JObj (obj_of (sync_fields p @
     [(ascii ''redacts'', j_null JStr (redacts p)),
      (ascii ''room_id'', JStr (room_id p)), (ascii ''state_key'', j_null JStr (state_key p))]))"

definition convert_to_outgoing_federation_event :: "jobj \<Rightarrow> json" where
  "convert_to_outgoing_federation_event pdu_json =
     JObj (obj_remove (ascii ''event_id'')
       (case Option.bind (obj_get pdu_json (ascii ''unsigned'')) as_object of
          None \<Rightarrow> pdu_json
        | Some uns \<Rightarrow>
            obj_insert (ascii ''unsigned'') (JObj (obj_remove (ascii ''transaction_id'') uns)) pdu_json))"

definition from_id_val :: "ruma \<Rightarrow> event_id \<Rightarrow> jobj \<Rightarrow> PduEvent option" where
  "from_id_val R e json = pdu_of_json R (JObj (obj_insert (ascii ''event_id'') (JStr e) json))"

text \<open>\<open>reference_hash\<close> hashes the canonical JSON of the event for a room version.\<close>

definition gen_event_id_canonical_json ::
    "ruma \<Rightarrow> (bytes \<Rightarrow> json option) \<Rightarrow> (jobj \<Rightarrow> bytes \<Rightarrow> bytes option) \<Rightarrow> bytes \<Rightarrow> bytes \<Rightarrow> (event_id \<times> jobj) res" where
  "gen_event_id_canonical_json R parse reference_hash pdu room_version_id =
     bind_res (ok_or (BadServerResponse ''Invalid PDU in server response'') (Option.bind (parse pdu) as_object)) (\<lambda>value.
     bind_res (ok_or (Panic ''ruma can calculate reference hashes'') (reference_hash value room_version_id)) (\<lambda>hash.
     let e = ascii ''$'' @ hash in
     if is_event_id R e then Inr (e, value) else Inl (Panic (''ruma'' @ [CHR 0x27] @ ''s reference hashes are valid event ids''))))"

section \<open>Lemmas\<close>

definition pdu_ok :: "ruma \<Rightarrow> PduEvent \<Rightarrow> bool" where
  "pdu_ok R p \<longleftrightarrow> is_event_id R (event_id p) \<and> is_room_id R (room_id p) \<and> is_user_id R (sender p) \<and>
     origin_server_ts p \<le> MAX_UINT \<and> depth p \<le> MAX_UINT \<and>
     list_all (is_event_id R) (prev_events p) \<and> list_all (is_event_id R) (auth_events p) \<and>
     (case redacts p of None \<Rightarrow> True | Some e \<Rightarrow> is_event_id R e) \<and>
     unsigned p \<noteq> Some JNull \<and> signatures p \<noteq> Some JNull"

definition pdu_fields :: "PduEvent \<Rightarrow> jobj" where
  "pdu_fields p = the (as_object (json_of_pdu p))"

lemma json_of_pdu_fields: "json_of_pdu p = JObj (pdu_fields p)"
  by (simp add: pdu_fields_def json_of_pdu_def)

lemma pdu_fields_get [simp]:
  "obj_get (pdu_fields p) (ascii ''event_id'') = Some (JStr (event_id p))"
  "obj_get (pdu_fields p) (ascii ''room_id'') = Some (JStr (room_id p))"
  "obj_get (pdu_fields p) (ascii ''sender'') = Some (JStr (sender p))"
  "obj_get (pdu_fields p) (ascii ''origin_server_ts'') = Some (JInt (int (origin_server_ts p)))"
  "obj_get (pdu_fields p) (ascii ''type'') = Some (JStr (kind p))"
  "obj_get (pdu_fields p) (ascii ''content'') = Some (content p)"
  "obj_get (pdu_fields p) (ascii ''state_key'') = map_option JStr (state_key p)"
  "obj_get (pdu_fields p) (ascii ''prev_events'') = Some (JArr (map JStr (prev_events p)))"
  "obj_get (pdu_fields p) (ascii ''depth'') = Some (JInt (int (depth p)))"
  "obj_get (pdu_fields p) (ascii ''auth_events'') = Some (JArr (map JStr (auth_events p)))"
  "obj_get (pdu_fields p) (ascii ''redacts'') = map_option JStr (redacts p)"
  "obj_get (pdu_fields p) (ascii ''unsigned'') = unsigned p"
  "obj_get (pdu_fields p) (ascii ''hashes'') = Some (JObj [(ascii ''sha256'', JStr (hashes p))])"
  "obj_get (pdu_fields p) (ascii ''signatures'') = signatures p"
  by (simp_all add: pdu_fields_def json_of_pdu_def obj_get_of j_opt_def map_add_def split: option.split)

lemma p_all_ids: "list_all ok xs \<Longrightarrow> p_all (p_id ok) (map JStr xs) = Some xs"
  by (induction xs) (auto simp: p_id_def)

lemma p_uint_int: "n \<le> MAX_UINT \<Longrightarrow> p_uint (JInt (int n)) = Some n"
  by (simp add: p_uint_def)

lemma pdu_of_json_of_pdu:
  assumes "pdu_ok R p"
  shows "pdu_of_json R (json_of_pdu p) = Some p"
proof -
  have "p_opt (pdu_fields p) (ascii ''state_key'') as_string = Some (state_key p)"
    "p_opt (pdu_fields p) (ascii ''redacts'') (p_id (is_event_id R)) = Some (redacts p)"
    "p_opt (pdu_fields p) (ascii ''unsigned'') Some = Some (unsigned p)"
    "p_opt (pdu_fields p) (ascii ''signatures'') Some = Some (signatures p)"
    using assms by (auto simp: p_opt_def pdu_ok_def p_id_def split: option.splits)
  with assms show ?thesis
    by (simp add: pdu_of_json_def json_of_pdu_fields pdu_ok_def p_ids_def p_all_ids p_uint_int p_hash_def p_id_def)
qed

lemma json_ok_of_pdu:
  assumes "utf8_valid (event_id p)" and "utf8_valid (room_id p)" and "utf8_valid (sender p)"
    and "utf8_valid (kind p)" and "utf8_valid (hashes p)" and "json_ok (content p)"
    and "\<forall>k. state_key p = Some k \<longrightarrow> utf8_valid k" and "\<forall>e \<in> set (prev_events p) \<union> set (auth_events p). utf8_valid e"
    and "\<forall>e. redacts p = Some e \<longrightarrow> utf8_valid e" and "\<forall>j. unsigned p = Some j \<longrightarrow> json_ok j"
    and "\<forall>j. signatures p = Some j \<longrightarrow> json_ok j"
  shows "json_ok (json_of_pdu p)"
  unfolding json_of_pdu_def
  by (rule json_ok_obj_of) (use assms in \<open>auto simp: j_opt_def utf8_valid_ascii split: option.splits\<close>)

lemma keep_allowed_fold:
  "distinct allowed \<Longrightarrow>
   obj_get (snd (fold (\<lambda>key (old_content, new_content).
            case obj_get old_content key of
              Some value \<Rightarrow> (obj_remove key old_content, obj_insert key value new_content)
            | None \<Rightarrow> (old_content, new_content)) allowed (oc, nc))) k =
   (if k \<in> set allowed \<and> obj_get oc k \<noteq> None then obj_get oc k else obj_get nc k)"
  by (induction allowed arbitrary: oc nc) (auto split: option.splits)

lemma keep_allowed_get:
  "distinct allowed \<Longrightarrow> obj_get (keep_allowed allowed ob) k = (if k \<in> set allowed then obj_get ob k else None)"
  unfolding keep_allowed_def by (simp add: keep_allowed_fold)

lemma keep_allowed_ok: "obj_ok (keep_allowed allowed ob)"
proof -
  have "obj_ok nc \<Longrightarrow> obj_ok (snd (fold (\<lambda>key (old_content, new_content).
            case obj_get old_content key of
              Some value \<Rightarrow> (obj_remove key old_content, obj_insert key value new_content)
            | None \<Rightarrow> (old_content, new_content)) allowed (oc, nc)))" for oc nc
    by (induction allowed arbitrary: oc nc) (auto simp: obj_ok_insert split: option.splits)
  then show ?thesis unfolding keep_allowed_def by simp
qed

lemma distinct_allowed_keys: "distinct (allowed_keys ty)"
  by (simp add: allowed_keys_def)

section \<open>Properties\<close>

text \<open>C34: An event with well-formed ids is read back from its JSON form unchanged.\<close>
theorem pdu_json_roundtrip:
  assumes "pdu_ok R p"
  shows "pdu_of_json R (json_of_pdu p) = Some p"
  by (rule pdu_of_json_of_pdu [OF assms])

definition example_ruma :: ruma where
  "example_ruma =
     \<lparr>is_event_id = \<lambda>b. b \<noteq> [] \<and> hd b = 36, is_user_id = \<lambda>b. b \<noteq> [] \<and> hd b = 64,
      is_room_id = \<lambda>b. b \<noteq> [] \<and> hd b = 33, is_room_alias = \<lambda>b. b \<noteq> [] \<and> hd b = 35,
      is_server_name = \<lambda>b. b \<noteq> [], user_server = \<lambda>b. tl (dropWhile (\<lambda>c. c \<noteq> 58) b)\<rparr>"

definition example_pdu :: PduEvent where
  "example_pdu =
     \<lparr>event_id = ascii ''$e'', room_id = ascii ''!r:h'', sender = ascii ''@u:h'', origin_server_ts = 5,
      kind = ascii ''m.room.member'',
      content = JObj (obj_of [(ascii ''membership'', JStr (ascii ''join'')), (ascii ''displayname'', JStr (ascii ''U''))]),
      state_key = Some (ascii ''@u:h''), prev_events = [ascii ''$p''], depth = 2, auth_events = [ascii ''$c''],
      redacts = None, unsigned = Some (JObj [(ascii ''transaction_id'', JStr (ascii ''t''))]),
      hashes = ascii ''x'', signatures = None\<rparr>"

lemma example_pdu_ok: "pdu_ok example_ruma example_pdu"
  by (simp add: pdu_ok_def example_ruma_def example_pdu_def MAX_UINT_def ascii_simps)

lemma example_pdu_json_ok: "json_ok (json_of_pdu example_pdu)"
proof (rule json_ok_of_pdu)
  show "json_ok (content example_pdu)"
    unfolding example_pdu_def PduEvent.simps by (rule json_ok_obj_of) (simp add: utf8_valid_ascii)
qed (auto simp: example_pdu_def utf8_valid_ascii)

theorem pdu_json_roundtrip_witness:
  "pdu_of_json example_ruma (json_of_pdu example_pdu) = Some example_pdu"
  using pdu_json_roundtrip [OF example_pdu_ok] by simp


text \<open>C36: The form of an event sent to other servers carries neither an event id nor a transaction
  id, and is otherwise the stored form.\<close>
theorem outgoing_event_stripped:
  "\<exists>ob. convert_to_outgoing_federation_event json = JObj ob \<and>
     obj_get ob (ascii ''event_id'') = None \<and>
     (\<forall>u. obj_get ob (ascii ''unsigned'') = Some (JObj u) \<longrightarrow> obj_get u (ascii ''transaction_id'') = None) \<and>
     (\<forall>k. k \<noteq> ascii ''event_id'' \<longrightarrow> k \<noteq> ascii ''unsigned'' \<longrightarrow> obj_get ob k = obj_get json k)"
  by (auto simp: convert_to_outgoing_federation_event_def as_object_Some split: bind_splits option.splits)

theorem outgoing_event_stripped_witness:
  "\<exists>ob. convert_to_outgoing_federation_event (pdu_fields example_pdu) = JObj ob \<and>
     obj_get ob (ascii ''event_id'') = None \<and> obj_get ob (ascii ''sender'') = Some (JStr (ascii ''@u:h''))"
proof -
  obtain ob where "convert_to_outgoing_federation_event (pdu_fields example_pdu) = JObj ob"
    "obj_get ob (ascii ''event_id'') = None"
    "\<And>k. k \<noteq> ascii ''event_id'' \<Longrightarrow> k \<noteq> ascii ''unsigned'' \<Longrightarrow> obj_get ob k = obj_get (pdu_fields example_pdu) k"
    using outgoing_event_stripped [of "pdu_fields example_pdu"] by blast
  then show ?thesis by (simp add: example_pdu_def)
qed

end
