(* ===== verification/StateCompressor.thy ===== *)
theory StateCompressor
  imports Short
begin

text \<open>
  The state compressor (\<^verbatim>\<open>src/service/rooms/state_compressor/mod.rs\<close> and
  \<^verbatim>\<open>src/database/key_value/rooms/state_compressor.rs\<close>): a room state is a set of compressed
  state events (short state key followed by short event id), stored as a diff to another state in
  at most four layers. A \<^verbatim>\<open>HashSet\<close> is a set; where the code iterates over one, the
  order is the argument \<open>iter\<close>. The recursion of \<open>load_shortstatehash_info\<close> runs on fuel
  that suffices for every chain of diffs in which the parent was created before the child.
\<close>

section \<open>Data\<close>

type_synonym CompressedStateEvent = bytes

record StateDiff =
  parent :: "u64 option"
  added :: "CompressedStateEvent set"
  removed :: "CompressedStateEvent set"

text \<open>shortstatehash, full state, added diff, removed diff\<close>

type_synonym layer = "u64 \<times> CompressedStateEvent set \<times> CompressedStateEvent set \<times> CompressedStateEvent set"

abbreviation layer_hash :: "layer \<Rightarrow> u64" where "layer_hash l \<equiv> fst l"
abbreviation layer_state :: "layer \<Rightarrow> CompressedStateEvent set" where "layer_state l \<equiv> fst (snd l)"
abbreviation layer_added :: "layer \<Rightarrow> CompressedStateEvent set" where "layer_added l \<equiv> fst (snd (snd l))"
abbreviation layer_removed :: "layer \<Rightarrow> CompressedStateEvent set" where "layer_removed l \<equiv> snd (snd (snd l))"

record compressor_db = short_db +
  shortstatehash_statediff :: kv_tree
  roomid_shortstatehash :: kv_tree
  stateinfo_cache :: "u64 \<Rightarrow> layer list option"

text \<open>What is relied on of the iteration order of a hash set.\<close>

definition iteration :: "('a set \<Rightarrow> 'a list) \<Rightarrow> bool" where
  "iteration iter \<longleftrightarrow> (\<forall>S. finite S \<longrightarrow> set (iter S) = S \<and> distinct (iter S))"

lemma iterationD: "iteration iter \<Longrightarrow> finite S \<Longrightarrow> set (iter S) = S"
  by (simp add: iteration_def)

lemma iteration_sorted: "iteration (sorted_list_of_set :: 'a::linorder set \<Rightarrow> 'a list)"
  by (simp add: iteration_def)

section \<open>Operations\<close>

definition ZERO8 :: bytes where
  "ZERO8 = to_be_bytes 0"

function parse_diff :: "bool \<Rightarrow> bytes \<Rightarrow> CompressedStateEvent set \<times> CompressedStateEvent set" where
  "parse_diff add_mode value =
     (if length value < 16 then ({}, {})
      else if add_mode \<and> prefix ZERO8 value then parse_diff False (drop 8 value)
      else (case parse_diff add_mode (drop 16 value) of (a, r) \<Rightarrow>
        (if add_mode then (insert (take 16 value) a, r) else (a, insert (take 16 value) r))))"
  by pat_completeness auto
termination
  by (relation "measure (\<lambda>(_, value). length value)") auto

declare parse_diff.simps [simp del]

definition decode_diff :: "bytes \<Rightarrow> StateDiff res" where
  "decode_diff value =
     (if length value < 8 then Inl (Panic ''range end index 8 out of range'')
      else bind_res (map_err (Panic ''bytes have right length'') (u64_from_bytes (take 8 value))) (\<lambda>p.
        case parse_diff True (drop 8 value) of (a, r) \<Rightarrow>
          Inr \<lparr>parent = (if p \<noteq> 0 then Some p else None), added = a, removed = r\<rparr>))"

definition get_statediff :: "u64 \<Rightarrow> 'a compressor_db_scheme \<Rightarrow> StateDiff res" where
  "get_statediff shortstatehash s =
     bind_res (ok_or (BadDatabase ''State hash does not exist'')
       (kv_get (shortstatehash_statediff s) (to_be_bytes shortstatehash))) decode_diff"

definition encode_diff :: "(bytes set \<Rightarrow> bytes list) \<Rightarrow> StateDiff \<Rightarrow> bytes" where
  "encode_diff iter diff =
     to_be_bytes (case parent diff of None \<Rightarrow> 0 | Some p \<Rightarrow> p) @ concat (iter (added diff)) @
     (if removed diff \<noteq> {} then ZERO8 @ concat (iter (removed diff)) else [])"

definition save_statediff ::
    "(bytes set \<Rightarrow> bytes list) \<Rightarrow> u64 \<Rightarrow> StateDiff \<Rightarrow> ('a compressor_db_scheme, unit) dop" where
  "save_statediff iter shortstatehash diff =
     modify (\<lambda>s. s\<lparr>shortstatehash_statediff :=
       kv_insert (to_be_bytes shortstatehash) (encode_diff iter diff) (shortstatehash_statediff s)\<rparr>)"

fun load_info_fuel :: "nat \<Rightarrow> u64 \<Rightarrow> ('a compressor_db_scheme, layer list) dop" where
  "load_info_fuel 0 shortstatehash = fail (Panic ''stack overflow'')"
| "load_info_fuel (Suc n) shortstatehash =
     bind (gets (\<lambda>s. stateinfo_cache s shortstatehash)) (\<lambda>hit.
     case hit of
       Some r \<Rightarrow> ret r
     | None \<Rightarrow>
         bind (reads (get_statediff shortstatehash)) (\<lambda>diff.
         case parent diff of
           Some p \<Rightarrow>
             bind (load_info_fuel n p) (\<lambda>response.
             if response = [] then fail (Panic ''called unwrap on a None value'')
             else
               let state = (layer_state (last response) \<union> added diff) - removed diff
               in ret (response @ [(shortstatehash, state, added diff, removed diff)]))
         | None \<Rightarrow>
             let response = [(shortstatehash, added diff, added diff, removed diff)] in
             andthen (modify (\<lambda>s. s\<lparr>stateinfo_cache := (stateinfo_cache s)(shortstatehash \<mapsto> response)\<rparr>))
             (ret response)))"

definition load_shortstatehash_info :: "u64 \<Rightarrow> ('a compressor_db_scheme, layer list) dop" where
  "load_shortstatehash_info shortstatehash = load_info_fuel (Suc (unat shortstatehash)) shortstatehash"

definition compress_state_event ::
    "u64 \<Rightarrow> event_id \<Rightarrow> ('a short_db_scheme, CompressedStateEvent) dop" where
  "compress_state_event shortstatekey event_id =
     bind (get_or_create_shorteventid event_id) (\<lambda>shorteventid.
     ret (to_be_bytes shortstatekey @ to_be_bytes shorteventid))"

definition parse_compressed_state_event ::
    "ruma \<Rightarrow> CompressedStateEvent \<Rightarrow> ('a short_db_scheme, u64 \<times> event_id) dop" where
  "parse_compressed_state_event R compressed_event =
     bind (of_res (map_err (Panic ''bytes have right length'') (u64_from_bytes (take 8 compressed_event)))) (\<lambda>k.
     bind (of_res (map_err (Panic ''bytes have right length'') (u64_from_bytes (drop 8 compressed_event)))) (\<lambda>short.
     bind (get_eventid_from_short R short) (\<lambda>event_id.
     ret (k, event_id))))"

text \<open>The two loops that fold a diff into the diff of the parent layer.\<close>

definition merge_diff ::
    "(bytes set \<Rightarrow> bytes list) \<Rightarrow> bytes set \<Rightarrow> bytes set \<Rightarrow> bytes set \<times> bytes set \<Rightarrow> bytes set \<times> bytes set" where
  "merge_diff iter statediffnew statediffremoved parent_diff =
     fold (\<lambda>new (parent_new, parent_removed).
             if new \<in> parent_removed then (parent_new, parent_removed - {new})
             else (insert new parent_new, parent_removed)) (iter statediffnew)
       (fold (\<lambda>rem (parent_new, parent_removed).
             if rem \<in> parent_new then (parent_new - {rem}, parent_removed)
             else (parent_new, insert rem parent_removed)) (iter statediffremoved) parent_diff)"

definition set_len :: "'a set \<Rightarrow> u64" where
  "set_len S = of_nat (card S)"

function save_state_from_diff ::
    "(bytes set \<Rightarrow> bytes list) \<Rightarrow> u64 \<Rightarrow> bytes set \<Rightarrow> bytes set \<Rightarrow> u64 \<Rightarrow> layer list \<Rightarrow>
     ('a compressor_db_scheme, unit) dop" where
  "save_state_from_diff iter shortstatehash statediffnew statediffremoved diff_to_sibling parent_states =
     (let diffsum = set_len statediffnew + set_len statediffremoved in
      if length parent_states > 3 then
        (case merge_diff iter statediffnew statediffremoved
                (layer_added (last parent_states), layer_removed (last parent_states)) of
           (parent_new, parent_removed) \<Rightarrow>
             save_state_from_diff iter shortstatehash parent_new parent_removed diffsum (butlast parent_states))
      else if parent_states = [] then
        save_statediff iter shortstatehash
          \<lparr>parent = None, added = statediffnew, removed = statediffremoved\<rparr>
      else
        let par = last parent_states;
            parent_diff = set_len (layer_added par) + set_len (layer_removed par)
        in if diffsum * diffsum \<ge> 2 * diff_to_sibling * parent_diff then
             (case merge_diff iter statediffnew statediffremoved (layer_added par, layer_removed par) of
                (parent_new, parent_removed) \<Rightarrow>
                  save_state_from_diff iter shortstatehash parent_new parent_removed diffsum (butlast parent_states))
           else
             save_statediff iter shortstatehash
               \<lparr>parent = Some (layer_hash par), added = statediffnew, removed = statediffremoved\<rparr>)"
  by pat_completeness auto
termination
  by (relation "measure (\<lambda>(_, _, _, _, _, parent_states). length parent_states)") auto

declare save_state_from_diff.simps [simp del]

definition get_room_shortstatehash :: "room_id \<Rightarrow> 'a compressor_db_scheme \<Rightarrow> u64 option res" where
  "get_room_shortstatehash room_id s =
     (case kv_get (roomid_shortstatehash s) room_id of
        None \<Rightarrow> Inr None
      | Some b \<Rightarrow> map_res Some (map_err (BadDatabase ''Invalid shortstatehash in roomid_shortstatehash'')
          (u64_from_bytes b)))"

definition save_state ::
    "(bytes set \<Rightarrow> bytes list) \<Rightarrow> (bytes \<Rightarrow> bytes) \<Rightarrow> room_id \<Rightarrow> bytes set \<Rightarrow>
     ('a compressor_db_scheme, u64 \<times> bytes set \<times> bytes set) dop" where
  "save_state iter digest room_id new_state_ids_compressed =
     bind (reads (get_room_shortstatehash room_id)) (\<lambda>previous_shortstatehash.
     let state_hash = calculate_hash digest (iter new_state_ids_compressed) in
     bind (get_or_create_shortstatehash state_hash) (\<lambda>(new_shortstatehash, already_existed).
     if Some new_shortstatehash = previous_shortstatehash then ret (new_shortstatehash, {}, {})
     else
       bind (case previous_shortstatehash of None \<Rightarrow> ret [] | Some p \<Rightarrow> load_shortstatehash_info p) (\<lambda>states_parents.
       let (statediffnew, statediffremoved) =
         (if states_parents = [] then (new_state_ids_compressed, {})
          else (new_state_ids_compressed - layer_state (last states_parents),
                layer_state (last states_parents) - new_state_ids_compressed))
       in andthen (if already_existed then ret ()
                   else save_state_from_diff iter new_shortstatehash statediffnew statediffremoved 2 states_parents)
          (ret (new_shortstatehash, statediffnew, statediffremoved)))))"

section \<open>Diffs are stored faithfully\<close>

text \<open>A compressed state event has sixteen bytes and a short state key other than zero.\<close>

definition compressed :: "bytes \<Rightarrow> bool" where
  "compressed e \<longleftrightarrow> length e = 16 \<and> \<not> prefix ZERO8 e"

lemma length_ZERO8 [simp]: "length ZERO8 = 8"
  by (simp add: ZERO8_def length_to_be_bytes)

lemma prefix_ZERO8_append:
  assumes "length e = 16"
  shows "prefix ZERO8 (e @ x) \<longleftrightarrow> prefix ZERO8 e"
proof -
  have "ZERO8 \<noteq> e @ us" for us
    using assms length_ZERO8 by (metis length_append le_add1 numeral_le_iff semiring_norm(69,71,72,74))
  then show ?thesis by (simp add: prefix_append)
qed

lemma parse_diff_short [simp]: "length v < 16 \<Longrightarrow> parse_diff m v = ({}, {})"
  by (simp add: parse_diff.simps)

lemma parse_diff_event:
  "compressed e \<Longrightarrow> parse_diff True (e @ rest) = (case parse_diff True rest of (a, r) \<Rightarrow> (insert e a, r))"
  by (simp add: compressed_def prefix_ZERO8_append parse_diff.simps [of True "e @ rest"] split: prod.split)

lemma parse_diff_marker: "length rest \<ge> 8 \<Longrightarrow> parse_diff True (ZERO8 @ rest) = parse_diff False rest"
  by (simp add: parse_diff.simps [of True "ZERO8 @ rest"])

lemma parse_diff_removed:
  "length e = 16 \<Longrightarrow> parse_diff False (e @ rest) = (case parse_diff False rest of (a, r) \<Rightarrow> (a, insert e r))"
  by (simp add: parse_diff.simps [of False "e @ rest"] split: prod.split)

lemma parse_diff_events:
  "\<forall>e \<in> set es. compressed e \<Longrightarrow>
   parse_diff True (concat es @ rest) = (case parse_diff True rest of (a, r) \<Rightarrow> (set es \<union> a, r))"
  by (induction es) (auto simp: parse_diff_event split: prod.splits)

lemma parse_diff_removals:
  "\<forall>e \<in> set es. length e = 16 \<Longrightarrow> parse_diff False (concat es) = ({}, set es)"
  by (induction es) (auto simp: parse_diff_removed)

definition diff_ok :: "StateDiff \<Rightarrow> bool" where
  "diff_ok d \<longleftrightarrow> finite (added d) \<and> finite (removed d) \<and>
     (\<forall>e \<in> added d \<union> removed d. compressed e) \<and> parent d \<noteq> Some 0"

lemma decode_diff_append:
  "parse_diff True rest = (a, r) \<Longrightarrow>
   decode_diff (to_be_bytes p @ rest) = Inr \<lparr>parent = (if p \<noteq> 0 then Some p else None), added = a, removed = r\<rparr>"
  by (simp add: decode_diff_def length_to_be_bytes)

lemma decode_encode_diff:
  assumes "iteration iter" and "diff_ok d"
  shows "decode_diff (encode_diff iter d) = Inr d"
proof -
  have sets: "set (iter (added d)) = added d" "set (iter (removed d)) = removed d"
    using assms by (auto simp: diff_ok_def iterationD)
  have long: "8 \<le> length (concat (iter (removed d)))" if "removed d \<noteq> {}"
  proof -
    have "iter (removed d) \<noteq> []" using that sets(2) by auto
    then obtain e es where "iter (removed d) = e # es" by (auto simp: neq_Nil_conv)
    moreover from this sets(2) have "e \<in> removed d" by auto
    with assms(2) have "length e = 16" by (simp add: diff_ok_def compressed_def)
    ultimately show ?thesis by simp
  qed
  have "parse_diff True (concat (iter (added d)) @
      (if removed d \<noteq> {} then ZERO8 @ concat (iter (removed d)) else [])) = (added d, removed d)"
    using assms(2) sets long
    by (auto simp: parse_diff_events parse_diff_marker parse_diff_removals diff_ok_def compressed_def)
  from decode_diff_append [OF this] show ?thesis
    using assms(2) unfolding encode_diff_def by (auto simp: diff_ok_def split: option.splits)
qed

section \<open>Merging diffs\<close>

lemma merge_removed:
  "distinct xs \<Longrightarrow>
   fold (\<lambda>x (pn, pr). if x \<in> pn then (pn - {x}, pr) else (pn, insert x pr)) xs (PN, PR) =
   (PN - set xs, PR \<union> (set xs - PN))"
  by (induction xs arbitrary: PN PR) auto

lemma merge_added:
  "distinct xs \<Longrightarrow>
   fold (\<lambda>x (pn, pr). if x \<in> pr then (pn, pr - {x}) else (insert x pn, pr)) xs (PN, PR) =
   (PN \<union> (set xs - PR), PR - set xs)"
  by (induction xs arbitrary: PN PR) auto

text \<open>Exact diffs to the same state compose to the exact diff.\<close>

lemma merge_diff_exact:
  assumes "iteration iter" and "finite S" and "finite T"
  shows "merge_diff iter (T - S) (S - T) (S - B, B - S) = (T - B, B - T)"
proof -
  have "set (iter (T - S)) = T - S" "distinct (iter (T - S))"
    "set (iter (S - T)) = S - T" "distinct (iter (S - T))"
    using assms by (simp_all add: iteration_def)
  then show ?thesis
    by (auto simp: merge_diff_def merge_removed merge_added)
qed

section \<open>Layers\<close>

definition diff_at :: "kv_tree \<Rightarrow> u64 \<Rightarrow> StateDiff option" where
  "diff_at t h = Option.bind (kv_get t (to_be_bytes h)) (\<lambda>v. res_ok (decode_diff v))"

lemma get_statediff_diff_at:
  "diff_at (shortstatehash_statediff s) h = Some d \<Longrightarrow> get_statediff h s = Inr d"
  by (cases "kv_get (shortstatehash_statediff s) (to_be_bytes h)")
     (auto simp: diff_at_def get_statediff_def res_ok_def split: sum.splits)

lemma diff_at_insert:
  assumes "iteration iter" and "diff_ok d"
  shows "diff_at (kv_insert (to_be_bytes h) (encode_diff iter d) t) h' = (if h' = h then Some d else diff_at t h')"
  by (simp add: diff_at_def decode_encode_diff [OF assms])

inductive layers :: "kv_tree \<Rightarrow> u64 \<Rightarrow> layer list \<Rightarrow> bool" for t where
  layers_root: "diff_at t h = Some d \<Longrightarrow> parent d = None \<Longrightarrow>
    layers t h [(h, added d, added d, removed d)]"
| layers_diff: "diff_at t h = Some d \<Longrightarrow> parent d = Some p \<Longrightarrow> layers t p st \<Longrightarrow>
    layers t h (st @ [(h, (layer_state (last st) \<union> added d) - removed d, added d, removed d)])"

lemma layers_last: "layers t h st \<Longrightarrow> st \<noteq> [] \<and> layer_hash (last st) = h"
  by (induction rule: layers.induct) auto

lemma layers_diff_at: "layers t h st \<Longrightarrow> diff_at t h \<noteq> None"
  by (induction rule: layers.induct) auto

lemma layers_rootE:
  assumes "layers t h st" and "diff_at t h = Some d" and "parent d = None"
  shows "st = [(h, added d, added d, removed d)]"
  using assms by (cases rule: layers.cases) simp_all

lemma layers_diffE:
  assumes "layers t h st" and "diff_at t h = Some d" and "parent d = Some p"
  obtains st' where "layers t p st'"
    and "st = st' @ [(h, (layer_state (last st') \<union> added d) - removed d, added d, removed d)]"
  using assms by (cases rule: layers.cases) simp_all

lemma layers_unique: "layers t h st \<Longrightarrow> layers t h st' \<Longrightarrow> st = st'"
proof (induction arbitrary: st' rule: layers.induct)
  case (layers_root h d)
  then show ?case using layers_rootE by metis
next
  case (layers_diff h d p st)
  from layers_diffE [OF layers_diff.prems layers_diff.hyps(1,2)] obtain st0
    where "layers t p st0"
      and "st' = st0 @ [(h, (layer_state (last st0) \<union> added d) - removed d, added d, removed d)]" .
  with layers_diff.IH [of st0] show ?case by simp
qed

lemma layers_prefix:
  assumes "layers t h st" and "prefix st' st" and "st' \<noteq> []"
  shows "layers t (layer_hash (last st')) st'"
  using assms
proof (induction arbitrary: st' rule: layers.induct)
  case (layers_root h d)
  then have "st' = [(h, added d, added d, removed d)]" by (auto simp: prefix_Cons)
  with layers_root.hyps show ?case by (auto intro: layers.layers_root)
next
  case (layers_diff h d p st)
  from layers_diff.prems(1) consider "prefix st' st"
    | "st' = st @ [(h, (layer_state (last st) \<union> added d) - removed d, added d, removed d)]"
    by (auto simp: prefix_snoc)
  then show ?case
  proof cases
    case 1
    then show ?thesis using layers_diff.IH layers_diff.prems(2) by blast
  next
    case 2
    then show ?thesis using layers.layers_diff [OF layers_diff.hyps] by simp
  qed
qed

lemma layers_mono:
  assumes "layers t h st" and "\<And>h d. diff_at t h = Some d \<Longrightarrow> diff_at t' h = Some d"
  shows "layers t' h st"
  using assms(1) by (induction rule: layers.induct) (auto intro: layers.intros assms(2))

lemma layers_length:
  assumes "layers t h st"
    and "\<And>h d p. diff_at t h = Some d \<Longrightarrow> parent d = Some p \<Longrightarrow> p < h"
  shows "length st \<le> Suc (unat h)"
  using assms(1)
proof (induction rule: layers.induct)
  case (layers_diff h d p st)
  from assms(2) [OF layers_diff.hyps(1,2)] have "unat p < unat h" by (simp add: word_less_nat_alt)
  with layers_diff.IH show ?case by simp
qed simp

section \<open>Loading\<close>

definition cache_ok :: "'a compressor_db_scheme \<Rightarrow> bool" where
  "cache_ok s \<longleftrightarrow> (\<forall>h st. stateinfo_cache s h = Some st \<longrightarrow> layers (shortstatehash_statediff s) h st)"

lemma load_info_layers:
  assumes "layers (shortstatehash_statediff s) h st" and "cache_ok s" and "length st \<le> n"
  shows "\<exists>c. load_info_fuel n h s = (Inr st, s\<lparr>stateinfo_cache := c\<rparr>) \<and> cache_ok (s\<lparr>stateinfo_cache := c\<rparr>)"
  using assms
proof (induction arbitrary: n rule: layers.induct)
  case (layers_root h d)
  then obtain m where [simp]: "n = Suc m" by (cases n) auto
  let ?r = "[(h, added d, added d, removed d)]"
  have lay: "layers (shortstatehash_statediff s) h ?r"
    using layers_root.hyps by (rule layers.layers_root)
  show ?case
  proof (cases "stateinfo_cache s h")
    case None
    have "load_info_fuel n h s = (Inr ?r, s\<lparr>stateinfo_cache := (stateinfo_cache s)(h \<mapsto> ?r)\<rparr>)"
      using None layers_root.hyps by (simp add: get_statediff_diff_at op_simps Let_def)
    moreover have "cache_ok (s\<lparr>stateinfo_cache := (stateinfo_cache s)(h \<mapsto> ?r)\<rparr>)"
      using layers_root.prems(1) lay by (simp add: cache_ok_def)
    ultimately show ?thesis by blast
  next
    case (Some st)
    with layers_root.prems(1) have "st = ?r" using layers_unique [OF _ lay] by (simp add: cache_ok_def)
    with Some layers_root.prems(1) show ?thesis
      by (intro exI [of _ "stateinfo_cache s"]) (simp add: op_simps)
  qed
next
  case (layers_diff h d p st)
  then obtain m where m [simp]: "n = Suc m" "length st \<le> m" by (cases n) auto
  let ?r = "st @ [(h, (layer_state (last st) \<union> added d) - removed d, added d, removed d)]"
  have lay: "layers (shortstatehash_statediff s) h ?r"
    using layers_diff.hyps(1-3) by (rule layers.layers_diff)
  show ?case
  proof (cases "stateinfo_cache s h")
    case None
    from layers_diff.IH [OF layers_diff.prems(1) m(2)]
    obtain c where c: "load_info_fuel m p s = (Inr st, s\<lparr>stateinfo_cache := c\<rparr>)"
      "cache_ok (s\<lparr>stateinfo_cache := c\<rparr>)" by blast
    have "load_info_fuel n h s = (Inr ?r, s\<lparr>stateinfo_cache := c\<rparr>)"
      using None layers_diff.hyps(1,2) c(1) layers_last [OF layers_diff.hyps(3)]
      by (simp add: get_statediff_diff_at op_simps Let_def)
    with c(2) show ?thesis by blast
  next
    case (Some st')
    with layers_diff.prems(1) have "st' = ?r" using layers_unique [OF _ lay] by (simp add: cache_ok_def)
    with Some layers_diff.prems(1) show ?thesis
      by (intro exI [of _ "stateinfo_cache s"]) (simp add: op_simps)
  qed
qed

section \<open>Saving\<close>

definition base_state :: "layer list \<Rightarrow> CompressedStateEvent set" where
  "base_state st = (if st = [] then {} else layer_state (last st))"

text \<open>A stack is exact when every layer holds exactly the difference to the layer below.\<close>

inductive exact :: "layer list \<Rightarrow> bool" where
  exact_Nil: "exact []"
| exact_snoc: "exact st \<Longrightarrow> finite F \<Longrightarrow> \<forall>e \<in> F. compressed e \<Longrightarrow>
    exact (st @ [(h, F, F - base_state st, base_state st - F)])"

inductive_cases exact_snocE: "exact (st @ [l])"

lemma base_state_simps [simp]:
  "base_state [] = {}" "base_state (st @ [l]) = layer_state l"
  by (simp_all add: base_state_def)

lemma exact_last:
  assumes "exact (st @ [l])"
  shows "exact st" and "finite (layer_state l)" and "\<forall>e \<in> layer_state l. compressed e"
    and "layer_added l = layer_state l - base_state st"
    and "layer_removed l = base_state st - layer_state l"
  using assms by (auto elim: exact_snocE)

lemma exact_base: "exact st \<Longrightarrow> finite (base_state st) \<and> (\<forall>e \<in> base_state st. compressed e)"
  by (cases st rule: rev_cases) (auto dest: exact_last)

lemma exact_prefix: "exact st \<Longrightarrow> prefix st' st \<Longrightarrow> exact st'"
proof (induction st rule: rev_induct)
  case (snoc l st)
  then show ?case by (auto simp: prefix_snoc dest: exact_last(1))
qed simp

text \<open>The diff to the top of a stack.\<close>

definition diff_to :: "layer list \<Rightarrow> CompressedStateEvent set \<Rightarrow> StateDiff" where
  "diff_to st T = \<lparr>parent = (if st = [] then None else Some (layer_hash (last st))),
     added = T - base_state st, removed = base_state st - T\<rparr>"

lemma diff_ok_diff_to:
  assumes "exact st" and "finite T" and "\<forall>e \<in> T. compressed e" and "\<forall>l \<in> set st. layer_hash l \<noteq> 0"
  shows "diff_ok (diff_to st T)"
  using assms exact_base [OF assms(1)] by (auto simp: diff_ok_def diff_to_def)

lemma save_state_from_diff_Nil:
  "save_state_from_diff iter h A R k [] = save_statediff iter h \<lparr>parent = None, added = A, removed = R\<rparr>"
  by (subst save_state_from_diff.simps) simp

lemma save_state_from_diff_snoc:
  assumes "merge_diff iter A R (layer_added l, layer_removed l) = (A', R')"
  shows "save_state_from_diff iter h A R k (st @ [l]) =
    (if length (st @ [l]) > 3 \<or>
        2 * k * (set_len (layer_added l) + set_len (layer_removed l)) \<le> (set_len A + set_len R) * (set_len A + set_len R)
     then save_state_from_diff iter h A' R' (set_len A + set_len R) st
     else save_statediff iter h \<lparr>parent = Some (layer_hash l), added = A, removed = R\<rparr>)"
  by (subst save_state_from_diff.simps, simp only: Let_def last_snoc butlast_snoc assms prod.case) simp

lemma save_state_from_diff_saves:
  assumes "iteration iter" and "exact parents" and "finite T"
  shows "\<exists>st. prefix st parents \<and> length st \<le> 3 \<and>
    save_state_from_diff iter h (T - base_state parents) (base_state parents - T) k parents s =
    save_statediff iter h (diff_to st T) s"
  using assms(2)
proof (induction parents arbitrary: k rule: rev_induct)
  case Nil
  show ?case by (simp add: save_state_from_diff_Nil diff_to_def)
next
  case (snoc l st)
  note l = exact_last [OF snoc.prems]
  have "merge_diff iter (T - layer_state l) (layer_state l - T) (layer_added l, layer_removed l) =
      (T - base_state st, base_state st - T)"
    using merge_diff_exact [OF assms(1) l(2) assms(3)] l(4,5) by simp
  note eq = save_state_from_diff_snoc [OF this, of h k st]
  obtain st' where st': "prefix st' st" "length st' \<le> 3"
    "save_state_from_diff iter h (T - base_state st) (base_state st - T)
       (set_len (T - layer_state l) + set_len (layer_state l - T)) st s = save_statediff iter h (diff_to st' T) s"
    using snoc.IH [OF l(1)] by blast
  have st: "prefix st' (st @ [l])" using st'(1) by simp
  have top: "diff_to (st @ [l]) T =
      \<lparr>parent = Some (layer_hash l), added = T - layer_state l, removed = layer_state l - T\<rparr>"
    by (simp add: diff_to_def)
  show ?case
    unfolding base_state_simps eq
  proof (split if_split, intro conjI impI)
    show "\<exists>u. prefix u (st @ [l]) \<and> length u \<le> 3 \<and>
      save_state_from_diff iter h (T - base_state st) (base_state st - T)
        (set_len (T - layer_state l) + set_len (layer_state l - T)) st s = save_statediff iter h (diff_to u T) s"
      using st st'(2,3) by blast
  qed (use top in \<open>intro exI [of _ "st @ [l]"], simp\<close>)
qed

lemma save_layers:
  assumes iter: "iteration iter" and ok: "diff_ok (diff_to st T)" and fresh: "diff_at t h = None"
    and st: "st = [] \<or> layers t (layer_hash (last st)) st"
  shows "layers (kv_insert (to_be_bytes h) (encode_diff iter (diff_to st T)) t) h
    (st @ [(h, T, T - base_state st, base_state st - T)])"
proof -
  let ?t = "kv_insert (to_be_bytes h) (encode_diff iter (diff_to st T)) t"
  have at: "diff_at ?t h = Some (diff_to st T)"
    by (simp add: diff_at_insert [OF iter ok])
  show ?thesis
  proof (cases "st = []")
    case True
    with layers_root [OF at] show ?thesis by (simp add: diff_to_def)
  next
    case False
    have "diff_at ?t h' = Some d" if "diff_at t h' = Some d" for h' d
      using that fresh by (auto simp: diff_at_insert [OF iter ok])
    with False st have lay: "layers ?t (layer_hash (last st)) st"
      using layers_mono by blast
    have "parent (diff_to st T) = Some (layer_hash (last st))" using False by (simp add: diff_to_def)
    from layers_diff [OF at this lay]
    have "layers ?t h (st @ [(h, (base_state st \<union> (T - base_state st)) - (base_state st - T),
        T - base_state st, base_state st - T)])"
      using False by (simp add: diff_to_def base_state_def)
    moreover have "(base_state st \<union> (T - base_state st)) - (base_state st - T) = T" by blast
    ultimately show ?thesis by simp
  qed
qed

section \<open>Invariant\<close>

text \<open>
  Every stored diff belongs to a short state hash that has been handed out, its parent is older, and
  it sits on an exact stack of at most four layers. The cache holds only such stacks, and rooms
  point only to stored states.
\<close>

definition states_ok :: "kv_tree \<Rightarrow> u64 \<Rightarrow> bool" where
  "states_ok t c \<longleftrightarrow> (\<forall>h d. diff_at t h = Some d \<longrightarrow>
     0 < h \<and> h \<le> c \<and> (\<forall>p. parent d = Some p \<longrightarrow> p < h) \<and>
     (\<exists>st. layers t h st \<and> exact st \<and> length st \<le> 4))"

definition compressor_inv :: "'a compressor_db_scheme \<Rightarrow> bool" where
  "compressor_inv s \<longleftrightarrow> short_inv s \<and> cache_ok s \<and>
     states_ok (shortstatehash_statediff s) (count s) \<and>
     (\<forall>r b. kv_get (roomid_shortstatehash s) r = Some b \<longrightarrow>
        (\<exists>h. b = to_be_bytes h \<and> diff_at (shortstatehash_statediff s) h \<noteq> None))"

text \<open>The state a short state hash stands for.\<close>

definition has_state :: "'a compressor_db_scheme \<Rightarrow> u64 \<Rightarrow> CompressedStateEvent set \<Rightarrow> bool" where
  "has_state s h T \<longleftrightarrow> (\<exists>st. layers (shortstatehash_statediff s) h st \<and> layer_state (last st) = T)"

lemma has_state_unique: "has_state s h T \<Longrightarrow> has_state s h T' \<Longrightarrow> T = T'"
  unfolding has_state_def using layers_unique by blast

lemma states_okD:
  assumes "states_ok t c" and "diff_at t h = Some d"
  shows "0 < h" and "h \<le> c" and "parent d = Some p \<Longrightarrow> p < h"
    and "\<exists>st. layers t h st \<and> exact st \<and> length st \<le> 4"
  using assms(1) [unfolded states_ok_def, rule_format, OF assms(2)] by simp_all

lemma states_okE:
  assumes "states_ok t c" and "diff_at t h \<noteq> None"
  obtains st where "layers t h st" and "exact st" and "length st \<le> 4" and "0 < h" and "h \<le> c"
  using assms(2) states_okD [OF assms(1)] by (metis not_None_eq)

lemma layers_in_range:
  assumes "layers t h st" and "states_ok t c" and "l \<in> set st"
  shows "0 < layer_hash l" and "layer_hash l \<le> c"
  using assms by (induction rule: layers.induct) (auto simp: states_ok_def)

lemma load_shortstatehash_info_layers:
  assumes "compressor_inv s" and "layers (shortstatehash_statediff s) h st"
  shows "\<exists>c. load_shortstatehash_info h s = (Inr st, s\<lparr>stateinfo_cache := c\<rparr>) \<and>
    cache_ok (s\<lparr>stateinfo_cache := c\<rparr>)"
proof -
  have "length st \<le> Suc (unat h)"
    by (rule layers_length [OF assms(2)]) (use assms(1) in \<open>auto simp: compressor_inv_def states_ok_def\<close>)
  moreover have "cache_ok s" using assms(1) by (simp add: compressor_inv_def)
  ultimately show ?thesis
    unfolding load_shortstatehash_info_def using load_info_layers [OF assms(2)] by blast
qed

lemma states_ok_save:
  assumes ok: "states_ok t c" and iter: "iteration iter" and st: "exact st" "length st \<le> 3"
    "st = [] \<or> layers t (layer_hash (last st)) st"
    and T: "finite T" "\<forall>e \<in> T. compressed e" and h: "c < h"
  defines "t' \<equiv> kv_insert (to_be_bytes h) (encode_diff iter (diff_to st T)) t"
  shows "states_ok t' h" and "layers t' h (st @ [(h, T, T - base_state st, base_state st - T)])"
    and "\<And>h' d. diff_at t h' = Some d \<Longrightarrow> diff_at t' h' = Some d"
    and "diff_at t' h = Some (diff_to st T)"
proof -
  have nonzero: "0 < layer_hash l \<and> layer_hash l \<le> c" if "l \<in> set st" for l
    using that st(3) layers_in_range [OF _ ok that] by auto
  have dok: "diff_ok (diff_to st T)"
    using diff_ok_diff_to [OF st(1) T] nonzero by fastforce
  have fresh: "diff_at t h = None"
    using ok h unfolding states_ok_def by (metis leD not_None_eq)
  note at = diff_at_insert [OF iter dok, of h t, folded t'_def]
  show mono: "diff_at t' h' = Some d" if "diff_at t h' = Some d" for h' d
    using that fresh by (auto simp: at)
  show "diff_at t' h = Some (diff_to st T)" by (simp add: at)
  show lay: "layers t' h (st @ [(h, T, T - base_state st, base_state st - T)])"
    unfolding t'_def by (rule save_layers [OF iter dok fresh st(3)])
  have new: "exact (st @ [(h, T, T - base_state st, base_state st - T)])"
    by (rule exact_snoc [OF st(1) T])
  have par: "p < h" if "parent (diff_to st T) = Some p" for p
    using that nonzero [of "last st"] h by (auto simp: diff_to_def split: if_splits)
  have "0 < h" using h by (metis word_gt_0 word_not_simps(1))
  show "states_ok t' h"
    unfolding states_ok_def
  proof (intro allI impI)
    fix h' d
    assume d: "diff_at t' h' = Some d"
    show "0 < h' \<and> h' \<le> h \<and> (\<forall>p. parent d = Some p \<longrightarrow> p < h') \<and>
      (\<exists>st. layers t' h' st \<and> exact st \<and> length st \<le> 4)"
    proof (cases "h' = h")
      case True
      with d have "d = diff_to st T" by (simp add: at)
      with True lay new st(2) par \<open>0 < h\<close> show ?thesis by auto
    next
      case False
      with d have old: "diff_at t h' = Some d" by (simp add: at)
      then obtain st0 where "layers t h' st0" "exact st0" "length st0 \<le> 4"
        using states_okD(4) [OF ok] by blast
      moreover from this(1) have "layers t' h' st0" by (rule layers_mono) (rule mono)
      ultimately show ?thesis
        using states_okD(1-3) [OF ok old] h by (auto intro: order.trans [OF _ less_imp_le])
    qed
  qed
qed

lemma compressor_frame [simp]:
  "shortstatehash_statediff (bump s) = shortstatehash_statediff s"
  "roomid_shortstatehash (bump s) = roomid_shortstatehash s"
  "stateinfo_cache (bump s) = stateinfo_cache s"
  "count (shortstatehash_statediff_update f s) = count s"
  "count (roomid_shortstatehash_update f s) = count s"
  "count (stateinfo_cache_update g s) = count s"
  "shortstatehash_statediff (statehash_added k s) = shortstatehash_statediff s"
  "roomid_shortstatehash (statehash_added k s) = roomid_shortstatehash s"
  "stateinfo_cache (statehash_added k s) = stateinfo_cache s"
  by (simp_all add: bump_def count_def statehash_added_def)

lemma short_inv_compressor [simp]:
  "short_inv (shortstatehash_statediff_update f s) = short_inv s"
  "short_inv (roomid_shortstatehash_update f s) = short_inv s"
  "short_inv (stateinfo_cache_update g s) = short_inv s"
  by (simp_all add: short_inv_def)

lemma states_ok_mono: "states_ok t c \<Longrightarrow> c \<le> c' \<Longrightarrow> states_ok t c'"
  unfolding states_ok_def by (meson order.trans)

lemma compressor_inv_statehash_added:
  assumes "compressor_inv s" and "has_room s"
  shows "compressor_inv (statehash_added k s)"
  using assms short_inv_statehash_added [OF _ assms(2)] count_less_next [OF assms(2)]
  by (auto simp: compressor_inv_def cache_ok_def intro: states_ok_mono)

lemma compressor_inv_cache:
  "compressor_inv s \<Longrightarrow> cache_ok (s\<lparr>stateinfo_cache := c\<rparr>) \<Longrightarrow> compressor_inv (s\<lparr>stateinfo_cache := c\<rparr>)"
  by (simp add: compressor_inv_def)

text \<open>The previous state of a room, and the stack the code loads for it.\<close>

definition room_state :: "'a compressor_db_scheme \<Rightarrow> room_id \<Rightarrow> CompressedStateEvent set \<Rightarrow> bool" where
  "room_state s r B \<longleftrightarrow>
     (case kv_get (roomid_shortstatehash s) r of
        None \<Rightarrow> B = {}
      | Some b \<Rightarrow> (\<exists>h. b = to_be_bytes h \<and> has_state s h B))"

lemma load_previous:
  assumes "compressor_inv s"
  obtains prev st c where "get_room_shortstatehash r s = Inr prev"
    and "(case prev of None \<Rightarrow> ret [] | Some p \<Rightarrow> load_shortstatehash_info p) s = (Inr st, s\<lparr>stateinfo_cache := c\<rparr>)"
    and "cache_ok (s\<lparr>stateinfo_cache := c\<rparr>)" and "exact st"
    and "room_state s r (base_state st)"
    and "st = [] \<and> prev = None \<or> st \<noteq> [] \<and> (\<exists>p. prev = Some p \<and> p \<le> count s \<and> layers (shortstatehash_statediff s) p st)"
proof (cases "kv_get (roomid_shortstatehash s) r")
  case None
  have "cache_ok s" using assms by (simp add: compressor_inv_def)
  with None show thesis
    using that [of None "[]" "stateinfo_cache s"]
    by (simp add: get_room_shortstatehash_def room_state_def exact_Nil)
next
  case (Some b)
  with assms obtain h where h: "b = to_be_bytes h" "diff_at (shortstatehash_statediff s) h \<noteq> None"
    unfolding compressor_inv_def by blast
  have "states_ok (shortstatehash_statediff s) (count s)" using assms by (simp add: compressor_inv_def)
  from states_okE [OF this h(2)] obtain st where
    st: "layers (shortstatehash_statediff s) h st" "exact st" and "h \<le> count s" .
  from load_shortstatehash_info_layers [OF assms st(1)] obtain c where
    c: "load_shortstatehash_info h s = (Inr st, s\<lparr>stateinfo_cache := c\<rparr>)" "cache_ok (s\<lparr>stateinfo_cache := c\<rparr>)"
    by blast
  have ne: "st \<noteq> []" using layers_last [OF st(1)] by simp
  have "room_state s r (base_state st)"
    using Some h(1) st(1) ne by (auto simp: room_state_def has_state_def base_state_def)
  with Some h(1) c st ne \<open>h \<le> count s\<close> show thesis
    using that [of "Some h" st c] by (simp add: get_room_shortstatehash_def)
qed

section \<open>Saving a room state\<close>

lemma join_sep_inject:
  assumes "\<forall>e \<in> set L. length e = 16" and "\<forall>e \<in> set L'. length e = 16" and "join_sep L = join_sep L'"
  shows "L = L'"
  using assms
proof (induction L arbitrary: L' rule: join_sep.induct)
  case 1
  then show ?case by (cases L' rule: join_sep.cases) auto
next
  case (2 k)
  then show ?case by (cases L' rule: join_sep.cases) auto
next
  case (3 k k2 ks)
  show ?case
  proof (cases L' rule: join_sep.cases)
    case (3 j j2 js)
    with "3.prems" have "k = j \<and> join_sep (k2 # ks) = join_sep (j2 # js)" by simp
    with 3 "3.prems" "3.IH" [of "j2 # js"] show ?thesis by simp
  qed (use "3.prems" in auto)
qed

text \<open>
  Every known state hash is the hash of the listed events of the state it stands for; \<open>D\<close>
  collects what has been hashed, and SHA-256 is assumed not to collide on it.
\<close>

definition hashes_ok :: "(bytes \<Rightarrow> bytes) \<Rightarrow> bytes set \<Rightarrow> 'a compressor_db_scheme \<Rightarrow> bool" where
  "hashes_ok digest D s \<longleftrightarrow> (\<forall>k h. id_of (statehash_shortstatehash s) k = Some h \<longrightarrow>
     (\<exists>L. k = calculate_hash digest L \<and> join_sep L \<in> D \<and> (\<forall>e \<in> set L. length e = 16) \<and>
          has_state s h (set L)))"

lemma known_hash_state:
  assumes "hashes_ok digest D s" and "inj_on digest (insert (join_sep L) D)"
    and "\<forall>e \<in> set L. length e = 16"
    and "id_of (statehash_shortstatehash s) (calculate_hash digest L) = Some h"
  shows "has_state s h (set L)"
proof -
  from assms(1,4) obtain L' where L': "calculate_hash digest L = calculate_hash digest L'" "join_sep L' \<in> D"
    "\<forall>e \<in> set L'. length e = 16" "has_state s h (set L')"
    unfolding hashes_ok_def by blast
  then have "join_sep L = join_sep L'"
    using assms(2) by (auto simp: calculate_hash_def inj_on_def)
  with join_sep_inject [OF assms(3) L'(3)] L'(4) show ?thesis by simp
qed

lemma has_state_cong:
  "(\<And>h d. diff_at (shortstatehash_statediff s) h = Some d \<Longrightarrow> diff_at (shortstatehash_statediff s') h = Some d) \<Longrightarrow>
   has_state s h T \<Longrightarrow> has_state s' h T"
  unfolding has_state_def using layers_mono by metis

lemma has_state_frame [simp]:
  "has_state (stateinfo_cache_update g s) h T = has_state s h T"
  "has_state (statehash_added k s) h T = has_state s h T"
  by (simp_all add: has_state_def)

lemma hashes_ok_mono:
  assumes "hashes_ok digest D s" and "D \<subseteq> D'"
    and "\<And>k h. id_of (statehash_shortstatehash s') k = Some h \<Longrightarrow> id_of (statehash_shortstatehash s) k = Some h"
    and "\<And>h T. has_state s h T \<Longrightarrow> has_state s' h T"
  shows "hashes_ok digest D' s'"
  using assms unfolding hashes_ok_def by blast

text \<open>Storing a state under a fresh short state hash on top of an exact stack.\<close>

lemma save_state_from_diff_new:
  assumes inv: "compressor_inv s" and iter: "iteration iter" and T: "finite T" "\<forall>e \<in> T. compressed e"
    and par: "exact parents" "parents = [] \<or> layers (shortstatehash_statediff s) (layer_hash (last parents)) parents"
    and h: "h \<le> count s"
    and old: "states_ok (shortstatehash_statediff s) c" "c < h"
  obtains s' where "save_state_from_diff iter h (T - base_state parents) (base_state parents - T) k parents s = (Inr (), s')"
    and "compressor_inv s'" and "has_state s' h T"
    and "\<And>h' S. has_state s h' S \<Longrightarrow> has_state s' h' S"
    and "statehash_shortstatehash s' = statehash_shortstatehash s"
    and "count s' = count s"
    and "\<forall>h' st. layers (shortstatehash_statediff s) h' st \<longrightarrow> layers (shortstatehash_statediff s') h' st"
proof -
  from save_state_from_diff_saves [OF iter par(1) T(1), of h k s] obtain st where
    st: "prefix st parents" "length st \<le> 3" and
    save: "save_state_from_diff iter h (T - base_state parents) (base_state parents - T) k parents s =
      save_statediff iter h (diff_to st T) s" by blast
  have ex: "exact st" by (rule exact_prefix [OF par(1) st(1)])
  have lay: "st = [] \<or> layers (shortstatehash_statediff s) (layer_hash (last st)) st"
    using par(2) st(1) layers_prefix by fastforce
  let ?t = "kv_insert (to_be_bytes h) (encode_diff iter (diff_to st T)) (shortstatehash_statediff s)"
  let ?s = "s\<lparr>shortstatehash_statediff := ?t\<rparr>"
  note saved = states_ok_save [OF old(1) iter ex st(2) lay T old(2)]
  have mono: "has_state ?s h' S" if "has_state s h' S" for h' S
    using that by (rule has_state_cong [rotated]) (simp add: saved(3))
  have "cache_ok ?s"
    using inv layers_mono saved(3) unfolding cache_ok_def compressor_inv_def by simp blast
  moreover have "states_ok ?t (count s)"
    using saved(1) h by (rule states_ok_mono)
  ultimately have "compressor_inv ?s"
    using inv saved(3) unfolding compressor_inv_def by simp (metis not_None_eq)
  moreover have "has_state ?s h T"
    using saved(2) by (auto simp: has_state_def)
  moreover have "layers (shortstatehash_statediff ?s) h' st'" if "layers (shortstatehash_statediff s) h' st'" for h' st'
    using that by (rule layers_mono) (simp add: saved(3))
  ultimately show thesis
    using that [of ?s] save mono by (simp add: save_statediff_def)
qed

lemma diff_or_whole:
  "(if st = [] then (T, {}) else (T - layer_state (last st), layer_state (last st) - T)) =
   (T - base_state st, base_state st - T)"
  by (simp add: base_state_def)

lemma room_state_unique: "room_state s r B \<Longrightarrow> room_state s r B' \<Longrightarrow> B = B'"
  by (cases "kv_get (roomid_shortstatehash s) r") (auto simp: room_state_def dest: has_state_unique)

lemma save_state_known:
  assumes inv: "compressor_inv s" and room: "room_state s r B"
    and known: "id_of (statehash_shortstatehash s) (calculate_hash digest (iter T)) = Some h"
    and T: "has_state s h T"
  shows "\<exists>c. save_state iter digest r T s = (Inr (h, T - B, B - T), s\<lparr>stateinfo_cache := c\<rparr>) \<and>
    compressor_inv (s\<lparr>stateinfo_cache := c\<rparr>)"
proof -
  have intern: "get_or_create_shortstatehash (calculate_hash digest (iter T)) s = (Inr (h, True), s)"
    using inv known by (simp add: compressor_inv_def get_or_create_shortstatehash_known)
  from load_previous [OF inv, of r] obtain prev st c where
    prev: "get_room_shortstatehash r s = Inr prev"
    and load: "(case prev of None \<Rightarrow> ret [] | Some p \<Rightarrow> load_shortstatehash_info p) s = (Inr st, s\<lparr>stateinfo_cache := c\<rparr>)"
    and c: "cache_ok (s\<lparr>stateinfo_cache := c\<rparr>)" and "exact st" and B: "room_state s r (base_state st)"
    and st: "st = [] \<and> prev = None \<or>
      st \<noteq> [] \<and> (\<exists>p. prev = Some p \<and> p \<le> count s \<and> layers (shortstatehash_statediff s) p st)" .
  have [simp]: "base_state st = B" by (rule room_state_unique [OF B room])
  show ?thesis
  proof (cases "prev = Some h")
    case True
    with st have "st \<noteq> []" and "layers (shortstatehash_statediff s) h st" by auto
    then have "has_state s h B"
      using \<open>base_state st = B\<close> by (auto simp: has_state_def base_state_def)
    then have "B = T" by (rule has_state_unique [OF _ T])
    with True prev intern have "save_state iter digest r T s = (Inr (h, T - B, B - T), s)"
      by (simp add: save_state_def op_simps)
    with inv show ?thesis
      by (intro exI [of _ "stateinfo_cache s"]) simp
  next
    case False
    then have ne: "Some h \<noteq> prev" by simp
    have "save_state iter digest r T s = (Inr (h, T - B, B - T), s\<lparr>stateinfo_cache := c\<rparr>)"
      unfolding save_state_def
      by (simp add: bind_apply prev intern load ne diff_or_whole)
    with compressor_inv_cache [OF inv c] show ?thesis by (intro exI conjI)
  qed
qed

lemma save_state_new:
  assumes inv: "compressor_inv s" "has_room s" and room: "room_state s r B"
    and new: "id_of (statehash_shortstatehash s) (calculate_hash digest (iter T)) = None"
    and iter: "iteration iter" and T: "finite T" "\<forall>e \<in> T. compressed e"
  shows "\<exists>s'. save_state iter digest r T s = (Inr (count s + 1, T - B, B - T), s') \<and>
    compressor_inv s' \<and> has_state s' (count s + 1) T \<and>
    (\<forall>h' S. has_state s h' S \<longrightarrow> has_state s' h' S) \<and>
    statehash_shortstatehash s' =
      statehash_shortstatehash (statehash_added (calculate_hash digest (iter T)) s)"
proof -
  let ?k = "calculate_hash digest (iter T)"
  let ?s = "statehash_added ?k s"
  have intern: "get_or_create_shortstatehash ?k s = (Inr (count s + 1, False), ?s)"
    using inv new by (simp add: compressor_inv_def get_or_create_shortstatehash_new)
  have inv1: "compressor_inv ?s" by (rule compressor_inv_statehash_added [OF inv])
  from load_previous [OF inv1, of r] obtain prev st c where
    prev: "get_room_shortstatehash r ?s = Inr prev"
    and load: "(case prev of None \<Rightarrow> ret [] | Some p \<Rightarrow> load_shortstatehash_info p) ?s = (Inr st, ?s\<lparr>stateinfo_cache := c\<rparr>)"
    and c: "cache_ok (?s\<lparr>stateinfo_cache := c\<rparr>)" and ex: "exact st" and B: "room_state ?s r (base_state st)"
    and st: "st = [] \<and> prev = None \<or>
      st \<noteq> [] \<and> (\<exists>p. prev = Some p \<and> p \<le> count ?s \<and> layers (shortstatehash_statediff ?s) p st)" .
  have [simp]: "base_state st = B"
    using room_state_unique [OF _ room] B by (simp add: room_state_def cong: option.case_cong)
  have ok: "states_ok (shortstatehash_statediff s) (count s)"
    using inv(1) by (simp add: compressor_inv_def)
  have lay: "st = [] \<or> layers (shortstatehash_statediff ?s) (layer_hash (last st)) st"
    using st layers_last by metis
  have "Some (count s + 1) \<noteq> prev"
  proof
    assume "Some (count s + 1) = prev"
    with st have "diff_at (shortstatehash_statediff s) (count s + 1) \<noteq> None"
      using layers_diff_at by auto
    then show False
      using states_okE [OF ok] count_less_next [OF inv(2)] by (metis leD)
  qed
  note ne = this
  have saved: "states_ok (shortstatehash_statediff (?s\<lparr>stateinfo_cache := c\<rparr>)) (count s)"
    "count s + 1 \<le> count (?s\<lparr>stateinfo_cache := c\<rparr>)"
    "st = [] \<or> layers (shortstatehash_statediff (?s\<lparr>stateinfo_cache := c\<rparr>)) (layer_hash (last st)) st"
    using ok lay by simp_all
  note new = save_state_from_diff_new [where k = 2,
      OF compressor_inv_cache [OF inv1 c] iter T ex saved(3,2,1) count_less_next [OF inv(2)],
      unfolded \<open>base_state st = B\<close> has_state_frame]
  obtain s' where save:
    "save_state_from_diff iter (count s + 1) (T - B) (B - T) 2 st (?s\<lparr>stateinfo_cache := c\<rparr>) = (Inr (), s')"
    and s': "compressor_inv s'" "has_state s' (count s + 1) T"
      "\<And>h' S. has_state s h' S \<Longrightarrow> has_state s' h' S"
      "statehash_shortstatehash s' = statehash_shortstatehash ?s"
    by (rule new) simp
  have prev': "get_room_shortstatehash r s = Inr prev"
    using prev by (simp add: get_room_shortstatehash_def)
  have "save_state iter digest r T s = (Inr (count s + 1, T - B, B - T), s')"
    unfolding save_state_def
    by (simp add: bind_apply andthen_def prev' intern load ne diff_or_whole save)
  with s' show ?thesis by (intro exI conjI allI impI)
qed

lemma id_of_statehash_added:
  "id_of (statehash_shortstatehash (statehash_added k s)) k' =
     (if k' = k then Some (count s + 1) else id_of (statehash_shortstatehash s) k')"
  by (simp add: statehash_added_def)

lemma hashes_ok_added:
  assumes "hashes_ok digest D s" and "\<And>h' S. has_state s h' S \<Longrightarrow> has_state s' h' S"
    and "has_state s' (count s + 1) (set L)" and "\<forall>e \<in> set L. length e = 16"
    and "statehash_shortstatehash s' = statehash_shortstatehash (statehash_added (calculate_hash digest L) s)"
  shows "hashes_ok digest (insert (join_sep L) D) s'"
  unfolding hashes_ok_def
proof (intro allI impI)
  fix k h
  assume "id_of (statehash_shortstatehash s') k = Some h"
  then consider "k = calculate_hash digest L" "h = count s + 1"
    | "id_of (statehash_shortstatehash s) k = Some h"
    unfolding assms(5) id_of_statehash_added by (cases "k = calculate_hash digest L") simp_all
  then show "\<exists>L'. k = calculate_hash digest L' \<and> join_sep L' \<in> insert (join_sep L) D \<and>
    (\<forall>e \<in> set L'. length e = 16) \<and> has_state s' h (set L')"
  proof cases
    case 1
    with assms(3,4) show ?thesis by (intro exI [of _ L]) simp
  next
    case 2
    from assms(1) [unfolded hashes_ok_def, rule_format, OF 2] obtain L' where
      "k = calculate_hash digest L'" "join_sep L' \<in> D" "\<forall>e \<in> set L'. length e = 16"
      "has_state s h (set L')" by (elim exE conjE)
    then show ?thesis using assms(2) by (intro exI [of _ L']) simp
  qed
qed

section \<open>Properties\<close>

definition compressor_init :: "servername \<Rightarrow> compressor_db" where
  "compressor_init name = short_db.extend (short_init name)
     \<lparr>compressor_db.shortstatehash_statediff = kv_empty, roomid_shortstatehash = kv_empty,
      stateinfo_cache = Map.empty\<rparr>"

lemma compressor_init_inv:
  "compressor_inv (compressor_init name)" "has_room (compressor_init name)"
  "hashes_ok digest {} (compressor_init name)" "room_state (compressor_init name) r {}"
proof -
  have fields: "shortstatehash_statediff (compressor_init name) = kv_empty"
    "roomid_shortstatehash (compressor_init name) = kv_empty"
    "stateinfo_cache (compressor_init name) = Map.empty"
    "statehash_shortstatehash (compressor_init name) = kv_empty"
    "global (compressor_init name) = kv_empty"
    by (simp_all add: compressor_init_def short_init_def globals_init_def globals_db.defs short_db.defs)
  have "short_inv (compressor_init name)"
    by (simp add: short_inv_def compressor_init_def short_init_def globals_init_def globals_db.defs
        short_db.defs id_table_def inverse_trees_def coherent_def rev_coherent_def)
  then show "compressor_inv (compressor_init name)"
    by (simp add: compressor_inv_def cache_ok_def states_ok_def fields diff_at_def)
  show "has_room (compressor_init name)" by (simp add: has_room_def fields)
  show "hashes_ok digest {} (compressor_init name)" by (simp add: hashes_ok_def fields id_of_def)
  show "room_state (compressor_init name) r {}" by (simp add: room_state_def fields)
qed

text \<open>C8: Saving a room state returns a short state hash whose loaded stack has at most four layers
  and that state on top, together with the exact difference to the room's previous state; every
  state saved before is kept and the invariants are preserved, as long as SHA-256 does not collide
  on the states hashed so far.\<close>
theorem save_state_correct:
  assumes "compressor_inv s" and "has_room s" and "room_state s r B"
    and "iteration iter" and "finite T" and "\<forall>e \<in> T. compressed e"
    and "hashes_ok digest D s" and "inj_on digest (insert (join_sep (iter T)) D)"
  shows "\<exists>h s' st s''. save_state iter digest r T s = (Inr (h, T - B, B - T), s') \<and>
    load_shortstatehash_info h s' = (Inr st, s'') \<and> layer_state (last st) = T \<and> length st \<le> 4 \<and>
    compressor_inv s' \<and> hashes_ok digest (insert (join_sep (iter T)) D) s' \<and>
    (\<forall>h' S. has_state s h' S \<longrightarrow> has_state s' h' S)"
proof -
  have events: "set (iter T) = T" "\<forall>e \<in> set (iter T). length e = 16"
    using assms(4-6) by (auto simp: iteration_def compressed_def)
  have load: "\<exists>st s''. load_shortstatehash_info h s' = (Inr st, s'') \<and> layer_state (last st) = T \<and> length st \<le> 4"
    if loaded: "compressor_inv s'" "has_state s' h T" for s' :: "'a compressor_db_scheme" and h
  proof -
    from loaded(2) obtain st where st: "layers (shortstatehash_statediff s') h st" "layer_state (last st) = T"
      by (auto simp: has_state_def)
    have "states_ok (shortstatehash_statediff s') (count s')" using loaded(1) by (simp add: compressor_inv_def)
    from states_okE [OF this layers_diff_at [OF st(1)]] obtain st' where
      "layers (shortstatehash_statediff s') h st'" "length st' \<le> 4" .
    moreover from this(1) have "st = st'" by (rule layers_unique [OF st(1)])
    moreover obtain c where "load_shortstatehash_info h s' = (Inr st, s'\<lparr>stateinfo_cache := c\<rparr>)"
      using load_shortstatehash_info_layers [OF loaded(1) st(1)] by blast
    ultimately show ?thesis using st(2) by (intro exI conjI) simp_all
  qed
  show ?thesis
  proof (cases "id_of (statehash_shortstatehash s) (calculate_hash digest (iter T))")
    case (Some h)
    have T: "has_state s h T"
      using known_hash_state [OF assms(7,8) events(2) Some] events(1) by simp
    from save_state_known [where iter = iter, OF assms(1,3) Some T] obtain c where
      c: "save_state iter digest r T s = (Inr (h, T - B, B - T), s\<lparr>stateinfo_cache := c\<rparr>)"
      "compressor_inv (s\<lparr>stateinfo_cache := c\<rparr>)" by (elim exE conjE)
    have "hashes_ok digest (insert (join_sep (iter T)) D) (s\<lparr>stateinfo_cache := c\<rparr>)"
      by (rule hashes_ok_mono [OF assms(7)]) auto
    moreover obtain st s'' where "load_shortstatehash_info h (s\<lparr>stateinfo_cache := c\<rparr>) = (Inr st, s'')"
      "layer_state (last st) = T" "length st \<le> 4"
      using load [OF c(2) iffD2 [OF has_state_frame(1) T]] by (elim exE conjE)
    moreover have "\<forall>h' S. has_state s h' S \<longrightarrow> has_state (s\<lparr>stateinfo_cache := c\<rparr>) h' S" by simp
    ultimately show ?thesis using c by (intro exI conjI)
  next
    case None
    from save_state_new [where iter = iter, OF assms(1-3) None assms(4-6)] obtain s' where
      s': "save_state iter digest r T s = (Inr (count s + 1, T - B, B - T), s')"
      "compressor_inv s'" "has_state s' (count s + 1) T" "\<And>h' S. has_state s h' S \<Longrightarrow> has_state s' h' S"
      "statehash_shortstatehash s' =
        statehash_shortstatehash (statehash_added (calculate_hash digest (iter T)) s)" by (elim exE conjE) simp
    have "hashes_ok digest (insert (join_sep (iter T)) D) s'"
      using hashes_ok_added [OF assms(7) s'(4) _ events(2) s'(5)] s'(3) events(1) by simp
    moreover obtain st s'' where "load_shortstatehash_info (count s + 1) s' = (Inr st, s'')"
      "layer_state (last st) = T" "length st \<le> 4"
      using load [OF s'(2,3)] by (elim exE conjE)
    ultimately show ?thesis using s' by (intro exI conjI allI impI)
  qed
qed

definition example_event :: "u64 \<Rightarrow> u64 \<Rightarrow> CompressedStateEvent" where
  "example_event k e = to_be_bytes k @ to_be_bytes e"

lemma compressed_example: "k \<noteq> 0 \<Longrightarrow> compressed (example_event k e)"
  by (auto simp: compressed_def example_event_def ZERO8_def length_to_be_bytes prefix_def)

theorem save_state_correct_witness:
  "\<exists>h s' st s''. save_state sorted_list_of_set (\<lambda>b. b) [33] {example_event 1 2, example_event 3 4}
      (compressor_init []) = (Inr (h, {example_event 1 2, example_event 3 4}, {}), s') \<and>
    load_shortstatehash_info h s' = (Inr st, s'') \<and>
    layer_state (last st) = {example_event 1 2, example_event 3 4}"
  using save_state_correct [where s = "compressor_init []" and r = "[33]" and B = "{}" and D = "{}" and
      T = "{example_event 1 2, example_event 3 4}" and iter = sorted_list_of_set and digest = "\<lambda>b. b",
      OF compressor_init_inv(1,2,4) iteration_sorted _ _ compressor_init_inv(3)]
  by (simp add: compressed_example) blast

text \<open>C33: Loading a stored state always returns: the stack it yields is exact, ends in the requested
  hash and has at most four layers, and loading never changes a stored diff.\<close>
theorem load_shortstatehash_info_returns:
  assumes "compressor_inv s" and "diff_at (shortstatehash_statediff s) h \<noteq> None"
  shows "\<exists>st s'. load_shortstatehash_info h s = (Inr st, s') \<and> compressor_inv s' \<and>
    st \<noteq> [] \<and> layer_hash (last st) = h \<and> exact st \<and> length st \<le> 4 \<and>
    shortstatehash_statediff s' = shortstatehash_statediff s"
proof -
  have "states_ok (shortstatehash_statediff s) (count s)" using assms(1) by (simp add: compressor_inv_def)
  from states_okE [OF this assms(2)] obtain st where
    st: "layers (shortstatehash_statediff s) h st" "exact st" "length st \<le> 4" .
  from load_shortstatehash_info_layers [OF assms(1) st(1)] obtain c where
    c: "load_shortstatehash_info h s = (Inr st, s\<lparr>stateinfo_cache := c\<rparr>)" "cache_ok (s\<lparr>stateinfo_cache := c\<rparr>)"
    by (elim exE conjE)
  moreover have "compressor_inv (s\<lparr>stateinfo_cache := c\<rparr>)"
    by (rule compressor_inv_cache [OF assms(1) c(2)])
  ultimately show ?thesis
    using st layers_last [OF st(1)]
    by (intro exI [of _ st] exI [of _ "s\<lparr>stateinfo_cache := c\<rparr>"] conjI) simp_all
qed

theorem load_shortstatehash_info_returns_witness:
  "\<exists>st s'. load_shortstatehash_info 1
      (snd (save_state sorted_list_of_set (\<lambda>b. b) [33] {example_event 1 2} (compressor_init []))) = (Inr st, s') \<and>
    layer_hash (last st) = 1 \<and> length st \<le> 4"
proof -
  let ?s = "compressor_init []"
  have zero: "count ?s = 0" "id_of (statehash_shortstatehash ?s) k = None" for k
    by (simp_all add: compressor_init_def short_init_def globals_init_def globals_db.defs short_db.defs id_of_def)
  obtain s' where s': "save_state sorted_list_of_set (\<lambda>b. b) [33] {example_event 1 2} ?s =
      (Inr (count ?s + 1, {example_event 1 2} - {}, {} - {example_event 1 2}), s')"
    "compressor_inv s'" "has_state s' (count ?s + 1) {example_event 1 2}"
    using save_state_new [where T = "{example_event 1 2}" and r = "[33]" and digest = "\<lambda>b. b",
        OF compressor_init_inv(1,2,4) zero(2) iteration_sorted]
    by (simp add: compressed_example) metis
  then have "diff_at (shortstatehash_statediff s') 1 \<noteq> None"
    using layers_diff_at by (auto simp: has_state_def zero)
  from load_shortstatehash_info_returns [OF s'(2) this] s'(1) show ?thesis by auto
qed

text \<open>C39: A diff is read back as it was saved.\<close>
theorem statediff_roundtrip:
  assumes "iteration iter" and "diff_ok d"
  shows "get_statediff h (snd (save_statediff iter h d s)) = Inr d"
  by (simp add: save_statediff_def get_statediff_def decode_encode_diff [OF assms])

theorem statediff_roundtrip_witness:
  "get_statediff 7 (snd (save_statediff sorted_list_of_set 7
      \<lparr>parent = Some 5, added = {example_event 1 2}, removed = {example_event 1 9, example_event 4 1}\<rparr>
      (compressor_init []))) =
   Inr \<lparr>parent = Some 5, added = {example_event 1 2}, removed = {example_event 1 9, example_event 4 1}\<rparr>"
  by (rule statediff_roundtrip [OF iteration_sorted]) (simp add: diff_ok_def compressed_example)

text \<open>A state event that was compressed is parsed back to its short state key and event id.\<close>
theorem compress_state_event_roundtrip:
  assumes "short_inv s" and "has_room s" and "utf8_valid e" and "is_event_id R e"
  shows "\<exists>c s'. compress_state_event k e s = (Inr c, s') \<and> short_inv s' \<and> length c = 16 \<and>
    fst (parse_compressed_state_event R c s') = Inr (k, e)"
proof -
  obtain n s' where step: "get_or_create_shorteventid e s = (Inr n, s')" "short_inv s'"
    and id: "id_of (eventid_shorteventid s') e = Some n"
    using ev.interned [OF assms(1), of e] assms(2) by metis
  then show ?thesis
    using get_eventid_from_short_eq [OF step(2) id assms(3,4)]
    by (simp add: compress_state_event_def parse_compressed_state_event_def op_simps length_to_be_bytes)
qed

theorem compress_state_event_roundtrip_witness:
  "\<exists>c s'. compress_state_event 3 [36, 97] (short_init []) = (Inr c, s') \<and>
    fst (parse_compressed_state_event
      \<lparr>is_event_id = \<lambda>b. hd b = 36, is_user_id = \<lambda>b. hd b = 64, is_room_id = \<lambda>b. hd b = 33,
       is_room_alias = \<lambda>b. hd b = 35, is_server_name = \<lambda>_. True, user_server = \<lambda>b. b\<rparr> c s') = Inr (3, [36, 97])"
  using compress_state_event_roundtrip [where k = 3 and e = "[36, 97]" and
      R = "\<lparr>is_event_id = \<lambda>b. hd b = 36, is_user_id = \<lambda>b. hd b = 64, is_room_id = \<lambda>b. hd b = 33,
       is_room_alias = \<lambda>b. hd b = 35, is_server_name = \<lambda>_. True, user_server = \<lambda>b. b\<rparr>",
      OF short_inv_init]
  by (simp add: utf8_valid.simps) blast

end
