(* ===== verification/Timeline.thy ===== *)
theory Timeline
  imports Pdu StateCompressor
begin

text \<open>
  The timeline trees: \<^verbatim>\<open>src/database/key_value/rooms/timeline.rs\<close>,
  \<^verbatim>\<open>outlier.rs\<close> and \<^verbatim>\<open>pdu_metadata.rs\<close>. A pdu id is the short room id
  followed by a count; both are eight bytes, so that the events of a room are a range of the tree in
  the order of their counts. The iterators of the code are lists of results.
\<close>

section \<open>State\<close>

record timeline_db = compressor_db +
  pduid_pdu :: kv_tree
  eventid_pduid :: kv_tree
  eventid_outlierpdu :: kv_tree
  userroomid_notificationcount :: kv_tree
  userroomid_highlightcount :: kv_tree
  referencedevents :: kv_tree
  softfailedeventids :: kv_tree
  pdu_cache :: "event_id \<Rightarrow> PduEvent option"
  lasttimelinecount_cache :: "room_id \<Rightarrow> u64 option"

section \<open>Operations\<close>

definition pdu_from_slice :: "serde \<Rightarrow> ruma \<Rightarrow> bytes \<Rightarrow> PduEvent option" where
  "pdu_from_slice J R b = Option.bind (json_parse J b) (pdu_of_json R)"

definition object_from_slice :: "serde \<Rightarrow> bytes \<Rightarrow> jobj option" where
  "object_from_slice J b = Option.bind (json_parse J b) as_object"

definition room_prefix :: "room_id \<Rightarrow> 'a timeline_db_scheme \<Rightarrow> bytes res" where
  "room_prefix room s =
     bind_res (get_shortroomid room s) (\<lambda>short. map_res to_be_bytes (ok_or (Panic ''room exists'') short))"

definition first_pdu_in_room :: "serde \<Rightarrow> ruma \<Rightarrow> room_id \<Rightarrow> 'a timeline_db_scheme \<Rightarrow> PduEvent option res" where
  "first_pdu_in_room J R room s =
     bind_res (room_prefix room s) (\<lambda>prefx.
     case filter (\<lambda>e. prefix prefx (fst e)) (kv_iter_from prefx False (pduid_pdu s)) of
       [] \<Rightarrow> Inr None
     | (_, pdu) # _ \<Rightarrow> map_res Some (ok_or (BadDatabase ''Invalid first PDU in db.'') (pdu_from_slice J R pdu)))"

definition pdu_count :: "bytes \<Rightarrow> u64 res" where
  "pdu_count pdu_id =
     (if length pdu_id < 8 then Inl (Panic ''slice index starts out of range'')
      else map_err (BadDatabase ''PDU has invalid count bytes.'') (u64_from_bytes (drop (length pdu_id - 8) pdu_id)))"

text \<open>The closure shared by the three range iterators.\<close>

definition timeline_entry :: "serde \<Rightarrow> ruma \<Rightarrow> user_id \<Rightarrow> bytes \<times> bytes \<Rightarrow> (bytes \<times> PduEvent) res" where
  "timeline_entry J R user e =
     (case pdu_from_slice J R (snd e) of
        None \<Rightarrow> Inl (BadDatabase ''PDU in db is invalid.'')
      | Some pdu \<Rightarrow>
          if sender pdu \<noteq> user then map_res (Pair (fst e)) (remove_transaction_id pdu)
          else Inr (fst e, pdu))"

definition pdus_since ::
    "serde \<Rightarrow> ruma \<Rightarrow> user_id \<Rightarrow> room_id \<Rightarrow> u64 \<Rightarrow> 'a timeline_db_scheme \<Rightarrow> (bytes \<times> PduEvent) res list res" where
  "pdus_since J R user room since s =
     bind_res (room_prefix room s) (\<lambda>prefx.
     let first_pdu_id = prefx @ to_be_bytes (since + 1) in
     Inr (map (timeline_entry J R user)
       (takeWhile (\<lambda>e. prefix prefx (fst e)) (kv_iter_from first_pdu_id False (pduid_pdu s)))))"

definition saturating_sub1 :: "u64 \<Rightarrow> u64" where
  "saturating_sub1 n = (if n = 0 then 0 else n - 1)"

definition pdus_until ::
    "serde \<Rightarrow> ruma \<Rightarrow> user_id \<Rightarrow> room_id \<Rightarrow> u64 \<Rightarrow> 'a timeline_db_scheme \<Rightarrow> (bytes \<times> PduEvent) res list res" where
  "pdus_until J R user room until s =
     bind_res (room_prefix room s) (\<lambda>prefx.
     let current = prefx @ to_be_bytes (saturating_sub1 until) in
     Inr (map (timeline_entry J R user)
       (takeWhile (\<lambda>e. prefix prefx (fst e)) (kv_iter_from current True (pduid_pdu s)))))"

definition pdus_after ::
    "serde \<Rightarrow> ruma \<Rightarrow> user_id \<Rightarrow> room_id \<Rightarrow> u64 \<Rightarrow> 'a timeline_db_scheme \<Rightarrow> (bytes \<times> PduEvent) res list res" where
  "pdus_after J R user room from s =
     bind_res (room_prefix room s) (\<lambda>prefx.
     let current = prefx @ to_be_bytes (from + 1) in
     Inr (map (timeline_entry J R user)
       (takeWhile (\<lambda>e. prefix prefx (fst e)) (kv_iter_from current False (pduid_pdu s)))))"

definition last_timeline_count ::
    "serde \<Rightarrow> ruma \<Rightarrow> user_id \<Rightarrow> room_id \<Rightarrow> ('a timeline_db_scheme, u64) dop" where
  "last_timeline_count J R sender_user room =
     bind (gets (\<lambda>s. lasttimelinecount_cache s room)) (\<lambda>hit.
     case hit of
       Some c \<Rightarrow> ret c
     | None \<Rightarrow>
         bind (reads (pdus_until J R sender_user room (-1))) (\<lambda>pdus.
         case List.map_filter res_ok pdus of
           (pduid, _) # _ \<Rightarrow>
             bind (of_res (pdu_count pduid)) (\<lambda>last_count.
             andthen (modify (\<lambda>s. s\<lparr>lasttimelinecount_cache := (lasttimelinecount_cache s)(room \<mapsto> last_count)\<rparr>))
             (ret last_count))
         | [] \<Rightarrow> ret 0))"

definition get_pdu_id :: "event_id \<Rightarrow> 'a timeline_db_scheme \<Rightarrow> bytes option res" where
  "get_pdu_id e s = Inr (kv_get (eventid_pduid s) e)"

definition get_pdu_count :: "event_id \<Rightarrow> 'a timeline_db_scheme \<Rightarrow> u64 option res" where
  "get_pdu_count e s = transpose_opt (map_option pdu_count (kv_get (eventid_pduid s) e))"

text \<open>The stored bytes of an event of the timeline, and of one that may be an outlier.\<close>

definition timeline_bytes :: "event_id \<Rightarrow> 'a timeline_db_scheme \<Rightarrow> bytes option res" where
  "timeline_bytes e s =
     (case kv_get (eventid_pduid s) e of
        None \<Rightarrow> Inr None
      | Some pduid \<Rightarrow>
          map_res Some (ok_or (BadDatabase ''Invalid pduid in eventid_pduid.'') (kv_get (pduid_pdu s) pduid)))"

definition event_bytes :: "event_id \<Rightarrow> 'a timeline_db_scheme \<Rightarrow> bytes option res" where
  "event_bytes e s =
     (case kv_get (eventid_pduid s) e of
        None \<Rightarrow> Inr (kv_get (eventid_outlierpdu s) e)
      | Some pduid \<Rightarrow>
          map_res Some (ok_or (BadDatabase ''Invalid pduid in eventid_pduid.'') (kv_get (pduid_pdu s) pduid)))"

definition decode_opt :: "string \<Rightarrow> (bytes \<Rightarrow> 'b option) \<Rightarrow> bytes option \<Rightarrow> 'b option res" where
  "decode_opt msg f m = transpose_opt (map_option (\<lambda>b. ok_or (BadDatabase msg) (f b)) m)"

definition get_pdu_json :: "serde \<Rightarrow> event_id \<Rightarrow> 'a timeline_db_scheme \<Rightarrow> jobj option res" where
  "get_pdu_json J e s = bind_res (event_bytes e s) (decode_opt ''Invalid PDU in db.'' (object_from_slice J))"

definition get_non_outlier_pdu_json :: "serde \<Rightarrow> event_id \<Rightarrow> 'a timeline_db_scheme \<Rightarrow> jobj option res" where
  "get_non_outlier_pdu_json J e s =
     bind_res (timeline_bytes e s) (decode_opt ''Invalid PDU in db.'' (object_from_slice J))"

definition get_non_outlier_pdu :: "serde \<Rightarrow> ruma \<Rightarrow> event_id \<Rightarrow> 'a timeline_db_scheme \<Rightarrow> PduEvent option res" where
  "get_non_outlier_pdu J R e s =
     bind_res (timeline_bytes e s) (decode_opt ''Invalid PDU in db.'' (pdu_from_slice J R))"

definition get_pdu :: "serde \<Rightarrow> ruma \<Rightarrow> event_id \<Rightarrow> ('a timeline_db_scheme, PduEvent option) dop" where
  "get_pdu J R e =
     bind (gets (\<lambda>s. pdu_cache s e)) (\<lambda>hit.
     case hit of
       Some p \<Rightarrow> ret (Some p)
     | None \<Rightarrow>
         bind (reads (\<lambda>s. bind_res (event_bytes e s) (decode_opt ''Invalid PDU in db.'' (pdu_from_slice J R)))) (\<lambda>found.
         case found of
           Some pdu \<Rightarrow>
             andthen (modify (\<lambda>s. s\<lparr>pdu_cache := (pdu_cache s)(e \<mapsto> pdu)\<rparr>)) (ret (Some pdu))
         | None \<Rightarrow> ret None))"

definition get_pdu_from_id :: "serde \<Rightarrow> ruma \<Rightarrow> bytes \<Rightarrow> 'a timeline_db_scheme \<Rightarrow> PduEvent option res" where
  "get_pdu_from_id J R pdu_id s =
     decode_opt ''Invalid PDU in db.'' (pdu_from_slice J R) (kv_get (pduid_pdu s) pdu_id)"

definition get_pdu_json_from_id :: "serde \<Rightarrow> bytes \<Rightarrow> 'a timeline_db_scheme \<Rightarrow> jobj option res" where
  "get_pdu_json_from_id J pdu_id s =
     decode_opt ''Invalid PDU in db.'' (object_from_slice J) (kv_get (pduid_pdu s) pdu_id)"

definition append_pdu_db :: "serde \<Rightarrow> bytes \<Rightarrow> PduEvent \<Rightarrow> jobj \<Rightarrow> u64 \<Rightarrow> ('a timeline_db_scheme, unit) dop" where
  "append_pdu_db J pdu_id pdu json cnt =
     andthen (modify (\<lambda>s. s\<lparr>pduid_pdu := kv_insert pdu_id (json_print J (JObj json)) (pduid_pdu s)\<rparr>))
     (andthen (modify (\<lambda>s. s\<lparr>lasttimelinecount_cache := (lasttimelinecount_cache s)(room_id pdu \<mapsto> cnt)\<rparr>))
     (andthen (modify (\<lambda>s. s\<lparr>eventid_pduid := kv_insert (event_id pdu) pdu_id (eventid_pduid s)\<rparr>))
     (modify (\<lambda>s. s\<lparr>eventid_outlierpdu := kv_remove (event_id pdu) (eventid_outlierpdu s)\<rparr>))))"

definition replace_pdu :: "serde \<Rightarrow> bytes \<Rightarrow> PduEvent \<Rightarrow> ('a timeline_db_scheme, unit) dop" where
  "replace_pdu J pdu_id pdu =
     bind (gets (\<lambda>s. kv_get (pduid_pdu s) pdu_id)) (\<lambda>old.
     case old of
       Some _ \<Rightarrow> modify (\<lambda>s. s\<lparr>pduid_pdu := kv_insert pdu_id (json_print J (json_of_pdu pdu)) (pduid_pdu s)\<rparr>)
     | None \<Rightarrow> fail (BadRequest NotFound ''PDU does not exist.''))"

definition userroom_id :: "user_id \<Rightarrow> room_id \<Rightarrow> bytes" where
  "userroom_id user room = user @ sep # room"

definition increment_notification_counts ::
    "room_id \<Rightarrow> user_id list \<Rightarrow> user_id list \<Rightarrow> ('a timeline_db_scheme, unit) dop" where
  "increment_notification_counts room notifies highlights =
     andthen (modify (\<lambda>s. s\<lparr>userroomid_notificationcount :=
       kv_increment_batch (map (\<lambda>u. userroom_id u room) notifies) (userroomid_notificationcount s)\<rparr>))
     (modify (\<lambda>s. s\<lparr>userroomid_highlightcount :=
       kv_increment_batch (map (\<lambda>u. userroom_id u room) highlights) (userroomid_highlightcount s)\<rparr>))"

section \<open>Outliers and metadata\<close>

text \<open>Here the stored bytes are read as an \<^verbatim>\<open>Option\<close>, for which JSON null is \<^verbatim>\<open>None\<close>.\<close>

definition decode_nullable :: "serde \<Rightarrow> string \<Rightarrow> (bytes \<Rightarrow> 'b option) \<Rightarrow> bytes option \<Rightarrow> 'b option res" where
  "decode_nullable J msg f m =
     (case m of
        None \<Rightarrow> Inr None
      | Some b \<Rightarrow> if json_parse J b = Some JNull then Inr None else map_res Some (ok_or (BadDatabase msg) (f b)))"

definition get_outlier_pdu_json :: "serde \<Rightarrow> event_id \<Rightarrow> 'a timeline_db_scheme \<Rightarrow> jobj option res" where
  "get_outlier_pdu_json J e s =
     decode_nullable J ''Invalid PDU in db.'' (object_from_slice J) (kv_get (eventid_outlierpdu s) e)"

definition get_outlier_pdu :: "serde \<Rightarrow> ruma \<Rightarrow> event_id \<Rightarrow> 'a timeline_db_scheme \<Rightarrow> PduEvent option res" where
  "get_outlier_pdu J R e s =
     decode_nullable J ''Invalid PDU in db.'' (pdu_from_slice J R) (kv_get (eventid_outlierpdu s) e)"

definition add_pdu_outlier :: "serde \<Rightarrow> event_id \<Rightarrow> jobj \<Rightarrow> ('a timeline_db_scheme, unit) dop" where
  "add_pdu_outlier J e pdu =
     modify (\<lambda>s. s\<lparr>eventid_outlierpdu := kv_insert e (json_print J (JObj pdu)) (eventid_outlierpdu s)\<rparr>)"

definition mark_as_referenced :: "room_id \<Rightarrow> event_id list \<Rightarrow> ('a timeline_db_scheme, unit) dop" where
  "mark_as_referenced room event_ids =
     for_each event_ids (\<lambda>prev. modify (\<lambda>s. s\<lparr>referencedevents := kv_insert (room @ prev) [] (referencedevents s)\<rparr>))"

definition is_event_referenced :: "room_id \<Rightarrow> event_id \<Rightarrow> 'a timeline_db_scheme \<Rightarrow> bool res" where
  "is_event_referenced room e s = Inr (kv_get (referencedevents s) (room @ e) \<noteq> None)"

definition mark_event_soft_failed :: "event_id \<Rightarrow> ('a timeline_db_scheme, unit) dop" where
  "mark_event_soft_failed e = modify (\<lambda>s. s\<lparr>softfailedeventids := kv_insert e [] (softfailedeventids s)\<rparr>)"

definition is_event_soft_failed :: "event_id \<Rightarrow> 'a timeline_db_scheme \<Rightarrow> bool res" where
  "is_event_soft_failed e s = Inr (kv_get (softfailedeventids s) e \<noteq> None)"

section \<open>Ranges\<close>

definition pdu_keys_ok :: "'a timeline_db_scheme \<Rightarrow> bool" where
  "pdu_keys_ok s \<longleftrightarrow> (\<forall>k v. kv_get (pduid_pdu s) k = Some v \<longrightarrow>
     (\<exists>r n. k = to_be_bytes r @ to_be_bytes n \<and> 0 < n))"

lemma room_prefix_known:
  assumes "short_inv s" and "id_of (roomid_shortroomid s) room = Some short"
  shows "room_prefix room s = Inr (to_be_bytes short)"
  using assms by (simp add: room_prefix_def get_shortroomid_def id_of_Some [OF short_invD(6)])

lemma pdu_id_inject [simp]:
  "to_be_bytes r @ to_be_bytes n = to_be_bytes r' @ to_be_bytes n' \<longleftrightarrow> r = r' \<and> n = n'"
  by (simp add: append_eq_append_conv length_to_be_bytes)

lemma pdu_key_of_room:
  assumes "pdu_keys_ok s" and "kv_get (pduid_pdu s) k = Some v"
  shows "prefix (to_be_bytes r) k \<longleftrightarrow> (\<exists>n. k = to_be_bytes r @ to_be_bytes n)"
proof
  assume pre: "prefix (to_be_bytes r) k"
  from assms obtain r' n where k: "k = to_be_bytes r' @ to_be_bytes n"
    unfolding pdu_keys_ok_def by blast
  from pre k have "to_be_bytes r = to_be_bytes r'"
    by (auto simp: prefix_def append_eq_append_conv length_to_be_bytes)
  with k show "\<exists>n. k = to_be_bytes r @ to_be_bytes n" by auto
qed auto

lemma succ_le_iff: "x \<noteq> -1 \<Longrightarrow> x + 1 \<le> y \<longleftrightarrow> x < y" for x y :: u64
  using inc_less_eq_triv_imp [of x] by (meson inc_le less_le_trans not_le_imp_less)

lemma saturating_sub1_le: "n \<noteq> 0 \<Longrightarrow> n \<le> saturating_sub1 m \<longleftrightarrow> n < m"
proof (cases "m = 0")
  case False
  then have "unat (m - 1) = unat m - 1" "0 < unat m" by (simp_all add: unat_minus_one unat_gt_0)
  with False show ?thesis by (auto simp: saturating_sub1_def word_le_nat_alt word_less_nat_alt)
qed (simp add: saturating_sub1_def)

lemma since_range:
  fixes r :: u64
  assumes "pdu_keys_ok s" and "since \<noteq> -1"
  defines "es \<equiv> takeWhile (\<lambda>e. prefix (to_be_bytes r) (fst e))
      (kv_iter_from (to_be_bytes r @ to_be_bytes (since + 1)) False (pduid_pdu s))"
  shows "sorted_wrt (<) (map fst es)"
    and "(k, v) \<in> set es \<longleftrightarrow>
      kv_get (pduid_pdu s) k = Some v \<and> (\<exists>n. k = to_be_bytes r @ to_be_bytes n \<and> since < n)"
proof -
  have es: "es = filter (\<lambda>e. prefix (to_be_bytes r) (fst e) \<and> to_be_bytes r @ to_be_bytes (since + 1) \<le> fst e)
      (kv_iter (pduid_pdu s))"
    unfolding es_def by (simp add: kv_iter_from_def kv.asc_range)
  show "sorted_wrt (<) (map fst es)"
    unfolding es using kv.iter_ascending [of "pduid_pdu s"] by (simp add: sorted_wrt_map sorted_wrt_filter)
  show "(k, v) \<in> set es \<longleftrightarrow>
      kv_get (pduid_pdu s) k = Some v \<and> (\<exists>n. k = to_be_bytes r @ to_be_bytes n \<and> since < n)"
    unfolding es using pdu_key_of_room [OF assms(1), of k v r]
    by (auto simp: kv_iter_get succ_le_iff [OF assms(2)])
qed

lemma until_range:
  fixes r until :: u64
  assumes "pdu_keys_ok s"
  defines "es \<equiv> takeWhile (\<lambda>e. prefix (to_be_bytes r) (fst e))
      (kv_iter_from (to_be_bytes r @ to_be_bytes (saturating_sub1 until)) True (pduid_pdu s))"
  shows "sorted_wrt (>) (map fst es)"
    and "(k, v) \<in> set es \<longleftrightarrow>
      kv_get (pduid_pdu s) k = Some v \<and> (\<exists>n. k = to_be_bytes r @ to_be_bytes n \<and> n < until)"
proof -
  have es: "es = rev (filter (\<lambda>e. prefix (to_be_bytes r) (fst e) \<and>
        fst e \<le> to_be_bytes r @ to_be_bytes (saturating_sub1 until)) (kv_iter (pduid_pdu s)))"
    unfolding es_def by (simp add: kv_iter_from_def kv.desc_range)
  have "sorted_wrt (<) (map fst (filter P (kv_iter (pduid_pdu s))))" for P
    using kv.iter_ascending [of "pduid_pdu s"] by (simp add: sorted_wrt_map sorted_wrt_filter)
  then show "sorted_wrt (>) (map fst es)"
    unfolding es rev_map [symmetric] sorted_wrt_rev by simp
  have nz: "n \<noteq> 0" if "kv_get (pduid_pdu s) (to_be_bytes r @ to_be_bytes n) = Some v" for n
    using assms(1) [unfolded pdu_keys_ok_def, rule_format, OF that] by auto
  show "(k, v) \<in> set es \<longleftrightarrow>
      kv_get (pduid_pdu s) k = Some v \<and> (\<exists>n. k = to_be_bytes r @ to_be_bytes n \<and> n < until)"
    unfolding es using pdu_key_of_room [OF assms(1), of k v r] nz
    by (auto simp: kv_iter_get saturating_sub1_le)
qed

section \<open>Counters\<close>

lemma counter_at_increment_batch:
  "counter_at (kv_increment_batch ks t) k = counter_at t k + of_nat (count_list ks k)"
proof (induction ks arbitrary: t)
  case (Cons k' ks)
  have "kv_increment_batch (k' # ks) t = kv_increment_batch ks (snd (kv_increment k' t))"
    by (simp add: kv_increment_batch_def)
  with Cons show ?case by (simp add: kv_increment_eq)
qed (simp add: kv_increment_batch_def)

lemma count_list_userroom: "count_list (map (\<lambda>u. userroom_id u room) us) (userroom_id u room) = count_list us u"
  by (induction us) (auto simp: userroom_id_def)

section \<open>Properties\<close>

definition timeline_init :: "servername \<Rightarrow> timeline_db" where
  "timeline_init name = compressor_db.extend (compressor_init name)
     \<lparr>timeline_db.pduid_pdu = kv_empty, eventid_pduid = kv_empty, eventid_outlierpdu = kv_empty,
      userroomid_notificationcount = kv_empty, userroomid_highlightcount = kv_empty,
      referencedevents = kv_empty, softfailedeventids = kv_empty, pdu_cache = Map.empty,
      lasttimelinecount_cache = Map.empty\<rparr>"

lemmas timeline_init_defs =
  timeline_init_def compressor_init_def short_init_def globals_init_def
  globals_db.defs short_db.defs compressor_db.defs

lemma timeline_init_fields [simp]:
  "pduid_pdu (timeline_init n) = kv_empty" "eventid_pduid (timeline_init n) = kv_empty"
  "eventid_outlierpdu (timeline_init n) = kv_empty" "pdu_cache (timeline_init n) = Map.empty"
  "userroomid_notificationcount (timeline_init n) = kv_empty"
  "userroomid_highlightcount (timeline_init n) = kv_empty"
  "global (timeline_init n) = kv_empty" "roomid_shortroomid (timeline_init n) = kv_empty"
  by (simp_all add: timeline_init_defs)

lemma timeline_init_inv: "short_inv (timeline_init n)" "has_room (timeline_init n)"
  by (simp_all add: short_inv_def has_room_def timeline_init_defs id_table_def inverse_trees_def
      coherent_def rev_coherent_def)

text \<open>C32: The events after a token are exactly the stored events of the room with a larger count, in
  ascending order; the events before a token are those with a smaller count, in descending order.
  Paginating from a token in both directions therefore skips and repeats nothing.\<close>
theorem timeline_ranges:
  assumes "short_inv s" and "pdu_keys_ok s" and "id_of (roomid_shortroomid s) room = Some r"
    and "since \<noteq> -1"
  shows "(\<exists>es. pdus_since J R user room since s = Inr (map (timeline_entry J R user) es) \<and>
            pdus_after J R user room since s = pdus_since J R user room since s \<and>
            sorted_wrt (<) (map fst es) \<and>
            (\<forall>k v. (k, v) \<in> set es \<longleftrightarrow> kv_get (pduid_pdu s) k = Some v \<and>
               (\<exists>n. k = to_be_bytes r @ to_be_bytes n \<and> since < n))) \<and>
         (\<exists>es. pdus_until J R user room until s = Inr (map (timeline_entry J R user) es) \<and>
            sorted_wrt (>) (map fst es) \<and>
            (\<forall>k v. (k, v) \<in> set es \<longleftrightarrow> kv_get (pduid_pdu s) k = Some v \<and>
               (\<exists>n. k = to_be_bytes r @ to_be_bytes n \<and> n < until)))"
  unfolding pdus_since_def pdus_after_def pdus_until_def room_prefix_known [OF assms(1,3)]
  using since_range [OF assms(2,4), where r = r] until_range [OF assms(2), where r = r and until = until]
  by (auto simp: Let_def)

text \<open>An event appended under its pdu id is found by its event id and by its pdu id, carries the
  count of the id, is no longer an outlier, and is what \<open>get_pdu\<close> returns unless an older
  copy is cached.\<close>
theorem append_pdu_visible:
  assumes "serde_ok J" and "json_ok (JObj json)" and "pdu_of_json R (JObj json) = Some pdu"
    and "append_pdu_db J (to_be_bytes r @ to_be_bytes n) pdu json n s = (Inr (), s')"
    and "pdu_cache s (event_id pdu) = None"
  shows "get_pdu_id (event_id pdu) s' = Inr (Some (to_be_bytes r @ to_be_bytes n)) \<and>
    get_pdu_count (event_id pdu) s' = Inr (Some n) \<and>
    get_pdu_from_id J R (to_be_bytes r @ to_be_bytes n) s' = Inr (Some pdu) \<and>
    get_pdu_json J (event_id pdu) s' = Inr (Some json) \<and>
    get_outlier_pdu J R (event_id pdu) s' = Inr None \<and>
    fst (get_pdu J R (event_id pdu) s') = Inr (Some pdu) \<and>
    last_timeline_count J R user (room_id pdu) s' = (Inr n, s')"
proof -
  have parse: "json_parse J (json_print J (JObj json)) = Some (JObj json)"
    using assms(1,2) by (rule serde_okD)
  have s': "s' = s\<lparr>pduid_pdu := kv_insert (to_be_bytes r @ to_be_bytes n) (json_print J (JObj json)) (pduid_pdu s),
      lasttimelinecount_cache := (lasttimelinecount_cache s)(room_id pdu \<mapsto> n),
      eventid_pduid := kv_insert (event_id pdu) (to_be_bytes r @ to_be_bytes n) (eventid_pduid s),
      eventid_outlierpdu := kv_remove (event_id pdu) (eventid_outlierpdu s)\<rparr>"
    using assms(4) by (simp add: append_pdu_db_def op_simps)
  have "pdu_count (to_be_bytes r @ to_be_bytes n) = Inr n"
    by (simp add: pdu_count_def length_to_be_bytes)
  with parse assms(3,5) show ?thesis
    by (simp add: s' get_pdu_id_def get_pdu_count_def get_pdu_from_id_def get_pdu_json_def
        get_outlier_pdu_def get_pdu_def event_bytes_def decode_opt_def decode_nullable_def
        pdu_from_slice_def object_from_slice_def last_timeline_count_def op_simps)
qed

text \<open>Replacing an event that \<open>get_pdu\<close> has already returned does not reach later calls
  of \<open>get_pdu\<close>: they still return the old event from the cache, although the stored event is
  the new one.\<close>
theorem replace_pdu_stale_cache:
  assumes "serde_ok J" and "json_ok (json_of_pdu new)" and "pdu_ok R new"
    and "get_pdu J R e s = (Inr (Some old), s1)"
    and "kv_get (pduid_pdu s1) pdu_id \<noteq> None"
  shows "\<exists>s2. replace_pdu J pdu_id new s1 = (Inr (), s2) \<and>
    get_pdu_from_id J R pdu_id s2 = Inr (Some new) \<and>
    get_pdu J R e s2 = (Inr (Some old), s2)"
proof -
  have "pdu_cache s1 e = Some old"
    using assms(4)
    by (auto simp: get_pdu_def op_simps split: option.splits sum.splits)
  moreover have "json_parse J (json_print J (json_of_pdu new)) = Some (json_of_pdu new)"
    using assms(1,2) by (rule serde_okD)
  ultimately show ?thesis
    using assms(5) pdu_of_json_of_pdu [OF assms(3)]
    by (auto simp: replace_pdu_def get_pdu_def get_pdu_from_id_def decode_opt_def pdu_from_slice_def op_simps)
qed

text \<open>Notifying users raises the notification count of each of them in the room by the number of
  times they are listed, modulo the width of the counter, and no other count changes.\<close>
theorem notification_counts_increment:
  "counter_at (userroomid_notificationcount (snd (increment_notification_counts room notifies highlights s))) k =
     counter_at (userroomid_notificationcount s) k +
       of_nat (count_list (map (\<lambda>u. userroom_id u room) notifies) k) \<and>
   counter_at (userroomid_highlightcount (snd (increment_notification_counts room notifies highlights s)))
       (userroom_id u room) =
     counter_at (userroomid_highlightcount s) (userroom_id u room) + of_nat (count_list highlights u)"
  by (simp add: increment_notification_counts_def op_simps counter_at_increment_batch count_list_userroom)

definition example_timeline :: timeline_db where
  "example_timeline = (roomid_added [33] (timeline_init []))
     \<lparr>pduid_pdu := kv_insert (to_be_bytes 1 @ to_be_bytes 3) [7] (kv_insert (to_be_bytes 1 @ to_be_bytes 2) [8] kv_empty)\<rparr>"

lemma example_timeline_inv:
  "short_inv example_timeline" "pdu_keys_ok example_timeline"
  "id_of (roomid_shortroomid example_timeline) [33] = Some 1"
proof -
  have inv: "short_inv (roomid_added [33] (timeline_init []))"
    by (rule short_inv_roomid_added [OF timeline_init_inv])
  show "short_inv example_timeline"
    using inv by (simp add: example_timeline_def short_inv_def count_def)
  show "id_of (roomid_shortroomid example_timeline) [33] = Some 1"
    by (simp add: example_timeline_def roomid_added_def)
  have "kv_get (pduid_pdu example_timeline) k = Some v \<Longrightarrow>
    k = to_be_bytes 1 @ to_be_bytes 3 \<or> k = to_be_bytes 1 @ to_be_bytes 2" for k v
    by (auto simp: example_timeline_def split: if_splits)
  then show "pdu_keys_ok example_timeline"
    unfolding pdu_keys_ok_def by (intro allI impI) (force simp: word_gt_0)
qed

theorem timeline_ranges_witness:
  "\<exists>es. pdus_since example_serde example_ruma [64] [33] 2 example_timeline =
       Inr (map (timeline_entry example_serde example_ruma [64]) es) \<and>
     (to_be_bytes 1 @ to_be_bytes 3, [7]) \<in> set es \<and> (to_be_bytes 1 @ to_be_bytes 2, [8]) \<notin> set es"
proof -
  have two: "(2 :: u64) \<noteq> -1" by simp
  obtain es where "pdus_since example_serde example_ruma [64] [33] 2 example_timeline =
      Inr (map (timeline_entry example_serde example_ruma [64]) es)"
    and es: "\<And>k v. (k, v) \<in> set es \<longleftrightarrow> kv_get (pduid_pdu example_timeline) k = Some v \<and>
      (\<exists>n. k = to_be_bytes 1 @ to_be_bytes n \<and> 2 < n)"
    using timeline_ranges [OF example_timeline_inv two, of example_serde example_ruma "[64]" 0]
    by (elim conjE exE) simp
  moreover have "(to_be_bytes 1 @ to_be_bytes 3, [7]) \<in> set es" "(to_be_bytes 1 @ to_be_bytes 2, [8]) \<notin> set es"
    unfolding es by (simp_all add: example_timeline_def)
  ultimately show ?thesis by blast
qed


theorem append_pdu_visible_witness:
  "get_pdu_id (event_id example_pdu) (snd (append_pdu_db example_serde (to_be_bytes 1 @ to_be_bytes 5) example_pdu
      (pdu_fields example_pdu) 5 (timeline_init []))) = Inr (Some (to_be_bytes 1 @ to_be_bytes 5))"
proof -
  have "append_pdu_db example_serde (to_be_bytes 1 @ to_be_bytes 5) example_pdu (pdu_fields example_pdu) 5 (timeline_init []) =
    (Inr (), snd (append_pdu_db example_serde (to_be_bytes 1 @ to_be_bytes 5) example_pdu (pdu_fields example_pdu) 5 (timeline_init [])))"
    by (simp add: append_pdu_db_def op_simps)
  from append_pdu_visible [OF example_serde_ok _ _ this] show ?thesis
    using example_pdu_json_ok pdu_of_json_of_pdu [OF example_pdu_ok] by (simp add: json_of_pdu_fields)
qed

theorem replace_pdu_stale_cache_witness:
  "\<exists>s1 s2. replace_pdu example_serde [1] (example_pdu\<lparr>content := JObj []\<rparr>) s1 = (Inr (), s2) \<and>
     get_pdu example_serde example_ruma (event_id example_pdu) (s2 :: timeline_db) = (Inr (Some example_pdu), s2) \<and>
     get_pdu_from_id example_serde example_ruma [1] s2 = Inr (Some (example_pdu\<lparr>content := JObj []\<rparr>))"
proof -
  let ?s = "(timeline_init [])\<lparr>eventid_pduid := kv_insert (event_id example_pdu) [1] kv_empty,
      pduid_pdu := kv_insert [1] (json_print example_serde (json_of_pdu example_pdu)) kv_empty\<rparr>"
  let ?new = "example_pdu\<lparr>content := JObj []\<rparr>"
  have ok: "pdu_ok example_ruma ?new" using example_pdu_ok by (simp add: pdu_ok_def)
  have json: "json_ok (json_of_pdu ?new)"
    by (rule json_ok_of_pdu) (auto simp: example_pdu_def utf8_valid_ascii)
  have "pdu_from_slice example_serde example_ruma (json_print example_serde (json_of_pdu example_pdu)) = Some example_pdu"
    by (simp add: pdu_from_slice_def serde_okD [OF example_serde_ok example_pdu_json_ok] pdu_of_json_of_pdu [OF example_pdu_ok])
  then have get: "get_pdu example_serde example_ruma (event_id example_pdu) ?s =
      (Inr (Some example_pdu), ?s\<lparr>pdu_cache := [event_id example_pdu \<mapsto> example_pdu]\<rparr>)"
    by (simp add: get_pdu_def op_simps event_bytes_def decode_opt_def)
  from replace_pdu_stale_cache [OF example_serde_ok json ok get, of "[1]"]
  obtain s2 where "replace_pdu example_serde [1] ?new (?s\<lparr>pdu_cache := [event_id example_pdu \<mapsto> example_pdu]\<rparr>) = (Inr (), s2)"
    "get_pdu_from_id example_serde example_ruma [1] s2 = Inr (Some ?new)"
    "get_pdu example_serde example_ruma (event_id example_pdu) s2 = (Inr (Some example_pdu), s2)" by auto
  then show ?thesis by (intro exI conjI)
qed

end
