(* ===== verification/AuthChain.thy ===== *)
theory AuthChain
  imports Timeline "HOL-Library.Product_Lexorder"
begin

text \<open>
  Auth chains (\<^verbatim>\<open>src/service/rooms/auth_chain/mod.rs\<close> and
  \<^verbatim>\<open>src/database/key_value/rooms/auth_chain.rs\<close>): the events reachable along
  \<open>auth_events\<close>, as short event ids, with a cache in memory for sets of events and one in the
  database for single events. The worklist loop runs on fuel; as many steps as there are events that
  can occur in it are enough.
\<close>

section \<open>State\<close>

record authchain_db = timeline_db +
  shorteventid_authchain :: kv_tree
  auth_chain_cache :: "u64 list \<Rightarrow> u64 set option"

section \<open>The cache\<close>

function chunks8 :: "bytes \<Rightarrow> bytes list" where
  "chunks8 b = (if length b < 8 then [] else take 8 b # chunks8 (drop 8 b))"
  by pat_completeness auto
termination
  by (relation "measure length") auto

declare chunks8.simps [simp del]

definition decode_chain :: "bytes \<Rightarrow> u64 set" where
  "decode_chain b = set (map from_be_bytes (chunks8 b))"

definition get_cached_eventid_authchain :: "u64 list \<Rightarrow> ('a authchain_db_scheme, u64 set option) dop" where
  "get_cached_eventid_authchain key =
     bind (gets (\<lambda>s. auth_chain_cache s key)) (\<lambda>hit.
     case hit of
       Some result \<Rightarrow> ret (Some result)
     | None \<Rightarrow>
         if length key = 1 then
           bind (gets (\<lambda>s. map_option decode_chain (kv_get (shorteventid_authchain s) (to_be_bytes (hd key))))) (\<lambda>chain.
           case chain of
             Some c \<Rightarrow>
               andthen (modify (\<lambda>s. s\<lparr>auth_chain_cache := (auth_chain_cache s)([hd key] \<mapsto> c)\<rparr>))
               (ret (Some c))
           | None \<Rightarrow> ret None)
         else ret None)"

definition cache_auth_chain ::
    "(u64 set \<Rightarrow> u64 list) \<Rightarrow> u64 list \<Rightarrow> u64 set \<Rightarrow> ('a authchain_db_scheme, unit) dop" where
  "cache_auth_chain iter key auth_chain =
     andthen (if length key = 1 then
                modify (\<lambda>s. s\<lparr>shorteventid_authchain :=
                  kv_insert (to_be_bytes (hd key)) (concat (map to_be_bytes (iter auth_chain))) (shorteventid_authchain s)\<rparr>)
              else ret ())
     (modify (\<lambda>s. s\<lparr>auth_chain_cache := (auth_chain_cache s)(key \<mapsto> auth_chain)\<rparr>))"

section \<open>The worklist\<close>

text \<open>The stack \<open>todo\<close> has its top first.\<close>

fun push_auth_events ::
    "event_id list \<Rightarrow> event_id list \<Rightarrow> u64 set \<Rightarrow> ('a short_db_scheme, event_id list \<times> u64 set) dop" where
  "push_auth_events [] todo found = ret (todo, found)"
| "push_auth_events (auth_event # es) todo found =
     bind (get_or_create_shorteventid auth_event) (\<lambda>sauthevent.
     if sauthevent \<notin> found then push_auth_events es (auth_event # todo) (insert sauthevent found)
     else push_auth_events es todo found)"

fun auth_chain_loop ::
    "nat \<Rightarrow> serde \<Rightarrow> ruma \<Rightarrow> room_id \<Rightarrow> event_id list \<Rightarrow> u64 set \<Rightarrow> ('a timeline_db_scheme, u64 set) dop" where
  "auth_chain_loop n J R room [] found = ret found"
| "auth_chain_loop 0 J R room (e # todo) found = fail (Panic ''out of fuel'')"
| "auth_chain_loop (Suc n) J R room (e # todo) found =
     bind (attempt (get_pdu J R e)) (\<lambda>r.
     case r of
       Inr (Some pdu) \<Rightarrow>
         if room_id pdu \<noteq> room then fail (BadRequest Forbidden ''Evil event in db'')
         else bind (push_auth_events (auth_events pdu) todo found) (\<lambda>(todo', found').
              auth_chain_loop n J R room todo' found')
     | Inr None \<Rightarrow> auth_chain_loop n J R room todo found
     | Inl _ \<Rightarrow> auth_chain_loop n J R room todo found)"

definition get_auth_chain_inner ::
    "nat \<Rightarrow> serde \<Rightarrow> ruma \<Rightarrow> room_id \<Rightarrow> event_id \<Rightarrow> ('a timeline_db_scheme, u64 set) dop" where
  "get_auth_chain_inner n J R room e = auth_chain_loop n J R room [e] {}"

section \<open>Chains of several events\<close>

definition NUM_BUCKETS :: nat where
  "NUM_BUCKETS = 50"

text \<open>A bucket is a B-tree set of pairs of a short id and an event id.\<close>

fun fill_buckets ::
    "event_id list \<Rightarrow> (nat \<Rightarrow> (u64 \<times> event_id) list) \<Rightarrow>
     ('a short_db_scheme, nat \<Rightarrow> (u64 \<times> event_id) list) dop" where
  "fill_buckets [] buckets = ret buckets"
| "fill_buckets (e # es) buckets =
     bind (get_or_create_shorteventid e) (\<lambda>short.
     let bucket_id = unat (short mod of_nat NUM_BUCKETS)
     in fill_buckets es (buckets(bucket_id := insort_insert (short, e) (buckets bucket_id))))"

fun chunk_chain ::
    "nat \<Rightarrow> serde \<Rightarrow> ruma \<Rightarrow> (u64 set \<Rightarrow> u64 list) \<Rightarrow> room_id \<Rightarrow> (u64 \<times> event_id) list \<Rightarrow> u64 set \<Rightarrow>
     ('a authchain_db_scheme, u64 set) dop" where
  "chunk_chain n J R iter room [] chunk_cache = ret chunk_cache"
| "chunk_chain n J R iter room ((sevent_id, e) # chunk) chunk_cache =
     bind (get_cached_eventid_authchain [sevent_id]) (\<lambda>hit.
     case hit of
       Some cached \<Rightarrow> chunk_chain n J R iter room chunk (chunk_cache \<union> cached)
     | None \<Rightarrow>
         bind (get_auth_chain_inner n J R room e) (\<lambda>auth_chain.
         andthen (cache_auth_chain iter [sevent_id] auth_chain)
         (chunk_chain n J R iter room chunk (chunk_cache \<union> auth_chain))))"

fun buckets_chain ::
    "nat \<Rightarrow> serde \<Rightarrow> ruma \<Rightarrow> (u64 set \<Rightarrow> u64 list) \<Rightarrow> room_id \<Rightarrow> (u64 \<times> event_id) list list \<Rightarrow> u64 set \<Rightarrow>
     ('a authchain_db_scheme, u64 set) dop" where
  "buckets_chain n J R iter room [] full_auth_chain = ret full_auth_chain"
| "buckets_chain n J R iter room (chunk # chunks) full_auth_chain =
     (if chunk = [] then buckets_chain n J R iter room chunks full_auth_chain
      else
        let chunk_key = map fst chunk in
        bind (get_cached_eventid_authchain chunk_key) (\<lambda>hit.
        case hit of
          Some cached \<Rightarrow> buckets_chain n J R iter room chunks (full_auth_chain \<union> cached)
        | None \<Rightarrow>
            bind (chunk_chain n J R iter room chunk {}) (\<lambda>chunk_cache.
            andthen (cache_auth_chain iter chunk_key chunk_cache)
            (buckets_chain n J R iter room chunks (full_auth_chain \<union> chunk_cache)))))"

text \<open>The returned iterator, run to its end: ids that cannot be read back are skipped.\<close>

fun read_back :: "ruma \<Rightarrow> u64 list \<Rightarrow> ('a short_db_scheme, event_id list) dop" where
  "read_back R [] = ret []"
| "read_back R (sid # sids) =
     bind (attempt (get_eventid_from_short R sid)) (\<lambda>r.
     bind (read_back R sids) (\<lambda>ids.
     ret (case r of Inr e \<Rightarrow> e # ids | Inl _ \<Rightarrow> ids)))"

definition get_auth_chain ::
    "nat \<Rightarrow> serde \<Rightarrow> ruma \<Rightarrow> (u64 set \<Rightarrow> u64 list) \<Rightarrow> room_id \<Rightarrow> event_id list \<Rightarrow>
     ('a authchain_db_scheme, event_id list) dop" where
  "get_auth_chain n J R iter room starting_events =
     bind (fill_buckets starting_events (\<lambda>_. [])) (\<lambda>buckets.
     bind (buckets_chain n J R iter room (map buckets [0..<NUM_BUCKETS]) {}) (\<lambda>full_auth_chain.
     read_back R (iter full_auth_chain)))"

section \<open>The graph of auth events\<close>

definition auth_edges :: "serde \<Rightarrow> ruma \<Rightarrow> 'a timeline_db_scheme \<Rightarrow> event_id rel" where
  "auth_edges J R s = {(e, a). \<exists>p. fst (get_pdu J R e s) = Inr (Some p) \<and> a \<in> set (auth_events p)}"

text \<open>Two states in which every event is found alike.\<close>

definition same_events :: "serde \<Rightarrow> ruma \<Rightarrow> 'a timeline_db_scheme \<Rightarrow> 'a timeline_db_scheme \<Rightarrow> bool" where
  "same_events J R s s' \<longleftrightarrow> (\<forall>e. fst (get_pdu J R e s') = fst (get_pdu J R e s))"

lemma same_events_refl [simp]: "same_events J R s s"
  by (simp add: same_events_def)

lemma same_events_trans: "same_events J R s s' \<Longrightarrow> same_events J R s' s'' \<Longrightarrow> same_events J R s s''"
  by (simp add: same_events_def)

lemma same_events_edges: "same_events J R s s' \<Longrightarrow> auth_edges J R s' = auth_edges J R s"
  by (simp add: same_events_def auth_edges_def)

lemma get_pdu_cases:
  "get_pdu J R e s =
     (case pdu_cache s e of
        Some p \<Rightarrow> (Inr (Some p), s)
      | None \<Rightarrow>
          (case bind_res (event_bytes e s) (decode_opt ''Invalid PDU in db.'' (pdu_from_slice J R)) of
             Inl err \<Rightarrow> (Inl err, s)
           | Inr None \<Rightarrow> (Inr None, s)
           | Inr (Some p) \<Rightarrow> (Inr (Some p), s\<lparr>pdu_cache := (pdu_cache s)(e \<mapsto> p)\<rparr>)))"
  by (simp add: get_pdu_def bind_apply andthen_def split: option.split sum.split)

lemma get_pdu_result:
  "fst (get_pdu J R e s) =
     (case pdu_cache s e of
        Some p \<Rightarrow> Inr (Some p)
      | None \<Rightarrow> bind_res (event_bytes e s) (decode_opt ''Invalid PDU in db.'' (pdu_from_slice J R)))"
  unfolding get_pdu_cases by (simp split: option.split sum.split)

lemma get_pdu_state:
  "snd (get_pdu J R e s) = s \<or>
   (\<exists>p. fst (get_pdu J R e s) = Inr (Some p) \<and> snd (get_pdu J R e s) = s\<lparr>pdu_cache := (pdu_cache s)(e \<mapsto> p)\<rparr>)"
  unfolding get_pdu_cases by (simp split: option.split sum.split)

lemma timeline_frame [simp]:
  "pdu_cache (bump s) = pdu_cache s" "eventid_pduid (bump s) = eventid_pduid s"
  "eventid_outlierpdu (bump s) = eventid_outlierpdu s" "pduid_pdu (bump s) = pduid_pdu s"
  "short_inv (pdu_cache_update f s) = short_inv s" "count (pdu_cache_update f s) = count s"
  by (simp_all add: bump_def short_inv_def count_def)

lemma event_bytes_cache [simp]: "event_bytes e (pdu_cache_update f s) = event_bytes e s"
  by (simp add: event_bytes_def split: option.split)

lemma same_events_get_pdu: "same_events J R s (snd (get_pdu J R e s))"
proof -
  consider "snd (get_pdu J R e s) = s"
    | p where "fst (get_pdu J R e s) = Inr (Some p)" "snd (get_pdu J R e s) = s\<lparr>pdu_cache := (pdu_cache s)(e \<mapsto> p)\<rparr>"
    using get_pdu_state [of J R e s] by blast
  then show ?thesis
  proof cases
    case 2
    show ?thesis
      unfolding same_events_def 2(2)
    proof
      fix e'
      show "fst (get_pdu J R e' (s\<lparr>pdu_cache := (pdu_cache s)(e \<mapsto> p)\<rparr>)) = fst (get_pdu J R e' s)"
        using 2(1) unfolding get_pdu_result by (cases "e' = e") (simp_all cong: option.case_cong)
    qed
  qed simp
qed

lemma get_pdu_keeps:
  "short_inv (snd (get_pdu J R e s)) = short_inv s"
  "eventid_shorteventid (snd (get_pdu J R e s)) = eventid_shorteventid s"
  "count (snd (get_pdu J R e s)) = count s"
  using get_pdu_state [of J R e s] by auto

lemma same_events_intern:
  "same_events J R s (event_known e n s)" "same_events J R s (event_added e s)"
  by (simp_all add: same_events_def get_pdu_result event_known_def event_added_def event_bytes_def
      cong: option.case_cong)

section \<open>Interning within a finite set of events\<close>

text \<open>What the counter has been driven to plus what interning the rest of \<open>U\<close> will still take.\<close>

definition demand :: "event_id set \<Rightarrow> 'a short_db_scheme \<Rightarrow> nat" where
  "demand U s = unat (count s) + card {u \<in> U. id_of (eventid_shorteventid s) u = None}"

definition short_ids :: "'a short_db_scheme \<Rightarrow> event_id set \<Rightarrow> u64 set" where
  "short_ids s F = {n. \<exists>f \<in> F. id_of (eventid_shorteventid s) f = Some n}"

definition interned :: "'a short_db_scheme \<Rightarrow> event_id set \<Rightarrow> bool" where
  "interned s F \<longleftrightarrow> (\<forall>f \<in> F. id_of (eventid_shorteventid s) f \<noteq> None)"

lemma demand_room: "demand U s < 2 ^ 64 - 1 \<Longrightarrow> has_room s"
proof -
  assume "demand U s < 2 ^ 64 - 1"
  then have "unat (count s) < 2 ^ 64 - 1" by (simp add: demand_def)
  moreover have "unat (-1 :: u64) = 2 ^ 64 - 1" by (simp add: unsigned_minus_1_eq_mask mask_eq_exp_minus_1)
  ultimately show "has_room s" unfolding has_room_def by (metis less_irrefl)
qed

lemma intern_in:
  fixes s :: "'a timeline_db_scheme"
  assumes "short_inv s" and "finite U" and "e \<in> U" and "demand U s < 2 ^ 64 - 1"
  obtains n s' where "get_or_create_shorteventid e s = (Inr n, s')" and "short_inv s'"
    and "id_of (eventid_shorteventid s') e = Some n" and "demand U s' = demand U s"
    and "\<And>f m. id_of (eventid_shorteventid s) f = Some m \<Longrightarrow> id_of (eventid_shorteventid s') f = Some m"
    and "same_events J R s s'"
proof (cases "id_of (eventid_shorteventid s) e")
  case (Some n)
  have "demand U (event_known e n s) = demand U s"
    by (simp add: demand_def) (simp add: event_known_def)
  with Some show thesis
    using that [OF get_or_create_shorteventid_known [OF assms(1) Some]
        short_inv_event_known [OF assms(1) Some]] same_events_intern(1) [of J R s e n]
    by (simp add: event_known_def)
next
  case None
  have room: "has_room s" by (rule demand_room [OF assms(4)])
  have ids: "id_of (eventid_shorteventid (event_added e s)) f =
      (if f = e then Some (count s + 1) else id_of (eventid_shorteventid s) f)" for f
    by (simp add: event_added_def)
  have "{u \<in> U. id_of (eventid_shorteventid s) u = None} =
      insert e {u \<in> U. id_of (eventid_shorteventid (event_added e s)) u = None}"
    using None assms(3) by (auto simp: ids)
  moreover have "e \<notin> {u \<in> U. id_of (eventid_shorteventid (event_added e s)) u = None}"
    by (simp add: ids)
  moreover have "finite {u \<in> U. id_of (eventid_shorteventid (event_added e s)) u = None}"
    using assms(2) by simp
  ultimately have "card {u \<in> U. id_of (eventid_shorteventid s) u = None} =
      Suc (card {u \<in> U. id_of (eventid_shorteventid (event_added e s)) u = None})"
    by simp
  moreover have "unat (count s + 1) = Suc (unat (count s))"
  proof -
    have "1 + count s \<noteq> 0" using room unfolding has_room_def by (metis add_eq_0_iff)
    from unatSuc [OF this] show ?thesis by (simp only: add.commute)
  qed
  ultimately have "demand U (event_added e s) = demand U s"
    by (simp add: demand_def)
  then show thesis
    using that [OF get_or_create_shorteventid_new [OF assms(1) None]
        short_inv_event_added [OF assms(1) room None]] ids None same_events_intern(2) [of J R s e]
    by (metis option.distinct(1))
qed

lemma short_ids_mem:
  assumes "short_inv s" and "id_of (eventid_shorteventid s) e = Some n"
  shows "n \<in> short_ids s F \<longleftrightarrow> e \<in> F"
  using assms(2) id_table_inj [OF short_invD(1) [OF assms(1)]] by (auto simp: short_ids_def)

lemma short_ids_mono:
  assumes "interned s F" and "\<And>f m. id_of (eventid_shorteventid s) f = Some m \<Longrightarrow> id_of (eventid_shorteventid s') f = Some m"
  shows "short_ids s' F = short_ids s F" and "interned s' F"
proof -
  show "interned s' F" using assms unfolding interned_def by fastforce
  show "short_ids s' F = short_ids s F"
  proof -
    have "id_of (eventid_shorteventid s') f = id_of (eventid_shorteventid s) f" if "f \<in> F" for f
      using assms(1) assms(2) [of f] that unfolding interned_def by (cases "id_of (eventid_shorteventid s) f") auto
    then show ?thesis by (auto simp: short_ids_def)
  qed
qed

lemma short_ids_insert:
  "id_of (eventid_shorteventid s) e = Some n \<Longrightarrow> short_ids s (insert e F) = insert n (short_ids s F)"
  by (auto simp: short_ids_def)

lemma push_auth_events_spec:
  fixes s :: "'a timeline_db_scheme"
  assumes "short_inv s" and "finite U" and "set es \<subseteq> U" and "demand U s < 2 ^ 64 - 1"
    and "interned s F"
  shows "\<exists>todo' s'. push_auth_events es todo (short_ids s F) s = (Inr (todo', short_ids s' (F \<union> set es)), s') \<and>
    short_inv s' \<and> demand U s' = demand U s \<and> same_events J R s s' \<and> interned s' (F \<union> set es) \<and>
    set todo' = set todo \<union> (set es - F) \<and> length todo' = length todo + card (set es - F)"
  using assms
proof (induction es arbitrary: s todo F)
  case (Cons e es)
  obtain n s1 where s1: "get_or_create_shorteventid e s = (Inr n, s1)" "short_inv s1"
    "id_of (eventid_shorteventid s1) e = Some n" "demand U s1 = demand U s"
    "\<And>f m. id_of (eventid_shorteventid s) f = Some m \<Longrightarrow> id_of (eventid_shorteventid s1) f = Some m"
    "same_events J R s s1"
    using intern_in [OF Cons.prems(1,2) _ Cons.prems(4), of e J R] Cons.prems(3) by auto
  note F = short_ids_mono [OF Cons.prems(5) s1(5)]
  have mem: "n \<in> short_ids s F \<longleftrightarrow> e \<in> F"
    using short_ids_mem [OF s1(2,3), of F] F(1) by simp
  have ids: "short_ids s1 (insert e F) = insert n (short_ids s F)"
    using short_ids_insert [OF s1(3)] F(1) by simp
  have int: "interned s1 (insert e F)" using F(2) s1(3) by (simp add: interned_def)
  define todo1 where "todo1 = (if e \<in> F then todo else e # todo)"
  have step: "push_auth_events (e # es) todo (short_ids s F) s =
      push_auth_events es todo1 (short_ids s1 (insert e F)) s1"
    using s1(1) mem ids by (auto simp: bind_apply todo1_def insert_absorb)
  have U: "set es \<subseteq> U" "demand U s1 < 2 ^ 64 - 1" using Cons.prems(3,4) s1(4) by simp_all
  obtain todo' s' where rec:
    "push_auth_events es todo1 (short_ids s1 (insert e F)) s1 = (Inr (todo', short_ids s' (insert e F \<union> set es)), s')"
    "short_inv s'" "demand U s' = demand U s1" "same_events J R s1 s'" "interned s' (insert e F \<union> set es)"
    "set todo' = set todo1 \<union> (set es - insert e F)" "length todo' = length todo1 + card (set es - insert e F)"
    using Cons.IH [OF s1(2) Cons.prems(2) U int, of todo1] by (elim exE conjE)
  have "set todo' = set todo \<union> (set (e # es) - F)"
    using rec(6) by (auto simp: todo1_def split: if_splits)
  moreover have "card (set (e # es) - F) = (if e \<in> F then 0 else 1) + card (set es - insert e F)"
  proof (cases "e \<in> F")
    case True
    then have eq: "set (e # es) - F = set es - insert e F" by auto
    show ?thesis unfolding eq using True by simp
  next
    case False
    then have eq: "set (e # es) - F = insert e (set es - insert e F)" by auto
    show ?thesis unfolding eq using False by simp
  qed
  then have "length todo' = length todo + card (set (e # es) - F)"
    using rec(7) by (simp add: todo1_def)
  moreover have "insert e F \<union> set es = F \<union> set (e # es)" by auto
  ultimately show ?case
    using step rec(1-5) s1(4) same_events_trans [OF s1(6) rec(4)]
    by (intro exI [of _ todo'] exI [of _ s']) simp
qed simp

section \<open>The loop computes the transitive closure\<close>

definition in_room :: "serde \<Rightarrow> ruma \<Rightarrow> room_id \<Rightarrow> 'a timeline_db_scheme \<Rightarrow> event_id \<Rightarrow> bool" where
  "in_room J R room s e \<longleftrightarrow> (\<forall>p. fst (get_pdu J R e s) = Inr (Some p) \<longrightarrow> room_id p = room)"

lemma same_events_in_room: "same_events J R s s' \<Longrightarrow> in_room J R room s' = in_room J R room s"
  by (simp add: same_events_def in_room_def fun_eq_iff)

lemma short_inv_interned_frame:
  "interned (snd (get_pdu J R e s)) F = interned s F"
  "short_ids (snd (get_pdu J R e s)) F = short_ids s F"
  "demand U (snd (get_pdu J R e s)) = demand U s"
  by (simp_all add: interned_def short_ids_def demand_def get_pdu_keeps)

text \<open>
  \<open>P\<close> are the events taken from the worklist so far: together with the worklist they are the
  start and everything found, and their auth events have all been found.
\<close>

definition loop_inv ::
    "event_id rel \<Rightarrow> (event_id \<Rightarrow> bool) \<Rightarrow> event_id \<Rightarrow> event_id set \<Rightarrow> event_id set \<Rightarrow> event_id set \<Rightarrow> event_id list \<Rightarrow> bool" where
  "loop_inv E ok e0 U F P todo \<longleftrightarrow>
     set todo \<union> P = insert e0 F \<and> E `` P \<subseteq> F \<and> F \<subseteq> E\<^sup>+ `` {e0} \<and> F \<subseteq> U \<and> (\<forall>p \<in> P. ok p)"

lemma loop_inv_done:
  assumes "loop_inv E ok e0 U F P []"
  shows "F = E\<^sup>+ `` {e0}" and "\<forall>e \<in> E\<^sup>* `` {e0}. ok e"
proof -
  have P: "P = insert e0 F" "E `` P \<subseteq> F" "F \<subseteq> E\<^sup>+ `` {e0}" "\<forall>p \<in> P. ok p"
    using assms by (auto simp: loop_inv_def)
  have "(e0, e) \<in> E\<^sup>+ \<Longrightarrow> e \<in> F" for e
    by (induction rule: trancl_induct) (use P in auto)
  with P(3) show "F = E\<^sup>+ `` {e0}" by auto
  with P show "\<forall>e \<in> E\<^sup>* `` {e0}. ok e" by (auto simp: rtrancl_eq_or_trancl)
qed

lemma loop_inv_step:
  assumes "loop_inv E ok e0 U F P (e # todo)" and "ok e" and "A = E `` {e}" and "A \<subseteq> U"
    and "set todo' = set todo \<union> (A - F)"
  shows "loop_inv E ok e0 U (F \<union> A) (insert e P) todo'"
proof -
  have "e = e0 \<or> (e0, e) \<in> E\<^sup>+" using assms(1) by (auto simp: loop_inv_def)
  then have "A \<subseteq> E\<^sup>+ `` {e0}" using assms(3) by (auto intro: trancl_into_trancl)
  with assms show ?thesis by (auto simp: loop_inv_def)
qed

lemma loop_inv_reach:
  "loop_inv E ok e0 U F P (e # todo) \<Longrightarrow> (e0, e) \<in> E\<^sup>*"
  by (auto simp: loop_inv_def dest: trancl_into_rtrancl)

lemma loop_skip:
  assumes "\<nexists>pdu. fst (get_pdu J R e t) = Inr (Some pdu)"
  shows "auth_chain_loop (Suc n) J R room (e # todo) found t =
    auth_chain_loop n J R room todo found (snd (get_pdu J R e t))"
  using assms by (auto simp: bind_apply attempt_apply split: sum.split option.split)

lemma loop_follow:
  assumes "fst (get_pdu J R e t) = Inr (Some pdu)" and "room_id pdu = room"
    and "push_auth_events (auth_events pdu) todo found (snd (get_pdu J R e t)) = (Inr (todo', found'), t')"
  shows "auth_chain_loop (Suc n) J R room (e # todo) found t = auth_chain_loop n J R room todo' found' t'"
  using assms by (simp add: bind_apply attempt_apply)

lemma card_split:
  assumes "finite U" and "A \<subseteq> U"
  shows "card (U - F) = card (U - (F \<union> A)) + card (A - F)"
proof -
  have "U - F = (U - (F \<union> A)) \<union> (A - F)" using assms(2) by auto
  moreover have "(U - (F \<union> A)) \<inter> (A - F) = {}" by auto
  moreover have "finite (U - (F \<union> A))" "finite (A - F)"
    using assms by (auto intro: finite_subset)
  ultimately show ?thesis by (metis card_Un_disjoint)
qed

lemma auth_chain_loop_spec:
  fixes s :: "'a timeline_db_scheme" and J R room
  defines "E \<equiv> auth_edges J R s" and "ok \<equiv> in_room J R room s"
  assumes "short_inv t" and "same_events J R s t" and "finite U" and "demand U t < 2 ^ 64 - 1"
    and "E `` U \<subseteq> U" and "e0 \<in> U" and "interned t F" and "loop_inv E ok e0 U F P todo"
    and "length todo + card (U - F) \<le> n"
  shows "(\<exists>t'. auth_chain_loop n J R room todo (short_ids t F) t = (Inr (short_ids t' (E\<^sup>+ `` {e0})), t') \<and>
      short_inv t' \<and> same_events J R s t' \<and> interned t' (E\<^sup>+ `` {e0}) \<and> (\<forall>e \<in> E\<^sup>* `` {e0}. ok e)) \<or>
    fst (auth_chain_loop n J R room todo (short_ids t F) t) = Inl (BadRequest Forbidden ''Evil event in db'') \<and>
      (\<exists>e \<in> E\<^sup>* `` {e0}. \<not> ok e)"
  using assms(3-)
proof (induction n arbitrary: t F P todo)
  case 0
  then have [simp]: "todo = []" by simp
  with 0 loop_inv_done [of E ok e0 U F P] show ?case by auto
next
  case (Suc n)
  show ?case
  proof (cases todo)
    case Nil
    with Suc.prems loop_inv_done [of E ok e0 U F P] show ?thesis by auto
  next
    case (Cons e rest)
    let ?t = "snd (get_pdu J R e t)"
    have t: "short_inv ?t" "same_events J R s ?t" "demand U ?t < 2 ^ 64 - 1" "interned ?t F"
      "short_ids ?t F = short_ids t F"
      using Suc.prems same_events_trans [OF Suc.prems(2) same_events_get_pdu]
      by (simp_all add: get_pdu_keeps short_inv_interned_frame)
    have get: "fst (get_pdu J R e t) = fst (get_pdu J R e s)"
      using Suc.prems(2) by (simp add: same_events_def)
    have inU: "e \<in> U" using Suc.prems(6,8) Cons by (auto simp: loop_inv_def)
    show ?thesis
    proof (cases "\<exists>pdu. fst (get_pdu J R e t) = Inr (Some pdu)")
      case False
      then have "E `` {e} = {}" "ok e" using get by (auto simp: E_def auth_edges_def ok_def in_room_def)
      then have inv: "loop_inv E ok e0 U F (insert e P) rest"
        using loop_inv_step [OF Suc.prems(8) [unfolded Cons], of "{}" rest] by simp
      show ?thesis
        unfolding Cons loop_skip [OF False] t(5) [symmetric]
        by (rule Suc.IH [OF t(1,2) Suc.prems(3) t(3) Suc.prems(5,6) t(4) inv]) (use Suc.prems(9) Cons in simp)
    next
      case True
      then obtain pdu where pdu: "fst (get_pdu J R e t) = Inr (Some pdu)" by blast
      have A: "set (auth_events pdu) = E `` {e}" using pdu get by (auto simp: E_def auth_edges_def)
      have AU: "set (auth_events pdu) \<subseteq> U" using A inU Suc.prems(5) by blast
      show ?thesis
      proof (cases "room_id pdu = room")
        case False
        then have "\<not> ok e" using pdu get by (simp add: ok_def in_room_def)
        moreover have "(e0, e) \<in> E\<^sup>*" using Suc.prems(8) Cons loop_inv_reach by metis
        ultimately show ?thesis using Cons pdu False by (auto simp: bind_apply attempt_apply)
      next
        case True
        obtain todo' t' where push:
          "push_auth_events (auth_events pdu) rest (short_ids ?t F) ?t =
            (Inr (todo', short_ids t' (F \<union> set (auth_events pdu))), t')"
          "short_inv t'" "demand U t' = demand U ?t" "same_events J R ?t t'"
          "interned t' (F \<union> set (auth_events pdu))"
          "set todo' = set rest \<union> (set (auth_events pdu) - F)"
          "length todo' = length rest + card (set (auth_events pdu) - F)"
          using push_auth_events_spec [OF t(1) Suc.prems(3) AU t(3,4), of rest J R] by (elim exE conjE)
        have "ok e" using pdu True get by (simp add: ok_def in_room_def)
        then have inv: "loop_inv E ok e0 U (F \<union> set (auth_events pdu)) (insert e P) todo'"
          using loop_inv_step [OF Suc.prems(8) [unfolded Cons] _ A AU push(6)] by simp
        have fuel: "length todo' + card (U - (F \<union> set (auth_events pdu))) \<le> n"
          using Suc.prems(9) Cons push(7) card_split [OF Suc.prems(3) AU, of F] by simp
        have dem: "demand U t' < 2 ^ 64 - 1" using push(3) t(3) by simp
        show ?thesis
          unfolding Cons loop_follow [OF pdu True push(1) [unfolded t(5)]]
          by (rule Suc.IH [OF push(2) same_events_trans [OF t(2) push(4)] Suc.prems(3) dem Suc.prems(5,6) push(5) inv fuel])
      qed
    qed
  qed
qed

section \<open>The persistent cache\<close>

lemma chunks8_concat: "chunks8 (concat (map to_be_bytes ns)) = map to_be_bytes ns"
proof (induction ns)
  case (Cons n ns)
  then show ?case by (subst chunks8.simps) (simp add: length_to_be_bytes)
qed (simp add: chunks8.simps)

lemma decode_chain_encode: "decode_chain (concat (map to_be_bytes ns)) = set ns"
  by (simp add: decode_chain_def chunks8_concat from_to_be_bytes comp_def)

section \<open>Properties\<close>

text \<open>C14: For every event and every room, the auth chain loop ends once it is given as many steps as
  there are events to follow, and it then yields exactly the short ids of the events reachable along
  one or more auth events; it fails with a forbidden error exactly when the start or one of those
  events belongs to another room.\<close>
theorem get_auth_chain_inner_correct:
  fixes s :: "'a timeline_db_scheme"
  assumes "short_inv s" and "finite U" and "e \<in> U" and "auth_edges J R s `` U \<subseteq> U"
    and "demand U s < 2 ^ 64 - 1" and "card U < n"
  shows "if \<forall>e' \<in> (auth_edges J R s)\<^sup>* `` {e}. in_room J R room s e'
    then \<exists>s'. get_auth_chain_inner n J R room e s = (Inr (short_ids s' ((auth_edges J R s)\<^sup>+ `` {e})), s') \<and>
      short_inv s' \<and> interned s' ((auth_edges J R s)\<^sup>+ `` {e}) \<and> same_events J R s s'
    else fst (get_auth_chain_inner n J R room e s) = Inl (BadRequest Forbidden ''Evil event in db'')"
proof -
  have "loop_inv (auth_edges J R s) (in_room J R room s) e U {} {} [e]"
    by (simp add: loop_inv_def)
  from auth_chain_loop_spec [OF assms(1) same_events_refl assms(2,5,4,3) _ this, of n] assms(6)
  have "(\<exists>t'. get_auth_chain_inner n J R room e s = (Inr (short_ids t' ((auth_edges J R s)\<^sup>+ `` {e})), t') \<and>
      short_inv t' \<and> same_events J R s t' \<and> interned t' ((auth_edges J R s)\<^sup>+ `` {e}) \<and>
      (\<forall>e' \<in> (auth_edges J R s)\<^sup>* `` {e}. in_room J R room s e')) \<or>
    fst (get_auth_chain_inner n J R room e s) = Inl (BadRequest Forbidden ''Evil event in db'') \<and>
      (\<exists>e' \<in> (auth_edges J R s)\<^sup>* `` {e}. \<not> in_room J R room s e')"
    by (simp add: get_auth_chain_inner_def interned_def short_ids_def)
  then show ?thesis by (auto split: if_split)
qed

definition chain_example :: timeline_db where
  "chain_example = (timeline_init [])\<lparr>pdu_cache :=
     [ascii ''$e'' \<mapsto> example_pdu, ascii ''$c'' \<mapsto> example_pdu\<lparr>event_id := ascii ''$c'', auth_events := []\<rparr>]\<rparr>"

lemma chain_example_edges: "auth_edges example_serde example_ruma chain_example = {(ascii ''$e'', ascii ''$c'')}"
  by (auto simp: auth_edges_def get_pdu_result chain_example_def event_bytes_def decode_opt_def example_pdu_def
      split: if_splits)

theorem get_auth_chain_inner_correct_witness:
  "\<exists>s'. get_auth_chain_inner 3 example_serde example_ruma (ascii ''!r:h'') (ascii ''$e'') chain_example =
     (Inr (short_ids s' {ascii ''$c''}), s')"
proof -
  have inv: "short_inv chain_example"
    using timeline_init_inv(1) [of "[]"] by (simp add: chain_example_def)
  have dem: "demand {ascii ''$e'', ascii ''$c''} chain_example < 2 ^ 64 - 1"
  proof -
    have "card {u \<in> {ascii ''$e'', ascii ''$c''}. id_of (eventid_shorteventid chain_example) u = None} \<le> card {ascii ''$e'', ascii ''$c''}"
      by (rule card_mono) auto
    also have "\<dots> \<le> 2" by simp
    finally show ?thesis by (simp add: demand_def chain_example_def)
  qed
  have plus: "{(ascii ''$e'', ascii ''$c'')}\<^sup>+ `` {ascii ''$e''} = {ascii ''$c''}"
    by (auto elim: trancl.cases dest: tranclD)
  have room: "in_room example_serde example_ruma (ascii ''!r:h'') chain_example e" for e
    by (auto simp: in_room_def get_pdu_result chain_example_def event_bytes_def decode_opt_def example_pdu_def
        split: if_splits)
  show ?thesis
    using get_auth_chain_inner_correct [where room = "ascii ''!r:h''" and n = 3 and J = example_serde and R = example_ruma,
        OF inv _ _ _ dem, of "ascii ''$e''"]
    by (simp add: chain_example_edges plus room) blast
qed



end
