(* ===== verification/Stored.thy ===== *)
theory Stored
  imports Json Globals
begin

text \<open>
  What the stores share: reading optional values out of a tree, and tables whose keys carry a
  count behind a prefix, which are read from a token onwards
  (\<^verbatim>\<open>iter_from(prefix + count).take_while(starts_with(prefix))\<close>).
\<close>

section \<open>Running operations\<close>

text \<open>The combinators on the elementary operations, with no condition to solve.\<close>

lemma run_simps [simp, op_simps]:
  "bind (gets f) m s = m (f s) s"
  "bind (ret x) m s = m x s"
  "bind (modify g) m s = m () (g s)"
  "bind (fail e) m s = (Inl e, s)"
  "andthen (modify g) k s = k (g s)"
  "andthen (ret x) k s = k s"
  "andthen (gets f) k s = k s"
  by (simp_all add: bind_def andthen_def)

lemma run_next_count [simp]:
  "bind next_count m s = m (count s + 1) (bump s)"
  "andthen next_count k s = k (bump s)"
  by (simp_all add: bind_def andthen_def)

lemma if_op [simp]: "(if c then p else q) s = (if c then p s else q s)"
  by simp

section \<open>Stored values\<close>

definition decode_string :: "string \<Rightarrow> bytes option \<Rightarrow> bytes option res" where
  "decode_string msg m = transpose_opt (map_option (\<lambda>b. map_err (BadDatabase msg) (string_from_bytes b)) m)"

definition decode_u64 :: "string \<Rightarrow> bytes option \<Rightarrow> u64 option res" where
  "decode_u64 msg m = transpose_opt (map_option (\<lambda>b. map_err (BadDatabase msg) (u64_from_bytes b)) m)"

definition decode_json :: "string \<Rightarrow> (bytes \<Rightarrow> 'b option) \<Rightarrow> bytes option \<Rightarrow> 'b option res" where
  "decode_json msg f m = transpose_opt (map_option (\<lambda>b. ok_or (BadDatabase msg) (f b)) m)"

lemma decode_simps [simp]:
  "decode_string msg None = Inr None"
  "utf8_valid b \<Longrightarrow> decode_string msg (Some b) = Inr (Some b)"
  "decode_u64 msg None = Inr None"
  "decode_u64 msg (Some (to_be_bytes n)) = Inr (Some n)"
  "decode_json msg f None = Inr None"
  "f b = Some x \<Longrightarrow> decode_json msg f (Some b) = Inr (Some x)"
  "f b = None \<Longrightarrow> decode_json msg f (Some b) = Inl (BadDatabase msg)"
  by (simp_all add: decode_string_def decode_u64_def decode_json_def)

text \<open>\<^verbatim>\<open>iter.filter_map(|r| r.ok())\<close>\<close>

definition oks :: "('e + 'a) list \<Rightarrow> 'a list" where
  "oks rs = List.map_filter res_ok rs"

lemma oks_simps [simp]:
  "oks [] = []" "oks (Inl e # rs) = oks rs" "oks (Inr x # rs) = x # oks rs"
  by (simp_all add: oks_def List.map_filter_simps)

lemma oks_Inr: "oks (map (\<lambda>x. Inr (f x)) xs) = map f xs"
  by (induction xs) simp_all

lemma set_oks: "set (oks rs) = {x. Inr x \<in> set rs}"
proof (induction rs)
  case (Cons r rs)
  then show ?case by (cases r) auto
qed simp

text \<open>Whether a key is present.\<close>

definition kv_has :: "kv_tree \<Rightarrow> bytes \<Rightarrow> bool" where
  "kv_has t k \<longleftrightarrow> kv_get t k \<noteq> None"

lemma kv_has_simps [simp]:
  "kv_has (kv_insert k v t) k' \<longleftrightarrow> k' = k \<or> kv_has t k'"
  "kv_has (kv_remove k t) k' \<longleftrightarrow> k' \<noteq> k \<and> kv_has t k'"
  "\<not> kv_has kv_empty k"
  by (auto simp: kv_has_def)

section \<open>Counted tables\<close>

text \<open>The part of a table under a prefix: every key continues with a count.\<close>

definition counted :: "bytes \<Rightarrow> kv_tree \<Rightarrow> bool" where
  "counted p t \<longleftrightarrow> (\<forall>k v. kv_get t k = Some v \<longrightarrow> prefix p k \<longrightarrow> (\<exists>n x. k = p @ to_be_bytes n @ x))"

definition key_count :: "bytes \<Rightarrow> bytes \<Rightarrow> u64" where
  "key_count p k = from_be_bytes (take 8 (drop (length p) k))"

declare from_to_be_bytes [simp]

lemma key_count_append [simp]: "key_count p (p @ to_be_bytes n @ x) = n" "key_count p (p @ to_be_bytes n) = n"
  by (simp_all add: key_count_def)

lemma counted_keyD:
  assumes "counted p t" and "kv_get t k = Some v" and "prefix p k"
  obtains x where "k = p @ to_be_bytes (key_count p k) @ x"
  using assms unfolding counted_def by fastforce

lemma counted_empty [simp]: "counted p kv_empty"
  by (simp add: counted_def)

lemma counted_insert [simp]:
  "counted p (kv_insert k v t) \<longleftrightarrow>
     counted p (kv_remove k t) \<and> (prefix p k \<longrightarrow> (\<exists>n x. k = p @ to_be_bytes n @ x))"
  by (auto simp: counted_def)

lemma counted_remove: "counted p t \<Longrightarrow> counted p (kv_remove k t)"
  by (auto simp: counted_def)

lemma succ_le_iff_u64: "x \<noteq> -1 \<Longrightarrow> x + 1 \<le> y \<longleftrightarrow> x < y" for x y :: u64
  using inc_less_eq_triv_imp [of x] by (meson inc_le less_le_trans not_le_imp_less)

lemma count_key_le: "to_be_bytes a \<le> to_be_bytes n @ x \<longleftrightarrow> a \<le> n"
  using append_le_same_length [of "to_be_bytes a" "to_be_bytes n" "[]" x] by auto

lemma key_le_count: "to_be_bytes n @ x \<le> to_be_bytes b \<longleftrightarrow> n < b \<or> n = b \<and> x = []"
  using append_le_same_length [of "to_be_bytes n" "to_be_bytes b" x "[]"] by (cases x) auto

text \<open>A scan from behind a token sees exactly the entries with a later count.\<close>

lemma counted_since:
  assumes "counted p t" and "since \<noteq> -1"
  shows "takeWhile (\<lambda>e. prefix p (fst e)) (kv_iter_from (p @ to_be_bytes (since + 1)) False t) =
         filter (\<lambda>e. prefix p (fst e) \<and> since < key_count p (fst e)) (kv_iter t)"
proof -
  have "takeWhile (\<lambda>e. prefix p (fst e)) (kv_iter_from (p @ to_be_bytes (since + 1)) False t) =
        filter (\<lambda>e. prefix p (fst e) \<and> p @ to_be_bytes (since + 1) \<le> fst e) (kv_iter t)"
    by (simp add: kv_iter_from_def kv.asc_range)
  also have "\<dots> = filter (\<lambda>e. prefix p (fst e) \<and> since < key_count p (fst e)) (kv_iter t)"
  proof (rule filter_cong [OF refl])
    fix e
    assume "e \<in> set (kv_iter t)"
    then have get: "kv_get t (fst e) = Some (snd e)" using kv_iter_get [of "fst e" "snd e" t] by simp
    show "(prefix p (fst e) \<and> p @ to_be_bytes (since + 1) \<le> fst e) =
          (prefix p (fst e) \<and> since < key_count p (fst e))"
    proof (cases "prefix p (fst e)")
      case True
      from counted_keyD [OF assms(1) get True] obtain x
        where "fst e = p @ to_be_bytes (key_count p (fst e)) @ x" .
      then have "p @ to_be_bytes (since + 1) \<le> fst e \<longleftrightarrow> since + 1 \<le> key_count p (fst e)"
        by (metis append_le_cancel count_key_le)
      with assms(2) show ?thesis by (simp add: succ_le_iff_u64)
    qed simp
  qed
  finally show ?thesis .
qed

text \<open>Collecting decoded entries into a map, when the decoded keys are distinct.\<close>

lemma map_of_image:
  assumes "distinct es" and "set es = f ` A" and "\<And>x. x \<in> A \<Longrightarrow> g (f x) = (key x, val x)" and "inj_on key A"
  shows "map_of (rev (map g es)) k = Some v \<longleftrightarrow> (\<exists>x \<in> A. key x = k \<and> val x = v)"
proof -
  have "inj_on (fst \<circ> g) (f ` A)"
    by (rule inj_on_imageI, rule inj_onI) (auto simp: assms(3) inj_onD [OF assms(4)])
  then have "distinct (map fst (map g es))"
    using assms(1,2) by (simp add: distinct_map)
  then have "map_of (rev (map g es)) k = Some v \<longleftrightarrow> (k, v) \<in> g ` f ` A"
    by (subst map_of_eq_Some_iff) (simp_all add: rev_map [symmetric] assms(2))
  also have "\<dots> \<longleftrightarrow> (\<exists>x \<in> A. key x = k \<and> val x = v)"
    using assms(3) by (auto simp: image_iff)
  finally show ?thesis .
qed

section \<open>Scans after a change\<close>

lemma entries_equal:
  assumes "sorted_wrt (<) (map fst xs)" and "sorted_wrt (<) (map fst ys)" and "set xs = set ys"
  shows "xs = (ys :: (bytes \<times> bytes) list)"
proof (rule map_sorted_distinct_set_unique [of fst])
  show "inj_on fst (set xs \<union> set ys)"
    using assms(1,3) by (simp add: strict_sorted_iff distinct_map)
qed (use assms in \<open>simp_all add: strict_sorted_iff\<close>)

lemma scan_insert_other [simp]:
  "\<not> prefix p k \<Longrightarrow> kv_scan_prefix p (kv_insert k v t) = kv_scan_prefix p t"
  by (rule entries_equal) (auto simp: sorted_kv_scan_prefix set_kv_scan_prefix split: if_splits)

lemma scan_remove [simp]:
  "kv_scan_prefix p (kv_remove k t) = filter (\<lambda>e. fst e \<noteq> k) (kv_scan_prefix p t)"
proof (rule entries_equal)
  show "sorted_wrt (<) (map fst (filter (\<lambda>e. fst e \<noteq> k) (kv_scan_prefix p t)))"
    using sorted_kv_scan_prefix [of p t] by (simp add: sorted_wrt_map sorted_wrt_filter)
qed (auto simp: sorted_kv_scan_prefix set_kv_scan_prefix split: if_splits)

lemma scan_empty [simp]: "kv_scan_prefix p kv_empty = []"
  by (simp add: kv_scan_prefix_filter kv_iter_def kv_empty_def)

text \<open>A key behind all others of its prefix is appended to the scan.\<close>

lemma scan_insert_last:
  assumes "prefix p k" and later: "\<And>k' v'. kv_get t k' = Some v' \<Longrightarrow> prefix p k' \<Longrightarrow> k' < k"
  shows "kv_scan_prefix p (kv_insert k v t) = kv_scan_prefix p t @ [(k, v)]"
proof (rule entries_equal)
  show "sorted_wrt (<) (map fst (kv_scan_prefix p t @ [(k, v)]))"
    using sorted_kv_scan_prefix [of p t] later by (auto simp: sorted_wrt_append set_kv_scan_prefix)
  have "kv_get t k = None" using later [of k] assms(1) by (cases "kv_get t k") auto
  then show "set (kv_scan_prefix p (kv_insert k v t)) = set (kv_scan_prefix p t @ [(k, v)])"
    using assms(1) by (auto simp: set_kv_scan_prefix split: if_splits)
qed (rule sorted_kv_scan_prefix)

lemma scan_remove_list:
  "kv_scan_prefix p (fold kv_remove ks t) = filter (\<lambda>e. fst e \<notin> set ks) (kv_scan_prefix p t)"
  by (induction ks arbitrary: t) (auto intro: filter_cong)

end
