(* ===== verification/Frames.thy ===== *)
theory Frames
  imports Stored
begin

text \<open>
  Frame reasoning: an operation keeps an observation of the state, whether it succeeds or fails. The
  rules follow the combinators, so that a component's operations keep what none of their
  writes touches.
\<close>

named_theorems keeps_intros \<open>rules that an operation keeps an observation\<close>

definition keeps :: "('s \<Rightarrow> 'v) \<Rightarrow> ('e, 's, 'a) op \<Rightarrow> bool" where
  "keeps f m \<longleftrightarrow> (\<forall>s. f (snd (m s)) = f s)"

lemma keepsD: "keeps f m \<Longrightarrow> f (snd (m s)) = f s"
  by (simp add: keeps_def)

lemma keeps_result: "keeps f m \<Longrightarrow> m s = (r, s') \<Longrightarrow> f s' = f s"
  using keepsD [of f m s] by simp

lemma keeps_basic [keeps_intros]:
  "keeps f (ret x)" "keeps f (fail e)" "keeps f (gets g)" "keeps f (reads g')" "keeps f (of_res r)"
  by (simp_all add: keeps_def)

lemma keeps_modify [keeps_intros]: "(\<And>s. f (g s) = f s) \<Longrightarrow> keeps f (modify g)"
  by (simp add: keeps_def)

lemma keeps_bind [keeps_intros]: "keeps f m \<Longrightarrow> (\<And>x. keeps f (k x)) \<Longrightarrow> keeps f (bind m k)"
  unfolding keeps_def
proof
  fix s
  assume m: "\<forall>s. f (snd (m s)) = f s" and k: "\<And>x. \<forall>s. f (snd (k x s)) = f s"
  obtain r s' where r: "m s = (r, s')" by fastforce
  with m have "f s' = f s" by (metis snd_conv)
  with r k show "f (snd (bind m k s)) = f s" by (cases r) simp_all
qed

lemma keeps_andthen [keeps_intros]: "keeps f m \<Longrightarrow> keeps f k \<Longrightarrow> keeps f (andthen m k)"
  unfolding andthen_def by (rule keeps_bind)

lemma keeps_attempt [keeps_intros]: "keeps f m \<Longrightarrow> keeps f (attempt m)"
  by (simp add: keeps_def attempt_apply)

lemma keeps_if [keeps_intros]: "keeps f m \<Longrightarrow> keeps f k \<Longrightarrow> keeps f (if c then m else k)"
  by simp

lemma keeps_option [keeps_intros]:
  "keeps f m \<Longrightarrow> (\<And>x. keeps f (k x)) \<Longrightarrow> keeps f (case v of None \<Rightarrow> m | Some x \<Rightarrow> k x)"
  by (simp split: option.split)

lemma keeps_prod [keeps_intros]: "(\<And>x y. keeps f (k x y)) \<Longrightarrow> keeps f (case v of (x, y) \<Rightarrow> k x y)"
  by (simp split: prod.split)

lemma keeps_list [keeps_intros]:
  "keeps f m \<Longrightarrow> (\<And>x xs. keeps f (k x xs)) \<Longrightarrow> keeps f (case v of [] \<Rightarrow> m | x # xs \<Rightarrow> k x xs)"
  by (simp split: list.split)

lemma keeps_sum [keeps_intros]:
  "(\<And>x. keeps f (m x)) \<Longrightarrow> (\<And>x. keeps f (k x)) \<Longrightarrow> keeps f (case v of Inl x \<Rightarrow> m x | Inr x \<Rightarrow> k x)"
  by (simp split: sum.split)

lemma keeps_let [keeps_intros]: "(\<And>x. keeps f (k x)) \<Longrightarrow> keeps f (let x = v in k x)"
  by simp

lemma keeps_for_each [keeps_intros]: "(\<And>x. x \<in> set xs \<Longrightarrow> keeps f (k x)) \<Longrightarrow> keeps f (for_each xs k)"
  by (induction xs) (auto intro: keeps_intros)

lemma keeps_next_count [keeps_intros]: "(\<And>g s. f (global_update g s) = f s) \<Longrightarrow> keeps f next_count"
  by (simp add: keeps_def bump_def)

lemma keeps_pair: "keeps f m \<Longrightarrow> keeps g m \<Longrightarrow> keeps (\<lambda>s. (f s, g s)) m"
  by (simp add: keeps_def)

end
