(* ===== verification/Users.thy ===== *)
theory Users
  imports AuthChain Frames
begin

text \<open>
  Accounts, devices, access tokens, one-time keys, to-device events and filters
  (\<^verbatim>\<open>src/database/key_value/users.rs\<close>, \<^verbatim>\<open>src/service/users/mod.rs\<close>). The operations
  that announce key changes to the rooms of a user are in \<open>DeviceKeys\<close>. Password hashing, the
  JSON forms of devices and key ids, the clock and random strings are parameters.
\<close>

section \<open>State\<close>

record Device =
  device_name :: device_id
  display_name :: "bytes option"
  last_seen_ip :: "bytes option"
  last_seen_ts :: "u64 option"

record users_db = authchain_db +
  userid_password :: kv_tree
  userid_displayname :: kv_tree
  userid_avatarurl :: kv_tree
  userid_blurhash :: kv_tree
  userdeviceid_token :: kv_tree
  userdeviceid_metadata :: kv_tree
  userid_devicelistversion :: kv_tree
  token_userdeviceid :: kv_tree
  onetimekeyid_onetimekeys :: kv_tree
  userid_lastonetimekeyupdate :: kv_tree
  keychangeid_userid :: kv_tree
  keyid_key :: kv_tree
  userid_masterkeyid :: kv_tree
  userid_selfsigningkeyid :: kv_tree
  userid_usersigningkeyid :: kv_tree
  userfilterid_filter :: kv_tree
  todeviceid_events :: kv_tree

definition userdeviceid :: "user_id \<Rightarrow> device_id \<Rightarrow> bytes" where
  "userdeviceid user device = user @ sep # device"

section \<open>Accounts\<close>

definition user_exists :: "user_id \<Rightarrow> 'a users_db_scheme \<Rightarrow> bool res" where
  "user_exists user s = Inr (kv_get (userid_password s) user \<noteq> None)"

definition is_deactivated :: "user_id \<Rightarrow> 'a users_db_scheme \<Rightarrow> bool res" where
  "is_deactivated user s =
     map_res (\<lambda>pw. pw = []) (ok_or (BadRequest InvalidParam ''User does not exist.'') (kv_get (userid_password s) user))"

definition count_users :: "'a users_db_scheme \<Rightarrow> nat res" where
  "count_users s = Inr (length (kv_iter (userid_password s)))"

definition find_from_token :: "ruma \<Rightarrow> bytes \<Rightarrow> 'a users_db_scheme \<Rightarrow> (user_id \<times> bytes) option res" where
  "find_from_token R token s =
     (case kv_get (token_userdeviceid s) token of
        None \<Rightarrow> Inr None
      | Some b \<Rightarrow>
          let parts = split_sep b in
          bind_res (ok_or (BadDatabase ''User ID in token_userdeviceid is invalid.'') (nth_part 0 parts)) (\<lambda>user_bytes.
          bind_res (ok_or (BadDatabase ''Device ID in token_userdeviceid is invalid.'') (nth_part 1 parts)) (\<lambda>device_bytes.
          bind_res (id_from_bytes (is_user_id R) ''User ID in token_userdeviceid is invalid unicode.''
                      ''User ID in token_userdeviceid is invalid.'' user_bytes) (\<lambda>user.
          bind_res (map_err (BadDatabase ''Device ID in token_userdeviceid is invalid.'')
                      (string_from_bytes device_bytes)) (\<lambda>device.
          Inr (Some (user, device)))))))"

definition iter_users :: "ruma \<Rightarrow> 'a users_db_scheme \<Rightarrow> user_id res list" where
  "iter_users R s =
     map (\<lambda>(b, _). id_from_bytes (is_user_id R) ''User ID in userid_password is invalid unicode.''
                     ''User ID in userid_password is invalid.'' b)
       (kv_iter (userid_password s))"

definition get_username_with_valid_password :: "bytes \<Rightarrow> bytes \<Rightarrow> bytes option" where
  "get_username_with_valid_password username password =
     (if password = [] then None else res_ok (string_from_bytes username))"

definition list_local_users :: "'a users_db_scheme \<Rightarrow> bytes list res" where
  "list_local_users s =
     Inr (List.map_filter (\<lambda>(username, pw). get_username_with_valid_password username pw) (kv_iter (userid_password s)))"

definition password_hash :: "user_id \<Rightarrow> 'a users_db_scheme \<Rightarrow> bytes option res" where
  "password_hash user s =
     decode_string ''Password hash in db is not valid string.'' (kv_get (userid_password s) user)"

definition set_password :: "(bytes \<Rightarrow> bytes option) \<Rightarrow> user_id \<Rightarrow> bytes option \<Rightarrow> ('a users_db_scheme, unit) dop" where
  "set_password argon2 user password =
     (case password of
        Some pw \<Rightarrow>
          (case argon2 pw of
             Some hash \<Rightarrow> modify (userid_password_update (kv_insert user hash))
           | None \<Rightarrow> fail (BadRequest InvalidParam ''Password does not meet the requirements.''))
      | None \<Rightarrow> modify (userid_password_update (kv_insert user [])))"

definition displayname :: "user_id \<Rightarrow> 'a users_db_scheme \<Rightarrow> bytes option res" where
  "displayname user s = decode_string ''Displayname in db is invalid.'' (kv_get (userid_displayname s) user)"

definition set_displayname :: "user_id \<Rightarrow> bytes option \<Rightarrow> ('a users_db_scheme, unit) dop" where
  "set_displayname user name =
     (case name of
        Some n \<Rightarrow> modify (userid_displayname_update (kv_insert user n))
      | None \<Rightarrow> modify (userid_displayname_update (kv_remove user)))"

definition avatar_url :: "user_id \<Rightarrow> 'a users_db_scheme \<Rightarrow> bytes option res" where
  "avatar_url user s = decode_string ''Avatar URL in db is invalid.'' (kv_get (userid_avatarurl s) user)"

definition set_avatar_url :: "user_id \<Rightarrow> bytes option \<Rightarrow> ('a users_db_scheme, unit) dop" where
  "set_avatar_url user url =
     (case url of
        Some u \<Rightarrow> modify (userid_avatarurl_update (kv_insert user u))
      | None \<Rightarrow> modify (userid_avatarurl_update (kv_remove user)))"

definition blurhash :: "user_id \<Rightarrow> 'a users_db_scheme \<Rightarrow> bytes option res" where
  "blurhash user s = decode_string ''Avatar URL in db is invalid.'' (kv_get (userid_blurhash s) user)"

definition set_blurhash :: "user_id \<Rightarrow> bytes option \<Rightarrow> ('a users_db_scheme, unit) dop" where
  "set_blurhash user hash =
     (case hash of
        Some h \<Rightarrow> modify (userid_blurhash_update (kv_insert user h))
      | None \<Rightarrow> modify (userid_blurhash_update (kv_remove user)))"

section \<open>Devices and access tokens\<close>

definition set_token :: "user_id \<Rightarrow> device_id \<Rightarrow> bytes \<Rightarrow> ('a users_db_scheme, unit) dop" where
  "set_token user device token =
     (let ud = userdeviceid user device in
      bind (gets (\<lambda>s. kv_get (userdeviceid_metadata s) ud)) (\<lambda>metadata.
      if metadata = None then fail (Panic ''assertion failed: All devices have metadata'')
      else
        bind (gets (\<lambda>s. kv_get (userdeviceid_token s) ud)) (\<lambda>old.
        andthen (case old of
                   Some old_token \<Rightarrow> modify (token_userdeviceid_update (kv_remove old_token))
                 | None \<Rightarrow> ret ())
        (andthen (modify (userdeviceid_token_update (kv_insert ud token)))
        (modify (token_userdeviceid_update (kv_insert token ud)))))))"

definition create_device ::
    "(Device \<Rightarrow> bytes) \<Rightarrow> u64 \<Rightarrow> user_id \<Rightarrow> device_id \<Rightarrow> bytes \<Rightarrow> bytes option \<Rightarrow> ('a users_db_scheme, unit) dop" where
  "create_device dprint now user device token initial_device_display_name =
     (let ud = userdeviceid user device in
      bind (reads (user_exists user)) (\<lambda>ex.
      if \<not> ex then fail (Panic ''assertion failed: self.exists(user_id)?'')
      else
        andthen (modify (userid_devicelistversion_update (\<lambda>t. snd (kv_increment user t))))
        (andthen (modify (userdeviceid_metadata_update (kv_insert ud
           (dprint \<lparr>device_name = device, display_name = initial_device_display_name,
                    last_seen_ip = None, last_seen_ts = Some now\<rparr>))))
        (set_token user device token))))"

definition remove_device :: "user_id \<Rightarrow> device_id \<Rightarrow> ('a users_db_scheme, unit) dop" where
  "remove_device user device =
     (let ud = userdeviceid user device in
      bind (gets (\<lambda>s. kv_get (userdeviceid_token s) ud)) (\<lambda>old.
      andthen (case old of
                 Some old_token \<Rightarrow>
                   andthen (modify (userdeviceid_token_update (kv_remove ud)))
                   (modify (token_userdeviceid_update (kv_remove old_token)))
               | None \<Rightarrow> ret ())
      (andthen (modify (todeviceid_events_update (kv_remove_prefix (ud @ [sep]))))
      (andthen (modify (userid_devicelistversion_update (\<lambda>t. snd (kv_increment user t))))
      (modify (userdeviceid_metadata_update (kv_remove ud)))))))"

definition all_device_ids :: "user_id \<Rightarrow> 'a users_db_scheme \<Rightarrow> device_id res list" where
  "all_device_ids user s =
     map (\<lambda>(b, _). map_err (BadDatabase ''Device ID in userdeviceid_metadata is invalid.'')
                     (string_from_bytes (rsplit_last b)))
       (kv_scan_prefix (user @ [sep]) (userdeviceid_metadata s))"

definition update_device_metadata ::
    "(Device \<Rightarrow> bytes) \<Rightarrow> user_id \<Rightarrow> device_id \<Rightarrow> Device \<Rightarrow> ('a users_db_scheme, unit) dop" where
  "update_device_metadata dprint user device dev =
     (let ud = userdeviceid user device in
      bind (gets (\<lambda>s. kv_get (userdeviceid_metadata s) ud)) (\<lambda>metadata.
      if metadata = None then fail (Panic ''assertion failed: Only existing devices should be able to call this'')
      else
        andthen (modify (userid_devicelistversion_update (\<lambda>t. snd (kv_increment user t))))
        (modify (userdeviceid_metadata_update (kv_insert ud (dprint dev))))))"

definition get_device_metadata ::
    "(bytes \<Rightarrow> Device option) \<Rightarrow> user_id \<Rightarrow> device_id \<Rightarrow> 'a users_db_scheme \<Rightarrow> Device option res" where
  "get_device_metadata dparse user device s =
     decode_json ''Metadata in userdeviceid_metadata is invalid.'' dparse
       (kv_get (userdeviceid_metadata s) (userdeviceid user device))"

definition get_devicelist_version :: "user_id \<Rightarrow> 'a users_db_scheme \<Rightarrow> u64 option res" where
  "get_devicelist_version user s =
     decode_u64 ''Invalid devicelistversion in db.'' (kv_get (userid_devicelistversion s) user)"

definition all_devices_metadata :: "(bytes \<Rightarrow> Device option) \<Rightarrow> user_id \<Rightarrow> 'a users_db_scheme \<Rightarrow> Device res list" where
  "all_devices_metadata dparse user s =
     map (\<lambda>(_, b). ok_or (BadDatabase ''Device in userdeviceid_metadata is invalid.'') (dparse b))
       (kv_scan_prefix (user @ [sep]) (userdeviceid_metadata s))"

text \<open>\<^verbatim>\<open>service/users/mod.rs\<close>\<close>

definition create_user :: "(bytes \<Rightarrow> bytes option) \<Rightarrow> user_id \<Rightarrow> bytes option \<Rightarrow> ('a users_db_scheme, unit) dop" where
  "create_user argon2 user password = set_password argon2 user password"

definition deactivate_account :: "(bytes \<Rightarrow> bytes option) \<Rightarrow> user_id \<Rightarrow> ('a users_db_scheme, unit) dop" where
  "deactivate_account argon2 user =
     bind (gets (all_device_ids user)) (\<lambda>ids.
     andthen (for_each ids (\<lambda>r. bind (of_res r) (remove_device user)))
     (set_password argon2 user None))"

section \<open>One-time keys\<close>

text \<open>\<open>kprint\<close> and \<open>kparse\<close> are the JSON form of a key id, \<open>key_alg\<close> its algorithm.\<close>

definition touch_one_time_keys :: "user_id \<Rightarrow> ('a users_db_scheme, unit) dop" where
  "touch_one_time_keys user =
     bind next_count (\<lambda>c. modify (userid_lastonetimekeyupdate_update (kv_insert user (to_be_bytes c))))"

definition add_one_time_key ::
    "serde \<Rightarrow> (bytes \<Rightarrow> bytes) \<Rightarrow> user_id \<Rightarrow> device_id \<Rightarrow> bytes \<Rightarrow> json \<Rightarrow> ('a users_db_scheme, unit) dop" where
  "add_one_time_key J kprint user device key_id key =
     (let ud = userdeviceid user device in
      bind (gets (\<lambda>s. kv_get (userdeviceid_metadata s) ud)) (\<lambda>metadata.
      if metadata = None then fail (Panic ''assertion failed: All devices have metadata'')
      else
        andthen (modify (onetimekeyid_onetimekeys_update (kv_insert (ud @ sep # kprint key_id) (json_print J key))))
        (touch_one_time_keys user)))"

definition last_one_time_keys_update :: "user_id \<Rightarrow> 'a users_db_scheme \<Rightarrow> u64 res" where
  "last_one_time_keys_update user s =
     (case kv_get (userid_lastonetimekeyupdate s) user of
        None \<Rightarrow> Inr 0
      | Some b \<Rightarrow> map_err (BadDatabase ''Count in roomid_lastroomactiveupdate is invalid.'') (u64_from_bytes b))"

definition take_one_time_key ::
    "serde \<Rightarrow> (bytes \<Rightarrow> bytes option) \<Rightarrow> user_id \<Rightarrow> device_id \<Rightarrow> bytes \<Rightarrow>
     ('a users_db_scheme, (bytes \<times> json) option) dop" where
  "take_one_time_key J kparse user device algorithm =
     (let prefx = userdeviceid user device @ sep # ascii [CHR 0x22] @ algorithm @ ascii '':'' in
      andthen (touch_one_time_keys user)
      (bind (gets (\<lambda>s. kv_scan_prefix prefx (onetimekeyid_onetimekeys s))) (\<lambda>found.
       case found of
         [] \<Rightarrow> ret None
       | (key, val) # _ \<Rightarrow>
           andthen (modify (onetimekeyid_onetimekeys_update (kv_remove key)))
           (bind (of_res (ok_or (BadDatabase ''OneTimeKeyId in db is invalid.'') (kparse (rsplit_last key)))) (\<lambda>kid.
            bind (of_res (ok_or (BadDatabase ''OneTimeKeys in db are invalid.'') (json_parse J val))) (\<lambda>k.
            ret (Some (kid, k))))))))"

definition count_one_time_keys ::
    "(bytes \<Rightarrow> bytes option) \<Rightarrow> (bytes \<Rightarrow> bytes) \<Rightarrow> user_id \<Rightarrow> device_id \<Rightarrow> 'a users_db_scheme \<Rightarrow> (bytes \<Rightarrow> nat) res" where
  "count_one_time_keys kparse key_alg user device s =
     map_res (\<lambda>algorithms a. count_list algorithms a)
       (collect_res (map (\<lambda>(b, _). map_res key_alg (ok_or (BadDatabase ''DeviceKeyId in db is invalid.'') (kparse (rsplit_last b))))
         (kv_scan_prefix (userdeviceid user device) (onetimekeyid_onetimekeys s))))"

section \<open>To-device events\<close>

definition add_to_device_event ::
    "serde \<Rightarrow> user_id \<Rightarrow> user_id \<Rightarrow> device_id \<Rightarrow> bytes \<Rightarrow> json \<Rightarrow> ('a users_db_scheme, unit) dop" where
  "add_to_device_event J from_user target device event_type body =
     bind next_count (\<lambda>c.
     modify (todeviceid_events_update (kv_insert (userdeviceid target device @ sep # to_be_bytes c)
       (json_print J (JObj (obj_of [(ascii ''type'', JStr event_type), (ascii ''sender'', JStr from_user),
                                    (ascii ''content'', body)]))))))"

definition get_to_device_events :: "serde \<Rightarrow> user_id \<Rightarrow> device_id \<Rightarrow> 'a users_db_scheme \<Rightarrow> json list res" where
  "get_to_device_events J user device s =
     collect_res (map (\<lambda>(_, v). ok_or (BadDatabase ''Event in todeviceid_events is invalid.'') (json_parse J v))
       (kv_scan_prefix (userdeviceid user device @ [sep]) (todeviceid_events s)))"

fun remove_until :: "u64 \<Rightarrow> bytes list \<Rightarrow> ('a users_db_scheme, unit) dop" where
  "remove_until until [] = ret ()"
| "remove_until until (k # ks) =
     (if length k < 8 then fail (Panic ''range start index out of range'')
      else if from_be_bytes (drop (length k - 8) k) \<le> until
        then andthen (modify (todeviceid_events_update (kv_remove k))) (remove_until until ks)
      else ret ())"

definition remove_to_device_events :: "user_id \<Rightarrow> device_id \<Rightarrow> u64 \<Rightarrow> ('a users_db_scheme, unit) dop" where
  "remove_to_device_events user device until =
     (let prefx = userdeviceid user device @ [sep] in
      bind (gets (\<lambda>s. takeWhile (\<lambda>e. prefix prefx (fst e))
                    (kv_iter_from (prefx @ to_be_bytes until) True (todeviceid_events s))))
        (\<lambda>es. remove_until until (map fst es)))"

section \<open>Filters\<close>

definition create_filter :: "('f \<Rightarrow> bytes) \<Rightarrow> bytes \<Rightarrow> user_id \<Rightarrow> 'f \<Rightarrow> ('a users_db_scheme, bytes) dop" where
  "create_filter fprint random user filt =
     andthen (modify (userfilterid_filter_update (kv_insert (user @ sep # random) (fprint filt))))
     (ret random)"

text \<open>The stored bytes are read as an optional filter: \<open>fparse\<close> of JSON null is no filter.\<close>

definition get_filter :: "(bytes \<Rightarrow> 'f option option) \<Rightarrow> user_id \<Rightarrow> bytes \<Rightarrow> 'a users_db_scheme \<Rightarrow> 'f option res" where
  "get_filter fparse user filter_id s =
     (case kv_get (userfilterid_filter s) (user @ sep # filter_id) of
        Some raw \<Rightarrow> ok_or (BadDatabase ''Invalid filter event in db.'') (fparse raw)
      | None \<Rightarrow> Inr None)"

section \<open>Signatures\<close>

definition clean_signatures :: "ruma \<Rightarrow> (user_id \<Rightarrow> bool) \<Rightarrow> user_id \<Rightarrow> json \<Rightarrow> json res" where
  "clean_signatures R allowed user key =
     (case key of
        JObj ob \<Rightarrow>
          (case obj_get ob (ascii ''signatures'') of
             Some (JObj sigs) \<Rightarrow>
               if \<exists>e \<in> set sigs. \<not> is_user_id R (fst e) then Inl (BadDatabase ''Invalid user ID in database.'')
               else Inr (JObj (obj_insert (ascii ''signatures'')
                      (JObj (filter (\<lambda>e. fst e = user \<or> allowed (fst e)) sigs)) ob))
           | _ \<Rightarrow> Inr key)
      | _ \<Rightarrow> Inr key)"

section \<open>Access tokens\<close>

text \<open>
  A token leads to the one device that holds it, and that device is registered. Identifiers are
  UTF-8, so they do not contain the separator.
\<close>

definition token_inv :: "'a users_db_scheme \<Rightarrow> bool" where
  "token_inv s \<longleftrightarrow>
     (\<forall>T ud. kv_get (token_userdeviceid s) T = Some ud \<longrightarrow>
        kv_get (userdeviceid_token s) ud = Some T \<and> kv_get (userdeviceid_metadata s) ud \<noteq> None) \<and>
     (\<forall>ud m. kv_get (userdeviceid_metadata s) ud = Some m \<longrightarrow>
        (\<exists>user device. ud = userdeviceid user device \<and> utf8_valid user \<and> utf8_valid device))"

lemma userdeviceid_inject:
  "utf8_valid u \<Longrightarrow> utf8_valid v \<Longrightarrow> userdeviceid u d = userdeviceid v e \<longleftrightarrow> u = v \<and> d = e"
  by (simp add: userdeviceid_def sep_join_inject utf8_no_sep)

lemma token_invD:
  assumes "token_inv s" and "kv_get (token_userdeviceid s) T = Some ud"
  shows "kv_get (userdeviceid_token s) ud = Some T" and "kv_get (userdeviceid_metadata s) ud \<noteq> None"
  using assms unfolding token_inv_def by blast+

text \<open>Tokens and devices seen as one map, changed at one device.\<close>

lemma token_inv_same:
  assumes "token_inv s" and "token_userdeviceid s' = token_userdeviceid s"
    and "userdeviceid_token s' = userdeviceid_token s" and "userdeviceid_metadata s' = userdeviceid_metadata s"
  shows "token_inv s'"
  using assms by (simp add: token_inv_def)

definition device_removed :: "user_id \<Rightarrow> device_id \<Rightarrow> 'a users_db_scheme \<Rightarrow> 'a users_db_scheme" where
  "device_removed user device s = snd (remove_device user device s)"

lemma remove_device_result: "remove_device user device s = (Inr (), device_removed user device s)"
  by (cases "kv_get (userdeviceid_token s) (userdeviceid user device)")
     (simp_all add: remove_device_def device_removed_def Let_def)

lemma device_removed_fields:
  fixes user :: user_id and device :: device_id and s :: "'a users_db_scheme"
  defines "ud \<equiv> userdeviceid user device" and "s' \<equiv> device_removed user device s"
  shows "kv_get (userdeviceid_token s') k = (if k = ud then None else kv_get (userdeviceid_token s) k)"
    and "kv_get (userdeviceid_metadata s') k = (if k = ud then None else kv_get (userdeviceid_metadata s) k)"
    and "kv_get (token_userdeviceid s') T =
           (if kv_get (userdeviceid_token s) ud = Some T then None else kv_get (token_userdeviceid s) T)"
    and "userid_password s' = userid_password s"
  unfolding ud_def s'_def
  by (cases "kv_get (userdeviceid_token s) (userdeviceid user device)";
      simp add: device_removed_def remove_device_def Let_def)+

lemma token_inv_remove_device: "token_inv s \<Longrightarrow> token_inv (device_removed user device s)"
  unfolding token_inv_def
  by (simp add: device_removed_fields split: if_splits) (metis option.inject)

lemma token_inv_set_token:
  assumes "token_inv s"
  shows "token_inv (snd (set_token user device token s))"
proof (cases "kv_get (userdeviceid_metadata s) (userdeviceid user device)")
  case (Some m)
  then show ?thesis
    using assms unfolding token_inv_def
    by (cases "kv_get (userdeviceid_token s) (userdeviceid user device)")
       (auto simp: set_token_def Let_def split: if_splits)
qed (use assms in \<open>simp add: set_token_def Let_def\<close>)

lemma token_inv_metadata:
  assumes "token_inv s" and "utf8_valid user" and "utf8_valid device"
  shows "token_inv (userdeviceid_metadata_update (kv_insert (userdeviceid user device) m) s)"
  using assms unfolding token_inv_def by auto

lemma token_inv_create_device:
  assumes "token_inv s" and "utf8_valid user" and "utf8_valid device"
  shows "token_inv (snd (create_device dprint now user device token name s))"
proof (cases "kv_get (userid_password s) user")
  case (Some pw)
  have "token_inv (userid_devicelistversion_update f s)" for f
    using assms(1) by (rule token_inv_same) simp_all
  from token_inv_set_token [OF token_inv_metadata [OF this assms(2,3)]] Some show ?thesis
    by (simp add: create_device_def user_exists_def Let_def)
qed (use assms(1) in \<open>simp add: create_device_def user_exists_def Let_def bind_apply\<close>)

lemma token_inv_update_metadata:
  assumes "token_inv s" and "utf8_valid user" and "utf8_valid device"
  shows "token_inv (snd (update_device_metadata dprint user device dev s))"
proof (cases "kv_get (userdeviceid_metadata s) (userdeviceid user device)")
  case (Some m)
  have "token_inv (userid_devicelistversion_update f s)" for f
    using assms(1) by (rule token_inv_same) simp_all
  from token_inv_metadata [OF this assms(2,3)] Some show ?thesis
    by (simp add: update_device_metadata_def Let_def)
qed (use assms(1) in \<open>simp add: update_device_metadata_def Let_def\<close>)

lemma token_inv_set_password: "token_inv s \<Longrightarrow> token_inv (snd (set_password argon2 user pw s))"
  by (erule token_inv_same) (simp_all add: set_password_def split: option.split)

text \<open>What the loop over the devices of a deactivated account does.\<close>

lemma remove_devices:
  fixes s :: "'a users_db_scheme" and ds :: "device_id list" and user :: user_id
  assumes "token_inv s"
  defines "s' \<equiv> snd (for_each (map Inr ds) (\<lambda>r. bind (of_res r) (remove_device user)) s)"
  shows "for_each (map Inr ds) (\<lambda>r. bind (of_res r) (remove_device user)) s = (Inr (), s')"
    and "token_inv s'" and "userid_password s' = userid_password s"
    and "kv_get (userdeviceid_metadata s') k =
           (if k \<in> userdeviceid user ` set ds then None else kv_get (userdeviceid_metadata s) k)"
    and "kv_get (token_userdeviceid s') T = Some ud \<Longrightarrow> kv_get (token_userdeviceid s) T = Some ud"
proof -
  have "for_each (map Inr ds) (\<lambda>r. bind (of_res r) (remove_device user)) s = (Inr (), fold (device_removed user) ds s)"
    by (induction ds arbitrary: s) (simp_all add: remove_device_result)
  moreover have "token_inv (fold (device_removed user) ds s) \<and>
    userid_password (fold (device_removed user) ds s) = userid_password s \<and>
    kv_get (userdeviceid_metadata (fold (device_removed user) ds s)) k =
      (if k \<in> userdeviceid user ` set ds then None else kv_get (userdeviceid_metadata s) k) \<and>
    (kv_get (token_userdeviceid (fold (device_removed user) ds s)) T = Some ud \<longrightarrow>
      kv_get (token_userdeviceid s) T = Some ud)"
    using assms(1)
  proof (induction ds arbitrary: s)
    case (Cons d ds)
    from Cons.IH [OF token_inv_remove_device [OF Cons.prems, of user d]] show ?case
      by (auto simp: device_removed_fields split: if_splits)
  qed simp
  ultimately show "for_each (map Inr ds) (\<lambda>r. bind (of_res r) (remove_device user)) s = (Inr (), s')"
    and "token_inv s'" and "userid_password s' = userid_password s"
    and "kv_get (userdeviceid_metadata s') k =
           (if k \<in> userdeviceid user ` set ds then None else kv_get (userdeviceid_metadata s) k)"
    and "kv_get (token_userdeviceid s') T = Some ud \<Longrightarrow> kv_get (token_userdeviceid s) T = Some ud"
    unfolding s'_def by simp_all
qed

lemma all_device_ids_spec:
  assumes "token_inv s" and "utf8_valid user"
  obtains ds where "all_device_ids user s = map Inr ds"
    and "set ds = {d. kv_get (userdeviceid_metadata s) (userdeviceid user d) \<noteq> None}"
proof
  let ?es = "kv_scan_prefix (user @ [sep]) (userdeviceid_metadata s)"
  have key: "\<exists>d. k = userdeviceid user d \<and> utf8_valid d" if "(k, v) \<in> set ?es" for k v
  proof -
    from that have get: "kv_get (userdeviceid_metadata s) k = Some v" and pre: "prefix (user @ [sep]) k"
      by (simp_all add: set_kv_scan_prefix)
    from assms(1) get obtain u d where k: "k = userdeviceid u d" "utf8_valid u" "utf8_valid d"
      unfolding token_inv_def by blast
    with pre assms(2) have "user = u" by (simp add: userdeviceid_def sep_join_prefix utf8_no_sep)
    with k show ?thesis by blast
  qed
  show "all_device_ids user s = map Inr (map (\<lambda>e. rsplit_last (fst e)) ?es)"
    unfolding all_device_ids_def map_map
  proof (rule map_cong [OF refl])
    fix e
    assume e: "e \<in> set ?es"
    obtain k v where kv: "e = (k, v)" by (cases e) simp
    with e key obtain d where "k = userdeviceid user d" "utf8_valid d" by blast
    with kv show "(case e of (b, uu) \<Rightarrow> map_err (BadDatabase ''Device ID in userdeviceid_metadata is invalid.'')
        (string_from_bytes (rsplit_last b))) = (Inr \<circ> (\<lambda>e. rsplit_last (fst e))) e"
      by (simp add: userdeviceid_def rsplit_last_append utf8_no_sep)
  qed
  show "set (map (\<lambda>e. rsplit_last (fst e)) ?es) =
      {d. kv_get (userdeviceid_metadata s) (userdeviceid user d) \<noteq> None}" (is "?l = ?r")
  proof
    show "?l \<subseteq> ?r"
    proof
      fix d
      assume "d \<in> ?l"
      then obtain k v where kv: "(k, v) \<in> set ?es" "d = rsplit_last k" by auto
      from key [OF kv(1)] obtain d' where d': "k = userdeviceid user d'" "utf8_valid d'" by blast
      with kv(2) have "d = d'" by (simp add: userdeviceid_def rsplit_last_append utf8_no_sep)
      with kv(1) d' show "d \<in> ?r" by (simp add: set_kv_scan_prefix)
    qed
    show "?r \<subseteq> ?l"
    proof
      fix d
      assume "d \<in> ?r"
      then obtain v where get: "kv_get (userdeviceid_metadata s) (userdeviceid user d) = Some v" by auto
      then have mem: "(userdeviceid user d, v) \<in> set ?es"
        by (simp add: set_kv_scan_prefix userdeviceid_def)
      from key [OF mem] have "utf8_valid d"
        using assms(2) by (auto simp: userdeviceid_def)
      then have "d = rsplit_last (fst (userdeviceid user d, v))"
        by (simp add: userdeviceid_def rsplit_last_append utf8_no_sep)
      with mem show "d \<in> ?l" by (metis (no_types, lifting) image_eqI set_map)
    qed
  qed
qed

section \<open>Histories of the account tables\<close>

text \<open>Everything the server does to accounts, devices and tokens, in any order.\<close>

inductive account_step :: "'a users_db_scheme \<Rightarrow> 'a users_db_scheme \<Rightarrow> bool" where
  password: "account_step s (snd (set_password argon2 user pw s))"
| create: "utf8_valid user \<Longrightarrow> utf8_valid device \<Longrightarrow>
    account_step s (snd (create_device dprint now user device token name s))"
| token: "account_step s (snd (set_token user device token s))"
| remove: "account_step s (snd (remove_device user device s))"
| metadata: "utf8_valid user \<Longrightarrow> utf8_valid device \<Longrightarrow>
    account_step s (snd (update_device_metadata dprint user device dev s))"
| deactivate: "utf8_valid user \<Longrightarrow> account_step s (snd (deactivate_account argon2 user s))"

lemma deactivate_account_spec:
  assumes "token_inv s" and "utf8_valid user"
  obtains s' where "deactivate_account argon2 user s = (Inr (), s')"
    and "token_inv s'" and "is_deactivated user s' = Inr True"
    and "\<And>d. kv_get (userdeviceid_metadata s') (userdeviceid user d) = None"
    and "\<And>T ud. kv_get (token_userdeviceid s') T = Some ud \<Longrightarrow> kv_get (token_userdeviceid s) T = Some ud"
proof -
  obtain ds where ds: "all_device_ids user s = map Inr ds"
    "set ds = {d. kv_get (userdeviceid_metadata s) (userdeviceid user d) \<noteq> None}"
    using all_device_ids_spec [OF assms] .
  define m where "m = snd (for_each (map Inr ds) (\<lambda>r. bind (of_res r) (remove_device user)) s)"
  note loop = remove_devices [OF assms(1), where ds = ds and user = user, folded m_def]
  let ?s' = "userid_password_update (kv_insert user []) m"
  show ?thesis
  proof
    show "deactivate_account argon2 user s = (Inr (), ?s')"
      using loop(1) by (simp add: deactivate_account_def ds(1) set_password_def)
    show "token_inv ?s'" using loop(2) by (rule token_inv_same) simp_all
    show "is_deactivated user ?s' = Inr True" by (simp add: is_deactivated_def)
    show "kv_get (userdeviceid_metadata ?s') (userdeviceid user d) = None" for d
      using loop(4) [of "userdeviceid user d"] ds(2) by auto
    show "kv_get (token_userdeviceid s) T = Some ud" if "kv_get (token_userdeviceid ?s') T = Some ud" for T ud
      using loop(5) that by simp
  qed
qed

lemma token_inv_step:
  assumes "account_step s s'" and "token_inv s"
  shows "token_inv s'"
  using assms
proof cases
  case (deactivate user argon2)
  with assms(2) show ?thesis by (metis deactivate_account_spec snd_conv)
qed (simp_all add: token_inv_set_password token_inv_create_device token_inv_set_token
    token_inv_update_metadata remove_device_result token_inv_remove_device)

lemma token_inv_steps: "account_step\<^sup>*\<^sup>* s s' \<Longrightarrow> token_inv s \<Longrightarrow> token_inv s'"
  by (induction rule: rtranclp_induct) (blast intro: token_inv_step)+

lemma find_from_token_Some:
  assumes "find_from_token R T s = Inr (Some (user, device))" and "token_inv s"
  shows "kv_get (token_userdeviceid s) T = Some (userdeviceid user device)"
proof (cases "kv_get (token_userdeviceid s) T")
  case None
  with assms(1) show ?thesis by (simp add: find_from_token_def)
next
  case (Some ud)
  from token_invD(2) [OF assms(2) Some] obtain u d
    where ud: "ud = userdeviceid u d" "utf8_valid u" "utf8_valid d"
    using assms(2) unfolding token_inv_def by blast
  have "split_sep ud = [u, d]"
    using ud by (simp add: userdeviceid_def split_sep_append split_sep_nosep utf8_no_sep)
  with assms(1) Some ud have "user = u \<and> device = d"
    by (auto simp: find_from_token_def nth_part_def id_from_bytes_def bind_res_def map_err_def parse_id_def
        split: sum.splits if_splits)
  with Some ud show ?thesis by simp
qed

definition users_init :: "servername \<Rightarrow> users_db" where
  "users_init name = authchain_db.extend (timeline_db.extend (timeline_init name)
      \<lparr>shorteventid_authchain = kv_empty, auth_chain_cache = Map.empty\<rparr>)
     \<lparr>userid_password = kv_empty, userid_displayname = kv_empty, userid_avatarurl = kv_empty,
      userid_blurhash = kv_empty, userdeviceid_token = kv_empty, userdeviceid_metadata = kv_empty,
      userid_devicelistversion = kv_empty, token_userdeviceid = kv_empty,
      onetimekeyid_onetimekeys = kv_empty, userid_lastonetimekeyupdate = kv_empty,
      keychangeid_userid = kv_empty, keyid_key = kv_empty, userid_masterkeyid = kv_empty,
      userid_selfsigningkeyid = kv_empty, userid_usersigningkeyid = kv_empty,
      userfilterid_filter = kv_empty, todeviceid_events = kv_empty\<rparr>"

lemmas users_init_defs = users_init_def timeline_init_defs timeline_db.defs authchain_db.defs

lemma token_inv_init: "token_inv (users_init n)"
  by (simp add: token_inv_def users_init_defs)

section \<open>The to-device queue\<close>

definition todevice_entry :: "serde \<Rightarrow> u64 \<Rightarrow> bytes \<Rightarrow> bytes \<Rightarrow> bool" where
  "todevice_entry J c k v \<longleftrightarrow>
     (\<exists>user device n j. k = userdeviceid user device @ sep # to_be_bytes n \<and>
        utf8_valid user \<and> utf8_valid device \<and> n \<le> c \<and> v = json_print J j \<and> json_ok j)"

definition todevice_inv :: "serde \<Rightarrow> 'a users_db_scheme \<Rightarrow> bool" where
  "todevice_inv J s \<longleftrightarrow>
     (\<forall>k v. kv_get (todeviceid_events s) k = Some v \<longrightarrow> todevice_entry J (count s) k v)"

lemma todevice_entry_mono: "todevice_entry J c k v \<Longrightarrow> c \<le> c' \<Longrightarrow> todevice_entry J c' k v"
  unfolding todevice_entry_def
proof (elim exE conjE)
  fix user device n j
  assume "c \<le> c'" "n \<le> c" and e: "k = userdeviceid user device @ sep # to_be_bytes n" "utf8_valid user"
    "utf8_valid device" "json_ok j" "v = json_print J j"
  then have "n \<le> c'" by simp
  with e show "\<exists>user device n j. k = userdeviceid user device @ sep # to_be_bytes n \<and>
      utf8_valid user \<and> utf8_valid device \<and> n \<le> c' \<and> v = json_print J j \<and> json_ok j"
    by (intro exI [of _ user] exI [of _ device] exI [of _ n] exI [of _ j]) simp
qed

lemma device_prefix_iff:
  assumes "utf8_valid u" "utf8_valid d" "utf8_valid u'" "utf8_valid d'"
  shows "prefix (userdeviceid u d @ [sep]) (userdeviceid u' d' @ sep # x) \<longleftrightarrow> u = u' \<and> d = d'"
proof -
  have "prefix (u @ sep # d @ [sep]) (u' @ sep # d' @ sep # x) \<longleftrightarrow> (\<exists>z. u' @ sep # d' @ sep # x = u @ sep # d @ sep # z)"
    by (auto simp: prefix_def)
  then show ?thesis
    using assms by (auto simp: userdeviceid_def sep_join_inject utf8_no_sep)
qed

lemma todevice_invD:
  assumes "todevice_inv J s" and "kv_get (todeviceid_events s) k = Some v"
    and "utf8_valid user" and "utf8_valid device" and "prefix (userdeviceid user device @ [sep]) k"
  obtains n j where "k = userdeviceid user device @ sep # to_be_bytes n" and "n \<le> count s"
    and "v = json_print J j" and "json_ok j"
proof -
  from assms(1,2) obtain u d n j where e: "k = userdeviceid u d @ sep # to_be_bytes n" "utf8_valid u"
    "utf8_valid d" "n \<le> count s" "v = json_print J j" "json_ok j"
    unfolding todevice_inv_def todevice_entry_def by blast
  with assms(5) have "user = u \<and> device = d"
    using device_prefix_iff [OF assms(3,4) e(2,3)] by simp
  with e that show thesis by blast
qed

text \<open>The queue of a device: the stored events with their counts, oldest first.\<close>

definition to_device_queue :: "serde \<Rightarrow> user_id \<Rightarrow> device_id \<Rightarrow> 'a users_db_scheme \<Rightarrow> (u64 \<times> json) list" where
  "to_device_queue J user device s =
     map (\<lambda>(k, v). (key_count (userdeviceid user device @ [sep]) k, the (json_parse J v)))
       (kv_scan_prefix (userdeviceid user device @ [sep]) (todeviceid_events s))"

lemma get_to_device_events_queue:
  assumes "serde_ok J" and "todevice_inv J s" and "utf8_valid user" and "utf8_valid device"
  shows "get_to_device_events J user device s = Inr (map snd (to_device_queue J user device s))"
proof -
  let ?es = "kv_scan_prefix (userdeviceid user device @ [sep]) (todeviceid_events s)"
  have "map (\<lambda>(_, v). ok_or (BadDatabase ''Event in todeviceid_events is invalid.'') (json_parse J v)) ?es =
        map (\<lambda>e. Inr (the (json_parse J (snd e)))) ?es"
  proof (rule map_cong [OF refl])
    fix e
    assume "e \<in> set ?es"
    then have get: "kv_get (todeviceid_events s) (fst e) = Some (snd e)"
      and pre: "prefix (userdeviceid user device @ [sep]) (fst e)"
      using set_kv_scan_prefix [of "fst e" "snd e"] by simp_all
    from todevice_invD [OF assms(2) get assms(3,4) pre] obtain j
      where "snd e = json_print J j" "json_ok j" by metis
    with assms(1) show "(case e of (uu, v) \<Rightarrow> ok_or (BadDatabase ''Event in todeviceid_events is invalid.'') (json_parse J v)) =
        Inr (the (json_parse J (snd e)))"
      by (cases e) (simp add: serde_okD)
  qed
  then show ?thesis
    unfolding get_to_device_events_def by (simp only: collect_res_Inr) (simp add: to_device_queue_def comp_def case_prod_beta)
qed

lemma to_device_add:
  fixes s :: "'a users_db_scheme"
  assumes "serde_ok J" and "todevice_inv J s" and "has_room s"
    and ids: "utf8_valid target" "utf8_valid device" "utf8_valid event_type" "utf8_valid from_user" and "json_ok body"
  defines "ev \<equiv> JObj (obj_of [(ascii ''type'', JStr event_type), (ascii ''sender'', JStr from_user),
                              (ascii ''content'', body)])"
  obtains s' where "add_to_device_event J from_user target device event_type body s = (Inr (), s')"
    and "todevice_inv J s'"
    and "to_device_queue J target device s' = to_device_queue J target device s @ [(count s + 1, ev)]"
    and "\<forall>user dev. utf8_valid user \<and> utf8_valid dev \<and> (user, dev) \<noteq> (target, device) \<longrightarrow>
           to_device_queue J user dev s' = to_device_queue J user dev s"
proof
  let ?p = "userdeviceid target device @ [sep]"
  let ?k = "userdeviceid target device @ sep # to_be_bytes (count s + 1)"
  let ?s' = "todeviceid_events_update (kv_insert ?k (json_print J ev)) (bump s)"
  have less: "count s < count s + 1" using assms(3) by (rule count_less_next)
  have ev: "json_ok ev"
    unfolding ev_def using ids assms(8) by (intro json_ok_obj_of) (simp add: utf8_valid_ascii)
  have tree: "todeviceid_events (bump s) = todeviceid_events s" by (simp add: bump_def)
  have cnt: "count ?s' = count s + 1" using count_bump [of s] by (simp add: count_def)
  show "add_to_device_event J from_user target device event_type body s = (Inr (), ?s')"
    by (simp add: add_to_device_event_def ev_def)
  have new: "todevice_entry J (count s + 1) ?k (json_print J ev)"
    unfolding todevice_entry_def using ids ev
    by (intro exI [of _ target] exI [of _ device] exI [of _ "count s + 1"] exI [of _ ev]) simp
  have "todevice_entry J (count s + 1) k v" if "kv_get (todeviceid_events s) k = Some v" for k v
    using assms(2) that todevice_entry_mono [OF _ less_imp_le [OF less]] by (simp add: todevice_inv_def)
  with new show "todevice_inv J ?s'"
    unfolding todevice_inv_def cnt by (simp add: tree)
  have "k' < ?k" if "kv_get (todeviceid_events s) k' = Some v'" "prefix ?p k'" for k' v'
  proof -
    from todevice_invD [OF assms(2) that(1) ids(1,2) that(2)] obtain n
      where "k' = userdeviceid target device @ sep # to_be_bytes n" "n \<le> count s" by metis
    with less show ?thesis by simp
  qed
  then have "kv_scan_prefix ?p (kv_insert ?k (json_print J ev) (todeviceid_events s)) =
      kv_scan_prefix ?p (todeviceid_events s) @ [(?k, json_print J ev)]"
    by (intro scan_insert_last) simp_all
  then show "to_device_queue J target device ?s' = to_device_queue J target device s @ [(count s + 1, ev)]"
    using key_count_append(2) [of ?p "count s + 1"] serde_okD [OF assms(1) ev]
    by (simp add: to_device_queue_def tree)
  show "\<forall>user dev. utf8_valid user \<and> utf8_valid dev \<and> (user, dev) \<noteq> (target, device) \<longrightarrow>
      to_device_queue J user dev ?s' = to_device_queue J user dev s"
    using device_prefix_iff ids by (simp add: to_device_queue_def tree)
qed

lemma remove_until_all:
  assumes "\<forall>k \<in> set ks. 8 \<le> length k \<and> from_be_bytes (drop (length k - 8) k) \<le> until"
  shows "remove_until until ks s = (Inr (), todeviceid_events_update (fold kv_remove ks) s)"
  using assms
proof (induction ks arbitrary: s)
  case (Cons k ks)
  then have "\<not> length k < 8" by simp
  with Cons show ?case by (simp add: comp_def)
qed simp

lemma kv_get_remove_list: "kv_get (fold kv_remove ks t) k = (if k \<in> set ks then None else kv_get t k)"
  by (induction ks arbitrary: t) auto

lemma to_device_keys:
  assumes "todevice_inv J s" and "utf8_valid user" and "utf8_valid device"
    and "kv_get (todeviceid_events s) k = Some v" and "prefix (userdeviceid user device @ [sep]) k"
  obtains n where "k = (userdeviceid user device @ [sep]) @ to_be_bytes n"
  using todevice_invD [OF assms(1,4,2,3,5)] by (metis append_Cons append_Nil append_assoc)

lemma to_device_removed:
  fixes s :: "'a users_db_scheme" and user :: user_id and device :: device_id
  assumes "todevice_inv J s" and ids: "utf8_valid user" "utf8_valid device"
  defines "p \<equiv> userdeviceid user device @ [sep]"
  obtains ks where "remove_to_device_events user device until s =
      (Inr (), todeviceid_events_update (fold kv_remove ks) s)"
    and "set ks = {k. kv_get (todeviceid_events s) k \<noteq> None \<and> prefix p k \<and> key_count p k \<le> until}"
proof -
  let ?t = "todeviceid_events s"
  let ?es = "takeWhile (\<lambda>e. prefix p (fst e)) (kv_iter_from (p @ to_be_bytes until) True ?t)"
  define ks where "ks = map fst ?es"
  have keys: "\<exists>n. k = p @ to_be_bytes n" if "kv_get ?t k = Some v" "prefix p k" for k v
    using to_device_keys [OF assms(1-3) that(1)] that(2) unfolding p_def by blast
  have "set ks = {k. \<exists>v. kv_get ?t k = Some v \<and> prefix p k \<and> k \<le> p @ to_be_bytes until}"
    unfolding ks_def kv_iter_from_def using kv_iter_get [of _ _ ?t] by (simp add: kv.desc_range) force
  moreover have "k \<le> p @ to_be_bytes until \<longleftrightarrow> key_count p k \<le> until"
    if "kv_get ?t k = Some v" "prefix p k" for k v
    using keys [OF that] key_count_append(2) [of p] by (metis append_le_cancel to_be_bytes_le_iff)
  ultimately have set_ks: "set ks = {k. kv_get ?t k \<noteq> None \<and> prefix p k \<and> key_count p k \<le> until}"
    by auto
  have "8 \<le> length k \<and> from_be_bytes (drop (length k - 8) k) \<le> until" if "k \<in> set ks" for k
  proof -
    from that keys obtain n where "k = p @ to_be_bytes n" unfolding set_ks by auto
    moreover with that have "n \<le> until" using key_count_append(2) [of p n] unfolding set_ks by simp
    ultimately show ?thesis by simp
  qed
  then have "remove_to_device_events user device until s =
      (Inr (), todeviceid_events_update (fold kv_remove ks) s)"
    by (simp add: remove_to_device_events_def Let_def ks_def p_def remove_until_all)
  with set_ks show thesis by (rule that [rotated])
qed

lemma to_device_remove:
  fixes s :: "'a users_db_scheme"
  assumes "todevice_inv J s" and ids: "utf8_valid user" "utf8_valid device"
  obtains s' where "remove_to_device_events user device until s = (Inr (), s')"
    and "todevice_inv J s'"
    and "to_device_queue J user device s' = filter (\<lambda>e. until < fst e) (to_device_queue J user device s)"
    and "\<forall>u d. utf8_valid u \<and> utf8_valid d \<and> (u, d) \<noteq> (user, device) \<longrightarrow>
           to_device_queue J u d s' = to_device_queue J u d s"
proof -
  let ?p = "userdeviceid user device @ [sep]"
  let ?t = "todeviceid_events s"
  obtain ks where ks: "remove_to_device_events user device until s =
      (Inr (), todeviceid_events_update (fold kv_remove ks) s)"
    "set ks = {k. kv_get ?t k \<noteq> None \<and> prefix ?p k \<and> key_count ?p k \<le> until}"
    using to_device_removed [OF assms(1-3)] by blast
  let ?s' = "todeviceid_events_update (fold kv_remove ks) s"
  show thesis
  proof
    show "remove_to_device_events user device until s = (Inr (), ?s')" by (rule ks(1))
    show "todevice_inv J ?s'"
      using assms(1) by (simp add: todevice_inv_def kv_get_remove_list count_def)
    have "filter (\<lambda>e. fst e \<notin> set ks) (kv_scan_prefix ?p ?t) =
        filter (\<lambda>e. until < key_count ?p (fst e)) (kv_scan_prefix ?p ?t)"
      by (rule filter_cong) (auto simp: ks(2) set_kv_scan_prefix not_le)
    then show "to_device_queue J user device ?s' = filter (\<lambda>e. until < fst e) (to_device_queue J user device s)"
      by (simp add: to_device_queue_def scan_remove_list filter_map comp_def case_prod_beta)
    show "\<forall>u d. utf8_valid u \<and> utf8_valid d \<and> (u, d) \<noteq> (user, device) \<longrightarrow>
        to_device_queue J u d ?s' = to_device_queue J u d s"
    proof (intro allI impI, elim conjE)
      fix u d
      assume other: "utf8_valid u" "utf8_valid d" "(u, d) \<noteq> (user, device)"
      have "k \<notin> set ks" if pre: "prefix (userdeviceid u d @ [sep]) k" "kv_get ?t k = Some v" for k v
        using to_device_keys [OF assms(1-3) pre(2)] pre(1) device_prefix_iff [OF other(1,2) ids] other(3) unfolding ks(2) by auto
      then have "filter (\<lambda>e. fst e \<notin> set ks) (kv_scan_prefix (userdeviceid u d @ [sep]) ?t) =
          kv_scan_prefix (userdeviceid u d @ [sep]) ?t"
        by (intro filter_True) (auto simp: set_kv_scan_prefix)
      then show "to_device_queue J u d ?s' = to_device_queue J u d s"
        by (simp add: to_device_queue_def scan_remove_list)
    qed
  qed
qed

section \<open>Claiming one-time keys\<close>

definition otk_prefix :: "user_id \<Rightarrow> device_id \<Rightarrow> bytes \<Rightarrow> bytes" where
  "otk_prefix user device algorithm =
     userdeviceid user device @ sep # ascii [CHR 0x22] @ algorithm @ ascii '':''"

text \<open>Stored one-time keys are filed under the printed form of their id.\<close>

definition otk_inv :: "serde \<Rightarrow> (bytes \<Rightarrow> bytes) \<Rightarrow> 'a users_db_scheme \<Rightarrow> bool" where
  "otk_inv J kprint s \<longleftrightarrow> (\<forall>k v. kv_get (onetimekeyid_onetimekeys s) k = Some v \<longrightarrow>
     (\<exists>user device kid j. k = userdeviceid user device @ sep # kprint kid \<and>
        utf8_valid user \<and> utf8_valid device \<and> v = json_print J j \<and> json_ok j))"

definition stored_keys ::
    "serde \<Rightarrow> (bytes \<Rightarrow> bytes option) \<Rightarrow> user_id \<Rightarrow> device_id \<Rightarrow> bytes \<Rightarrow> 'a users_db_scheme \<Rightarrow> (bytes \<times> json) list" where
  "stored_keys J kparse user device algorithm s =
     map (\<lambda>(k, v). (the (kparse (rsplit_last k)), the (json_parse J v)))
       (kv_scan_prefix (otk_prefix user device algorithm) (onetimekeyid_onetimekeys s))"

text \<open>The keys handed out by \<open>n\<close> claims in a row.\<close>

fun claim_keys ::
    "serde \<Rightarrow> (bytes \<Rightarrow> bytes option) \<Rightarrow> user_id \<Rightarrow> device_id \<Rightarrow> bytes \<Rightarrow> nat \<Rightarrow> 'a users_db_scheme \<Rightarrow> (bytes \<times> json) list" where
  "claim_keys J kparse user device algorithm 0 s = []"
| "claim_keys J kparse user device algorithm (Suc n) s =
     (case take_one_time_key J kparse user device algorithm s of
        (Inr (Some key), s') \<Rightarrow> key # claim_keys J kparse user device algorithm n s'
      | (_, s') \<Rightarrow> claim_keys J kparse user device algorithm n s')"

lemma touch_eq:
  obtains s' where "touch_one_time_keys user s = (Inr (), s')"
    and "onetimekeyid_onetimekeys s' = onetimekeyid_onetimekeys s"
  by (simp add: touch_one_time_keys_def bump_def)

lemma otk_key:
  assumes "otk_inv J kprint s" and "\<And>x. kparse (kprint x) = Some x" and "\<And>x. sep \<notin> set (kprint x)"
    and "serde_ok J" and "(k, v) \<in> set (kv_scan_prefix (otk_prefix user device algorithm) (onetimekeyid_onetimekeys s))"
    and "utf8_valid user" and "utf8_valid device"
  obtains kid j where "k = userdeviceid user device @ sep # kprint kid"
    and "kparse (rsplit_last k) = Some kid" and "json_parse J v = Some j"
proof -
  from assms(5) have get: "kv_get (onetimekeyid_onetimekeys s) k = Some v"
    and pre: "prefix (otk_prefix user device algorithm) k" by (simp_all add: set_kv_scan_prefix)
  from assms(1) get obtain u d kid j where k: "k = userdeviceid u d @ sep # kprint kid"
    "utf8_valid u" "utf8_valid d" "v = json_print J j" "json_ok j"
    unfolding otk_inv_def by blast
  have "prefix (userdeviceid user device @ [sep]) k"
    using pre by (auto simp: otk_prefix_def prefix_def)
  then have "user = u \<and> device = d"
    using device_prefix_iff [OF assms(6,7) k(2,3)] unfolding k(1) by simp
  moreover have "rsplit_last k = kprint kid"
    unfolding k(1) userdeviceid_def using rsplit_last_append [OF assms(3), of "u @ sep # d" kid] by simp
  ultimately show thesis using that [of kid j] k assms(2,4) by (simp add: serde_okD)
qed

lemma take_one_time_key_first:
  assumes "otk_inv J kprint s" and "\<And>x. kparse (kprint x) = Some x" and "\<And>x. sep \<notin> set (kprint x)"
    and "serde_ok J" and "utf8_valid user" and "utf8_valid device"
  obtains s' where "take_one_time_key J kparse user device algorithm s =
      (Inr (case stored_keys J kparse user device algorithm s of [] \<Rightarrow> None | key # _ \<Rightarrow> Some key), s')"
    and "otk_inv J kprint s'"
    and "stored_keys J kparse user device algorithm s' = tl (stored_keys J kparse user device algorithm s)"
proof -
  obtain m where m: "touch_one_time_keys user s = (Inr (), m)"
    "onetimekeyid_onetimekeys m = onetimekeyid_onetimekeys s" by (rule touch_eq)
  let ?t = "onetimekeyid_onetimekeys s"
  let ?p = "otk_prefix user device algorithm"
  have inv: "otk_inv J kprint m" using assms(1) m(2) by (simp add: otk_inv_def)
  show thesis
  proof (cases "kv_scan_prefix ?p ?t")
    case Nil
    then show ?thesis
      using that [of m] m inv
      by (simp add: take_one_time_key_def Let_def stored_keys_def otk_prefix_def)
  next
    case (Cons e es)
    obtain k v where e: "e = (k, v)" by (cases e) simp
    have mem: "(k, v) \<in> set (kv_scan_prefix ?p ?t)" unfolding Cons e by simp
    from otk_key [OF assms(1-4) mem assms(5,6)] obtain kid j
      where kj: "kparse (rsplit_last k) = Some kid" "json_parse J v = Some j" by metis
    let ?s' = "onetimekeyid_onetimekeys_update (kv_remove k) m"
    have "take_one_time_key J kparse user device algorithm s = (Inr (Some (kid, j)), ?s')"
      using m kj Cons e by (simp add: take_one_time_key_def Let_def otk_prefix_def)
    moreover have "otk_inv J kprint ?s'" using inv by (simp add: otk_inv_def)
    moreover have "k \<notin> fst ` set es"
      using sorted_kv_scan_prefix [of ?p ?t] unfolding Cons e by auto
    then have "filter (\<lambda>e. fst e \<noteq> k) (kv_scan_prefix ?p ?t) = es"
      unfolding Cons e by (auto simp: filter_id_conv)
    then have "stored_keys J kparse user device algorithm ?s' = tl (stored_keys J kparse user device algorithm s)"
      by (simp add: stored_keys_def m(2)) (simp add: Cons)
    moreover have "stored_keys J kparse user device algorithm s = (kid, j) # tl (stored_keys J kparse user device algorithm s)"
      using kj by (simp add: stored_keys_def Cons e)
    ultimately show ?thesis using that [of ?s'] by (metis list.simps(5))
  qed
qed

lemma claim_keys_take:
  assumes "otk_inv J kprint s" and "\<And>x. kparse (kprint x) = Some x" and "\<And>x. sep \<notin> set (kprint x)"
    and "serde_ok J" and "utf8_valid user" and "utf8_valid device"
  shows "claim_keys J kparse user device algorithm n s = take n (stored_keys J kparse user device algorithm s)"
  using assms(1)
proof (induction n arbitrary: s)
  case (Suc n)
  obtain s' where "take_one_time_key J kparse user device algorithm s =
      (Inr (case stored_keys J kparse user device algorithm s of [] \<Rightarrow> None | key # _ \<Rightarrow> Some key), s')"
    and "otk_inv J kprint s'"
    and "stored_keys J kparse user device algorithm s' = tl (stored_keys J kparse user device algorithm s)"
    using take_one_time_key_first [OF Suc.prems assms(2-6)] .
  with Suc.IH [of s'] show ?case
    by (cases "stored_keys J kparse user device algorithm s") simp_all
qed simp

lemma distinct_stored_keys:
  assumes "otk_inv J kprint s" and "\<And>x. kparse (kprint x) = Some x" and "\<And>x. sep \<notin> set (kprint x)"
    and "serde_ok J" and "utf8_valid user" and "utf8_valid device"
  shows "distinct (map fst (stored_keys J kparse user device algorithm s))"
proof -
  let ?es = "kv_scan_prefix (otk_prefix user device algorithm) (onetimekeyid_onetimekeys s)"
  have "inj_on (\<lambda>k. the (kparse (rsplit_last k))) (fst ` set ?es)"
  proof (rule inj_onI)
    fix k k'
    assume "k \<in> fst ` set ?es" "k' \<in> fst ` set ?es"
      and eq: "the (kparse (rsplit_last k)) = the (kparse (rsplit_last k'))"
    then obtain v v' where "(k, v) \<in> set ?es" "(k', v') \<in> set ?es" by auto
    with eq show "k = k'"
      using otk_key [OF assms(1-4) _ assms(5,6), of k v] otk_key [OF assms(1-4) _ assms(5,6), of k' v']
      by (metis option.sel)
  qed
  moreover have "distinct (map fst ?es)"
    using sorted_kv_scan_prefix by (simp add: strict_sorted_iff)
  ultimately have "distinct (map (\<lambda>k. the (kparse (rsplit_last k))) (map fst ?es))"
    by (simp only: distinct_map [of "\<lambda>k. the (kparse (rsplit_last k))"] set_map)
  then show ?thesis by (simp add: stored_keys_def comp_def case_prod_beta)
qed

section \<open>Properties\<close>


definition example_account :: users_db where
  "example_account =
     snd (create_device (\<lambda>_. []) 7 (ascii ''@u:s'') (ascii ''D'') (ascii ''T'') None
       (snd (set_password Some (ascii ''@u:s'') (Some (ascii ''pw'')) (users_init (ascii ''s'')))))"

lemma example_account_reached: "account_step\<^sup>*\<^sup>* (users_init (ascii ''s'')) example_account"
proof -
  let ?s1 = "snd (set_password Some (ascii ''@u:s'') (Some (ascii ''pw'')) (users_init (ascii ''s'')))"
  have "account_step (users_init (ascii ''s'')) ?s1" by (rule account_step.password)
  moreover have "account_step ?s1 example_account"
    unfolding example_account_def by (intro account_step.create) (simp_all add: utf8_valid_ascii)
  ultimately show ?thesis by (meson r_into_rtranclp rtranclp_trans)
qed


text \<open>C27: To-device events queue per device: sending one appends it behind those already queued for
  the target device and leaves every other queue alone; acknowledging up to a token removes
  exactly the events up to that token, from that device's queue only.\<close>
theorem to_device_queue_correct:
  assumes "serde_ok J" and "todevice_inv J s" and "has_room s"
    and "utf8_valid target" and "utf8_valid device" and "utf8_valid event_type" and "utf8_valid from_user" and "json_ok body"
  shows "\<exists>s' s''.
    add_to_device_event J from_user target device event_type body s = (Inr (), s') \<and>
    get_to_device_events J target device s' =
      Inr (map snd (to_device_queue J target device s) @
        [JObj (obj_of [(ascii ''type'', JStr event_type), (ascii ''sender'', JStr from_user), (ascii ''content'', body)])]) \<and>
    remove_to_device_events target device until s' = (Inr (), s'') \<and>
    get_to_device_events J target device s'' =
      Inr (map snd (filter (\<lambda>e. until < fst e) (to_device_queue J target device s'))) \<and>
    (\<forall>u d. utf8_valid u \<and> utf8_valid d \<and> (u, d) \<noteq> (target, device) \<longrightarrow>
       get_to_device_events J u d s' = get_to_device_events J u d s \<and>
       get_to_device_events J u d s'' = get_to_device_events J u d s)"
proof -
  obtain s' where add: "add_to_device_event J from_user target device event_type body s = (Inr (), s')" "todevice_inv J s'"
    "to_device_queue J target device s' = to_device_queue J target device s @ [(count s + 1,
       JObj (obj_of [(ascii ''type'', JStr event_type), (ascii ''sender'', JStr from_user), (ascii ''content'', body)]))]"
    "\<forall>u d. utf8_valid u \<and> utf8_valid d \<and> (u, d) \<noteq> (target, device) \<longrightarrow>
       to_device_queue J u d s' = to_device_queue J u d s"
    using to_device_add [OF assms] .
  obtain s'' where rem: "remove_to_device_events target device until s' = (Inr (), s'')" "todevice_inv J s''"
    "to_device_queue J target device s'' = filter (\<lambda>e. until < fst e) (to_device_queue J target device s')"
    "\<forall>u d. utf8_valid u \<and> utf8_valid d \<and> (u, d) \<noteq> (target, device) \<longrightarrow>
       to_device_queue J u d s'' = to_device_queue J u d s'"
    using to_device_remove [OF add(2) assms(4,5)] .
  note events = get_to_device_events_queue [OF assms(1)]
  show ?thesis
  proof (rule exI [of _ s'], rule exI [of _ s''], intro conjI allI impI)
    show "get_to_device_events J u d s' = get_to_device_events J u d s"
      if "utf8_valid u \<and> utf8_valid d \<and> (u, d) \<noteq> (target, device)" for u d
      using that add events [OF assms(2)] events [OF add(2)] by simp
    show "get_to_device_events J u d s'' = get_to_device_events J u d s"
      if "utf8_valid u \<and> utf8_valid d \<and> (u, d) \<noteq> (target, device)" for u d
      using that add rem events [OF assms(2)] events [OF rem(2)] by simp
  qed (use add rem events [OF add(2)] events [OF rem(2)] assms in simp_all)
qed

lemma users_init_fields [simp]:
  "todeviceid_events (users_init n) = kv_empty" "onetimekeyid_onetimekeys (users_init n) = kv_empty"
  "global (users_init n) = kv_empty"
  by (simp_all add: users_init_defs)

theorem to_device_queue_correct_witness:
  "\<exists>s' s'' :: users_db.
    add_to_device_event example_serde [97] [98] [99] [116] JNull (users_init []) = (Inr (), s') \<and>
    get_to_device_events example_serde [98] [99] s' =
      Inr [JObj (obj_of [(ascii ''type'', JStr [116]), (ascii ''sender'', JStr [97]), (ascii ''content'', JNull)])] \<and>
    remove_to_device_events [98] [99] 1 s' = (Inr (), s'') \<and>
    get_to_device_events example_serde [98] [99] s'' =
      Inr (map snd (filter (\<lambda>e. 1 < fst e) (to_device_queue example_serde [98] [99] s')))"
proof -
  have "todevice_inv example_serde (users_init [])" by (simp add: todevice_inv_def)
  moreover have "has_room (users_init [])" by (simp add: has_room_def count_def counter_at_def)
  moreover have "to_device_queue example_serde [98] [99] (users_init []) = []" by (simp add: to_device_queue_def)
  ultimately show ?thesis
    using to_device_queue_correct [OF example_serde_ok, of "users_init []" "[98]" "[99]" "[116]" "[97]" JNull 1]
    by (simp add: utf8_valid.simps) (elim exE conjE, intro exI conjI, assumption+)
qed

text \<open>C26: One-time keys are handed out once: any number of claims in a row returns the stored keys of
  the algorithm in order, no key twice, and every key if there are enough claims.\<close>
theorem one_time_keys_claimed_once:
  assumes "otk_inv J kprint s" and "\<And>x. kparse (kprint x) = Some x" and "\<And>x. sep \<notin> set (kprint x)"
    and "serde_ok J" and "utf8_valid user" and "utf8_valid device"
  shows "claim_keys J kparse user device algorithm n s = take n (stored_keys J kparse user device algorithm s) \<and>
    distinct (map fst (claim_keys J kparse user device algorithm n s))"
  using claim_keys_take [OF assms] distinct_stored_keys [OF assms, of algorithm]
  by (simp add: take_map [symmetric])

definition example_kprint :: "bytes \<Rightarrow> bytes" where
  "example_kprint x = ascii [CHR 0x22, CHR ''a'', CHR '':''] @ unary_print x"

definition example_kparse :: "bytes \<Rightarrow> bytes option" where
  "example_kparse b = unary_parse (drop 3 b)"

definition example_keys :: users_db where
  "example_keys =
     snd (add_one_time_key example_serde example_kprint (ascii ''@u:s'') (ascii ''D'') [1] JNull example_account)"

theorem one_time_keys_claimed_once_witness:
  "claim_keys example_serde example_kparse (ascii ''@u:s'') (ascii ''D'') (ascii ''a'') 2 example_keys = [([1], JNull)]"
proof -
  let ?k = "userdeviceid (ascii ''@u:s'') (ascii ''D'') @ sep # example_kprint [1]"
  have codec: "example_kparse (example_kprint x) = Some x" "sep \<notin> set (example_kprint x)" for x
    using codecD [OF unary_codec, of x]
    by (auto simp: example_kparse_def example_kprint_def ascii_simps sep_def unary_print_def)
  have "onetimekeyid_onetimekeys example_keys =
      kv_insert ?k (json_print example_serde JNull) kv_empty"
    by (simp add: example_keys_def add_one_time_key_def touch_one_time_keys_def example_account_def
        create_device_def set_token_def set_password_def user_exists_def Let_def bind_apply users_init_defs bump_def)
  note stored = this
  have "prefix (otk_prefix (ascii ''@u:s'') (ascii ''D'') (ascii ''a'')) ?k"
    by (simp add: otk_prefix_def example_kprint_def ascii_simps)
  then have tree: "kv_scan_prefix (otk_prefix (ascii ''@u:s'') (ascii ''D'') (ascii ''a''))
      (onetimekeyid_onetimekeys example_keys) = [(?k, json_print example_serde JNull)]"
    unfolding stored by (subst scan_insert_last) simp_all
  have inv: "otk_inv example_serde example_kprint example_keys"
    unfolding otk_inv_def stored
    by (simp, rule exI [of _ "ascii ''@u:s''"], rule exI [of _ "ascii ''D''"])
       (auto simp: utf8_valid_ascii intro: exI [of _ JNull])
  have "rsplit_last ?k = example_kprint [1]"
    using rsplit_last_append [OF codec(2), of "userdeviceid (ascii ''@u:s'') (ascii ''D'')"] by simp
  then have "stored_keys example_serde example_kparse (ascii ''@u:s'') (ascii ''D'') (ascii ''a'') example_keys = [([1], JNull)]"
    using serde_okD [OF example_serde_ok, of JNull] by (simp add: stored_keys_def tree codec)
  then show ?thesis
    using one_time_keys_claimed_once [OF inv codec example_serde_ok, of "ascii ''@u:s''" "ascii ''D''" "ascii ''a''" 2]
    by (simp add: utf8_valid_ascii)
qed

end
