(* ===== verification/AccountData.thy ===== *)
theory AccountData
  imports Users
begin

text \<open>
  Account data (\<^verbatim>\<open>src/database/key_value/account_data.rs\<close>): per room, user and event type
  the latest event, filed under the count of its last change so that changes after a token can be
  scanned. The abstract view \<open>account_data\<close> maps room, user and type to that count and event.
\<close>

record accountdata_db = users_db +
  roomuserdataid_accountdata :: kv_tree
  roomusertype_roomuserdataid :: kv_tree

definition room_part :: "room_id option \<Rightarrow> bytes" where
  "room_part room = (case room of None \<Rightarrow> [] | Some r \<Rightarrow> r)"

definition data_prefix :: "room_id option \<Rightarrow> user_id \<Rightarrow> bytes" where
  "data_prefix room user = room_part room @ sep # user @ [sep]"

definition json_get :: "json \<Rightarrow> bytes \<Rightarrow> json option" where
  "json_get j k = (case j of JObj ob \<Rightarrow> obj_get ob k | _ \<Rightarrow> None)"

definition update_account_data ::
    "serde \<Rightarrow> room_id option \<Rightarrow> user_id \<Rightarrow> bytes \<Rightarrow> json \<Rightarrow> ('a accountdata_db_scheme, unit) dop" where
  "update_account_data J room user event_type data =
     (let prefx = data_prefix room user in
      bind next_count (\<lambda>c.
      let roomuserdataid = prefx @ to_be_bytes c @ sep # event_type; key = prefx @ event_type in
      if json_get data (ascii ''type'') = None \<or> json_get data (ascii ''content'') = None
      then fail (BadRequest InvalidParam ''Account data doesn't have all required fields.'')
      else
        andthen (modify (roomuserdataid_accountdata_update (kv_insert roomuserdataid (json_print J data))))
        (bind (gets (\<lambda>s. kv_get (roomusertype_roomuserdataid s) key)) (\<lambda>prev.
         andthen (modify (roomusertype_roomuserdataid_update (kv_insert key roomuserdataid)))
         (case prev of
            Some old \<Rightarrow> modify (roomuserdataid_accountdata_update (kv_remove old))
          | None \<Rightarrow> ret ())))))"

definition get_account_data ::
    "serde \<Rightarrow> room_id option \<Rightarrow> user_id \<Rightarrow> bytes \<Rightarrow> 'a accountdata_db_scheme \<Rightarrow> json option res" where
  "get_account_data J room user ty s =
     decode_json ''could not deserialize'' (json_parse J)
       (Option.bind (kv_get (roomusertype_roomuserdataid s) (data_prefix room user @ ty))
          (kv_get (roomuserdataid_accountdata s)))"

definition changes_since ::
    "serde \<Rightarrow> room_id option \<Rightarrow> user_id \<Rightarrow> u64 \<Rightarrow> 'a accountdata_db_scheme \<Rightarrow> (bytes \<Rightarrow> json option) res" where
  "changes_since J room user since s =
     (let prefx = data_prefix room user in
      map_res (\<lambda>changes. map_of (rev changes))
        (collect_res (map (\<lambda>(k, v).
             bind_res (map_err (BadDatabase ''RoomUserData ID in db is invalid.'') (string_from_bytes (rsplit_last k))) (\<lambda>ty.
             map_res (Pair ty) (ok_or (BadDatabase ''Database contains invalid account data.'') (json_parse J v))))
           (takeWhile (\<lambda>e. prefix prefx (fst e))
             (kv_iter_from (prefx @ to_be_bytes (since + 1)) False (roomuserdataid_accountdata s))))))"

section \<open>The abstract view\<close>

definition data_id :: "room_id option \<Rightarrow> user_id \<Rightarrow> u64 \<Rightarrow> bytes \<Rightarrow> bytes" where
  "data_id room user n ty = data_prefix room user @ to_be_bytes n @ sep # ty"

definition ids_ok :: "room_id option \<Rightarrow> user_id \<Rightarrow> bytes \<Rightarrow> bool" where
  "ids_ok room user ty \<longleftrightarrow> room \<noteq> Some [] \<and> utf8_valid (room_part room) \<and> utf8_valid user \<and> utf8_valid ty"

definition account_data_inv :: "serde \<Rightarrow> 'a accountdata_db_scheme \<Rightarrow> bool" where
  "account_data_inv J s \<longleftrightarrow>
     (\<forall>k i. kv_get (roomusertype_roomuserdataid s) k = Some i \<longrightarrow>
        (\<exists>room user ty n j. ids_ok room user ty \<and> k = data_prefix room user @ ty \<and>
           i = data_id room user n ty \<and> n \<le> count s \<and>
           kv_get (roomuserdataid_accountdata s) i = Some (json_print J j) \<and> json_ok j)) \<and>
     (\<forall>i v. kv_get (roomuserdataid_accountdata s) i = Some v \<longrightarrow>
        (\<exists>room user ty n. ids_ok room user ty \<and> i = data_id room user n ty \<and>
           kv_get (roomusertype_roomuserdataid s) (data_prefix room user @ ty) = Some i))"

definition account_data ::
    "serde \<Rightarrow> 'a accountdata_db_scheme \<Rightarrow> room_id option \<times> user_id \<times> bytes \<Rightarrow> (u64 \<times> json) option" where
  "account_data J s = (\<lambda>(room, user, ty).
     map_option (\<lambda>i. (key_count (data_prefix room user) i, the (json_parse J (the (kv_get (roomuserdataid_accountdata s) i)))))
       (kv_get (roomusertype_roomuserdataid s) (data_prefix room user @ ty)))"

lemma data_prefix_inject:
  assumes "ids_ok room user ty" and "ids_ok room' user' ty'"
  shows "data_prefix room user @ x = data_prefix room' user' @ y \<longleftrightarrow> room = room' \<and> user = user' \<and> x = y"
proof -
  have "room_part room = room_part room' \<longleftrightarrow> room = room'"
    using assms by (cases room; cases room') (auto simp: room_part_def ids_ok_def)
  then show ?thesis
    using assms by (auto simp: data_prefix_def ids_ok_def sep_join_inject utf8_no_sep)
qed

lemma data_prefix_prefix:
  assumes "ids_ok room user ty" and "ids_ok room' user' ty'"
  shows "prefix (data_prefix room user) (data_prefix room' user' @ y) \<longleftrightarrow> room = room' \<and> user = user'"
  using data_prefix_inject [OF assms] unfolding prefix_def by metis

lemma data_id_inject:
  assumes "ids_ok room user ty" and "ids_ok room' user' ty'"
  shows "data_id room user n ty = data_id room' user' n' ty' \<longleftrightarrow>
    room = room' \<and> user = user' \<and> n = n' \<and> ty = ty'"
  using data_prefix_inject [OF assms] by (auto simp: data_id_def)

lemma key_count_data_id [simp]: "key_count (data_prefix room user) (data_id room user n ty) = n"
  by (simp add: data_id_def)

lemma rsplit_data_id: "utf8_valid ty \<Longrightarrow> rsplit_last (data_id room user n ty) = ty"
  using rsplit_last_append [OF utf8_no_sep, of ty "data_prefix room user @ to_be_bytes n"]
  by (simp add: data_id_def)

lemma account_data_typeD:
  assumes "account_data_inv J s" and "ids_ok room user ty"
    and "kv_get (roomusertype_roomuserdataid s) (data_prefix room user @ ty) = Some i"
  obtains n j where "i = data_id room user n ty" and "n \<le> count s"
    and "kv_get (roomuserdataid_accountdata s) i = Some (json_print J j)" and "json_ok j"
proof -
  from assms(1,3) obtain r u t n j where e: "ids_ok r u t" "data_prefix room user @ ty = data_prefix r u @ t"
    "i = data_id r u n t" "n \<le> count s" "kv_get (roomuserdataid_accountdata s) i = Some (json_print J j)" "json_ok j"
    unfolding account_data_inv_def by blast
  with data_prefix_inject [OF assms(2) e(1)] that show thesis by auto
qed

lemma account_data_idD:
  assumes "account_data_inv J s" and "kv_get (roomuserdataid_accountdata s) i = Some v"
  obtains room user ty n where "ids_ok room user ty" and "i = data_id room user n ty"
    and "kv_get (roomusertype_roomuserdataid s) (data_prefix room user @ ty) = Some i"
  using assms unfolding account_data_inv_def by blast

lemma account_data_entry:
  assumes "serde_ok J" and "account_data_inv J s" and "ids_ok room user ty"
    and "kv_get (roomusertype_roomuserdataid s) (data_prefix room user @ ty) = Some i"
  obtains n j where "i = data_id room user n ty" and "n \<le> count s" and "json_ok j"
    and "account_data J s (room, user, ty) = Some (n, j)"
    and "kv_get (roomuserdataid_accountdata s) i = Some (json_print J j)"
proof -
  obtain n j where e: "i = data_id room user n ty" "n \<le> count s"
    "kv_get (roomuserdataid_accountdata s) i = Some (json_print J j)" "json_ok j"
    using account_data_typeD [OF assms(2-4)] .
  then have "account_data J s (room, user, ty) = Some (n, j)"
    using assms(1,4) by (simp add: account_data_def serde_okD)
  with e that show thesis by simp
qed

text \<open>Reads and scans in terms of the view.\<close>

lemma get_account_data_view:
  assumes "serde_ok J" and "account_data_inv J s" and "ids_ok room user ty"
  shows "get_account_data J room user ty s = Inr (map_option snd (account_data J s (room, user, ty)))"
proof (cases "kv_get (roomusertype_roomuserdataid s) (data_prefix room user @ ty)")
  case None
  then show ?thesis by (simp add: get_account_data_def account_data_def)
next
  case (Some i)
  obtain n j where "json_ok j" "account_data J s (room, user, ty) = Some (n, j)"
    "kv_get (roomuserdataid_accountdata s) i = Some (json_print J j)"
    using account_data_entry [OF assms Some] .
  with Some assms(1) show ?thesis by (simp add: get_account_data_def serde_okD)
qed

lemma account_data_counted:
  assumes "account_data_inv J s" and "ids_ok room user []"
  shows "counted (data_prefix room user) (roomuserdataid_accountdata s)"
  unfolding counted_def
proof (intro allI impI)
  fix k v
  assume "kv_get (roomuserdataid_accountdata s) k = Some v" and pre: "prefix (data_prefix room user) k"
  then obtain r u t n where e: "ids_ok r u t" "k = data_id r u n t"
    using account_data_idD [OF assms(1)] by metis
  with pre data_prefix_prefix [OF assms(2) e(1)] have "room = r \<and> user = u" by (simp add: data_id_def)
  with e show "\<exists>n x. k = data_prefix room user @ to_be_bytes n @ x" by (auto simp: data_id_def)
qed

text \<open>The events a scan after a token sees are those whose last change is later.\<close>

lemma account_data_scan:
  assumes "serde_ok J" and "account_data_inv J s" and "ids_ok room user []"
  shows "(k, v) \<in> set (kv_iter (roomuserdataid_accountdata s)) \<and> prefix (data_prefix room user) k \<longleftrightarrow>
    (\<exists>ty n j. utf8_valid ty \<and> account_data J s (room, user, ty) = Some (n, j) \<and>
       k = data_id room user n ty \<and> v = json_print J j \<and> json_ok j)" (is "?l \<longleftrightarrow> ?r")
proof
  assume ?l
  then have get: "kv_get (roomuserdataid_accountdata s) k = Some v" and pre: "prefix (data_prefix room user) k"
    by (simp_all add: kv_iter_get)
  obtain r u t n where e: "ids_ok r u t" "k = data_id r u n t"
    "kv_get (roomusertype_roomuserdataid s) (data_prefix r u @ t) = Some k"
    using account_data_idD [OF assms(2) get] .
  with pre data_prefix_prefix [OF assms(3) e(1)] have "room = r" "user = u" by (simp_all add: data_id_def)
  with e have ids: "ids_ok room user t"
    and ty: "kv_get (roomusertype_roomuserdataid s) (data_prefix room user @ t) = Some k" by simp_all
  obtain m j where "k = data_id room user m t" "json_ok j" "account_data J s (room, user, t) = Some (m, j)"
    "kv_get (roomuserdataid_accountdata s) k = Some (json_print J j)"
    using account_data_entry [OF assms(1,2) ids ty] .
  with get ids show ?r
    by (intro exI [of _ t] exI [of _ m] exI [of _ j]) (simp add: ids_ok_def)
next
  assume ?r
  then obtain ty n j where e: "utf8_valid ty" "account_data J s (room, user, ty) = Some (n, j)"
    "k = data_id room user n ty" "v = json_print J j" "json_ok j" by blast
  then obtain i where ty: "kv_get (roomusertype_roomuserdataid s) (data_prefix room user @ ty) = Some i"
    by (auto simp: account_data_def)
  have ids: "ids_ok room user ty" using assms(3) e(1) by (simp add: ids_ok_def)
  obtain m j' where "i = data_id room user m ty" "account_data J s (room, user, ty) = Some (m, j')"
    "kv_get (roomuserdataid_accountdata s) i = Some (json_print J j')"
    using account_data_entry [OF assms(1,2) ids ty] .
  with e show ?l by (simp add: kv_iter_get) (simp add: data_id_def)
qed

lemma account_data_utf8:
  assumes "account_data_inv J s" and "ids_ok room user []" and "account_data J s (room, user, ty) = Some x"
  shows "utf8_valid ty"
proof -
  from assms(3) obtain i where "kv_get (roomusertype_roomuserdataid s) (data_prefix room user @ ty) = Some i"
    by (auto simp: account_data_def)
  with assms(1) obtain r u t where "ids_ok r u t" "data_prefix room user @ ty = data_prefix r u @ t"
    unfolding account_data_inv_def by blast
  with data_prefix_inject [OF assms(2)] show ?thesis by (auto simp: ids_ok_def)
qed

lemma account_data_json_ok:
  assumes "serde_ok J" and "account_data_inv J s" and "ids_ok room user []" and "account_data J s (room, user, ty) = Some (n, j)"
  shows "json_ok j"
proof -
  from account_data_utf8 [OF assms(2-4)] assms(3) have ids: "ids_ok room user ty" by (simp add: ids_ok_def)
  from assms(4) obtain i where "kv_get (roomusertype_roomuserdataid s) (data_prefix room user @ ty) = Some i"
    by (auto simp: account_data_def)
  from account_data_entry [OF assms(1,2) ids this] assms(4) show ?thesis by (metis option.inject prod.inject)
qed

lemma changes_since_view:
  assumes "serde_ok J" and "account_data_inv J s" and "ids_ok room user []" and "since \<noteq> -1"
  shows "changes_since J room user since s =
    Inr (\<lambda>ty. case account_data J s (room, user, ty) of
                Some (n, j) \<Rightarrow> if since < n then Some j else None | None \<Rightarrow> None)"
proof -
  let ?p = "data_prefix room user"
  define es where "es = filter (\<lambda>e. prefix ?p (fst e) \<and> since < key_count ?p (fst e))
    (kv_iter (roomuserdataid_accountdata s))"
  define g where "g e = (rsplit_last (fst e), the (json_parse J (snd e)))" for e :: "bytes \<times> bytes"
  define A where "A = {(ty, n, j). account_data J s (room, user, ty) = Some (n, j) \<and> json_ok j \<and> since < n}"
  define f where "f = (\<lambda>(ty, n, j). (data_id room user n ty, json_print J j))"
  have utf8: "utf8_valid ty" if "(ty, n, j) \<in> A" for ty n j
    using that account_data_utf8 [OF assms(2,3)] by (auto simp: A_def)
  have set_es: "set es = f ` A"
  proof (rule set_eqI)
    fix e :: "bytes \<times> bytes"
    have "e \<in> set es \<longleftrightarrow> ((fst e, snd e) \<in> set (kv_iter (roomuserdataid_accountdata s)) \<and> prefix ?p (fst e)) \<and>
        since < key_count ?p (fst e)"
      unfolding es_def by simp
    also have "\<dots> \<longleftrightarrow> (\<exists>ty n j. (ty, n, j) \<in> A \<and> e = f (ty, n, j))"
      unfolding account_data_scan [OF assms(1-3)] A_def f_def
      using account_data_utf8 [OF assms(2,3)] by (auto simp: prod_eq_iff) blast
    also have "\<dots> \<longleftrightarrow> e \<in> f ` A" by force
    finally show "e \<in> set es \<longleftrightarrow> e \<in> f ` A" .
  qed
  have gf: "g (f (ty, n, j)) = (ty, j)" if "(ty, n, j) \<in> A" for ty n j
    using that utf8 [OF that] by (simp add: g_def f_def A_def rsplit_data_id serde_okD [OF assms(1)])
  have "changes_since J room user since s = Inr (map_of (rev (map g es)))"
  proof -
    have "map (\<lambda>(k, v).
          bind_res (map_err (BadDatabase ''RoomUserData ID in db is invalid.'') (string_from_bytes (rsplit_last k))) (\<lambda>ty.
          map_res (Pair ty) (ok_or (BadDatabase ''Database contains invalid account data.'') (json_parse J v)))) es =
        map (\<lambda>e. Inr (g e)) es"
      using utf8 by (intro map_cong [OF refl])
        (auto simp: set_es f_def g_def A_def rsplit_data_id serde_okD [OF assms(1)])
    then show ?thesis
      unfolding changes_since_def Let_def
        counted_since [OF account_data_counted [OF assms(2,3)] assms(4)] es_def [symmetric]
      by (simp only: collect_res_Inr map_res_simps)
  qed
  moreover have "map_of (rev (map g es)) ty = (case account_data J s (room, user, ty) of
      Some (n, j) \<Rightarrow> if since < n then Some j else None | None \<Rightarrow> None)" for ty
  proof -
    have "distinct es"
      unfolding es_def using kv.iter_distinct [of "roomuserdataid_accountdata s"] by (simp add: distinct_map)
    moreover have "inj_on fst A" by (rule inj_onI) (auto simp: A_def)
    ultimately have "map_of (rev (map g es)) ty = Some j \<longleftrightarrow> (\<exists>x \<in> A. fst x = ty \<and> snd (snd x) = j)" for j
      using gf by (intro map_of_image [OF _ set_es]) auto
    then have "map_of (rev (map g es)) ty = Some j \<longleftrightarrow> (\<exists>n. (ty, n, j) \<in> A)" for j
      by force
    then show ?thesis
      using account_data_json_ok [OF assms(1-3), of ty]
      by (cases "map_of (rev (map g es)) ty"; cases "account_data J s (room, user, ty)") (auto simp: A_def)
  qed
  ultimately show ?thesis by auto
qed

section \<open>Updates\<close>

definition data_updated ::
    "serde \<Rightarrow> room_id option \<Rightarrow> user_id \<Rightarrow> bytes \<Rightarrow> json \<Rightarrow> 'a accountdata_db_scheme \<Rightarrow> 'a accountdata_db_scheme" where
  "data_updated J room user ty data s = snd (update_account_data J room user ty data s)"

lemma bump_account_data [simp]:
  "roomuserdataid_accountdata (bump s) = roomuserdataid_accountdata s"
  "roomusertype_roomuserdataid (bump s) = roomusertype_roomuserdataid s"
  by (simp_all add: bump_def)

definition data_inserted ::
    "serde \<Rightarrow> room_id option \<Rightarrow> user_id \<Rightarrow> bytes \<Rightarrow> json \<Rightarrow> 'a accountdata_db_scheme \<Rightarrow> 'a accountdata_db_scheme" where
  "data_inserted J room user ty data s =
     roomusertype_roomuserdataid_update (kv_insert (data_prefix room user @ ty) (data_id room user (count s + 1) ty))
       (roomuserdataid_accountdata_update (kv_insert (data_id room user (count s + 1) ty) (json_print J data)) (bump s))"

lemma update_account_data_eq:
  fixes s :: "'a accountdata_db_scheme"
  shows "update_account_data J room user ty data s =
     (if json_get data (ascii ''type'') = None \<or> json_get data (ascii ''content'') = None
      then (Inl (BadRequest InvalidParam ''Account data doesn't have all required fields.''), bump s)
      else
        let s1 = roomuserdataid_accountdata_update (kv_insert (data_id room user (count s + 1) ty) (json_print J data)) (bump s);
            s2 = roomusertype_roomuserdataid_update (kv_insert (data_prefix room user @ ty) (data_id room user (count s + 1) ty)) s1
        in (Inr (), case kv_get (roomusertype_roomuserdataid s) (data_prefix room user @ ty) of
                      Some old \<Rightarrow> roomuserdataid_accountdata_update (kv_remove old) s2
                    | None \<Rightarrow> s2))"
proof (cases "json_get data (ascii ''type'') = None \<or> json_get data (ascii ''content'') = None")
  case True
  then show ?thesis unfolding update_account_data_def Let_def by (simp only: bind_ok [OF next_count_bump] if_True fail_apply)
next
  case False
  show ?thesis
  proof (cases "kv_get (roomusertype_roomuserdataid s) (data_prefix room user @ ty)")
    case None
    show ?thesis
      unfolding update_account_data_def Let_def bind_ok [OF next_count_bump] data_id_def [symmetric]
      using None by (simp only: False if_False andthen_ok [OF modify_apply] bind_ok [OF gets_apply]) simp
  next
    case (Some i)
    show ?thesis
      unfolding update_account_data_def Let_def bind_ok [OF next_count_bump] data_id_def [symmetric]
      using Some by (simp only: False if_False andthen_ok [OF modify_apply] bind_ok [OF gets_apply]) simp
  qed
qed

lemma update_account_data_result:
  assumes "json_get data (ascii ''type'') \<noteq> None" and "json_get data (ascii ''content'') \<noteq> None"
  shows "update_account_data J room user ty data s = (Inr (), data_updated J room user ty data s)"
  using assms unfolding data_updated_def update_account_data_eq by (simp add: Let_def)

lemma data_updated_fields:
  fixes s :: "'a accountdata_db_scheme"
  assumes "json_get data (ascii ''type'') \<noteq> None" and "json_get data (ascii ''content'') \<noteq> None"
  shows "kv_get (roomusertype_roomuserdataid (data_updated J room user ty data s)) x =
      (if x = data_prefix room user @ ty then Some (data_id room user (count s + 1) ty)
       else kv_get (roomusertype_roomuserdataid s) x)"
    and "kv_get (roomuserdataid_accountdata (data_updated J room user ty data s)) y =
      (if kv_get (roomusertype_roomuserdataid s) (data_prefix room user @ ty) = Some y then None
       else if y = data_id room user (count s + 1) ty then Some (json_print J data)
       else kv_get (roomuserdataid_accountdata s) y)"
    and "count (data_updated J room user ty data s) = count s + 1"
proof -
  have eq: "data_updated J room user ty data s =
      (case kv_get (roomusertype_roomuserdataid s) (data_prefix room user @ ty) of
         Some old \<Rightarrow> roomuserdataid_accountdata_update (kv_remove old) (data_inserted J room user ty data s)
       | None \<Rightarrow> data_inserted J room user ty data s)"
    unfolding data_updated_def update_account_data_eq data_inserted_def Let_def
    by (simp only: assms simp_thms if_False snd_conv)
  show "kv_get (roomusertype_roomuserdataid (data_updated J room user ty data s)) x =
      (if x = data_prefix room user @ ty then Some (data_id room user (count s + 1) ty)
       else kv_get (roomusertype_roomuserdataid s) x)"
    unfolding eq by (cases "kv_get (roomusertype_roomuserdataid s) (data_prefix room user @ ty)") (simp_all add: data_inserted_def)
  show "kv_get (roomuserdataid_accountdata (data_updated J room user ty data s)) y =
      (if kv_get (roomusertype_roomuserdataid s) (data_prefix room user @ ty) = Some y then None
       else if y = data_id room user (count s + 1) ty then Some (json_print J data)
       else kv_get (roomuserdataid_accountdata s) y)"
    unfolding eq by (cases "kv_get (roomusertype_roomuserdataid s) (data_prefix room user @ ty)") (simp_all add: data_inserted_def)
  have "global (data_updated J room user ty data s) = global (bump s)"
    unfolding eq by (cases "kv_get (roomusertype_roomuserdataid s) (data_prefix room user @ ty)") (simp_all add: data_inserted_def)
  then show "count (data_updated J room user ty data s) = count s + 1"
    using count_bump [of s] unfolding count_def by simp
qed

lemma data_updated_new:
  assumes "account_data_inv J s" and "has_room s" and ids: "ids_ok room user ty"
    and fields: "json_get data (ascii ''type'') \<noteq> None" "json_get data (ascii ''content'') \<noteq> None"
  shows "kv_get (roomuserdataid_accountdata (data_updated J room user ty data s))
      (data_id room user (count s + 1) ty) = Some (json_print J data)"
proof -
  have "kv_get (roomusertype_roomuserdataid s) (data_prefix room user @ ty) \<noteq> Some (data_id room user (count s + 1) ty)"
  proof
    assume "kv_get (roomusertype_roomuserdataid s) (data_prefix room user @ ty) = Some (data_id room user (count s + 1) ty)"
    then obtain n where "data_id room user (count s + 1) ty = data_id room user n ty" "n \<le> count s"
      using account_data_typeD [OF assms(1) ids] by metis
    with count_less_next [OF assms(2)] data_id_inject [OF ids ids] show False by auto
  qed
  then show ?thesis by (simp add: data_updated_fields [OF fields])
qed

lemma data_updated_other:
  assumes "account_data_inv J s" and ids: "ids_ok room user ty" and ids': "ids_ok r u t"
    and fields: "json_get data (ascii ''type'') \<noteq> None" "json_get data (ascii ''content'') \<noteq> None"
    and "(r, u, t) \<noteq> (room, user, ty)"
  shows "kv_get (roomuserdataid_accountdata (data_updated J room user ty data s)) (data_id r u n t) =
      kv_get (roomuserdataid_accountdata s) (data_id r u n t)"
proof -
  have "kv_get (roomusertype_roomuserdataid s) (data_prefix room user @ ty) \<noteq> Some (data_id r u n t)"
  proof
    assume "kv_get (roomusertype_roomuserdataid s) (data_prefix room user @ ty) = Some (data_id r u n t)"
    then obtain m where "data_id r u n t = data_id room user m ty"
      using account_data_typeD [OF assms(1) ids] by metis
    with assms(6) data_id_inject [OF ids' ids] show False by simp
  qed
  moreover have "data_id r u n t \<noteq> data_id room user (count s + 1) ty"
    using assms(6) data_id_inject [OF ids' ids] by simp
  ultimately show ?thesis by (simp add: data_updated_fields [OF fields])
qed

lemma account_data_inv_update:
  assumes inv: "account_data_inv J s" and room: "has_room s" and ids: "ids_ok room user ty" and "json_ok data"
    and fields: "json_get data (ascii ''type'') \<noteq> None" "json_get data (ascii ''content'') \<noteq> None"
  shows "account_data_inv J (data_updated J room user ty data s)"
  unfolding account_data_inv_def
proof (intro conjI allI impI)
  let ?s = "data_updated J room user ty data s"
  let ?k = "data_prefix room user @ ty" and ?i = "data_id room user (count s + 1) ty"
  note f = data_updated_fields [OF fields, of J room user ty s]
  fix k i
  assume get: "kv_get (roomusertype_roomuserdataid ?s) k = Some i"
  show "\<exists>r u t n j. ids_ok r u t \<and> k = data_prefix r u @ t \<and> i = data_id r u n t \<and> n \<le> count ?s \<and>
      kv_get (roomuserdataid_accountdata ?s) i = Some (json_print J j) \<and> json_ok j"
  proof (cases "k = ?k")
    case True
    with get have "i = ?i" unfolding f by simp
    with True ids assms(4) data_updated_new [OF inv room ids fields] show ?thesis
      by (intro exI [of _ room] exI [of _ user] exI [of _ ty] exI [of _ "count s + 1"] exI [of _ data]) (simp add: f(3))
  next
    case False
    with get have "kv_get (roomusertype_roomuserdataid s) k = Some i" unfolding f by simp
    with inv obtain r u t n j where e: "ids_ok r u t" "k = data_prefix r u @ t" "i = data_id r u n t" "n \<le> count s"
      "kv_get (roomuserdataid_accountdata s) i = Some (json_print J j)" "json_ok j"
      unfolding account_data_inv_def by blast
    with False have "(r, u, t) \<noteq> (room, user, ty)" by auto
    from data_updated_other [OF inv ids e(1) fields this, of n] e(3,5)
    have "kv_get (roomuserdataid_accountdata ?s) i = Some (json_print J j)" by simp
    moreover have "n \<le> count ?s" unfolding f(3) using e(4) count_less_next [OF room] by simp
    ultimately show ?thesis using e
      by (intro exI [of _ r] exI [of _ u] exI [of _ t] exI [of _ n] exI [of _ j]) simp
  qed
next
  let ?s = "data_updated J room user ty data s"
  let ?k = "data_prefix room user @ ty" and ?i = "data_id room user (count s + 1) ty"
  note f = data_updated_fields [OF fields, of J room user ty s]
  fix i v
  assume get: "kv_get (roomuserdataid_accountdata ?s) i = Some v"
  show "\<exists>r u t n. ids_ok r u t \<and> i = data_id r u n t \<and>
      kv_get (roomusertype_roomuserdataid ?s) (data_prefix r u @ t) = Some i"
  proof (cases "i = ?i")
    case True
    with ids show ?thesis
      by (intro exI [of _ room] exI [of _ user] exI [of _ ty] exI [of _ "count s + 1"]) (simp add: f(1))
  next
    case False
    with get have "kv_get (roomuserdataid_accountdata s) i = Some v"
      and ne: "kv_get (roomusertype_roomuserdataid s) ?k \<noteq> Some i" unfolding f by (simp_all split: if_splits)
    then obtain r u t n where e: "ids_ok r u t" "i = data_id r u n t"
      "kv_get (roomusertype_roomuserdataid s) (data_prefix r u @ t) = Some i"
      using account_data_idD [OF inv] by metis
    moreover from e(3) ne have "data_prefix r u @ t \<noteq> ?k" by auto
    ultimately show ?thesis
      by (intro exI [of _ r] exI [of _ u] exI [of _ t] exI [of _ n]) (simp add: f(1))
  qed
qed

lemma account_data_update_view:
  assumes "serde_ok J" and inv: "account_data_inv J s" and "has_room s" and ids: "ids_ok room user ty" and "json_ok data"
    and fields: "json_get data (ascii ''type'') \<noteq> None" "json_get data (ascii ''content'') \<noteq> None"
    and ids': "ids_ok r u t"
  shows "account_data J (data_updated J room user ty data s) (r, u, t) =
    ((account_data J s)((room, user, ty) \<mapsto> (count s + 1, data))) (r, u, t)"
proof (cases "(r, u, t) = (room, user, ty)")
  case True
  then show ?thesis
    using data_updated_new [OF inv assms(3) ids fields] serde_okD [OF assms(1,5)]
    by (simp add: account_data_def data_updated_fields(1) [OF fields])
next
  case False
  then have k: "data_prefix r u @ t \<noteq> data_prefix room user @ ty"
    using data_prefix_inject [OF ids' ids] by auto
  show ?thesis
  proof (cases "kv_get (roomusertype_roomuserdataid s) (data_prefix r u @ t)")
    case None
    moreover from None k have "kv_get (roomusertype_roomuserdataid (data_updated J room user ty data s)) (data_prefix r u @ t) = None"
      unfolding data_updated_fields(1) [OF fields] by simp
    ultimately have "account_data J (data_updated J room user ty data s) (r, u, t) = account_data J s (r, u, t)"
      unfolding account_data_def by simp
    then show ?thesis by (simp only: fun_upd_apply False if_False)
  next
    case (Some i)
    obtain n j where "i = data_id r u n t" "n \<le> count s"
      "kv_get (roomuserdataid_accountdata s) i = Some (json_print J j)" "json_ok j"
      using account_data_typeD [OF inv ids' Some] .
    then have "kv_get (roomuserdataid_accountdata (data_updated J room user ty data s)) i =
        kv_get (roomuserdataid_accountdata s) i"
      using data_updated_other [OF inv ids ids' fields False, of n] by simp
    moreover have "kv_get (roomusertype_roomuserdataid (data_updated J room user ty data s)) (data_prefix r u @ t) = Some i"
      unfolding data_updated_fields(1) [OF fields] using k Some by simp
    ultimately have "account_data J (data_updated J room user ty data s) (r, u, t) = account_data J s (r, u, t)"
      unfolding account_data_def using Some by simp
    then show ?thesis by (simp only: fun_upd_apply False if_False)
  qed
qed

section \<open>Properties\<close>

text \<open>C21: Account data refines a map from room, user and type to the count of the last change and the
  event: an update changes that one entry, a read returns the entry's event, and the changes
  since a token are the entries with a later count.\<close>
theorem account_data_refines:
  assumes "serde_ok J" and "account_data_inv J s" and "has_room s" and "ids_ok room user ty" and "json_ok data"
    and "json_get data (ascii ''type'') \<noteq> None" and "json_get data (ascii ''content'') \<noteq> None"
  shows "\<exists>s'. update_account_data J room user ty data s = (Inr (), s') \<and> account_data_inv J s' \<and>
    (\<forall>r u t. ids_ok r u t \<longrightarrow>
       account_data J s' (r, u, t) = ((account_data J s)((room, user, ty) \<mapsto> (count s + 1, data))) (r, u, t) \<and>
       get_account_data J r u t s' = Inr (map_option snd (account_data J s' (r, u, t)))) \<and>
    (\<forall>r u since. ids_ok r u [] \<and> since \<noteq> -1 \<longrightarrow>
       changes_since J r u since s' =
         Inr (\<lambda>t. case account_data J s' (r, u, t) of
                   Some (n, j) \<Rightarrow> if since < n then Some j else None | None \<Rightarrow> None))"
proof (rule exI [of _ "data_updated J room user ty data s"], intro conjI allI impI)
  note inv = account_data_inv_update [OF assms(2-7)]
  show "account_data_inv J (data_updated J room user ty data s)" by (rule inv)
  show "update_account_data J room user ty data s = (Inr (), data_updated J room user ty data s)"
    by (rule update_account_data_result [OF assms(6,7)])
  fix r u t
  assume "ids_ok r u t"
  then show "get_account_data J r u t (data_updated J room user ty data s) =
      Inr (map_option snd (account_data J (data_updated J room user ty data s) (r, u, t)))"
    and "account_data J (data_updated J room user ty data s) (r, u, t) =
      ((account_data J s)((room, user, ty) \<mapsto> (count s + 1, data))) (r, u, t)"
    by (rule get_account_data_view [OF assms(1) inv] account_data_update_view [OF assms])+
next
  fix r u and since :: u64
  assume "ids_ok r u [] \<and> since \<noteq> - 1"
  then show "changes_since J r u since (data_updated J room user ty data s) =
      Inr (\<lambda>t. case account_data J (data_updated J room user ty data s) (r, u, t) of
                Some (n, j) \<Rightarrow> if since < n then Some j else None | None \<Rightarrow> None)"
    by (elim conjE) (rule changes_since_view [OF assms(1) account_data_inv_update [OF assms(2-7)]])
qed

definition accountdata_init :: "servername \<Rightarrow> accountdata_db" where
  "accountdata_init name = users_db.extend (users_init name)
     \<lparr>roomuserdataid_accountdata = kv_empty, roomusertype_roomuserdataid = kv_empty\<rparr>"

lemma accountdata_init_fields [simp]:
  "roomuserdataid_accountdata (accountdata_init n) = kv_empty"
  "roomusertype_roomuserdataid (accountdata_init n) = kv_empty"
  "global (accountdata_init n) = kv_empty"
  by (simp_all add: accountdata_init_def users_db.defs users_init_defs)

definition example_tag :: json where
  "example_tag = JObj (obj_of [(ascii ''type'', JStr (ascii ''m.tag'')), (ascii ''content'', JObj [])])"

theorem account_data_refines_witness:
  "\<exists>s' :: accountdata_db. update_account_data example_serde (Some [33]) [64] (ascii ''m.tag'') example_tag (accountdata_init []) = (Inr (), s') \<and>
     get_account_data example_serde (Some [33]) [64] (ascii ''m.tag'') s' = Inr (Some example_tag)"
proof -
  have "account_data_inv example_serde (accountdata_init [])" by (simp add: account_data_inv_def)
  moreover have "has_room (accountdata_init [])" by (simp add: has_room_def count_def counter_at_def)
  moreover have ids: "ids_ok (Some [33]) [64] (ascii ''m.tag'')"
    by (simp add: ids_ok_def room_part_def utf8_valid_ascii utf8_valid.simps)
  moreover have "json_ok example_tag"
    unfolding example_tag_def by (rule json_ok_obj_of) (simp add: utf8_valid_ascii)
  moreover have "json_get example_tag (ascii ''type'') \<noteq> None" "json_get example_tag (ascii ''content'') \<noteq> None"
    by (simp_all add: example_tag_def json_get_def obj_of_def)
  ultimately have "\<exists>s' :: accountdata_db.
      update_account_data example_serde (Some [33]) [64] (ascii ''m.tag'') example_tag (accountdata_init []) = (Inr (), s') \<and>
      account_data_inv example_serde s' \<and>
      (\<forall>r u t. ids_ok r u t \<longrightarrow>
         account_data example_serde s' (r, u, t) = ((account_data example_serde (accountdata_init []))((Some [33], [64], ascii ''m.tag'') \<mapsto>
           (count (accountdata_init []) + 1, example_tag))) (r, u, t) \<and>
         get_account_data example_serde r u t s' = Inr (map_option snd (account_data example_serde s' (r, u, t)))) \<and>
      (\<forall>r u since. ids_ok r u [] \<and> since \<noteq> -1 \<longrightarrow>
       changes_since example_serde r u since s' =
         Inr (\<lambda>t. case account_data example_serde s' (r, u, t) of
                   Some (n, j) \<Rightarrow> if since < n then Some j else None | None \<Rightarrow> None))"
    by (intro account_data_refines example_serde_ok)
  then show ?thesis
    using ids by (elim exE conjE) (rule exI, rule conjI, assumption, simp)
qed

end
