(* ===== verification/StateAccessor.thy ===== *)
theory StateAccessor
  imports AccountData
begin

text \<open>
  The state a room is in: its current state hash, the state before an event and the forward
  extremities (\<^verbatim>\<open>src/database/key_value/rooms/state.rs\<close>), and the reading of a state
  by type and state key (\<^verbatim>\<open>src/database/key_value/rooms/state_accessor.rs\<close>). The
  order in which a hash set is iterated is the parameter \<open>iter\<close>.
\<close>

record accessor_db = accountdata_db +
  shorteventid_shortstatehash :: kv_tree
  roomid_pduleaves :: kv_tree

section \<open>Room states\<close>

definition set_room_state :: "room_id \<Rightarrow> u64 \<Rightarrow> ('a accessor_db_scheme, unit) dop" where
  "set_room_state room new_shortstatehash =
     modify (roomid_shortstatehash_update (kv_insert room (to_be_bytes new_shortstatehash)))"

definition set_event_state_db :: "u64 \<Rightarrow> u64 \<Rightarrow> ('a accessor_db_scheme, unit) dop" where
  "set_event_state_db shorteventid shortstatehash =
     modify (shorteventid_shortstatehash_update (kv_insert (to_be_bytes shorteventid) (to_be_bytes shortstatehash)))"

definition get_forward_extremities :: "ruma \<Rightarrow> room_id \<Rightarrow> 'a accessor_db_scheme \<Rightarrow> event_id set res" where
  "get_forward_extremities R room s =
     map_res set (collect_res (map (\<lambda>(_, b). id_from_bytes (is_event_id R)
         ''EventID in roomid_pduleaves is invalid unicode.'' ''EventId in roomid_pduleaves is invalid.'' b)
       (kv_scan_prefix (room @ [sep]) (roomid_pduleaves s))))"

definition set_forward_extremities :: "room_id \<Rightarrow> event_id list \<Rightarrow> ('a accessor_db_scheme, unit) dop" where
  "set_forward_extremities room event_ids =
     andthen (modify (roomid_pduleaves_update (kv_remove_prefix (room @ [sep]))))
     (for_each event_ids (\<lambda>e. modify (roomid_pduleaves_update (kv_insert (room @ sep # e) e))))"

section \<open>Reading a state\<close>

text \<open>\<^verbatim>\<open>load_shortstatehash_info(h)?.pop().expect("there is always one layer").1\<close>\<close>

definition full_state :: "u64 \<Rightarrow> ('a compressor_db_scheme, CompressedStateEvent set) dop" where
  "full_state h =
     bind (load_shortstatehash_info h) (\<lambda>info.
     if info = [] then fail (Panic ''there is always one layer'') else ret (layer_state (last info)))"

fun parse_all :: "ruma \<Rightarrow> CompressedStateEvent list \<Rightarrow> ('a compressor_db_scheme, (u64 \<times> event_id) list) dop" where
  "parse_all R [] = ret []"
| "parse_all R (c # cs) =
     bind (parse_compressed_state_event R c) (\<lambda>parsed.
     bind (parse_all R cs) (\<lambda>rest. ret (parsed # rest)))"

definition state_full_ids ::
    "ruma \<Rightarrow> (bytes set \<Rightarrow> bytes list) \<Rightarrow> u64 \<Rightarrow> ('a accessor_db_scheme, u64 \<Rightarrow> event_id option) dop" where
  "state_full_ids R iter h =
     bind (full_state h) (\<lambda>st.
     bind (parse_all R (iter st)) (\<lambda>parsed. ret (map_of (rev parsed))))"

fun state_pdus ::
    "serde \<Rightarrow> ruma \<Rightarrow> CompressedStateEvent list \<Rightarrow> ('a accessor_db_scheme, ((bytes \<times> bytes) \<times> PduEvent) list) dop" where
  "state_pdus J R [] = ret []"
| "state_pdus J R (c # cs) =
     bind (parse_compressed_state_event R c) (\<lambda>(_, eventid).
     bind (get_pdu J R eventid) (\<lambda>found.
     case found of
       None \<Rightarrow> state_pdus J R cs
     | Some pdu \<Rightarrow>
         bind (of_res (ok_or (BadDatabase ''State event has no state key.'') (state_key pdu))) (\<lambda>key.
         bind (state_pdus J R cs) (\<lambda>rest. ret (((kind pdu, key), pdu) # rest)))))"

definition state_full ::
    "serde \<Rightarrow> ruma \<Rightarrow> (bytes set \<Rightarrow> bytes list) \<Rightarrow> u64 \<Rightarrow>
     ('a accessor_db_scheme, bytes \<times> bytes \<Rightarrow> PduEvent option) dop" where
  "state_full J R iter h =
     bind (full_state h) (\<lambda>st.
     bind (state_pdus J R (iter st)) (\<lambda>result. ret (map_of (rev result))))"

definition state_get_id ::
    "ruma \<Rightarrow> (bytes set \<Rightarrow> bytes list) \<Rightarrow> u64 \<Rightarrow> bytes \<Rightarrow> bytes \<Rightarrow> ('a accessor_db_scheme, event_id option) dop" where
  "state_get_id R iter h event_type key =
     bind (get_shortstatekey event_type key) (\<lambda>short.
     case short of
       None \<Rightarrow> ret None
     | Some shortstatekey \<Rightarrow>
         bind (full_state h) (\<lambda>st.
         case find (\<lambda>b. prefix (to_be_bytes shortstatekey) b) (iter st) of
           None \<Rightarrow> ret None
         | Some ce \<Rightarrow>
             bind (attempt (parse_compressed_state_event R ce)) (\<lambda>r.
             ret (map_option snd (res_ok r)))))"

definition state_get ::
    "serde \<Rightarrow> ruma \<Rightarrow> (bytes set \<Rightarrow> bytes list) \<Rightarrow> u64 \<Rightarrow> bytes \<Rightarrow> bytes \<Rightarrow> ('a accessor_db_scheme, PduEvent option) dop" where
  "state_get J R iter h event_type key =
     bind (state_get_id R iter h event_type key) (\<lambda>found.
     case found of None \<Rightarrow> ret None | Some e \<Rightarrow> get_pdu J R e)"

definition pdu_shortstatehash :: "event_id \<Rightarrow> 'a accessor_db_scheme \<Rightarrow> u64 option res" where
  "pdu_shortstatehash e s =
     (case kv_get (eventid_shorteventid s) e of
        None \<Rightarrow> Inr None
      | Some shorteventid \<Rightarrow>
          decode_u64 ''Invalid shortstatehash bytes in shorteventid_shortstatehash''
            (kv_get (shorteventid_shortstatehash s) shorteventid))"

definition room_state_full ::
    "serde \<Rightarrow> ruma \<Rightarrow> (bytes set \<Rightarrow> bytes list) \<Rightarrow> room_id \<Rightarrow>
     ('a accessor_db_scheme, bytes \<times> bytes \<Rightarrow> PduEvent option) dop" where
  "room_state_full J R iter room =
     bind (reads (get_room_shortstatehash room)) (\<lambda>current.
     case current of Some h \<Rightarrow> state_full J R iter h | None \<Rightarrow> ret Map.empty)"

definition room_state_get_id ::
    "ruma \<Rightarrow> (bytes set \<Rightarrow> bytes list) \<Rightarrow> room_id \<Rightarrow> bytes \<Rightarrow> bytes \<Rightarrow> ('a accessor_db_scheme, event_id option) dop" where
  "room_state_get_id R iter room event_type key =
     bind (reads (get_room_shortstatehash room)) (\<lambda>current.
     case current of Some h \<Rightarrow> state_get_id R iter h event_type key | None \<Rightarrow> ret None)"

definition room_state_get ::
    "serde \<Rightarrow> ruma \<Rightarrow> (bytes set \<Rightarrow> bytes list) \<Rightarrow> room_id \<Rightarrow> bytes \<Rightarrow> bytes \<Rightarrow> ('a accessor_db_scheme, PduEvent option) dop" where
  "room_state_get J R iter room event_type key =
     bind (reads (get_room_shortstatehash room)) (\<lambda>current.
     case current of Some h \<Rightarrow> state_get J R iter h event_type key | None \<Rightarrow> ret None)"

section \<open>Reading a state changes caches only\<close>

text \<open>
  An observation of the database that the caches in front of the state tables do not enter. Every read
  of a room state keeps it.
\<close>

locale state_read_frame =
  fixes f :: "'a accessor_db_scheme \<Rightarrow> 'v"
  assumes keeps_stateinfo: "f (stateinfo_cache_update g1 s) = f s"
    and keeps_statekeyshort: "f (statekeyshort_cache_update g2 s) = f s"
    and keeps_shorteventid: "f (shorteventid_cache_update g3 s) = f s"
    and keeps_pdu: "f (pdu_cache_update g4 s) = f s"
begin

lemma keeps_load_info: "keeps f (load_info_fuel n h)"
proof (induction n arbitrary: h)
  case (Suc n)
  show ?case
    unfolding load_info_fuel.simps by (intro keeps_intros keeps_stateinfo Suc)
qed (simp add: keeps_intros)

lemma keeps_full_state: "keeps f (full_state h)"
  unfolding full_state_def load_shortstatehash_info_def
  by (intro keeps_intros keeps_load_info)

lemma keeps_get_shortstatekey: "keeps f (get_shortstatekey ty key)"
  unfolding get_shortstatekey_def by (intro keeps_intros keeps_statekeyshort)

lemma keeps_parse: "keeps f (parse_compressed_state_event R c)"
  unfolding parse_compressed_state_event_def get_eventid_from_short_def
  by (intro keeps_intros keeps_shorteventid)

lemma keeps_get_pdu: "keeps f (get_pdu J R e)"
  unfolding get_pdu_def by (intro keeps_intros keeps_pdu)

lemma keeps_state_get_id: "keeps f (state_get_id R iter h ty key)"
  unfolding state_get_id_def
  by (intro keeps_intros keeps_get_shortstatekey keeps_full_state keeps_parse)

lemma keeps_state_get: "keeps f (state_get J R iter h ty key)"
  unfolding state_get_def by (intro keeps_intros keeps_state_get_id keeps_get_pdu)

lemma keeps_room_state_get: "keeps f (room_state_get J R iter room ty key)"
  unfolding room_state_get_def by (intro keeps_intros keeps_state_get)

end

text \<open>The tables of this component are such observations.\<close>

interpretation leaves: state_read_frame "\<lambda>s. (shorteventid_shortstatehash s, roomid_pduleaves s, roomid_shortstatehash s)"
  by unfold_locales simp_all

end
