(* ===== verification/StateCache.thy ===== *)
theory StateCache
  imports StateAccessor
begin

text \<open>
  The membership tables (\<^verbatim>\<open>src/database/key_value/rooms/state_cache.rs\<close>) and their update
  from a membership event (\<^verbatim>\<open>src/service/rooms/state_cache/mod.rs\<close>). Each user and room is
  filed in both directions as joined, invited or left; per room the joined and invited members are
  counted and the participating servers are listed. Matching appservice namespaces against user ids
  is a parameter.
\<close>

section \<open>State\<close>

record statecache_db = accessor_db +
  userroomid_joined :: kv_tree
  roomuserid_joined :: kv_tree
  roomuseroncejoinedids :: kv_tree
  userroomid_invitestate :: kv_tree
  roomuserid_invitecount :: kv_tree
  userroomid_leftstate :: kv_tree
  roomuserid_leftcount :: kv_tree
  roomid_joinedcount :: kv_tree
  roomid_invitedcount :: kv_tree
  roomserverids :: kv_tree
  serverroomids :: kv_tree
  our_real_users_cache :: "room_id \<Rightarrow> user_id set option"
  appservice_in_room_cache :: "room_id \<Rightarrow> (bytes \<Rightarrow> bool option) option"

text \<open>The part behind the last separator of every key of a scan, decoded as an identifier.\<close>

definition ids_of_scan :: "(bytes \<Rightarrow> bool) \<Rightarrow> string \<Rightarrow> string \<Rightarrow> (bytes \<times> bytes) list \<Rightarrow> bytes res list" where
  "ids_of_scan ok not_unicode invalid es = map (\<lambda>(k, _). id_from_bytes ok not_unicode invalid (rsplit_last k)) es"

section \<open>Filing a membership\<close>

definition mark_as_once_joined :: "user_id \<Rightarrow> room_id \<Rightarrow> ('a statecache_db_scheme, unit) dop" where
  "mark_as_once_joined user room = modify (roomuseroncejoinedids_update (kv_insert (user @ sep # room) []))"

definition mark_as_joined :: "user_id \<Rightarrow> room_id \<Rightarrow> ('a statecache_db_scheme, unit) dop" where
  "mark_as_joined user room =
     andthen (modify (userroomid_joined_update (kv_insert (user @ sep # room) [])))
     (andthen (modify (roomuserid_joined_update (kv_insert (room @ sep # user) [])))
     (andthen (modify (userroomid_invitestate_update (kv_remove (user @ sep # room))))
     (andthen (modify (roomuserid_invitecount_update (kv_remove (room @ sep # user))))
     (andthen (modify (userroomid_leftstate_update (kv_remove (user @ sep # room))))
     (modify (roomuserid_leftcount_update (kv_remove (room @ sep # user))))))))"

definition mark_as_invited ::
    "serde \<Rightarrow> user_id \<Rightarrow> room_id \<Rightarrow> json list option \<Rightarrow> ('a statecache_db_scheme, unit) dop" where
  "mark_as_invited J user room last_state =
     andthen (modify (userroomid_invitestate_update (kv_insert (user @ sep # room)
        (json_print J (JArr (case last_state of Some st \<Rightarrow> st | None \<Rightarrow> []))))))
     (bind next_count (\<lambda>c.
      andthen (modify (roomuserid_invitecount_update (kv_insert (room @ sep # user) (to_be_bytes c))))
     (andthen (modify (userroomid_joined_update (kv_remove (user @ sep # room))))
     (andthen (modify (roomuserid_joined_update (kv_remove (room @ sep # user))))
     (andthen (modify (userroomid_leftstate_update (kv_remove (user @ sep # room))))
     (modify (roomuserid_leftcount_update (kv_remove (room @ sep # user)))))))))"

definition mark_as_left :: "serde \<Rightarrow> user_id \<Rightarrow> room_id \<Rightarrow> ('a statecache_db_scheme, unit) dop" where
  "mark_as_left J user room =
     andthen (modify (userroomid_leftstate_update (kv_insert (user @ sep # room) (json_print J (JArr [])))))
     (bind next_count (\<lambda>c.
      andthen (modify (roomuserid_leftcount_update (kv_insert (room @ sep # user) (to_be_bytes c))))
     (andthen (modify (userroomid_joined_update (kv_remove (user @ sep # room))))
     (andthen (modify (roomuserid_joined_update (kv_remove (room @ sep # user))))
     (andthen (modify (userroomid_invitestate_update (kv_remove (user @ sep # room))))
     (modify (roomuserid_invitecount_update (kv_remove (room @ sep # user)))))))))"

definition forget_room :: "room_id \<Rightarrow> user_id \<Rightarrow> ('a statecache_db_scheme, unit) dop" where
  "forget_room room user =
     andthen (modify (userroomid_leftstate_update (kv_remove (user @ sep # room))))
     (modify (roomuserid_leftcount_update (kv_remove (room @ sep # user))))"

section \<open>Reading memberships\<close>

definition room_servers :: "ruma \<Rightarrow> room_id \<Rightarrow> 'a statecache_db_scheme \<Rightarrow> servername res list" where
  "room_servers R room s =
     ids_of_scan (is_server_name R) ''Server name in roomserverids is invalid unicode.''
       ''Server name in roomserverids is invalid.'' (kv_scan_prefix (room @ [sep]) (roomserverids s))"

definition server_in_room :: "servername \<Rightarrow> room_id \<Rightarrow> 'a statecache_db_scheme \<Rightarrow> bool res" where
  "server_in_room server room s = Inr (kv_get (serverroomids s) (server @ sep # room) \<noteq> None)"

definition server_rooms :: "ruma \<Rightarrow> servername \<Rightarrow> 'a statecache_db_scheme \<Rightarrow> room_id res list" where
  "server_rooms R server s =
     ids_of_scan (is_room_id R) ''RoomId in serverroomids is invalid unicode.''
       ''RoomId in serverroomids is invalid.'' (kv_scan_prefix (server @ [sep]) (serverroomids s))"

definition room_members :: "ruma \<Rightarrow> room_id \<Rightarrow> 'a statecache_db_scheme \<Rightarrow> user_id res list" where
  "room_members R room s =
     ids_of_scan (is_user_id R) ''User ID in roomuserid_joined is invalid unicode.''
       ''User ID in roomuserid_joined is invalid.'' (kv_scan_prefix (room @ [sep]) (roomuserid_joined s))"

definition room_joined_count :: "room_id \<Rightarrow> 'a statecache_db_scheme \<Rightarrow> u64 option res" where
  "room_joined_count room s = decode_u64 ''Invalid joinedcount in db.'' (kv_get (roomid_joinedcount s) room)"

definition room_invited_count :: "room_id \<Rightarrow> 'a statecache_db_scheme \<Rightarrow> u64 option res" where
  "room_invited_count room s = decode_u64 ''Invalid joinedcount in db.'' (kv_get (roomid_invitedcount s) room)"

definition room_useroncejoined :: "ruma \<Rightarrow> room_id \<Rightarrow> 'a statecache_db_scheme \<Rightarrow> user_id res list" where
  "room_useroncejoined R room s =
     ids_of_scan (is_user_id R) ''User ID in room_useroncejoined is invalid unicode.''
       ''User ID in room_useroncejoined is invalid.'' (kv_scan_prefix (room @ [sep]) (roomuseroncejoinedids s))"

definition room_members_invited :: "ruma \<Rightarrow> room_id \<Rightarrow> 'a statecache_db_scheme \<Rightarrow> user_id res list" where
  "room_members_invited R room s =
     ids_of_scan (is_user_id R) ''User ID in roomuserid_invited is invalid unicode.''
       ''User ID in roomuserid_invited is invalid.'' (kv_scan_prefix (room @ [sep]) (roomuserid_invitecount s))"

definition get_invite_count :: "room_id \<Rightarrow> user_id \<Rightarrow> 'a statecache_db_scheme \<Rightarrow> u64 option res" where
  "get_invite_count room user s =
     decode_u64 ''Invalid invitecount in db.'' (kv_get (roomuserid_invitecount s) (room @ sep # user))"

definition get_left_count :: "room_id \<Rightarrow> user_id \<Rightarrow> 'a statecache_db_scheme \<Rightarrow> u64 option res" where
  "get_left_count room user s =
     decode_u64 ''Invalid leftcount in db.'' (kv_get (roomuserid_leftcount s) (room @ sep # user))"

definition rooms_joined :: "ruma \<Rightarrow> user_id \<Rightarrow> 'a statecache_db_scheme \<Rightarrow> room_id res list" where
  "rooms_joined R user s =
     ids_of_scan (is_room_id R) ''Room ID in userroomid_joined is invalid unicode.''
       ''Room ID in userroomid_joined is invalid.'' (kv_scan_prefix user (userroomid_joined s))"

text \<open>A room with the list of events stored for it.\<close>

definition room_with_state ::
    "serde \<Rightarrow> ruma \<Rightarrow> string \<Rightarrow> bytes \<times> bytes \<Rightarrow> (room_id \<times> json list) res" where
  "room_with_state J R msg e =
     bind_res (id_from_bytes (is_room_id R) ''Room ID in userroomid_invited is invalid unicode.''
       ''Room ID in userroomid_invited is invalid.'' (rsplit_last (fst e))) (\<lambda>room.
     case json_parse J (snd e) of
       Some (JArr st) \<Rightarrow> Inr (room, st)
     | _ \<Rightarrow> Inl (BadDatabase msg))"

definition rooms_invited :: "serde \<Rightarrow> ruma \<Rightarrow> user_id \<Rightarrow> 'a statecache_db_scheme \<Rightarrow> (room_id \<times> json list) res list" where
  "rooms_invited J R user s =
     map (room_with_state J R ''Invalid state in userroomid_invitestate.'')
       (kv_scan_prefix (user @ [sep]) (userroomid_invitestate s))"

definition rooms_left :: "serde \<Rightarrow> ruma \<Rightarrow> user_id \<Rightarrow> 'a statecache_db_scheme \<Rightarrow> (room_id \<times> json list) res list" where
  "rooms_left J R user s =
     map (room_with_state J R ''Invalid state in userroomid_leftstate.'')
       (kv_scan_prefix (user @ [sep]) (userroomid_leftstate s))"

definition json_array :: "serde \<Rightarrow> bytes \<Rightarrow> json list option" where
  "json_array J b = (case json_parse J b of Some (JArr st) \<Rightarrow> Some st | _ \<Rightarrow> None)"

definition invite_state :: "serde \<Rightarrow> user_id \<Rightarrow> room_id \<Rightarrow> 'a statecache_db_scheme \<Rightarrow> json list option res" where
  "invite_state J user room s =
     decode_json ''Invalid state in userroomid_invitestate.'' (json_array J)
       (kv_get (userroomid_invitestate s) (user @ sep # room))"

definition left_state :: "serde \<Rightarrow> user_id \<Rightarrow> room_id \<Rightarrow> 'a statecache_db_scheme \<Rightarrow> json list option res" where
  "left_state J user room s =
     decode_json ''Invalid state in userroomid_leftstate.'' (json_array J)
       (kv_get (userroomid_leftstate s) (user @ sep # room))"

definition once_joined :: "user_id \<Rightarrow> room_id \<Rightarrow> 'a statecache_db_scheme \<Rightarrow> bool res" where
  "once_joined user room s = Inr (kv_get (roomuseroncejoinedids s) (user @ sep # room) \<noteq> None)"

definition is_joined :: "user_id \<Rightarrow> room_id \<Rightarrow> 'a statecache_db_scheme \<Rightarrow> bool res" where
  "is_joined user room s = Inr (kv_get (userroomid_joined s) (user @ sep # room) \<noteq> None)"

definition is_invited :: "user_id \<Rightarrow> room_id \<Rightarrow> 'a statecache_db_scheme \<Rightarrow> bool res" where
  "is_invited user room s = Inr (kv_get (userroomid_invitestate s) (user @ sep # room) \<noteq> None)"

definition is_left :: "user_id \<Rightarrow> room_id \<Rightarrow> 'a statecache_db_scheme \<Rightarrow> bool res" where
  "is_left user room s = Inr (kv_get (userroomid_leftstate s) (user @ sep # room) \<noteq> None)"

section \<open>Counts and servers of a room\<close>

definition is_real_user :: "ruma \<Rightarrow> 'a statecache_db_scheme \<Rightarrow> user_id \<Rightarrow> bool" where
  "is_real_user R s joined \<longleftrightarrow>
     user_server R joined = server_name s \<and> is_deactivated joined s = Inr False"

definition remove_server :: "room_id \<Rightarrow> servername \<Rightarrow> ('a statecache_db_scheme, unit) dop" where
  "remove_server room server =
     andthen (modify (roomserverids_update (kv_remove (room @ sep # server))))
     (modify (serverroomids_update (kv_remove (server @ sep # room))))"

definition add_server :: "room_id \<Rightarrow> servername \<Rightarrow> ('a statecache_db_scheme, unit) dop" where
  "add_server room server =
     andthen (modify (roomserverids_update (kv_insert (room @ sep # server) [])))
     (modify (serverroomids_update (kv_insert (server @ sep # room) [])))"

text \<open>The servers that left are unfiled; what remains of the set are the new servers.\<close>

fun drop_old_servers ::
    "room_id \<Rightarrow> servername list \<Rightarrow> servername set \<Rightarrow> ('a statecache_db_scheme, servername set) dop" where
  "drop_old_servers room [] joined_servers = ret joined_servers"
| "drop_old_servers room (old # olds) joined_servers =
     (if old \<in> joined_servers then drop_old_servers room olds (joined_servers - {old})
      else andthen (remove_server room old) (drop_old_servers room olds joined_servers))"

definition update_joined_count ::
    "ruma \<Rightarrow> (servername set \<Rightarrow> servername list) \<Rightarrow> room_id \<Rightarrow> ('a statecache_db_scheme, unit) dop" where
  "update_joined_count R iter room =
     bind (gets (\<lambda>s. oks (room_members R room s))) (\<lambda>members.
     bind (gets (\<lambda>s. set (filter (is_real_user R s) members))) (\<lambda>real_users.
     bind (gets (\<lambda>s. oks (room_members_invited R room s))) (\<lambda>invited.
     let joined_servers = set (map (user_server R) members) in
     andthen (modify (roomid_joinedcount_update (kv_insert room (to_be_bytes (of_nat (length members))))))
     (andthen (modify (roomid_invitedcount_update (kv_insert room (to_be_bytes (of_nat (length invited))))))
     (andthen (modify (our_real_users_cache_update (\<lambda>m. m(room \<mapsto> real_users))))
     (bind (gets (\<lambda>s. oks (room_servers R room s))) (\<lambda>old_servers.
     bind (drop_old_servers room old_servers joined_servers) (\<lambda>new_servers.
     andthen (for_each (iter new_servers) (add_server room))
     (modify (appservice_in_room_cache_update (\<lambda>m. m(room := None))))))))))))"

definition get_our_real_users ::
    "ruma \<Rightarrow> (servername set \<Rightarrow> servername list) \<Rightarrow> room_id \<Rightarrow> ('a statecache_db_scheme, user_id set) dop" where
  "get_our_real_users R iter room =
     bind (gets (\<lambda>s. our_real_users_cache s room)) (\<lambda>maybe.
     case maybe of
       Some users \<Rightarrow> ret users
     | None \<Rightarrow>
         andthen (update_joined_count R iter room)
         (reads (\<lambda>s. ok_or (Panic ''called Option::unwrap() on a None value'') (our_real_users_cache s room))))"

text \<open>
  An appservice: its id, the user namespace as a predicate if there are namespaces at all, and
  the bridge user if its name is valid.
\<close>

record appservice =
  as_id :: bytes
  as_users :: "(user_id \<Rightarrow> bool) option"
  as_bridge :: "user_id option"

definition appservice_in_room :: "ruma \<Rightarrow> room_id \<Rightarrow> appservice \<Rightarrow> ('a statecache_db_scheme, bool) dop" where
  "appservice_in_room R room a =
     bind (gets (\<lambda>s. Option.bind (appservice_in_room_cache s room) (\<lambda>m. m (as_id a)))) (\<lambda>maybe.
     case maybe of
       Some b \<Rightarrow> ret b
     | None \<Rightarrow>
         (case as_users a of
            None \<Rightarrow> ret False
          | Some matches \<Rightarrow>
              bind (gets (\<lambda>s.
                (case as_bridge a of None \<Rightarrow> False | Some u \<Rightarrow> is_joined u room s = Inr True) \<or>
                (\<exists>u \<in> set (oks (room_members R room s)). matches u))) (\<lambda>in_room.
              andthen (modify (appservice_in_room_cache_update (\<lambda>m.
                m(room \<mapsto> ((case m room of None \<Rightarrow> Map.empty | Some c \<Rightarrow> c)(as_id a \<mapsto> in_room))))))
              (ret in_room))))"

section \<open>Membership events\<close>

datatype MembershipState = Ban | Invite | Join | Knock | Leave | OtherMembership bytes

text \<open>How ruma reads and writes the contents the services look into.\<close>

record contents =
  create_predecessor :: "json \<Rightarrow> room_id option option"
  create_version :: "json \<Rightarrow> bytes option"
  member_membership :: "json \<Rightarrow> MembershipState option"
  ignored_users :: "json \<Rightarrow> user_id list option"
  direct_parse :: "json \<Rightarrow> (user_id \<times> room_id list) list option"
  direct_print :: "(user_id \<times> room_id list) list \<Rightarrow> json"

definition copy_settings ::
    "serde \<Rightarrow> contents \<Rightarrow> room_id \<Rightarrow> user_id \<Rightarrow> room_id \<Rightarrow> ('a statecache_db_scheme, unit) dop" where
  "copy_settings J C room user predecessor =
     bind (reads (get_account_data J (Some predecessor) user (ascii ''m.tag''))) (\<lambda>tag_event.
     andthen (case tag_event of
                Some ev \<Rightarrow> andthen (attempt (update_account_data J (Some room) user (ascii ''m.tag'') ev)) (ret ())
              | None \<Rightarrow> ret ())
     (bind (reads (get_account_data J None user (ascii ''m.direct''))) (\<lambda>direct_event.
      case direct_event of
        None \<Rightarrow> ret ()
      | Some ev \<Rightarrow>
          bind (of_res (ok_or (BadDatabase ''Invalid account data event in db.'') (direct_parse C ev))) (\<lambda>direct.
          if \<exists>e \<in> set direct. predecessor \<in> set (snd e) then
            update_account_data J None user (ascii ''m.direct'')
              (direct_print C (map (\<lambda>(u, rs). (u, if predecessor \<in> set rs then rs @ [room] else rs)) direct))
          else ret ()))))"

definition first_join ::
    "serde \<Rightarrow> ruma \<Rightarrow> contents \<Rightarrow> (bytes set \<Rightarrow> bytes list) \<Rightarrow> room_id \<Rightarrow> user_id \<Rightarrow> ('a statecache_db_scheme, unit) dop" where
  "first_join J R C iter room user =
     andthen (mark_as_once_joined user room)
     (bind (room_state_get J R iter room (ascii ''m.room.create'') []) (\<lambda>create.
      case Option.bind create (\<lambda>pdu. Option.bind (create_predecessor C (content pdu)) (\<lambda>p. p)) of
        Some predecessor \<Rightarrow> copy_settings J C room user predecessor
      | None \<Rightarrow> ret ()))"

definition is_ignored :: "serde \<Rightarrow> contents \<Rightarrow> user_id \<Rightarrow> user_id \<Rightarrow> 'a statecache_db_scheme \<Rightarrow> bool res" where
  "is_ignored J C user from_user s =
     bind_res (get_account_data J None user (ascii ''m.ignored_user_list'') s) (\<lambda>ev.
     case ev of
       None \<Rightarrow> Inr False
     | Some e \<Rightarrow>
         map_res (\<lambda>us. from_user \<in> set us) (ok_or (BadDatabase ''Invalid account data event in db.'') (ignored_users C e)))"

definition member_update ::
    "serde \<Rightarrow> ruma \<Rightarrow> contents \<Rightarrow> (bytes set \<Rightarrow> bytes list) \<Rightarrow> room_id \<Rightarrow> user_id \<Rightarrow> MembershipState \<Rightarrow> user_id \<Rightarrow>
     json list option \<Rightarrow> bool \<Rightarrow> ('a statecache_db_scheme, unit) dop" where
  "member_update J R C iter room user membership from_user last_state update_count =
     (let finish = (if update_count then update_joined_count R iter room else ret ()) in
      case membership of
        Join \<Rightarrow>
          bind (reads (once_joined user room)) (\<lambda>before.
          andthen (if \<not> before then first_join J R C iter room user else ret ())
          (andthen (mark_as_joined user room) finish))
      | Invite \<Rightarrow>
          bind (reads (is_ignored J C user from_user)) (\<lambda>ignored.
          if ignored then ret () else andthen (mark_as_invited J user room last_state) finish)
      | Leave \<Rightarrow> andthen (mark_as_left J user room) finish
      | Ban \<Rightarrow> andthen (mark_as_left J user room) finish
      | _ \<Rightarrow> finish)"

definition update_membership ::
    "serde \<Rightarrow> ruma \<Rightarrow> contents \<Rightarrow> (bytes set \<Rightarrow> bytes list) \<Rightarrow> room_id \<Rightarrow> user_id \<Rightarrow> MembershipState \<Rightarrow> user_id \<Rightarrow>
     json list option \<Rightarrow> bool \<Rightarrow> ('a statecache_db_scheme, unit) dop" where
  "update_membership J R C iter room user membership from_user last_state update_count =
     bind (gets server_name) (\<lambda>own.
     andthen (if user_server R user \<noteq> own then create_user (\<lambda>_. None) user None else ret ())
     (member_update J R C iter room user membership from_user last_state update_count))"

section \<open>Memberships\<close>

text \<open>
  The abstract membership of a user in a room. In every state the two directions agree and a
  user is filed in at most one of the three places.
\<close>

datatype member = Joined | Invited | Left

definition member_of :: "'a statecache_db_scheme \<Rightarrow> user_id \<Rightarrow> room_id \<Rightarrow> member option" where
  "member_of s user room =
     (if kv_has (userroomid_joined s) (user @ sep # room) then Some Joined
      else if kv_has (userroomid_invitestate s) (user @ sep # room) then Some Invited
      else if kv_has (userroomid_leftstate s) (user @ sep # room) then Some Left
      else None)"

definition membership_inv :: "'a statecache_db_scheme \<Rightarrow> bool" where
  "membership_inv s \<longleftrightarrow> (\<forall>user room. utf8_valid user \<longrightarrow> utf8_valid room \<longrightarrow>
     kv_has (userroomid_joined s) (user @ sep # room) = (member_of s user room = Some Joined) \<and>
     kv_has (roomuserid_joined s) (room @ sep # user) = (member_of s user room = Some Joined) \<and>
     kv_has (userroomid_invitestate s) (user @ sep # room) = (member_of s user room = Some Invited) \<and>
     kv_has (roomuserid_invitecount s) (room @ sep # user) = (member_of s user room = Some Invited) \<and>
     kv_has (userroomid_leftstate s) (user @ sep # room) = (member_of s user room = Some Left) \<and>
     kv_has (roomuserid_leftcount s) (room @ sep # user) = (member_of s user room = Some Left))"

definition member_trees :: "'a statecache_db_scheme \<Rightarrow> kv_tree \<times> kv_tree \<times> kv_tree \<times> kv_tree \<times> kv_tree \<times> kv_tree" where
  "member_trees s = (userroomid_joined s, roomuserid_joined s, userroomid_invitestate s,
     roomuserid_invitecount s, userroomid_leftstate s, roomuserid_leftcount s)"

lemma member_trees_eq:
  assumes "member_trees s' = member_trees s"
  shows "member_of s' = member_of s" and "membership_inv s' = membership_inv s"
proof -
  show "member_of s' = member_of s"
    using assms by (intro ext) (simp add: member_of_def member_trees_def)
  then show "membership_inv s' = membership_inv s"
    using assms by (simp add: membership_inv_def member_trees_def)
qed

text \<open>Refiling one user in one room.\<close>

definition refiled :: "user_id \<Rightarrow> room_id \<Rightarrow> member \<Rightarrow> 'a statecache_db_scheme \<Rightarrow> 'a statecache_db_scheme \<Rightarrow> bool" where
  "refiled user room m s s' \<longleftrightarrow>
     (\<forall>k. kv_has (userroomid_joined s') k =
        (if k = user @ sep # room then m = Joined else kv_has (userroomid_joined s) k)) \<and>
     (\<forall>k. kv_has (roomuserid_joined s') k =
        (if k = room @ sep # user then m = Joined else kv_has (roomuserid_joined s) k)) \<and>
     (\<forall>k. kv_has (userroomid_invitestate s') k =
        (if k = user @ sep # room then m = Invited else kv_has (userroomid_invitestate s) k)) \<and>
     (\<forall>k. kv_has (roomuserid_invitecount s') k =
        (if k = room @ sep # user then m = Invited else kv_has (roomuserid_invitecount s) k)) \<and>
     (\<forall>k. kv_has (userroomid_leftstate s') k =
        (if k = user @ sep # room then m = Left else kv_has (userroomid_leftstate s) k)) \<and>
     (\<forall>k. kv_has (roomuserid_leftcount s') k =
        (if k = room @ sep # user then m = Left else kv_has (roomuserid_leftcount s) k))"

lemma refiled_view:
  assumes "refiled user room m s s'" and "utf8_valid user" and "utf8_valid room"
    and "utf8_valid u" and "utf8_valid r"
  shows "member_of s' u r = (if (u, r) = (user, room) then Some m else member_of s u r)"
proof -
  have "u @ sep # r = user @ sep # room \<longleftrightarrow> (u, r) = (user, room)"
    using assms by (simp add: sep_join_inject utf8_no_sep)
  then show ?thesis
    using assms(1) unfolding refiled_def member_of_def by (cases m) simp_all
qed

lemma refiled_inv:
  assumes "refiled user room m s s'" and "utf8_valid user" and "utf8_valid room" and "membership_inv s"
  shows "membership_inv s'"
  unfolding membership_inv_def
proof (intro allI impI)
  fix u r
  assume ids: "utf8_valid u" "utf8_valid r"
  have keys: "u @ sep # r = user @ sep # room \<longleftrightarrow> (u, r) = (user, room)"
    "r @ sep # u = room @ sep # user \<longleftrightarrow> (u, r) = (user, room)"
    using assms ids by (auto simp: sep_join_inject utf8_no_sep)
  note old = assms(4) [unfolded membership_inv_def, rule_format, OF ids]
  note new = assms(1) [unfolded refiled_def]
  show "kv_has (userroomid_joined s') (u @ sep # r) = (member_of s' u r = Some Joined) \<and>
     kv_has (roomuserid_joined s') (r @ sep # u) = (member_of s' u r = Some Joined) \<and>
     kv_has (userroomid_invitestate s') (u @ sep # r) = (member_of s' u r = Some Invited) \<and>
     kv_has (roomuserid_invitecount s') (r @ sep # u) = (member_of s' u r = Some Invited) \<and>
     kv_has (userroomid_leftstate s') (u @ sep # r) = (member_of s' u r = Some Left) \<and>
     kv_has (roomuserid_leftcount s') (r @ sep # u) = (member_of s' u r = Some Left)"
    unfolding refiled_view [OF assms(1-3) ids] new [THEN conjunct1, rule_format]
      new [THEN conjunct2, THEN conjunct1, rule_format]
      new [THEN conjunct2, THEN conjunct2, THEN conjunct1, rule_format]
      new [THEN conjunct2, THEN conjunct2, THEN conjunct2, THEN conjunct1, rule_format]
      new [THEN conjunct2, THEN conjunct2, THEN conjunct2, THEN conjunct2, THEN conjunct1, rule_format]
      new [THEN conjunct2, THEN conjunct2, THEN conjunct2, THEN conjunct2, THEN conjunct2, rule_format] keys
    using old by (cases m) auto
qed

lemma bump_member_trees [simp]:
  "userroomid_joined (bump s) = userroomid_joined s" "roomuserid_joined (bump s) = roomuserid_joined s"
  "userroomid_invitestate (bump s) = userroomid_invitestate s" "roomuserid_invitecount (bump s) = roomuserid_invitecount s"
  "userroomid_leftstate (bump s) = userroomid_leftstate s" "roomuserid_leftcount (bump s) = roomuserid_leftcount s"
  by (simp_all add: bump_def)

lemma mark_refiles:
  "refiled user room Joined s (snd (mark_as_joined user room s))"
  "refiled user room Invited s (snd (mark_as_invited J user room st s))"
  "refiled user room Left s (snd (mark_as_left J user room s))"
  by (simp_all add: refiled_def mark_as_joined_def mark_as_invited_def mark_as_left_def)

lemma mark_succeeds:
  "fst (mark_as_joined user room s) = Inr ()"
  "fst (mark_as_invited J user room st s) = Inr ()"
  "fst (mark_as_left J user room s) = Inr ()"
  by (simp_all add: mark_as_joined_def mark_as_invited_def mark_as_left_def)

section \<open>What the operations leave alone\<close>

interpretation members: state_read_frame member_trees
  by unfold_locales (simp_all add: member_trees_def)

lemma keeps_drop_old_servers:
  assumes "\<And>g s. f (roomserverids_update g s) = f s" and "\<And>g s. f (serverroomids_update g s) = f s"
  shows "keeps f (drop_old_servers room olds js)"
proof (induction olds arbitrary: js)
  case (Cons old olds)
  show ?case
    unfolding drop_old_servers.simps remove_server_def by (intro keeps_intros assms Cons)
qed (simp add: keeps_intros)

lemma keeps_update_joined_count: "keeps member_trees (update_joined_count R iter room)"
  unfolding update_joined_count_def add_server_def
  by (intro keeps_intros keeps_drop_old_servers) (simp_all add: member_trees_def)

lemma keeps_copy_settings: "keeps member_trees (copy_settings J C room user predecessor)"
  unfolding copy_settings_def update_account_data_def
  by (intro keeps_intros) (simp_all add: member_trees_def)

lemma keeps_first_join: "keeps member_trees (first_join J R C iter room user)"
  unfolding first_join_def mark_as_once_joined_def
  by (intro keeps_intros members.keeps_room_state_get keeps_copy_settings) (simp_all add: member_trees_def)

lemma drop_old_servers_ok: "fst (drop_old_servers room olds js s) = Inr (js - set olds)"
proof (induction olds arbitrary: js s)
  case (Cons old olds)
  then show ?case by (auto simp: remove_server_def insert_Diff_if)
qed simp

lemma for_each_ok:
  assumes "\<And>x s. fst (f x s) = Inr ()"
  shows "fst (for_each xs f s) = Inr ()"
proof (induction xs arbitrary: s)
  case (Cons x xs)
  obtain s' where "f x s = (Inr (), s')" using assms [of x s] by (cases "f x s") simp
  with Cons show ?case by simp
qed simp

lemma update_joined_count_ok: "fst (update_joined_count R iter room s) = Inr ()"
proof -
  have bind_pair: "fst (bind m k s) = Inr ()" if "fst (m s) = Inr x" "\<And>s. fst (k x s) = Inr ()" for m k s x
    using that by (cases "m s") simp
  have "fst (for_each xs (add_server room) s) = Inr ()" for xs s
    by (rule for_each_ok) (simp add: add_server_def)
  then show ?thesis
    unfolding update_joined_count_def andthen_def
    by (simp add: Let_def, intro bind_pair [OF drop_old_servers_ok] bind_pair) simp_all
qed

section \<open>Updating a membership\<close>

definition new_member :: "serde \<Rightarrow> contents \<Rightarrow> 'a statecache_db_scheme \<Rightarrow> MembershipState \<Rightarrow> user_id \<Rightarrow> room_id \<Rightarrow> user_id \<Rightarrow> member option" where
  "new_member J C s membership user room from_user =
     (case membership of
        Join \<Rightarrow> Some Joined
      | Invite \<Rightarrow> if is_ignored J C user from_user s = Inr True then member_of s user room else Some Invited
      | Leave \<Rightarrow> Some Left
      | Ban \<Rightarrow> Some Left
      | _ \<Rightarrow> member_of s user room)"

lemma is_ignored_password [simp]:
  "is_ignored J C user from_user (userid_password_update g s) = is_ignored J C user from_user s"
  by (simp add: is_ignored_def get_account_data_def)

text \<open>After a membership is filed, finishing keeps it and does not fail.\<close>

lemma filed_then_count:
  fixes s :: "'a statecache_db_scheme"
  assumes "andthen mark (if c then update_joined_count R iter room' else ret ()) s = (r, s')"
    and "fst (mark s) = Inr ()" and "refiled user room m s (snd (mark s))"
    and "utf8_valid user" and "utf8_valid room" and "membership_inv s"
  shows "r = Inr ()" and "membership_inv s'"
    and "utf8_valid u \<Longrightarrow> utf8_valid rm \<Longrightarrow> member_of s' u rm = (if (u, rm) = (user, room) then Some m else member_of s u rm)"
proof -
  obtain s1 where s1: "mark s = (Inr (), s1)" using assms(2) by (cases "mark s") simp
  with assms(1) have "(if c then update_joined_count R iter room' else ret ()) s1 = (r, s')" by simp
  then have r: "r = Inr ()" and same: "member_trees s' = member_trees s1"
    using update_joined_count_ok [of R iter room' s1] keepsD [OF keeps_update_joined_count, of R iter room' s1]
    by (auto split: if_splits)
  show "r = Inr ()" by (rule r)
  note view = member_trees_eq [OF same]
  show "membership_inv s'"
    using refiled_inv [OF assms(3-6)] view(2) s1 by simp
  show "member_of s' u rm = (if (u, rm) = (user, room) then Some m else member_of s u rm)"
    if "utf8_valid u" "utf8_valid rm"
    using refiled_view [OF assms(3-5) that] view(1) s1 by simp
qed

lemma member_update_view:
  fixes s :: "'a statecache_db_scheme"
  assumes "member_update J R C iter room user membership from_user last_state update_count s = (r, s')"
    and ids: "utf8_valid user" "utf8_valid room" and "membership_inv s"
  shows "membership_inv s' \<and> (\<forall>u rm. utf8_valid u \<longrightarrow> utf8_valid rm \<longrightarrow>
    member_of s' u rm =
      (if (u, rm) = (user, room) \<and> r = Inr () then new_member J C s membership user room from_user else member_of s u rm))"
proof -
  note filed = filed_then_count [OF _ _ _ ids]
  have other: ?thesis if "(if update_count then update_joined_count R iter room else ret ()) s = (r, s')"
      "new_member J C s membership user room from_user = member_of s user room"
  proof -
    from that(1) have "member_trees s' = member_trees s"
      using keepsD [OF keeps_update_joined_count, of R iter room s] by (auto split: if_splits)
    from member_trees_eq [OF this] that(2) assms(4) show ?thesis by auto
  qed
  show ?thesis
  proof (cases membership)
    case Leave
    with assms(1) have "andthen (mark_as_left J user room) (if update_count then update_joined_count R iter room else ret ()) s = (r, s')"
      by (simp add: member_update_def)
    from filed [OF this mark_succeeds(3) mark_refiles(3) assms(4)] Leave show ?thesis
      by (simp add: new_member_def)
  next
    case Ban
    with assms(1) have "andthen (mark_as_left J user room) (if update_count then update_joined_count R iter room else ret ()) s = (r, s')"
      by (simp add: member_update_def)
    from filed [OF this mark_succeeds(3) mark_refiles(3) assms(4)] Ban show ?thesis
      by (simp add: new_member_def)
  next
    case Invite
    consider e where "is_ignored J C user from_user s = Inl e" | "is_ignored J C user from_user s = Inr True"
      | "is_ignored J C user from_user s = Inr False" by (metis sum.exhaust)
    then show ?thesis
    proof cases
      case 1
      with assms(1,4) Invite show ?thesis by (auto simp: member_update_def bind_apply)
    next
      case 2
      with assms(1,4) Invite show ?thesis by (auto simp: member_update_def new_member_def bind_apply)
    next
      case 3
      with assms(1) Invite have "andthen (mark_as_invited J user room last_state)
          (if update_count then update_joined_count R iter room else ret ()) s = (r, s')"
        by (simp add: member_update_def bind_apply)
      from filed [OF this mark_succeeds(2) mark_refiles(2) assms(4)] 3 Invite show ?thesis
        by (simp add: new_member_def)
    qed
  next
    case Join
    let ?pre = "if \<not> kv_has (roomuseroncejoinedids s) (user @ sep # room) then first_join J R C iter room user else ret ()"
    from assms(1) Join have run: "andthen ?pre (andthen (mark_as_joined user room)
        (if update_count then update_joined_count R iter room else ret ())) s = (r, s')"
      by (simp add: member_update_def once_joined_def bind_apply kv_has_def)
    obtain x s1 where pre: "?pre s = (x, s1)" by fastforce
    have "keeps member_trees ?pre" by (intro keeps_intros keeps_first_join)
    then have same: "member_trees s1 = member_trees s" using pre by (rule keeps_result)
    note view = member_trees_eq [OF same]
    show ?thesis
    proof (cases x)
      case (Inl e)
      with run pre have "s' = s1 \<and> r = Inl e" by simp
      with view assms(4) show ?thesis by simp
    next
      case (Inr y)
      with run pre have "andthen (mark_as_joined user room)
          (if update_count then update_joined_count R iter room else ret ()) s1 = (r, s')" by simp
      from filed [OF this mark_succeeds(1) mark_refiles(1)] view assms(4) Join show ?thesis
        by (simp add: new_member_def)
    qed
  qed (use other assms(1) in \<open>simp_all add: member_update_def new_member_def\<close>)
qed

section \<open>The members and servers of a room\<close>

text \<open>A scan of the keys under a prefix whose rest is a valid identifier.\<close>

lemma scan_ids:
  assumes "\<And>k. kv_has t k \<Longrightarrow> prefix (a @ [sep]) k \<Longrightarrow> \<exists>b. k = a @ sep # b \<and> utf8_valid b \<and> ok b"
  obtains bs where "ids_of_scan ok m m' (kv_scan_prefix (a @ [sep]) t) = map Inr bs"
    and "distinct bs" and "set bs = {b. kv_has t (a @ sep # b)}"
proof -
  let ?es = "kv_scan_prefix (a @ [sep]) t"
  let ?bs = "map (\<lambda>e. rsplit_last (fst e)) ?es"
  have key: "\<exists>b. fst e = a @ sep # b \<and> utf8_valid b \<and> ok b \<and> rsplit_last (fst e) = b" if "e \<in> set ?es" for e
  proof -
    from that have "kv_has t (fst e)" "prefix (a @ [sep]) (fst e)"
      using set_kv_scan_prefix [of "fst e" "snd e"] by (simp_all add: kv_has_def)
    with assms obtain b where "fst e = a @ sep # b" "utf8_valid b" "ok b" by blast
    then show ?thesis by (simp add: rsplit_last_append utf8_no_sep)
  qed
  have "ids_of_scan ok m m' ?es = map Inr ?bs"
    unfolding ids_of_scan_def map_map
    by (rule map_cong [OF refl]) (use key in fastforce)
  moreover have "distinct ?bs"
  proof -
    have "inj_on (\<lambda>e. rsplit_last (fst e)) (set ?es)"
    proof (rule inj_onI)
      fix e e'
      assume e: "e \<in> set ?es" "e' \<in> set ?es" "rsplit_last (fst e) = rsplit_last (fst e')"
      then have "fst e = fst e'" using key by metis
      moreover have "inj_on fst (set ?es)"
        using sorted_kv_scan_prefix [of "a @ [sep]" t] by (simp add: strict_sorted_iff distinct_map)
      ultimately show "e = e'" using e by (simp add: inj_on_def)
    qed
    moreover have "distinct ?es"
      using sorted_kv_scan_prefix [of "a @ [sep]" t] by (simp add: strict_sorted_iff distinct_map)
    ultimately show ?thesis by (simp add: distinct_map)
  qed
  moreover have "set ?bs = {b. kv_has t (a @ sep # b)}"
  proof (intro set_eqI iffI)
    fix b
    assume "b \<in> set ?bs"
    then obtain e where e: "e \<in> set ?es" "b = rsplit_last (fst e)" by auto
    with key [OF e(1)] have "fst e = a @ sep # b" by auto
    with e(1) have "kv_get t (a @ sep # b) = Some (snd e)" by (metis prod.collapse set_kv_scan_prefix)
    then show "b \<in> {b. kv_has t (a @ sep # b)}" by (simp add: kv_has_def)
  next
    fix b
    assume "b \<in> {b. kv_has t (a @ sep # b)}"
    then obtain v where "(a @ sep # b, v) \<in> set ?es" by (auto simp: kv_has_def set_kv_scan_prefix)
    with key [OF this] show "b \<in> set ?bs" by (force simp: rev_image_eqI)
  qed
  ultimately show thesis by (rule that)
qed

definition member_keys :: "ruma \<Rightarrow> kv_tree \<Rightarrow> bool" where
  "member_keys R t \<longleftrightarrow> (\<forall>k. kv_has t k \<longrightarrow>
     (\<exists>room user. k = room @ sep # user \<and> utf8_valid room \<and> utf8_valid user \<and> is_user_id R user))"

definition server_keys :: "ruma \<Rightarrow> kv_tree \<Rightarrow> bool" where
  "server_keys R t \<longleftrightarrow> (\<forall>k. kv_has t k \<longrightarrow>
     (\<exists>room server. k = room @ sep # server \<and> utf8_valid room \<and> utf8_valid server \<and> is_server_name R server))"

definition servers_agree :: "'a statecache_db_scheme \<Rightarrow> bool" where
  "servers_agree s \<longleftrightarrow> (\<forall>room server. utf8_valid room \<longrightarrow> utf8_valid server \<longrightarrow>
     kv_has (serverroomids s) (server @ sep # room) = kv_has (roomserverids s) (room @ sep # server))"

text \<open>What is relied on of ruma: the server part of a user id is a server name.\<close>

definition user_servers_ok :: "ruma \<Rightarrow> bool" where
  "user_servers_ok R \<longleftrightarrow> (\<forall>u. is_user_id R u \<longrightarrow> utf8_valid u \<longrightarrow>
     is_server_name R (user_server R u) \<and> utf8_valid (user_server R u))"

definition joined_members :: "'a statecache_db_scheme \<Rightarrow> room_id \<Rightarrow> user_id set" where
  "joined_members s room = {u. kv_has (roomuserid_joined s) (room @ sep # u)}"

lemma member_scan:
  assumes "member_keys R t" and "utf8_valid room"
  obtains us where "ids_of_scan (is_user_id R) m m' (kv_scan_prefix (room @ [sep]) t) = map Inr us"
    and "distinct us" and "set us = {u. kv_has t (room @ sep # u)}" and "\<forall>u \<in> set us. is_user_id R u \<and> utf8_valid u"
proof -
  have key: "\<exists>u. k = room @ sep # u \<and> utf8_valid u \<and> is_user_id R u"
    if k: "kv_has t k" "prefix (room @ [sep]) k" for k
  proof -
    from assms(1) k(1) obtain r u where "k = r @ sep # u" "utf8_valid r" "utf8_valid u" "is_user_id R u"
      unfolding member_keys_def by blast
    with k(2) assms(2) show ?thesis by (simp add: sep_join_prefix utf8_no_sep)
  qed
  obtain us where us: "ids_of_scan (is_user_id R) m m' (kv_scan_prefix (room @ [sep]) t) = map Inr us"
    "distinct us" "set us = {u. kv_has t (room @ sep # u)}"
    using scan_ids [OF key] by metis
  have "is_user_id R u \<and> utf8_valid u" if "u \<in> set us" for u
    using key [of "room @ sep # u"] that us(3) by simp
  with us that show thesis by blast
qed

lemma server_scan:
  assumes "server_keys R t" and "utf8_valid room"
  obtains vs where "ids_of_scan (is_server_name R) m m' (kv_scan_prefix (room @ [sep]) t) = map Inr vs"
    and "distinct vs" and "set vs = {v. kv_has t (room @ sep # v)}" and "\<forall>v \<in> set vs. utf8_valid v"
proof -
  have key: "\<exists>u. k = room @ sep # u \<and> utf8_valid u \<and> is_server_name R u"
    if k: "kv_has t k" "prefix (room @ [sep]) k" for k
  proof -
    from assms(1) k(1) obtain r u where "k = r @ sep # u" "utf8_valid r" "utf8_valid u" "is_server_name R u"
      unfolding server_keys_def by blast
    with k(2) assms(2) show ?thesis by (simp add: sep_join_prefix utf8_no_sep)
  qed
  obtain vs where vs: "ids_of_scan (is_server_name R) m m' (kv_scan_prefix (room @ [sep]) t) = map Inr vs"
    "distinct vs" "set vs = {v. kv_has t (room @ sep # v)}"
    using scan_ids [OF key] by metis
  have "utf8_valid v" if "v \<in> set vs" for v
    using key [of "room @ sep # v"] that vs(3) by auto
  with vs that show thesis by blast
qed

text \<open>The server lists after the two loops.\<close>

lemma drop_old_servers_state:
  assumes "drop_old_servers room olds js s = (Inr js', s')" and "distinct olds"
  shows "(kv_has (roomserverids s') k \<longleftrightarrow> kv_has (roomserverids s) k \<and> (\<forall>v \<in> set olds - js. k \<noteq> room @ sep # v)) \<and>
    (kv_has (serverroomids s') k \<longleftrightarrow> kv_has (serverroomids s) k \<and> (\<forall>v \<in> set olds - js. k \<noteq> v @ sep # room))"
  using assms
proof (induction olds arbitrary: js s)
  case (Cons old olds)
  show ?case
  proof (cases "old \<in> js")
    case True
    with Cons.prems have "drop_old_servers room olds (js - {old}) s = (Inr js', s')" "distinct olds" by simp_all
    from Cons.IH [OF this] True Cons.prems(2) show ?thesis
      by (simp add: insert_Diff_if Diff_insert_absorb Diff_insert [symmetric] set_diff_eq) blast
  next
    case False
    let ?s = "serverroomids_update (kv_remove (old @ sep # room)) (roomserverids_update (kv_remove (room @ sep # old)) s)"
    from False Cons.prems have "drop_old_servers room olds js ?s = (Inr js', s')" "distinct olds"
      by (simp_all add: remove_server_def)
    from Cons.IH [OF this] False show ?thesis by (auto simp: insert_Diff_if)
  qed
qed simp

lemma add_servers_state:
  assumes "for_each vs (add_server room) s = (Inr (), s')"
  shows "(kv_has (roomserverids s') k \<longleftrightarrow> kv_has (roomserverids s) k \<or> (\<exists>v \<in> set vs. k = room @ sep # v)) \<and>
    (kv_has (serverroomids s') k \<longleftrightarrow> kv_has (serverroomids s) k \<or> (\<exists>v \<in> set vs. k = v @ sep # room))"
  using assms
proof (induction vs arbitrary: s)
  case (Cons v vs)
  let ?s = "serverroomids_update (kv_insert (v @ sep # room) []) (roomserverids_update (kv_insert (room @ sep # v) []) s)"
  have "add_server room v s = (Inr (), ?s)" by (simp add: add_server_def)
  with Cons.prems have "for_each vs (add_server room) ?s = (Inr (), s')" by simp
  from Cons.IH [OF this] show ?case by auto
qed simp

lemma update_joined_count_run:
  fixes s :: "'a statecache_db_scheme" and R :: ruma and room :: room_id
  defines "members \<equiv> oks (room_members R room s)" and "olds \<equiv> oks (room_servers R room s)"
  defines "js \<equiv> set (map (user_server R) members)"
  obtains s2 s3 where "update_joined_count R iter room s = (Inr (), appservice_in_room_cache_update (\<lambda>m. m(room := None)) s3)"
    and "for_each (iter (js - set olds)) (add_server room) s2 = (Inr (), s3)"
    and "drop_old_servers room olds js
      (our_real_users_cache_update (\<lambda>m. m(room \<mapsto> set (filter (is_real_user R s) members)))
      (roomid_invitedcount_update (kv_insert room (to_be_bytes (of_nat (length (oks (room_members_invited R room s))))))
      (roomid_joinedcount_update (kv_insert room (to_be_bytes (of_nat (length members)))) s))) = (Inr (js - set olds), s2)"
proof -
  let ?s1 = "our_real_users_cache_update (\<lambda>m. m(room \<mapsto> set (filter (is_real_user R s) members)))
      (roomid_invitedcount_update (kv_insert room (to_be_bytes (of_nat (length (oks (room_members_invited R room s))))))
      (roomid_joinedcount_update (kv_insert room (to_be_bytes (of_nat (length members)))) s))"
  obtain s2 where s2: "drop_old_servers room olds js ?s1 = (Inr (js - set olds), s2)"
    using drop_old_servers_ok [of room olds js ?s1] by (metis prod.collapse)
  have "fst (for_each (iter (js - set olds)) (add_server room) s2) = Inr ()"
    by (rule for_each_ok) (simp add: add_server_def)
  then obtain s3 where s3: "for_each (iter (js - set olds)) (add_server room) s2 = (Inr (), s3)"
    by (metis prod.collapse)
  have "oks (room_servers R room ?s1) = olds" by (simp add: olds_def room_servers_def)
  with s2 s3 have "update_joined_count R iter room s = (Inr (), appservice_in_room_cache_update (\<lambda>m. m(room := None)) s3)"
    unfolding update_joined_count_def Let_def by (simp add: members_def js_def)
  with s2 s3 that show thesis by blast
qed

definition untouched_by_count :: "'a statecache_db_scheme \<Rightarrow> _" where
  "untouched_by_count s = (roomid_joinedcount s, roomid_invitedcount s, our_real_users_cache s, roomuserid_joined s)"

lemma keeps_server_loops:
  "keeps untouched_by_count (drop_old_servers room olds js)"
  "keeps untouched_by_count (for_each vs (add_server room))"
proof -
  show "keeps untouched_by_count (drop_old_servers room olds js)"
    by (rule keeps_drop_old_servers) (simp_all add: untouched_by_count_def)
  show "keeps untouched_by_count (for_each vs (add_server room))"
    unfolding add_server_def by (intro keeps_intros) (simp_all add: untouched_by_count_def)
qed

lemma server_lists_updated:
  fixes s :: "'a statecache_db_scheme"
  assumes "iteration iter" and "finite js" and "distinct olds"
    and "set olds = {v. kv_has (roomserverids s) (room @ sep # v)}"
    and "drop_old_servers room olds js s = (Inr (js - set olds), s2)"
    and "for_each (iter (js - set olds)) (add_server room) s2 = (Inr (), s3)"
  shows "kv_has (roomserverids s3) (room @ sep # v) \<longleftrightarrow> v \<in> js"
    and "(\<And>w. k \<noteq> room @ sep # w) \<Longrightarrow> kv_has (roomserverids s3) k = kv_has (roomserverids s) k"
    and "(\<And>w. k \<noteq> w @ sep # room) \<Longrightarrow> kv_has (serverroomids s3) k = kv_has (serverroomids s) k"
    and "kv_has (serverroomids s3) (v @ sep # room) \<longleftrightarrow>
      v \<in> js \<and> (v \<in> set olds \<longrightarrow> kv_has (serverroomids s) (v @ sep # room)) \<or>
      v \<notin> js \<and> v \<notin> set olds \<and> kv_has (serverroomids s) (v @ sep # room)"
proof -
  have it: "set (iter (js - set olds)) = js - set olds"
    using assms(1,2) by (simp add: iteration_def)
  note drop = drop_old_servers_state [OF assms(5,3)]
  note add = add_servers_state [OF assms(6), unfolded it]
  show "kv_has (roomserverids s3) (room @ sep # v) \<longleftrightarrow> v \<in> js"
    using drop add [of "room @ sep # v"] assms(4) by auto
  show "kv_has (roomserverids s3) k = kv_has (roomserverids s) k" if "\<And>w. k \<noteq> room @ sep # w"
    using drop add [of k] that by simp
  show "kv_has (serverroomids s3) k = kv_has (serverroomids s) k" if "\<And>w. k \<noteq> w @ sep # room"
    using drop add [of k] that by simp
  show "kv_has (serverroomids s3) (v @ sep # room) \<longleftrightarrow>
      v \<in> js \<and> (v \<in> set olds \<longrightarrow> kv_has (serverroomids s) (v @ sep # room)) \<or>
      v \<notin> js \<and> v \<notin> set olds \<and> kv_has (serverroomids s) (v @ sep # room)"
    using drop add [of "v @ sep # room"] by auto
qed

lemma servers_recounted:
  fixes s :: "'a statecache_db_scheme"
  assumes "iteration iter" and "finite js" and "distinct olds"
    and olds: "set olds = {v. kv_has (roomserverids s) (room @ sep # v)}"
    and "drop_old_servers room olds js s = (Inr (js - set olds), s2)"
    and "for_each (iter (js - set olds)) (add_server room) s2 = (Inr (), s3)"
    and room: "utf8_valid room" and js: "\<forall>v \<in> js. is_server_name R v \<and> utf8_valid v"
    and inv: "server_keys R (roomserverids s)" "servers_agree s"
  shows "server_keys R (roomserverids s3)" and "servers_agree s3"
    and "utf8_valid v \<Longrightarrow> kv_has (serverroomids s3) (v @ sep # room) \<longleftrightarrow> v \<in> js"
    and "utf8_valid v \<Longrightarrow> utf8_valid r \<Longrightarrow> r \<noteq> room \<Longrightarrow>
      kv_has (serverroomids s3) (v @ sep # r) = kv_has (serverroomids s) (v @ sep # r)"
proof -
  note lists = server_lists_updated [OF assms(1-6)]
  have agree: "kv_has (serverroomids s3) (v @ sep # room) \<longleftrightarrow> v \<in> js" if "utf8_valid v" for v
    using lists(4) [of v] olds inv(2) room that by (auto simp: servers_agree_def)
  have other1: "kv_has (roomserverids s3) (r @ sep # v) = kv_has (roomserverids s) (r @ sep # v)"
    if "utf8_valid r" "r \<noteq> room" for v r
    using lists(2) [of "r @ sep # v"] that room by (simp add: sep_join_inject utf8_no_sep)
  have other2: "kv_has (serverroomids s3) (v @ sep # r) = kv_has (serverroomids s) (v @ sep # r)"
    if "utf8_valid v" "utf8_valid r" "r \<noteq> room" for v r
  proof (rule lists(3))
    fix w
    have "rsplit_last (v @ sep # r) \<noteq> rsplit_last (w @ sep # room)"
      using that room by (simp add: rsplit_last_append utf8_no_sep)
    then show "v @ sep # r \<noteq> w @ sep # room" by metis
  qed
  show "server_keys R (roomserverids s3)"
    unfolding server_keys_def
  proof (intro allI impI)
    fix k
    assume has: "kv_has (roomserverids s3) k"
    show "\<exists>r server. k = r @ sep # server \<and> utf8_valid r \<and> utf8_valid server \<and> is_server_name R server"
    proof (cases "\<exists>w. k = room @ sep # w")
      case True
      then obtain w where "k = room @ sep # w" by blast
      with has lists(1) [of w] js room show ?thesis by auto
    next
      case False
      then have "kv_has (roomserverids s) k" using has lists(2) [of k] by simp
      with inv(1) show ?thesis by (simp add: server_keys_def)
    qed
  qed
  show "servers_agree s3"
    unfolding servers_agree_def
  proof (intro allI impI)
    fix r v
    assume "utf8_valid r" "utf8_valid v"
    then show "kv_has (serverroomids s3) (v @ sep # r) = kv_has (roomserverids s3) (r @ sep # v)"
      using agree [of v] other1 [of r v] other2 [of v r] lists(1) [of v] inv(2)
      by (cases "r = room") (simp_all add: servers_agree_def)
  qed
  show "utf8_valid v \<Longrightarrow> kv_has (serverroomids s3) (v @ sep # room) \<longleftrightarrow> v \<in> js" by (rule agree)
  show "utf8_valid v \<Longrightarrow> utf8_valid r \<Longrightarrow> r \<noteq> room \<Longrightarrow>
      kv_has (serverroomids s3) (v @ sep # r) = kv_has (serverroomids s) (v @ sep # r)" by (rule other2)
qed

section \<open>Properties\<close>

text \<open>C10: A membership event refiles exactly the user and room it is about. In every outcome, errors
  included, the two directions of the tables agree and nobody is filed twice; on success the
  user is joined, invited or left as the event says (an invite from an ignored sender changes
  nothing), and on an error no membership has changed.\<close>
theorem update_membership_refines:
  assumes "membership_inv s" and "utf8_valid user" and "utf8_valid room"
    and "update_membership J R C iter room user membership from_user last_state update_count s = (r, s')"
  shows "membership_inv s' \<and> (\<forall>u rm. utf8_valid u \<longrightarrow> utf8_valid rm \<longrightarrow>
    member_of s' u rm =
      (if (u, rm) = (user, room) \<and> r = Inr () then new_member J C s membership user room from_user
       else member_of s u rm))"
proof -
  define s1 where "s1 = snd ((if user_server R user \<noteq> server_name s then create_user (\<lambda>_. None) user None else ret ()) s)"
  have s1: "member_trees s1 = member_trees s" "is_ignored J C user from_user s1 = is_ignored J C user from_user s"
    by (simp_all add: s1_def create_user_def set_password_def member_trees_def)
  have "member_update J R C iter room user membership from_user last_state update_count s1 = (r, s')"
    using assms(4) by (simp add: s1_def update_membership_def create_user_def set_password_def split: if_splits)
  moreover have "new_member J C s1 membership user room from_user = new_member J C s membership user room from_user"
    using member_trees_eq(1) [OF s1(1)] s1(2) by (cases membership) (simp_all add: new_member_def)
  ultimately show ?thesis
    using member_update_view [OF _ assms(2,3), of J R C iter membership from_user last_state update_count s1 r s']
      member_trees_eq [OF s1(1)] assms(1) by simp
qed

definition statecache_init :: "servername \<Rightarrow> statecache_db" where
  "statecache_init name = accessor_db.extend (accountdata_db.extend (accountdata_init name)
      \<lparr>shorteventid_shortstatehash = kv_empty, roomid_pduleaves = kv_empty\<rparr>)
     \<lparr>userroomid_joined = kv_empty, roomuserid_joined = kv_empty, roomuseroncejoinedids = kv_empty,
      userroomid_invitestate = kv_empty, roomuserid_invitecount = kv_empty,
      userroomid_leftstate = kv_empty, roomuserid_leftcount = kv_empty,
      roomid_joinedcount = kv_empty, roomid_invitedcount = kv_empty,
      roomserverids = kv_empty, serverroomids = kv_empty,
      our_real_users_cache = Map.empty, appservice_in_room_cache = Map.empty\<rparr>"

lemmas statecache_init_defs =
  statecache_init_def accountdata_init_def accessor_db.defs accountdata_db.defs users_db.defs users_init_defs

lemma statecache_init_fields [simp]:
  "userroomid_joined (statecache_init n) = kv_empty" "roomuserid_joined (statecache_init n) = kv_empty"
  "userroomid_invitestate (statecache_init n) = kv_empty" "roomuserid_invitecount (statecache_init n) = kv_empty"
  "userroomid_leftstate (statecache_init n) = kv_empty" "roomuserid_leftcount (statecache_init n) = kv_empty"
  "roomserverids (statecache_init n) = kv_empty" "serverroomids (statecache_init n) = kv_empty"
  "roomusertype_roomuserdataid (statecache_init n) = kv_empty" "userid_password (statecache_init n) = kv_empty"
  "server_name (statecache_init n) = n"
  by (simp_all add: statecache_init_defs)

definition example_contents :: contents where
  "example_contents = \<lparr>create_predecessor = \<lambda>_. Some None, create_version = \<lambda>_. Some (ascii ''6''),
     member_membership = \<lambda>j. (case json_get j (ascii ''membership'') of
       Some (JStr m) \<Rightarrow> if m = ascii ''join'' then Some Join else if m = ascii ''leave'' then Some Leave else Some (OtherMembership m)
     | _ \<Rightarrow> None),
     ignored_users = \<lambda>_. Some [], direct_parse = \<lambda>_. Some [], direct_print = \<lambda>_. JObj []\<rparr>"

theorem update_membership_refines_witness:
  "member_of (snd (update_membership example_serde example_ruma example_contents sorted_list_of_set
      (ascii ''!r'') (ascii ''@u:s'') Invite (ascii ''@v:s'') None False (statecache_init (ascii ''s'')))) (ascii ''@u:s'') (ascii ''!r'') =
   Some Invited"
proof -
  let ?run = "update_membership example_serde example_ruma example_contents sorted_list_of_set
      (ascii ''!r'') (ascii ''@u:s'') Invite (ascii ''@v:s'') None False (statecache_init (ascii ''s''))"
  have "membership_inv (statecache_init (ascii ''s''))"
    by (simp add: membership_inv_def member_of_def)
  moreover have ids: "utf8_valid (ascii ''@u:s'')" "utf8_valid (ascii ''!r'')" by (simp_all add: utf8_valid_ascii)
  ultimately have view: "member_of (snd ?run) (ascii ''@u:s'') (ascii ''!r'') =
      (if fst ?run = Inr () then new_member example_serde example_contents (statecache_init (ascii ''s'')) Invite
         (ascii ''@u:s'') (ascii ''!r'') (ascii ''@v:s'') else member_of (statecache_init (ascii ''s'')) (ascii ''@u:s'') (ascii ''!r''))"
    using update_membership_refines [where s = "statecache_init (ascii ''s'')" and r = "fst ?run" and s' = "snd ?run"]
    by (metis (no_types, lifting) prod.collapse)
  have ign: "is_ignored example_serde example_contents (ascii ''@u:s'') (ascii ''@v:s'') (statecache_init (ascii ''s'')) = Inr False"
    by (simp add: is_ignored_def get_account_data_def)
  then have "fst ?run = Inr ()"
    by (simp add: update_membership_def member_update_def create_user_def set_password_def mark_as_invited_def bind_apply)
  with view ign show ?thesis by (simp add: new_member_def)
qed

text \<open>C31: Recounting a room stores the number of its joined and of its invited members, lists exactly the
  servers that have a joined member, in both directions, without touching other rooms, and
  remembers the local members whose account is active.\<close>
theorem joined_count_correct:
  assumes "iteration iter" and "member_keys R (roomuserid_joined s)" and "member_keys R (roomuserid_invitecount s)"
    and "server_keys R (roomserverids s)" and "servers_agree s" and "user_servers_ok R" and "utf8_valid room"
  shows "\<exists>s'. update_joined_count R iter room s = (Inr (), s') \<and>
    room_joined_count room s' = Inr (Some (of_nat (card (joined_members s room)))) \<and>
    room_invited_count room s' = Inr (Some (of_nat (card {u. kv_has (roomuserid_invitecount s) (room @ sep # u)}))) \<and>
    (\<forall>server. utf8_valid server \<longrightarrow>
       server_in_room server room s' = Inr (\<exists>u \<in> joined_members s room. user_server R u = server)) \<and>
    (\<forall>r server. utf8_valid r \<longrightarrow> utf8_valid server \<longrightarrow> r \<noteq> room \<longrightarrow>
       server_in_room server r s' = server_in_room server r s) \<and>
    servers_agree s' \<and> server_keys R (roomserverids s') \<and>
    get_our_real_users R iter room s' = (Inr {u \<in> joined_members s room. is_real_user R s u}, s')"
proof -
  obtain us where us: "room_members R room s = map Inr us" "distinct us" "set us = joined_members s room"
    "\<forall>u \<in> set us. is_user_id R u \<and> utf8_valid u"
    using member_scan [OF assms(2,7)] unfolding room_members_def joined_members_def by metis
  obtain ws where ws: "room_members_invited R room s = map Inr ws" "distinct ws"
    "set ws = {u. kv_has (roomuserid_invitecount s) (room @ sep # u)}"
    using member_scan [OF assms(3,7)] unfolding room_members_invited_def by metis
  obtain vs where vs: "room_servers R room s = map Inr vs" "distinct vs"
    "set vs = {v. kv_has (roomserverids s) (room @ sep # v)}" "\<forall>v \<in> set vs. utf8_valid v"
    using server_scan [OF assms(4,7)] unfolding room_servers_def by metis
  have oks_map: "oks (map Inr xs) = xs" for xs :: "bytes list"
    using oks_Inr [of "\<lambda>x. x" xs] by simp
  let ?js = "set (map (user_server R) us)"
  let ?s1 = "our_real_users_cache_update (\<lambda>m. m(room \<mapsto> set (filter (is_real_user R s) us)))
      (roomid_invitedcount_update (kv_insert room (to_be_bytes (of_nat (length ws))))
      (roomid_joinedcount_update (kv_insert room (to_be_bytes (of_nat (length us)))) s))"
  obtain s2 s3 where run: "update_joined_count R iter room s = (Inr (), appservice_in_room_cache_update (\<lambda>m. m(room := None)) s3)"
    and loop2: "for_each (iter (?js - set vs)) (add_server room) s2 = (Inr (), s3)"
    and loop1: "drop_old_servers room vs ?js ?s1 = (Inr (?js - set vs), s2)"
    using update_joined_count_run [of R iter room s] unfolding us(1) ws(1) vs(1) oks_map .
  have "untouched_by_count s3 = untouched_by_count ?s1"
    using keeps_result [OF keeps_server_loops(1) loop1] keeps_result [OF keeps_server_loops(2) loop2] by simp
  then have kept: "roomid_joinedcount s3 = roomid_joinedcount ?s1" "roomid_invitedcount s3 = roomid_invitedcount ?s1"
    "our_real_users_cache s3 = our_real_users_cache ?s1" by (simp_all add: untouched_by_count_def)
  have olds: "set vs = {v. kv_has (roomserverids ?s1) (room @ sep # v)}" using vs(3) by simp
  have js: "\<forall>v \<in> ?js. is_server_name R v \<and> utf8_valid v"
    using us(4) assms(6) by (auto simp: user_servers_ok_def)
  have inv: "server_keys R (roomserverids ?s1)" "servers_agree ?s1"
    using assms(4,5) by (simp_all add: servers_agree_def)
  note servers = servers_recounted [OF assms(1) finite_set vs(2) olds loop1 loop2 assms(7) js inv]
  let ?s' = "appservice_in_room_cache_update (\<lambda>m. m(room := None)) s3"
  show ?thesis
  proof (intro exI [of _ ?s'] conjI allI impI)
    show "update_joined_count R iter room s = (Inr (), ?s')" by (rule run)
    show "room_joined_count room ?s' = Inr (Some (of_nat (card (joined_members s room))))"
      using us(2,3) by (simp add: room_joined_count_def kept distinct_card [symmetric])
    show "room_invited_count room ?s' = Inr (Some (of_nat (card {u. kv_has (roomuserid_invitecount s) (room @ sep # u)})))"
      using ws(2,3) by (simp add: room_invited_count_def kept distinct_card [symmetric])
    show "server_in_room server room ?s' = Inr (\<exists>u \<in> joined_members s room. user_server R u = server)"
      if "utf8_valid server" for server
      using servers(3) [OF that] us(3) by (auto simp: server_in_room_def kv_has_def)
    show "server_in_room server r ?s' = server_in_room server r s"
      if "utf8_valid r" "utf8_valid server" "r \<noteq> room" for r server
      using servers(4) [OF that(2,1,3)] by (simp add: server_in_room_def kv_has_def)
    show "servers_agree ?s'" using servers(2) by (simp add: servers_agree_def)
    show "server_keys R (roomserverids ?s')" using servers(1) by simp
    show "get_our_real_users R iter room ?s' = (Inr {u \<in> joined_members s room. is_real_user R s u}, ?s')"
      using us(3) by (simp add: get_our_real_users_def kept)
  qed
qed

definition example_member_ruma :: ruma where
  "example_member_ruma = example_ruma\<lparr>is_user_id := (\<lambda>b. \<exists>x. b = ascii ''@'' @ x @ ascii '':s''), user_server := (\<lambda>_. ascii ''s'')\<rparr>"

definition example_room :: statecache_db where
  "example_room = snd (mark_as_joined (ascii ''@u:s'') (ascii ''!r'') (statecache_init (ascii ''s'')))"

theorem joined_count_correct_witness:
  "\<exists>s' :: statecache_db. update_joined_count example_member_ruma sorted_list_of_set (ascii ''!r'') example_room = (Inr (), s') \<and>
     room_joined_count (ascii ''!r'') s' = Inr (Some 1) \<and> server_in_room (ascii ''s'') (ascii ''!r'') s' = Inr True"
proof -
  have keys: "kv_has (roomuserid_joined example_room) k \<longleftrightarrow> k = ascii ''!r'' @ sep # ascii ''@u:s''"
    "kv_has (roomuserid_invitecount example_room) k = False" "roomserverids example_room = kv_empty"
    "serverroomids example_room = kv_empty" for k
    by (simp_all add: example_room_def mark_as_joined_def)
  have joined: "member_keys example_member_ruma (roomuserid_joined example_room)"
    unfolding member_keys_def keys
  proof (intro allI impI, rule exI [of _ "ascii ''!r''"], rule exI [of _ "ascii ''@u:s''"])
    have "is_user_id example_member_ruma (ascii ''@u:s'')"
      by (simp add: example_member_ruma_def, rule exI [of _ "ascii ''u''"], simp add: ascii_simps)
    then show "k = ascii ''!r'' @ sep # ascii ''@u:s'' \<and> utf8_valid (ascii ''!r'') \<and>
        utf8_valid (ascii ''@u:s'') \<and> is_user_id example_member_ruma (ascii ''@u:s'')"
      if "k = ascii ''!r'' @ sep # ascii ''@u:s''" for k
      using that by (simp add: utf8_valid_ascii)
  qed
  have empty: "member_keys example_member_ruma (roomuserid_invitecount example_room)"
    "server_keys example_member_ruma (roomserverids example_room)" "servers_agree example_room"
    by (simp_all add: member_keys_def server_keys_def servers_agree_def keys)
  have R: "user_servers_ok example_member_ruma"
    by (simp add: user_servers_ok_def example_member_ruma_def example_ruma_def utf8_valid_ascii)
       (simp add: ascii_simps)
  have room: "utf8_valid (ascii ''!r'')" by (simp add: utf8_valid_ascii)
  have members: "joined_members example_room (ascii ''!r'') = {ascii ''@u:s''}"
    by (simp add: joined_members_def keys)
  from joined_count_correct [OF iteration_sorted joined empty R room] obtain s' :: statecache_db
    where "update_joined_count example_member_ruma sorted_list_of_set (ascii ''!r'') example_room = (Inr (), s')"
      "room_joined_count (ascii ''!r'') s' = Inr (Some (of_nat (card (joined_members example_room (ascii ''!r'')))))"
      "\<forall>server. utf8_valid server \<longrightarrow> server_in_room server (ascii ''!r'') s' =
         Inr (\<exists>u \<in> joined_members example_room (ascii ''!r''). user_server example_member_ruma u = server)"
    by (elim exE conjE) (rule that)
  then show ?thesis
    by (intro exI [of _ s']) (simp add: members utf8_valid_ascii example_member_ruma_def)
qed

end
