(* ===== verification/RoomState.thy ===== *)
theory RoomState
  imports StateCache
begin

text \<open>
  The state service (\<^verbatim>\<open>src/service/rooms/state/mod.rs\<close>): recording the state before an
  event, appending an event to the current state, forcing a resolved state, and what is read
  from the current state for invites, versions and auth events. The abstract state of a room is a map
  from event type and state key to event id.
\<close>

section \<open>Operations\<close>

definition force_event ::
    "serde \<Rightarrow> ruma \<Rightarrow> contents \<Rightarrow> (bytes set \<Rightarrow> bytes list) \<Rightarrow> room_id \<Rightarrow> event_id \<Rightarrow> ('a statecache_db_scheme, unit) dop" where
  "force_event J R C iter room e =
     bind (reads (get_pdu_json J e)) (\<lambda>found.
     case found of
       None \<Rightarrow> ret ()
     | Some pdu \<Rightarrow>
         if Option.bind (obj_get pdu (ascii ''type'')) as_string \<noteq> Some (ascii ''m.room.member'') then ret ()
         else
           (case pdu_from_slice J R (json_print J (JObj pdu)) of
              None \<Rightarrow> ret ()
            | Some p \<Rightarrow>
                (case member_membership C (content p) of
                   None \<Rightarrow> ret ()
                 | Some membership \<Rightarrow>
                     (case state_key p of
                        None \<Rightarrow> ret ()
                      | Some user \<Rightarrow>
                          if \<not> is_user_id R user then ret ()
                          else update_membership J R C iter room user membership (sender p) None False))))"

fun force_events ::
    "serde \<Rightarrow> ruma \<Rightarrow> contents \<Rightarrow> (bytes set \<Rightarrow> bytes list) \<Rightarrow> room_id \<Rightarrow> CompressedStateEvent list \<Rightarrow>
     ('a statecache_db_scheme, unit) dop" where
  "force_events J R C iter room [] = ret ()"
| "force_events J R C iter room (new # news) =
     bind (attempt (parse_compressed_state_event R new)) (\<lambda>parsed.
     andthen (case res_ok parsed of
                None \<Rightarrow> ret ()
              | Some (_, e) \<Rightarrow> force_event J R C iter room e)
     (force_events J R C iter room news))"

definition force_state ::
    "serde \<Rightarrow> ruma \<Rightarrow> contents \<Rightarrow> (bytes set \<Rightarrow> bytes list) \<Rightarrow> room_id \<Rightarrow> u64 \<Rightarrow> CompressedStateEvent set \<Rightarrow>
     ('a statecache_db_scheme, unit) dop" where
  "force_state J R C iter room shortstatehash statediffnew =
     andthen (force_events J R C iter room (iter statediffnew))
     (andthen (update_joined_count R iter room)
     (set_room_state room shortstatehash))"

text \<open>\<^verbatim>\<open>previous.map_or_else(|| Ok(Vec::new()), |p| load_shortstatehash_info(p))\<close>\<close>

definition load_parents :: "u64 option \<Rightarrow> ('a compressor_db_scheme, layer list) dop" where
  "load_parents previous = (case previous of None \<Rightarrow> ret [] | Some p \<Rightarrow> load_shortstatehash_info p)"

definition set_event_state ::
    "(bytes set \<Rightarrow> bytes list) \<Rightarrow> (bytes \<Rightarrow> bytes) \<Rightarrow> event_id \<Rightarrow> room_id \<Rightarrow> CompressedStateEvent set \<Rightarrow>
     ('a accessor_db_scheme, u64) dop" where
  "set_event_state iter digest e room state_ids_compressed =
     bind (get_or_create_shorteventid e) (\<lambda>shorteventid.
     bind (reads (get_room_shortstatehash room)) (\<lambda>previous.
     bind (get_or_create_shortstatehash (calculate_hash digest (iter state_ids_compressed))) (\<lambda>(shortstatehash, already_existed).
     andthen (if already_existed then ret ()
              else
                bind (load_parents previous) (\<lambda>parents.
                if parents = [] then
                  save_state_from_diff iter shortstatehash state_ids_compressed {} 1000000 parents
                else
                  save_state_from_diff iter shortstatehash
                    (state_ids_compressed - layer_state (last parents)) (layer_state (last parents) - state_ids_compressed)
                    1000000 parents))
     (andthen (set_event_state_db shorteventid shortstatehash)
     (ret shortstatehash)))))"

definition append_to_state :: "(bytes set \<Rightarrow> bytes list) \<Rightarrow> PduEvent \<Rightarrow> ('a accessor_db_scheme, u64) dop" where
  "append_to_state iter new_pdu =
     bind (get_or_create_shorteventid (event_id new_pdu)) (\<lambda>shorteventid.
     bind (reads (get_room_shortstatehash (room_id new_pdu))) (\<lambda>previous.
     andthen (case previous of Some p \<Rightarrow> set_event_state_db shorteventid p | None \<Rightarrow> ret ())
     (case state_key new_pdu of
        Some key \<Rightarrow>
          bind (load_parents previous) (\<lambda>parents.
          bind (get_or_create_shortstatekey (kind new_pdu) key) (\<lambda>shortstatekey.
          bind (compress_state_event shortstatekey (event_id new_pdu)) (\<lambda>new.
          let replaces = (if parents = [] then None
                          else find (\<lambda>b. prefix (to_be_bytes shortstatekey) b) (iter (layer_state (last parents)))) in
          if Some new = replaces then of_res (ok_or (Panic ''must exist'') previous)
          else
            bind next_count (\<lambda>shortstatehash.
            andthen (save_state_from_diff iter shortstatehash {new} (set_option replaces) 2 parents)
            (ret shortstatehash)))))
      | None \<Rightarrow> of_res (ok_or (Panic ''first event in room must be a state event'') previous))))"

definition stripped_state ::
    "serde \<Rightarrow> ruma \<Rightarrow> (bytes set \<Rightarrow> bytes list) \<Rightarrow> room_id \<Rightarrow> bytes \<Rightarrow> bytes \<Rightarrow> ('a accessor_db_scheme, json list) dop" where
  "stripped_state J R iter room ty key =
     bind (room_state_get J R iter room ty key) (\<lambda>found.
     ret (case found of Some e \<Rightarrow> [to_stripped_state_event e] | None \<Rightarrow> []))"

definition calculate_invite_state ::
    "serde \<Rightarrow> ruma \<Rightarrow> (bytes set \<Rightarrow> bytes list) \<Rightarrow> PduEvent \<Rightarrow> ('a accessor_db_scheme, json list) dop" where
  "calculate_invite_state J R iter invite_event =
     (let room = room_id invite_event in
      bind (stripped_state J R iter room (ascii ''m.room.create'') []) (\<lambda>a.
      bind (stripped_state J R iter room (ascii ''m.room.join_rules'') []) (\<lambda>b.
      bind (stripped_state J R iter room (ascii ''m.room.canonical_alias'') []) (\<lambda>c.
      bind (stripped_state J R iter room (ascii ''m.room.avatar'') []) (\<lambda>d.
      bind (stripped_state J R iter room (ascii ''m.room.name'') []) (\<lambda>e.
      bind (stripped_state J R iter room (ascii ''m.room.member'') (sender invite_event)) (\<lambda>f.
      ret (a @ b @ c @ d @ e @ f @ [to_stripped_state_event invite_event]))))))))"

definition get_room_version ::
    "serde \<Rightarrow> ruma \<Rightarrow> contents \<Rightarrow> (bytes set \<Rightarrow> bytes list) \<Rightarrow> room_id \<Rightarrow> ('a accessor_db_scheme, bytes) dop" where
  "get_room_version J R C iter room =
     bind (room_state_get J R iter room (ascii ''m.room.create'') []) (\<lambda>create_event.
     case create_event of
       None \<Rightarrow> fail (BadDatabase ''Invalid room version'')
     | Some pdu \<Rightarrow> of_res (ok_or (BadDatabase ''Invalid create event in db.'') (create_version C (content pdu))))"

text \<open>The short state keys of the auth types an event needs; those never seen are skipped.\<close>

fun short_auth_keys :: "(bytes \<times> bytes) list \<Rightarrow> ('a short_db_scheme, (u64 \<times> (bytes \<times> bytes)) list) dop" where
  "short_auth_keys [] = ret []"
| "short_auth_keys ((ty, key) # tks) =
     bind (attempt (get_shortstatekey ty key)) (\<lambda>r.
     bind (short_auth_keys tks) (\<lambda>rest.
     ret (case r of Inr (Some k) \<Rightarrow> (k, (ty, key)) # rest | _ \<Rightarrow> rest)))"

fun auth_event_pdus ::
    "serde \<Rightarrow> ruma \<Rightarrow> (u64 \<Rightarrow> (bytes \<times> bytes) option) \<Rightarrow> CompressedStateEvent list \<Rightarrow>
     ('a accessor_db_scheme, ((bytes \<times> bytes) \<times> PduEvent) list) dop" where
  "auth_event_pdus J R sauthevents [] = ret []"
| "auth_event_pdus J R sauthevents (ce # ces) =
     bind (attempt (parse_compressed_state_event R ce)) (\<lambda>parsed.
     case res_ok parsed of
       None \<Rightarrow> auth_event_pdus J R sauthevents ces
     | Some (shortstatekey, e) \<Rightarrow>
         (case sauthevents shortstatekey of
            None \<Rightarrow> auth_event_pdus J R sauthevents ces
          | Some k \<Rightarrow>
              bind (attempt (get_pdu J R e)) (\<lambda>found.
              bind (auth_event_pdus J R (sauthevents(shortstatekey := None)) ces) (\<lambda>rest.
              ret (case res_ok found of Some (Some pdu) \<Rightarrow> (k, pdu) # rest | _ \<Rightarrow> rest)))))"

definition get_auth_events ::
    "serde \<Rightarrow> ruma \<Rightarrow> (bytes set \<Rightarrow> bytes list) \<Rightarrow>
     (bytes \<Rightarrow> user_id \<Rightarrow> bytes option \<Rightarrow> json \<Rightarrow> (bytes \<times> bytes) list option) \<Rightarrow>
     room_id \<Rightarrow> bytes \<Rightarrow> user_id \<Rightarrow> bytes option \<Rightarrow> json \<Rightarrow>
     ('a accessor_db_scheme, bytes \<times> bytes \<Rightarrow> PduEvent option) dop" where
  "get_auth_events J R iter auth_types_for_event room ty from_user key body =
     bind (reads (get_room_shortstatehash room)) (\<lambda>current.
     case current of
       None \<Rightarrow> ret Map.empty
     | Some h \<Rightarrow>
         bind (of_res (ok_or (Panic ''content is a valid JSON object'') (auth_types_for_event ty from_user key body))) (\<lambda>auth_types.
         bind (short_auth_keys auth_types) (\<lambda>sauthevents.
         bind (full_state h) (\<lambda>st.
         bind (auth_event_pdus J R (map_of (rev sauthevents)) (iter st)) (\<lambda>result.
         ret (map_of (rev result)))))))"

section \<open>What persists\<close>

text \<open>Counts left, ids that stay known and states that stay stored.\<close>

definition counts_left :: "nat \<Rightarrow> 'a globals_db_scheme \<Rightarrow> bool" where
  "counts_left n s \<longleftrightarrow> unat (count s) + n < 2 ^ 64"

definition persists :: "'a accessor_db_scheme \<Rightarrow> 'a accessor_db_scheme \<Rightarrow> bool" where
  "persists s s' \<longleftrightarrow> compressor_inv s' \<and>
     (\<forall>e n. id_of (eventid_shorteventid s) e = Some n \<longrightarrow> id_of (eventid_shorteventid s') e = Some n) \<and>
     (\<forall>k n. id_of (statekey_shortstatekey s) k = Some n \<longrightarrow> id_of (statekey_shortstatekey s') k = Some n) \<and>
     (\<forall>h st. layers (shortstatehash_statediff s) h st \<longrightarrow> layers (shortstatehash_statediff s') h st) \<and>
     roomid_shortstatehash s' = roomid_shortstatehash s"

lemma persistsD:
  assumes "persists s s'"
  shows "compressor_inv s'" and "roomid_shortstatehash s' = roomid_shortstatehash s"
    and "id_of (eventid_shorteventid s) e = Some n \<Longrightarrow> id_of (eventid_shorteventid s') e = Some n"
    and "id_of (statekey_shortstatekey s) k = Some n \<Longrightarrow> id_of (statekey_shortstatekey s') k = Some n"
    and "layers (shortstatehash_statediff s) h st \<Longrightarrow> layers (shortstatehash_statediff s') h st"
    and "has_state s h T \<Longrightarrow> has_state s' h T"
  using assms by (simp_all add: persists_def) (unfold has_state_def, blast)

lemma persists_trans [trans]: "persists s s' \<Longrightarrow> persists s' s'' \<Longrightarrow> persists s s''"
  by (simp add: persists_def)

lemma compressor_invD:
  assumes "compressor_inv s"
  shows "short_inv s" and "cache_ok s" and "states_ok (shortstatehash_statediff s) (count s)"
  using assms by (simp_all add: compressor_inv_def)

lemma counts_left_room: "counts_left (Suc n) s \<Longrightarrow> has_room s"
  by (auto simp: counts_left_def has_room_def unsigned_minus_1_eq_mask mask_eq_exp_minus_1)

lemma counts_left_next:
  assumes "counts_left (Suc n) s" and "count s' = count s + 1"
  shows "counts_left n s'"
proof -
  have "unat (count s + 1) = unat (count s) + 1"
    using assms(1) by (simp add: counts_left_def unat_word_ariths)
  with assms show ?thesis by (simp add: counts_left_def)
qed

lemma counts_left_less: "counts_left (Suc n) s \<Longrightarrow> count s' = count s \<Longrightarrow> counts_left n s'"
  by (simp add: counts_left_def)

lemma compressor_inv_short:
  assumes "compressor_inv s" and "short_inv s'" and "count s \<le> count s'"
    and "shortstatehash_statediff s' = shortstatehash_statediff s"
    and "stateinfo_cache s' = stateinfo_cache s" and "roomid_shortstatehash s' = roomid_shortstatehash s"
  shows "compressor_inv s'"
  using assms states_ok_mono [OF compressor_invD(3) [OF assms(1)] assms(3)]
  by (simp add: compressor_inv_def cache_ok_def)

lemma persists_short:
  assumes "compressor_inv s" and "short_inv s'" and "count s \<le> count s'"
    and "shortstatehash_statediff s' = shortstatehash_statediff s"
    and "stateinfo_cache s' = stateinfo_cache s" and "roomid_shortstatehash s' = roomid_shortstatehash s"
    and "\<And>e n. id_of (eventid_shorteventid s) e = Some n \<Longrightarrow> id_of (eventid_shorteventid s') e = Some n"
    and "\<And>k n. id_of (statekey_shortstatekey s) k = Some n \<Longrightarrow> id_of (statekey_shortstatekey s') k = Some n"
  shows "persists s s'"
  using compressor_inv_short [OF assms(1-6)] assms(4-) by (simp add: persists_def has_state_def)

lemma intern_event:
  assumes "compressor_inv s" and "counts_left (Suc n) s"
  obtains m s' where "get_or_create_shorteventid e s = (Inr m, s')" and "persists s s'"
    and "id_of (eventid_shorteventid s') e = Some m" and "counts_left n s'"
proof (cases "id_of (eventid_shorteventid s) e")
  case (Some m)
  note inv = compressor_invD(1) [OF assms(1)]
  show thesis
  proof (rule that [OF get_or_create_shorteventid_known [OF inv Some]])
    show "persists s (event_known e m s)"
      by (rule persists_short [OF assms(1) short_inv_event_known [OF inv Some]]) (simp_all add: event_known_def)
  qed (use Some assms(2) in \<open>simp_all add: event_known_def counts_left_def\<close>)
next
  case None
  note inv = compressor_invD(1) [OF assms(1)] and room = counts_left_room [OF assms(2)]
  show thesis
  proof (rule that [OF get_or_create_shorteventid_new [OF inv None]])
    show "persists s (event_added e s)"
      by (rule persists_short [OF assms(1) short_inv_event_added [OF inv room None]])
         (use count_less_next [OF room] None in \<open>auto simp: event_added_def\<close>)
    show "counts_left n (event_added e s)" using assms(2) by (rule counts_left_next) simp
  qed (simp add: event_added_def)
qed

lemma intern_statekey:
  assumes "compressor_inv s" and "counts_left (Suc n) s"
  obtains m s' where "get_or_create_shortstatekey ty key s = (Inr m, s')" and "persists s s'"
    and "id_of (statekey_shortstatekey s') (statekey_enc (ty, key)) = Some m" and "counts_left n s'"
proof (cases "id_of (statekey_shortstatekey s) (statekey_enc (ty, key))")
  case (Some m)
  note inv = compressor_invD(1) [OF assms(1)]
  show thesis
  proof (rule that [OF get_or_create_shortstatekey_known [OF inv Some, unfolded fst_conv snd_conv]])
    show "persists s (statekey_known (ty, key) m s)"
      by (rule persists_short [OF assms(1) short_inv_statekey_known [OF inv Some]]) (simp_all add: statekey_known_def)
  qed (use Some assms(2) in \<open>simp_all add: statekey_known_def counts_left_def\<close>)
next
  case None
  note inv = compressor_invD(1) [OF assms(1)] and room = counts_left_room [OF assms(2)]
  show thesis
  proof (rule that [OF get_or_create_shortstatekey_new [OF inv None, unfolded fst_conv snd_conv]])
    show "persists s (statekey_added (ty, key) s)"
      by (rule persists_short [OF assms(1) short_inv_statekey_added [OF inv room None]])
         (use count_less_next [OF room] None in \<open>auto simp: statekey_added_def\<close>)
    show "counts_left n (statekey_added (ty, key) s)" using assms(2) by (rule counts_left_next) simp
  qed (simp add: statekey_added_def)
qed

section \<open>A state as a map\<close>

text \<open>
  The map a set of compressed state events stands for: from event type and state key to event id, every
  one of them interned and well-formed.
\<close>

definition describes :: "ruma \<Rightarrow> 'a short_db_scheme \<Rightarrow> bytes set \<Rightarrow> (bytes \<times> bytes \<Rightarrow> event_id option) \<Rightarrow> bool" where
  "describes R s T M \<longleftrightarrow>
     (\<forall>x e. M x = Some e \<longrightarrow> sep \<notin> set (fst x) \<and> utf8_valid e \<and> is_event_id R e \<and>
        id_of (statekey_shortstatekey s) (statekey_enc x) \<noteq> None \<and> id_of (eventid_shorteventid s) e \<noteq> None) \<and>
     (\<forall>c. c \<in> T \<longleftrightarrow> (\<exists>x e k n. M x = Some e \<and> id_of (statekey_shortstatekey s) (statekey_enc x) = Some k \<and>
        id_of (eventid_shorteventid s) e = Some n \<and> c = to_be_bytes k @ to_be_bytes n))"

definition room_map :: "ruma \<Rightarrow> 'a compressor_db_scheme \<Rightarrow> room_id \<Rightarrow> (bytes \<times> bytes \<Rightarrow> event_id option) \<Rightarrow> bool" where
  "room_map R s room M \<longleftrightarrow> (\<exists>T. room_state s room T \<and> describes R s T M)"

lemma prefix_be_bytes: "prefix (to_be_bytes k) (to_be_bytes k' @ x) \<longleftrightarrow> k = k'"
proof
  assume "prefix (to_be_bytes k) (to_be_bytes k' @ x)"
  then have "take 8 (to_be_bytes k' @ x) = to_be_bytes k" by (auto simp: prefix_def)
  then show "k = k'" by simp
qed (simp add: prefix_def)

lemma statekey_enc_inject:
  "sep \<notin> set (fst x) \<Longrightarrow> sep \<notin> set (fst y) \<Longrightarrow> statekey_enc x = statekey_enc y \<longleftrightarrow> x = y"
  by (cases x; cases y) (simp add: statekey_enc_def statekey_bytes_inject)

lemma describes_entry:
  assumes "describes R s T M" and "M x = Some e"
  shows "sep \<notin> set (fst x) \<and> utf8_valid e \<and> is_event_id R e \<and>
    id_of (statekey_shortstatekey s) (statekey_enc x) \<noteq> None \<and> id_of (eventid_shorteventid s) e \<noteq> None"
  using assms unfolding describes_def by blast

lemma describes_key:
  assumes "short_inv s" and "describes R s T M" and "c \<in> T" and "prefix (to_be_bytes k) c"
    and "id_of (statekey_shortstatekey s) (statekey_enc x) = Some k" and "sep \<notin> set (fst x)"
  obtains e n where "M x = Some e" and "id_of (eventid_shorteventid s) e = Some n"
    and "c = to_be_bytes k @ to_be_bytes n" and "utf8_valid e" and "is_event_id R e"
proof -
  from assms(2,3) obtain y e k' n where M: "M y = Some e"
    and y: "id_of (statekey_shortstatekey s) (statekey_enc y) = Some k'"
    and e: "id_of (eventid_shorteventid s) e = Some n" and c: "c = to_be_bytes k' @ to_be_bytes n"
    unfolding describes_def by (elim conjE) (drule spec [of _ c], elim iffE, drule (1) mp, elim exE conjE, simp)
  have ok: "sep \<notin> set (fst y) \<and> utf8_valid e \<and> is_event_id R e"
    using describes_entry [OF assms(2) M] by blast
  have "k' = k" using assms(4) by (simp add: c prefix_be_bytes)
  with y assms(5) have "statekey_enc y = statekey_enc x"
    using id_table_inj [OF short_invD(3) [OF assms(1)]] by simp
  then have "y = x" using ok assms(6) by (simp add: statekey_enc_inject)
  from ok have "utf8_valid e" "is_event_id R e" by simp_all
  with M e c \<open>k' = k\<close> \<open>y = x\<close> show thesis by (intro that) simp_all
qed

lemma describes_mem:
  assumes "describes R s T M" and "M x = Some e"
    and "id_of (statekey_shortstatekey s) (statekey_enc x) = Some k"
    and "id_of (eventid_shorteventid s) e = Some n"
  shows "to_be_bytes k @ to_be_bytes n \<in> T"
  using assms unfolding describes_def by blast

lemma describes_known:
  assumes "describes R s T M" and "M x = Some e"
  obtains k n where "id_of (statekey_shortstatekey s) (statekey_enc x) = Some k"
    and "id_of (eventid_shorteventid s) e = Some n" and "to_be_bytes k @ to_be_bytes n \<in> T"
    and "sep \<notin> set (fst x)" and "utf8_valid e" and "is_event_id R e"
proof -
  note ok = describes_entry [OF assms]
  then obtain k n where "id_of (statekey_shortstatekey s) (statekey_enc x) = Some k"
    "id_of (eventid_shorteventid s) e = Some n" by blast
  with ok describes_mem [OF assms this] show thesis using that by blast
qed

lemma parse_known:
  assumes "short_inv s" and "id_of (eventid_shorteventid s) e = Some n" and "utf8_valid e" and "is_event_id R e"
  shows "fst (parse_compressed_state_event R (to_be_bytes k @ to_be_bytes n) s) = Inr (k, e)"
  by (simp add: parse_compressed_state_event_def run_simps get_eventid_from_short_eq [OF assms])

lemma full_state_eq:
  assumes "compressor_inv s" and "has_state s h T"
  obtains c where "full_state h s = (Inr T, s\<lparr>stateinfo_cache := c\<rparr>)"
    and "compressor_inv (s\<lparr>stateinfo_cache := c\<rparr>)"
proof -
  from assms(2) obtain st where st: "layers (shortstatehash_statediff s) h st" "layer_state (last st) = T"
    by (auto simp: has_state_def)
  from load_shortstatehash_info_layers [OF assms(1) st(1)] obtain c where
    c: "load_shortstatehash_info h s = (Inr st, s\<lparr>stateinfo_cache := c\<rparr>)" "cache_ok (s\<lparr>stateinfo_cache := c\<rparr>)"
    by (elim exE conjE)
  have "full_state h s = (Inr T, s\<lparr>stateinfo_cache := c\<rparr>)"
    using layers_last [OF st(1)] st(2) by (simp add: full_state_def run_simps c(1))
  with compressor_inv_cache [OF assms(1) c(2)] show thesis by (rule that [rotated])
qed

lemma has_state_finite:
  assumes "compressor_inv s" and "has_state s h T"
  shows "finite T" and "\<forall>e \<in> T. compressed e"
proof -
  from assms(2) obtain st where st: "layers (shortstatehash_statediff s) h st" "layer_state (last st) = T"
    by (auto simp: has_state_def)
  from states_okE [OF compressor_invD(3) [OF assms(1)] layers_diff_at [OF st(1)]] obtain st' where
    "layers (shortstatehash_statediff s) h st'" "exact st'" .
  with st(1) have "exact st" using layers_unique by blast
  from exact_base [OF this] layers_last [OF st(1)] st(2)
  show "finite T" and "\<forall>e \<in> T. compressed e" by (simp_all add: base_state_def)
qed

lemma find_key:
  assumes "short_inv s" and "describes R s T M" and "iteration iter" and "finite T"
    and "id_of (statekey_shortstatekey s) (statekey_enc x) = Some k" and "sep \<notin> set (fst x)"
  shows "find (\<lambda>b. prefix (to_be_bytes k) b) (iter T) =
    map_option (\<lambda>e. to_be_bytes k @ to_be_bytes (the (id_of (eventid_shorteventid s) e))) (M x)"
proof (cases "find (\<lambda>b. prefix (to_be_bytes k) b) (iter T)")
  case None
  have "M x = None"
  proof (rule ccontr)
    assume "M x \<noteq> None"
    then obtain e where e: "M x = Some e" by blast
    from describes_known [OF assms(2) e] assms(5) obtain n where "to_be_bytes k @ to_be_bytes n \<in> T" by auto
    with None show False by (simp add: find_None_iff iterationD [OF assms(3,4)]) (use prefix_def in blast)
  qed
  with None show ?thesis by simp
next
  case (Some c)
  then have "c \<in> set (iter T)" "prefix (to_be_bytes k) c" by (auto simp: find_Some_iff)
  then have "c \<in> T" "prefix (to_be_bytes k) c" by (simp_all only: iterationD [OF assms(3,4)])
  from describes_key [OF assms(1,2) this assms(5,6)] obtain e n where
    "M x = Some e" "id_of (eventid_shorteventid s) e = Some n" "c = to_be_bytes k @ to_be_bytes n" .
  with Some show ?thesis by simp
qed

lemma describes_frame:
  assumes "describes R s T M" and "eventid_shorteventid s' = eventid_shorteventid s"
    and "statekey_shortstatekey s' = statekey_shortstatekey s"
  shows "describes R s' T M"
  using assms unfolding describes_def by simp

lemma state_get_id_map:
  fixes s :: "'a accessor_db_scheme"
  assumes inv: "compressor_inv s" and T: "has_state s h T" "describes R s T M" and iter: "iteration iter"
    and ty: "sep \<notin> set ty"
  shows "fst (state_get_id R iter h ty key s) = Inr (M (ty, key))"
proof -
  let ?k = "id_of (statekey_shortstatekey s) (statekey_enc (ty, key))"
  from get_shortstatekey_eq [OF compressor_invD(1) [OF inv], of ty key] obtain s1 where
    s1: "get_shortstatekey ty key s = (Inr ?k, s1)" "short_inv s1" "s1 = s \<or> (\<exists>n. s1 = statekey_known (ty, key) n s)"
    by (elim exE conjE)
  have frame: "shortstatehash_statediff s1 = shortstatehash_statediff s" "stateinfo_cache s1 = stateinfo_cache s"
    "roomid_shortstatehash s1 = roomid_shortstatehash s" "count s1 = count s"
    "eventid_shorteventid s1 = eventid_shorteventid s" "statekey_shortstatekey s1 = statekey_shortstatekey s"
    using s1(3) by (auto simp: statekey_known_def)
  have inv1: "compressor_inv s1" by (rule compressor_inv_short [OF inv s1(2)]) (simp_all add: frame)
  have T1: "has_state s1 h T" using T(1) by (simp add: has_state_def frame)
  from full_state_eq [OF inv1 T1] obtain c where
    c: "full_state h s1 = (Inr T, s1\<lparr>stateinfo_cache := c\<rparr>)" "compressor_inv (s1\<lparr>stateinfo_cache := c\<rparr>)" .
  let ?s2 = "s1\<lparr>stateinfo_cache := c\<rparr>"
  have d2: "describes R ?s2 T M" by (rule describes_frame [OF T(2)]) (simp_all add: frame)
  show ?thesis
  proof (cases ?k)
    case None
    have "M (ty, key) = None"
      using describes_entry [OF T(2), of "(ty, key)"] None by (cases "M (ty, key)") auto
    with None show ?thesis by (simp add: state_get_id_def run_simps s1(1))
  next
    case (Some k)
    have k2: "id_of (statekey_shortstatekey ?s2) (statekey_enc (ty, key)) = Some k" using Some frame by simp
    note found = find_key [OF compressor_invD(1) [OF c(2)] d2 iter has_state_finite(1) [OF inv T(1)] k2]
    show ?thesis
    proof (cases "M (ty, key)")
      case None
      with Some found ty show ?thesis by (simp add: state_get_id_def run_simps s1(1) c(1))
    next
      case e: (Some e)
      from describes_known [OF d2 e] obtain n where
        n: "id_of (eventid_shorteventid ?s2) e = Some n" "utf8_valid e" "is_event_id R e" .
      from parse_known [OF compressor_invD(1) [OF c(2)] n]
      have "fst (parse_compressed_state_event R (to_be_bytes k @ to_be_bytes n) ?s2) = Inr (k, e)" .
      with Some e found ty n(1) show ?thesis
        by (simp add: state_get_id_def run_simps s1(1) c(1) attempt_apply)
    qed
  qed
qed

lemma describes_empty:
  assumes "describes R s {} M"
  shows "M x = None"
proof (cases "M x")
  case (Some e)
  from describes_known [OF assms Some] show ?thesis by simp
qed

lemma room_state_get_id_map:
  assumes "compressor_inv s" and "room_map R s room M" and "iteration iter" and "sep \<notin> set ty"
  shows "fst (room_state_get_id R iter room ty key s) = Inr (M (ty, key))"
proof -
  from assms(2) obtain T where T: "room_state s room T" "describes R s T M" by (auto simp: room_map_def)
  show ?thesis
  proof (cases "kv_get (roomid_shortstatehash s) room")
    case None
    with T have "M (ty, key) = None" using describes_empty by (simp add: room_state_def)
    with None show ?thesis by (simp add: room_state_get_id_def get_room_shortstatehash_def run_simps)
  next
    case (Some b)
    with T(1) obtain h where h: "b = to_be_bytes h" "has_state s h T" by (auto simp: room_state_def)
    with Some state_get_id_map [OF assms(1) h(2) T(2) assms(3,4)] show ?thesis
      by (simp add: room_state_get_id_def get_room_shortstatehash_def run_simps)
  qed
qed

section \<open>Appending to a state\<close>

lemma describes_mono:
  assumes d: "describes R s T M"
    and ev: "\<And>e n. id_of (eventid_shorteventid s) e = Some n \<Longrightarrow> id_of (eventid_shorteventid s') e = Some n"
    and sk: "\<And>k n. id_of (statekey_shortstatekey s) k = Some n \<Longrightarrow> id_of (statekey_shortstatekey s') k = Some n"
  shows "describes R s' T M"
proof -
  have ids: "id_of (statekey_shortstatekey s') (statekey_enc x) = id_of (statekey_shortstatekey s) (statekey_enc x) \<and>
      id_of (eventid_shorteventid s') e = id_of (eventid_shorteventid s) e" if "M x = Some e" for x e
    using describes_known [OF d that] ev sk by metis
  show ?thesis
    unfolding describes_def
  proof (intro conjI allI impI)
    fix c
    have "c \<in> T \<longleftrightarrow> (\<exists>x e k n. M x = Some e \<and> id_of (statekey_shortstatekey s) (statekey_enc x) = Some k \<and>
        id_of (eventid_shorteventid s) e = Some n \<and> c = to_be_bytes k @ to_be_bytes n)"
      using d unfolding describes_def by blast
    also have "\<dots> \<longleftrightarrow> (\<exists>x e k n. M x = Some e \<and> id_of (statekey_shortstatekey s') (statekey_enc x) = Some k \<and>
        id_of (eventid_shorteventid s') e = Some n \<and> c = to_be_bytes k @ to_be_bytes n)"
      using ids by (intro ex_cong1 conj_cong refl) simp_all
    finally show "c \<in> T \<longleftrightarrow> \<dots>" .
  qed (use describes_entry [OF d] ids in \<open>metis+\<close>)
qed

lemma describes_update:
  assumes inv: "short_inv s" and d: "describes R s T M"
    and x: "id_of (statekey_shortstatekey s) (statekey_enc x) = Some k" "sep \<notin> set (fst x)"
    and e: "id_of (eventid_shorteventid s) e = Some n" "utf8_valid e" "is_event_id R e"
  shows "describes R s (insert (to_be_bytes k @ to_be_bytes n) {c \<in> T. \<not> prefix (to_be_bytes k) c}) (M(x \<mapsto> e))"
  unfolding describes_def
proof (intro conjI allI impI)
  fix c
  show "c \<in> insert (to_be_bytes k @ to_be_bytes n) {c \<in> T. \<not> prefix (to_be_bytes k) c} \<longleftrightarrow>
    (\<exists>y e' k' n'. (M(x \<mapsto> e)) y = Some e' \<and> id_of (statekey_shortstatekey s) (statekey_enc y) = Some k' \<and>
      id_of (eventid_shorteventid s) e' = Some n' \<and> c = to_be_bytes k' @ to_be_bytes n')" (is "?l \<longleftrightarrow> ?r")
  proof
    assume ?l
    then consider "c = to_be_bytes k @ to_be_bytes n" | "c \<in> T" "\<not> prefix (to_be_bytes k) c" by blast
    then show ?r
    proof cases
      case 1
      with x e show ?thesis by (metis fun_upd_same)
    next
      case 2
      then obtain y e' k' n' where y: "M y = Some e'" "id_of (statekey_shortstatekey s) (statekey_enc y) = Some k'"
        "id_of (eventid_shorteventid s) e' = Some n'" "c = to_be_bytes k' @ to_be_bytes n'"
        using d unfolding describes_def by blast
      with 2(2) x(1) have "y \<noteq> x" by (auto simp: prefix_be_bytes)
      with y show ?thesis by (metis fun_upd_other)
    qed
  next
    assume ?r
    then obtain y e' k' n' where y: "(M(x \<mapsto> e)) y = Some e'" "id_of (statekey_shortstatekey s) (statekey_enc y) = Some k'"
      "id_of (eventid_shorteventid s) e' = Some n'" "c = to_be_bytes k' @ to_be_bytes n'" by blast
    show ?l
    proof (cases "y = x")
      case True
      with y x e show ?thesis by simp
    next
      case False
      with y have M: "M y = Some e'" by simp
      have "k' \<noteq> k"
      proof
        assume "k' = k"
        with y(2) x(1) have "statekey_enc y = statekey_enc x"
          using id_table_inj [OF short_invD(3) [OF inv]] by simp
        with False x(2) describes_entry [OF d M] show False by (simp add: statekey_enc_inject)
      qed
      with describes_mem [OF d M y(2,3)] y(4) show ?thesis by (auto simp: prefix_be_bytes)
    qed
  qed
qed (use describes_entry [OF d] x e in \<open>auto split: if_splits\<close>)

text \<open>What appending removes is what it replaces.\<close>

lemma replaced_key:
  assumes "short_inv s" and "describes R s T M" and "iteration iter" and "finite T"
    and "id_of (statekey_shortstatekey s) (statekey_enc x) = Some k" and "sep \<notin> set (fst x)"
  shows "set_option (find (\<lambda>b. prefix (to_be_bytes k) b) (iter T)) = {c \<in> T. prefix (to_be_bytes k) c}"
proof -
  have "{c \<in> T. prefix (to_be_bytes k) c} =
      set_option (map_option (\<lambda>e. to_be_bytes k @ to_be_bytes (the (id_of (eventid_shorteventid s) e))) (M x))"
  proof (intro equalityI subsetI)
    fix c
    assume "c \<in> {c \<in> T. prefix (to_be_bytes k) c}"
    then have c: "c \<in> T" "prefix (to_be_bytes k) c" by simp_all
    from describes_key [OF assms(1,2) c assms(5,6)] obtain e n where
      "M x = Some e" "id_of (eventid_shorteventid s) e = Some n" "c = to_be_bytes k @ to_be_bytes n" .
    then show "c \<in> set_option (map_option (\<lambda>e. to_be_bytes k @ to_be_bytes (the (id_of (eventid_shorteventid s) e))) (M x))"
      by simp
  next
    fix c
    assume "c \<in> set_option (map_option (\<lambda>e. to_be_bytes k @ to_be_bytes (the (id_of (eventid_shorteventid s) e))) (M x))"
    then obtain e where e: "M x = Some e" "c = to_be_bytes k @ to_be_bytes (the (id_of (eventid_shorteventid s) e))" by auto
    from describes_known [OF assms(2) e(1)] assms(5) obtain n where
      "id_of (eventid_shorteventid s) e = Some n" "to_be_bytes k @ to_be_bytes n \<in> T" by auto
    with e show "c \<in> {c \<in> T. prefix (to_be_bytes k) c}" by simp
  qed
  with find_key [OF assms] show ?thesis by simp
qed

lemma keeps_save_state_from_diff:
  assumes "\<And>g s. f (shortstatehash_statediff_update g s) = f s"
  shows "keeps f (save_state_from_diff iter h A D k parents)"
proof (induction parents arbitrary: A D k rule: rev_induct)
  case Nil
  show ?case unfolding save_state_from_diff_Nil save_statediff_def by (intro keeps_intros) (rule assms)
next
  case (snoc l st)
  obtain A' D' where m: "merge_diff iter A D (layer_added l, layer_removed l) = (A', D')" by fastforce
  show ?case
    unfolding save_state_from_diff_snoc [OF m] save_statediff_def
    by (intro keeps_intros snoc) (rule assms)
qed

lemma compressed_ids:
  assumes "short_inv s" and "id_of (statekey_shortstatekey s) x = Some k"
  shows "compressed (to_be_bytes k @ to_be_bytes n)"
proof -
  have "0 < k" using id_table_bound [OF short_invD(3) [OF assms(1)] assms(2)] by simp
  then show ?thesis by (simp add: compressed_def ZERO8_def prefix_be_bytes)
qed

lemma compressor_inv_accessor [simp]:
  "compressor_inv (shorteventid_shortstatehash_update f s) = compressor_inv s"
  "counts_left n (shorteventid_shortstatehash_update f s) = counts_left n s"
  "has_state (shorteventid_shortstatehash_update f s) h T = has_state s h T"
  by (simp_all add: compressor_inv_def cache_ok_def short_inv_def count_def counts_left_def has_state_def)

lemma persists_event_state:
  "compressor_inv s \<Longrightarrow> persists s (shorteventid_shortstatehash_update f s)"
  by (simp add: persists_def)

lemma persists_cache:
  "compressor_inv s \<Longrightarrow> cache_ok (s\<lparr>stateinfo_cache := c\<rparr>) \<Longrightarrow> persists s (s\<lparr>stateinfo_cache := c\<rparr>)"
  by (simp add: persists_def compressor_inv_cache)

lemma room_map_persists:
  assumes "room_map R s room M" and "persists s s'"
  shows "room_map R s' room M"
proof -
  from assms(1) obtain T where T: "room_state s room T" "describes R s T M" by (auto simp: room_map_def)
  have "room_state s' room T"
    using T(1) persistsD(2,6) [OF assms(2)] by (auto simp: room_state_def split: option.splits)
  with describes_mono [OF T(2)] persistsD(3,4) [OF assms(2)] show ?thesis by (auto simp: room_map_def)
qed

text \<open>The start of \<open>append_to_state\<close>: the event is interned and the state before it recorded.\<close>

definition recorded :: "u64 \<Rightarrow> u64 option \<Rightarrow> 'a accessor_db_scheme \<Rightarrow> 'a accessor_db_scheme" where
  "recorded n prev s = (case prev of
     Some p \<Rightarrow> shorteventid_shortstatehash_update (kv_insert (to_be_bytes n) (to_be_bytes p)) s | None \<Rightarrow> s)"

lemma recorded_counts [simp]: "counts_left n (recorded m prev s) = counts_left n s"
  by (simp add: recorded_def split: option.split)

lemma cached_counts [simp]: "counts_left n (stateinfo_cache_update f s) = counts_left n s"
  by (simp add: counts_left_def)

lemma recorded_run:
  "(case prev of Some p \<Rightarrow> set_event_state_db n p | None \<Rightarrow> ret ()) s = (Inr (), recorded n prev s)"
  by (simp add: recorded_def set_event_state_db_def split: option.split)

lemma persists_recorded: "compressor_inv s \<Longrightarrow> persists s (recorded n prev s)"
  by (cases prev) (simp_all add: recorded_def persists_event_state, simp add: persists_def)

lemma keeps_interning:
  "keeps shorteventid_shortstatehash (get_or_create_shorteventid e)"
  "keeps shorteventid_shortstatehash (get_or_create_shortstatekey ty key)"
  unfolding get_or_create_shorteventid_def get_or_create_shortstatekey_def by (intro keeps_intros; simp)+

lemma append_to_state_parents:
  assumes inv: "compressor_inv s" and left: "counts_left 4 s" and room: "room_map R s (room_id pdu) M"
    and key: "state_key pdu = Some key" and ok: "sep \<notin> set (kind pdu)"
  obtains prev st k n s' where
    "append_to_state iter pdu s =
      (let new = to_be_bytes k @ to_be_bytes n;
           replaces = (if st = [] then None else find (\<lambda>b. prefix (to_be_bytes k) b) (iter (layer_state (last st)))) in
       if Some new = replaces then of_res (ok_or (Panic ''must exist'') prev)
       else
         bind next_count (\<lambda>h.
         andthen (save_state_from_diff iter h {new} (set_option replaces) 2 st) (ret h))) s'"
    and "persists s s'" and "counts_left 1 s'" and "exact st" and "describes R s' (base_state st) M"
    and "st = [] \<and> prev = None \<or>
         st \<noteq> [] \<and> (\<exists>p. prev = Some p \<and> layers (shortstatehash_statediff s') p st \<and> has_state s' p (base_state st))"
    and "id_of (statekey_shortstatekey s') (statekey_enc (kind pdu, key)) = Some k"
    and "id_of (eventid_shorteventid s') (event_id pdu) = Some n"
    and "get_room_shortstatehash (room_id pdu) s = Inr prev"
    and "\<forall>p. prev = Some p \<longrightarrow> kv_get (shorteventid_shortstatehash s') (to_be_bytes n) = Some (to_be_bytes p)"
proof -
  have "counts_left (Suc 3) s" using left by simp
  from intern_event [OF inv this] obtain n s1 where s1: "get_or_create_shorteventid (event_id pdu) s = (Inr n, s1)"
    "persists s s1" "id_of (eventid_shorteventid s1) (event_id pdu) = Some n" "counts_left 3 s1" .
  from load_previous [OF persistsD(1) [OF s1(2)], of "room_id pdu"] obtain prev
    where prev: "get_room_shortstatehash (room_id pdu) s1 = Inr prev" .
  let ?s2 = "recorded n prev s1"
  have s2: "persists s1 ?s2" by (rule persists_recorded [OF persistsD(1) [OF s1(2)]])
  have prev2: "get_room_shortstatehash (room_id pdu) ?s2 = Inr prev"
    using prev by (simp add: get_room_shortstatehash_def persistsD(2) [OF s2])
  from load_previous [OF persistsD(1) [OF s2], of "room_id pdu"] obtain prev' st c where
    load: "get_room_shortstatehash (room_id pdu) ?s2 = Inr prev'" "load_parents prev' ?s2 = (Inr st, ?s2\<lparr>stateinfo_cache := c\<rparr>)"
    and st: "cache_ok (?s2\<lparr>stateinfo_cache := c\<rparr>)" "exact st" "room_state ?s2 (room_id pdu) (base_state st)"
      "st = [] \<and> prev' = None \<or> st \<noteq> [] \<and> (\<exists>p. prev' = Some p \<and> p \<le> count ?s2 \<and> layers (shortstatehash_statediff ?s2) p st)"
    unfolding load_parents_def .
  from load(1) prev2 have [simp]: "prev' = prev" by simp
  let ?s3 = "?s2\<lparr>stateinfo_cache := c\<rparr>"
  have s3: "persists ?s2 ?s3" by (rule persists_cache [OF persistsD(1) [OF s2] st(1)])
  have "counts_left (Suc 2) ?s3" using s1(4) by simp
  from intern_statekey [OF persistsD(1) [OF s3] this] obtain k s4 where
    s4: "get_or_create_shortstatekey (kind pdu) key ?s3 = (Inr k, s4)" "persists ?s3 s4"
      "id_of (statekey_shortstatekey s4) (statekey_enc (kind pdu, key)) = Some k" "counts_left 2 s4" .
  from s4(4) have "counts_left (Suc 1) s4" by (simp add: numeral_2_eq_2)
  from intern_event [OF persistsD(1) [OF s4(2)] this] obtain n' s5 where
    s5: "get_or_create_shorteventid (event_id pdu) s4 = (Inr n', s5)" "persists s4 s5"
      "id_of (eventid_shorteventid s5) (event_id pdu) = Some n'" "counts_left 1 s5" .
  have to3: "persists s ?s3" using s1(2) s2 s3 by (blast intro: persists_trans)
  have from3: "persists ?s3 s5" using s4(2) s5(2) by (rule persists_trans)
  have "n' = n"
    using s5(3) persistsD(3) [OF from3] persistsD(3) [OF s3] persistsD(3) [OF s2 s1(3)] by simp
  have all: "persists s s5" using to3 from3 by (rule persists_trans)
  from room_map_persists [OF room persists_trans [OF s1(2) s2]] st(3)
  have d2: "describes R ?s2 (base_state st) M" by (auto simp: room_map_def dest: room_state_unique)
  have d5: "describes R s5 (base_state st) M"
    using describes_mono [OF d2] persistsD(3,4) [OF persists_trans [OF s3 from3]] by blast
  have new: "compress_state_event k (event_id pdu) s4 = (Inr (to_be_bytes k @ to_be_bytes n), s5)"
    using s5(1) \<open>n' = n\<close> by (simp add: compress_state_event_def bind_apply)
  have reads_prev: "reads (get_room_shortstatehash (room_id pdu)) s1 = (Inr prev, s1)" using prev by simp
  have run: "append_to_state iter pdu s =
      (let new = to_be_bytes k @ to_be_bytes n;
           replaces = (if st = [] then None else find (\<lambda>b. prefix (to_be_bytes k) b) (iter (layer_state (last st)))) in
       if Some new = replaces then of_res (ok_or (Panic ''must exist'') prev)
       else
         bind next_count (\<lambda>h.
         andthen (save_state_from_diff iter h {new} (set_option replaces) 2 st) (ret h))) s5"
    unfolding append_to_state_def
    by (simp only: bind_ok [where m = "get_or_create_shorteventid (event_id pdu)", OF s1(1)]
        bind_ok [where m = "reads (get_room_shortstatehash (room_id pdu))", OF reads_prev]
        andthen_ok [where m = "case prev of Some p \<Rightarrow> set_event_state_db n p | None \<Rightarrow> ret ()", OF recorded_run]
        bind_ok [where m = "load_parents prev", OF load(2) [unfolded \<open>prev' = prev\<close>]]
        bind_ok [where m = "get_or_create_shortstatekey (kind pdu) key", OF s4(1)]
        bind_ok [where m = "compress_state_event k (event_id pdu)", OF new] key option.case Let_def)
  have "st = [] \<and> prev = None \<or>
    st \<noteq> [] \<and> (\<exists>p. prev = Some p \<and> layers (shortstatehash_statediff s5) p st \<and> has_state s5 p (base_state st))"
    using st(4) persistsD(5) [OF persists_trans [OF s3 from3]] by (auto simp: has_state_def base_state_def)
  note run = that [OF run all s5(4) st(2) d5 this]
  have "get_room_shortstatehash (room_id pdu) s = Inr prev"
    using prev by (simp add: get_room_shortstatehash_def persistsD(2) [OF s1(2)])
  moreover have "\<forall>p. prev = Some p \<longrightarrow> kv_get (shorteventid_shortstatehash s5) (to_be_bytes n) = Some (to_be_bytes p)"
    using keeps_result [OF keeps_interning(1) s5(1)] keeps_result [OF keeps_interning(2) s4(1)]
    by (simp add: recorded_def)
  ultimately show thesis using run persistsD(4) [OF s5(2) s4(3)] s5(3) \<open>n' = n\<close> by simp
qed

lemma persists_refl: "compressor_inv s \<Longrightarrow> persists s s"
  by (simp add: persists_def)

lemma persists_bump:
  assumes "compressor_inv s" and "has_room s"
  shows "persists s (bump s)"
  by (rule persists_short [OF assms(1) short_inv_bump [OF compressor_invD(1) [OF assms(1)] assms(2)]])
     (use count_less_next [OF assms(2)] in simp_all)

lemma save_new_state:
  fixes s :: "'a accessor_db_scheme"
  assumes inv: "compressor_inv s" and room: "has_room s" and iter: "iteration iter"
    and T: "finite T" "\<forall>e \<in> T. compressed e"
    and par: "exact st" "st = [] \<or> layers (shortstatehash_statediff s) (layer_hash (last st)) st"
  obtains s' where
    "bind next_count (\<lambda>h. andthen (save_state_from_diff iter h (T - base_state st) (base_state st - T) k st) (ret h)) s =
      (Inr (count s + 1), s')"
    and "persists s s'" and "has_state s' (count s + 1) T"
    and "shorteventid_shortstatehash s' = shorteventid_shortstatehash s"
proof -
  let ?h = "count s + 1"
  note b = persists_bump [OF inv room]
  have c: "count (bump s) = ?h" by simp
  have par': "st = [] \<or> layers (shortstatehash_statediff (bump s)) (layer_hash (last st)) st" using par(2) by simp
  have old: "states_ok (shortstatehash_statediff (bump s)) (count s)" using compressor_invD(3) [OF inv] by simp
  have le: "?h \<le> count (bump s)" by simp
  from save_state_from_diff_new [where k = k, OF persistsD(1) [OF b] iter T par(1) par' le old count_less_next [OF room]]
  obtain s' where s': "save_state_from_diff iter ?h (T - base_state st) (base_state st - T) k st (bump s) = (Inr (), s')"
    "compressor_inv s'" "has_state s' ?h T"
    "\<forall>h' st. layers (shortstatehash_statediff (bump s)) h' st \<longrightarrow> layers (shortstatehash_statediff s') h' st" .
  have "keeps (\<lambda>s. (eventid_shorteventid s, statekey_shortstatekey s, roomid_shortstatehash s, shorteventid_shortstatehash s))
      (save_state_from_diff iter ?h (T - base_state st) (base_state st - T) k st)"
    by (rule keeps_save_state_from_diff) simp
  note frame = keeps_result [OF this s'(1)]
  from frame s'(2,4) have "persists (bump s) s'" by (simp add: persists_def)
  with b have "persists s s'" by (rule persists_trans)
  moreover have "bind next_count (\<lambda>h. andthen (save_state_from_diff iter h (T - base_state st) (base_state st - T) k st) (ret h)) s =
      (Inr ?h, s')"
    by (simp add: bind_ok [OF next_count_bump] andthen_def bind_apply s'(1))
  moreover have "shorteventid_shortstatehash s' = shorteventid_shortstatehash s" using frame by (simp add: bump_def)
  ultimately show thesis using s'(3) by (intro that)
qed

text \<open>Appending a state event updates the map at the event's type and key.\<close>

lemma append_state_event:
  assumes inv: "compressor_inv s" and left: "counts_left 4 s" and room: "room_map R s (room_id pdu) M"
    and iter: "iteration iter" and key: "state_key pdu = Some key" and ok: "sep \<notin> set (kind pdu)"
    and e: "utf8_valid (event_id pdu)" "is_event_id R (event_id pdu)"
  obtains h T s' where "append_to_state iter pdu s = (Inr h, s')" and "persists s s'"
    and "has_state s' h T" and "describes R s' T (M((kind pdu, key) \<mapsto> event_id pdu))"
    and "\<forall>p. get_room_shortstatehash (room_id pdu) s = Inr (Some p) \<longrightarrow> pdu_shortstatehash (event_id pdu) s' = Inr (Some p)"
proof -
  let ?x = "(kind pdu, key)"
  from append_to_state_parents [where iter = iter, OF inv left room key ok] obtain prev st k n s1 where
    run: "append_to_state iter pdu s =
      (let new = to_be_bytes k @ to_be_bytes n;
           replaces = (if st = [] then None else find (\<lambda>b. prefix (to_be_bytes k) b) (iter (layer_state (last st)))) in
       if Some new = replaces then of_res (ok_or (Panic ''must exist'') prev)
       else
         bind next_count (\<lambda>h.
         andthen (save_state_from_diff iter h {new} (set_option replaces) 2 st) (ret h))) s1"
    and s1: "persists s s1" "counts_left 1 s1" and st: "exact st" and d: "describes R s1 (base_state st) M"
    and prev: "st = [] \<and> prev = None \<or>
         st \<noteq> [] \<and> (\<exists>p. prev = Some p \<and> layers (shortstatehash_statediff s1) p st \<and> has_state s1 p (base_state st))"
    and k: "id_of (statekey_shortstatekey s1) (statekey_enc ?x) = Some k"
    and n: "id_of (eventid_shorteventid s1) (event_id pdu) = Some n"
    and before: "get_room_shortstatehash (room_id pdu) s = Inr prev"
      "\<forall>p. prev = Some p \<longrightarrow> kv_get (shorteventid_shortstatehash s1) (to_be_bytes n) = Some (to_be_bytes p)" .
  note inv1 = persistsD(1) [OF s1(1)] and short1 = compressor_invD(1) [OF persistsD(1) [OF s1(1)]]
  let ?new = "to_be_bytes k @ to_be_bytes n" and ?B = "base_state st"
  let ?found = "find (\<lambda>b. prefix (to_be_bytes k) b) (iter ?B)"
  have fin: "finite ?B" "\<forall>e \<in> ?B. compressed e" using exact_base [OF st] by blast+
  have sep: "sep \<notin> set (fst ?x)" using ok by simp
  have "?found = None" if "st = []"
    using that iterationD [OF iter, of "{}"] by (simp add: find_None_iff)
  then have found: "(if st = [] then None else find (\<lambda>b. prefix (to_be_bytes k) b) (iter (layer_state (last st)))) = ?found"
    by (simp add: base_state_def)
  note repl = replaced_key [OF short1 d iter fin(1) k sep]
  note upd = describes_update [OF short1 d k sep n e]
  have hash: "\<forall>p. get_room_shortstatehash (room_id pdu) s = Inr (Some p) \<longrightarrow> pdu_shortstatehash (event_id pdu) s2 = Inr (Some p)"
    if "persists s1 s2" "shorteventid_shortstatehash s2 = shorteventid_shortstatehash s1" for s2
    using persistsD(3) [OF that(1) n] before that(2)
    by (simp add: pdu_shortstatehash_def id_of_Some [OF short_invD(1) [OF compressor_invD(1) [OF persistsD(1) [OF that(1)]]]])
  let ?T = "insert ?new {c \<in> ?B. \<not> prefix (to_be_bytes k) c}"
  show thesis
  proof (cases "Some ?new = ?found")
    case True
    then have "{c \<in> ?B. prefix (to_be_bytes k) c} = {?new}" using repl by (metis option.simps(15))
    then have T: "?T = ?B" by blast
    from True have "st \<noteq> []" using \<open>st = [] \<Longrightarrow> ?found = None\<close> by fastforce
    with prev obtain p where p: "prev = Some p" "has_state s1 p ?B" by blast
    have "append_to_state iter pdu s = (Inr p, s1)"
      unfolding run found Let_def using True p(1) by simp
    from that [OF this s1(1) p(2)] upd T hash [OF persists_refl [OF inv1]] show thesis by simp
  next
    case False
    have "?new \<notin> ?B"
    proof
      assume "?new \<in> ?B"
      then have "?new \<in> set_option ?found" unfolding repl by (simp add: prefix_def)
      then show False using False by (cases ?found) simp_all
    qed
    then have diff: "{?new} = ?T - ?B" "set_option ?found = ?B - ?T" using repl by (auto simp: prefix_be_bytes)
    have T: "finite ?T" "\<forall>e \<in> ?T. compressed e" using fin compressed_ids [OF short1 k, of n] by auto
    have par: "st = [] \<or> layers (shortstatehash_statediff s1) (layer_hash (last st)) st"
      using prev layers_last by blast
    have "has_room s1" using counts_left_room [of 0] s1(2) by simp
    from save_new_state [where k = 2, OF inv1 this iter T st par] obtain s' where
      s': "bind next_count (\<lambda>h. andthen (save_state_from_diff iter h (?T - ?B) (?B - ?T) 2 st) (ret h)) s1 =
        (Inr (count s1 + 1), s')" "persists s1 s'" "has_state s' (count s1 + 1) ?T"
        "shorteventid_shortstatehash s' = shorteventid_shortstatehash s1" .
    have "append_to_state iter pdu s = (Inr (count s1 + 1), s')"
      unfolding run found Let_def if_not_P [OF False] diff by (rule s'(1))
    moreover have "describes R s' ?T (M(?x \<mapsto> event_id pdu))"
      using describes_mono [OF upd] persistsD(3,4) [OF s'(2)] by blast
    ultimately show thesis
      using that s'(3) persists_trans [OF s1(1) s'(2)] hash [OF s'(2,4)] by blast
  qed
qed

section \<open>The room state is a map\<close>

lemma room_state_set:
  fixes room :: room_id
  assumes "compressor_inv s" and "has_state s h T"
  defines "s' \<equiv> roomid_shortstatehash_update (kv_insert room (to_be_bytes h)) s"
  shows "compressor_inv s'" and "room_state s' room T"
    and "\<And>r B. r \<noteq> room \<Longrightarrow> room_state s r B \<Longrightarrow> room_state s' r B"
proof -
  have "diff_at (shortstatehash_statediff s) h \<noteq> None"
    using assms(2) layers_diff_at by (auto simp: has_state_def)
  with assms(1) show "compressor_inv s'" by (auto simp: compressor_inv_def cache_ok_def s'_def)
  show "room_state s' room T" using assms(2) by (simp add: room_state_def s'_def has_state_def)
  show "room_state s' r B" if "r \<noteq> room" "room_state s r B" for r B
    using that by (simp add: room_state_def s'_def has_state_def split: option.splits)
qed

lemma describes_rooms [simp]: "describes R (roomid_shortstatehash_update f s) T M = describes R s T M"
  by (simp add: describes_def)

text \<open>C7: A room's state refines a map from event type and state key to event id. Appending a state event
  and making the result current succeeds, updates the map at the event's type and key, leaves every other
  room alone, and every lookup returns what the map says; the state before the event stays on
  record as the event's own.\<close>
theorem room_state_refines:
  assumes "compressor_inv s" and "counts_left 4 s" and "iteration iter" and "room_map R s (room_id pdu) M"
    and "state_key pdu = Some key" and "utf8_valid (kind pdu)"
    and "utf8_valid (event_id pdu)" and "is_event_id R (event_id pdu)"
  shows "\<exists>h s'. bind (append_to_state iter pdu) (\<lambda>h. andthen (set_room_state (room_id pdu) h) (ret h)) s = (Inr h, s') \<and>
    compressor_inv s' \<and> room_map R s' (room_id pdu) (M((kind pdu, key) \<mapsto> event_id pdu)) \<and>
    (\<forall>ty k. utf8_valid ty \<longrightarrow>
       fst (room_state_get_id R iter (room_id pdu) ty k s') = Inr ((M((kind pdu, key) \<mapsto> event_id pdu)) (ty, k))) \<and>
    (\<forall>r M'. r \<noteq> room_id pdu \<longrightarrow> room_map R s r M' \<longrightarrow> room_map R s' r M') \<and>
    (\<forall>p. get_room_shortstatehash (room_id pdu) s = Inr (Some p) \<longrightarrow> pdu_shortstatehash (event_id pdu) s' = Inr (Some p))"
proof -
  let ?M = "M((kind pdu, key) \<mapsto> event_id pdu)"
  from append_state_event [OF assms(1,2,4,3,5) utf8_no_sep [OF assms(6)] assms(7,8)] obtain h T s1 where
    s1: "append_to_state iter pdu s = (Inr h, s1)" "persists s s1" "has_state s1 h T" "describes R s1 T ?M"
      "\<forall>p. get_room_shortstatehash (room_id pdu) s = Inr (Some p) \<longrightarrow> pdu_shortstatehash (event_id pdu) s1 = Inr (Some p)" .
  let ?s = "roomid_shortstatehash_update (kv_insert (room_id pdu) (to_be_bytes h)) s1"
  note set = room_state_set [OF persistsD(1) [OF s1(2)] s1(3), where room = "room_id pdu"]
  have run: "bind (append_to_state iter pdu) (\<lambda>h. andthen (set_room_state (room_id pdu) h) (ret h)) s = (Inr h, ?s)"
    by (simp add: bind_apply s1(1) set_room_state_def)
  have map: "room_map R ?s (room_id pdu) ?M" using set(2) s1(4) by (auto simp: room_map_def)
  have others: "room_map R ?s r M'" if "r \<noteq> room_id pdu" "room_map R s r M'" for r M'
    using room_map_persists [OF that(2) s1(2)] set(3) [OF that(1)] by (auto simp: room_map_def)
  have "pdu_shortstatehash (event_id pdu) ?s = pdu_shortstatehash (event_id pdu) s1"
    by (simp add: pdu_shortstatehash_def split: option.split)
  with run map others set(1) s1(5) room_state_get_id_map [OF set(1) map assms(3)] utf8_no_sep show ?thesis
    by (intro exI [of _ h] exI [of _ ?s]) simp
qed

lemma compressor_inv_init:
  "compressor_inv (statecache_init n)" "counts_left 4 (statecache_init n)" "room_map R (statecache_init n) r Map.empty"
  by (simp_all add: compressor_inv_def cache_ok_def states_ok_def diff_at_def short_inv_def id_table_def
      inverse_trees_def coherent_def rev_coherent_def statecache_init_defs counts_left_def count_def counter_at_def
      room_map_def room_state_def describes_def)

theorem room_state_refines_witness:
  "\<exists>h s'. bind (append_to_state sorted_list_of_set example_pdu)
       (\<lambda>h. andthen (set_room_state (room_id example_pdu) h) (ret h)) (statecache_init (ascii ''h'')) = (Inr h, s') \<and>
     fst (room_state_get_id example_ruma sorted_list_of_set (ascii ''!r:h'') (ascii ''m.room.member'') (ascii ''@u:h'') s') =
       Inr (Some (ascii ''$e''))"
proof -
  have pdu: "room_id example_pdu = ascii ''!r:h''" "state_key example_pdu = Some (ascii ''@u:h'')"
    "kind example_pdu = ascii ''m.room.member''" "event_id example_pdu = ascii ''$e''"
    by (simp_all add: example_pdu_def)
  have "utf8_valid (kind example_pdu)" "utf8_valid (event_id example_pdu)" "is_event_id example_ruma (event_id example_pdu)"
    by (simp_all add: pdu utf8_valid_ascii) (simp add: example_ruma_def ascii_simps)
  note example = room_state_refines [OF compressor_inv_init(1,2) iteration_sorted compressor_inv_init(3) pdu(2) this]
  from example [of "ascii ''h''"] obtain h s' where "bind (append_to_state sorted_list_of_set example_pdu)
       (\<lambda>h. andthen (set_room_state (room_id example_pdu) h) (ret h)) (statecache_init (ascii ''h'')) = (Inr h, s')"
    "\<forall>ty k. utf8_valid ty \<longrightarrow> fst (room_state_get_id example_ruma sorted_list_of_set (room_id example_pdu) ty k s') =
       Inr ((Map.empty((kind example_pdu, ascii ''@u:h'') \<mapsto> event_id example_pdu)) (ty, k))"
    by (elim exE conjE)
  then show ?thesis by (intro exI [of _ h] exI [of _ s']) (simp add: pdu utf8_valid_ascii)
qed

end
