(* ===== verification/DeviceKeys.thy ===== *)
theory DeviceKeys
  imports RoomState
begin

text \<open>
  Device keys and cross-signing keys (\<^verbatim>\<open>src/database/key_value/users.rs\<close>): uploading keys, signing
  them, reading them with the signatures one may see, and the log of key changes that the rooms of a
  user follow. Raw JSON is identified with its value. The key strings inside a cross-signing key,
  read by ruma, are the parameter \<open>key_values\<close>.
\<close>

section \<open>Operations\<close>

definition mark_room :: "serde \<Rightarrow> ruma \<Rightarrow> (bytes set \<Rightarrow> bytes list) \<Rightarrow> user_id \<Rightarrow> u64 \<Rightarrow> room_id \<Rightarrow> ('a statecache_db_scheme, unit) dop" where
  "mark_room J R iter user c room =
     bind (room_state_get J R iter room (ascii ''m.room.encryption'') []) (\<lambda>encryption.
     if encryption = None then ret ()
     else modify (keychangeid_userid_update (kv_insert (room @ sep # to_be_bytes c) user)))"

definition mark_device_key_update ::
    "serde \<Rightarrow> ruma \<Rightarrow> (bytes set \<Rightarrow> bytes list) \<Rightarrow> user_id \<Rightarrow> ('a statecache_db_scheme, unit) dop" where
  "mark_device_key_update J R iter user =
     bind next_count (\<lambda>c.
     bind (gets (\<lambda>s. oks (rooms_joined R user s))) (\<lambda>rooms.
     andthen (for_each rooms (mark_room J R iter user c))
     (modify (keychangeid_userid_update (kv_insert (user @ sep # to_be_bytes c) user)))))"

definition add_device_keys ::
    "serde \<Rightarrow> ruma \<Rightarrow> (bytes set \<Rightarrow> bytes list) \<Rightarrow> user_id \<Rightarrow> device_id \<Rightarrow> json \<Rightarrow> ('a statecache_db_scheme, unit) dop" where
  "add_device_keys J R iter user device keys =
     andthen (modify (keyid_key_update (kv_insert (userdeviceid user device) (json_print J keys))))
     (mark_device_key_update J R iter user)"

text \<open>The one key string of an uploaded cross-signing key; \<open>name\<close> is the kind of key in the messages.\<close>

definition single_key :: "(json \<Rightarrow> bytes list option) \<Rightarrow> string \<Rightarrow> string \<Rightarrow> json \<Rightarrow> bytes res" where
  "single_key key_values name Name key =
     (case key_values key of
        None \<Rightarrow> Inl (BadRequest InvalidParam (''Invalid '' @ name))
      | Some [] \<Rightarrow> Inl (BadRequest InvalidParam (Name @ '' contained no key.''))
      | Some [k] \<Rightarrow> Inr k
      | Some (_ # _ # _) \<Rightarrow> Inl (BadRequest InvalidParam (Name @ '' contained more than one key.'')))"

definition add_cross_signing_keys ::
    "serde \<Rightarrow> ruma \<Rightarrow> (bytes set \<Rightarrow> bytes list) \<Rightarrow> (json \<Rightarrow> bytes list option) \<Rightarrow> user_id \<Rightarrow> json \<Rightarrow> json option \<Rightarrow> json option \<Rightarrow>
     ('a statecache_db_scheme, unit) dop" where
  "add_cross_signing_keys J R iter key_values user master_key self_signing_key user_signing_key =
     bind (of_res (single_key key_values ''master key'' ''Master key'' master_key)) (\<lambda>k.
     andthen (modify (keyid_key_update (kv_insert (user @ sep # k) (json_print J master_key))))
     (andthen (modify (userid_masterkeyid_update (kv_insert user (user @ sep # k))))
     (andthen
       (case self_signing_key of
          None \<Rightarrow> ret ()
        | Some key \<Rightarrow>
            bind (of_res (single_key key_values ''self signing key'' ''Self signing key'' key)) (\<lambda>k.
            andthen (modify (keyid_key_update (kv_insert (user @ sep # k) (json_print J key))))
            (modify (userid_selfsigningkeyid_update (kv_insert user (user @ sep # k))))))
     (andthen
       (case user_signing_key of
          None \<Rightarrow> ret ()
        | Some key \<Rightarrow>
            bind (of_res (single_key key_values ''user signing key'' ''User signing key'' key)) (\<lambda>k.
            andthen (modify (keyid_key_update (kv_insert (user @ sep # k) (json_print J key))))
            (modify (userid_usersigningkeyid_update (kv_insert user (user @ sep # k))))))
     (mark_device_key_update J R iter user)))))"

text \<open>Adding a signature inside the stored JSON.\<close>

definition add_signature :: "user_id \<Rightarrow> bytes \<times> bytes \<Rightarrow> json \<Rightarrow> json res" where
  "add_signature sender_id signature key =
     (case json_get key (ascii ''signatures'') of
        None \<Rightarrow> Inl (BadDatabase ''key in keyid_key has no signatures field.'')
      | Some (JObj sigs) \<Rightarrow>
          (case (case obj_get sigs sender_id of None \<Rightarrow> JObj [] | Some v \<Rightarrow> v) of
             JObj mine \<Rightarrow>
               Inr (JObj (obj_insert (ascii ''signatures'')
                 (JObj (obj_insert sender_id (JObj (obj_insert (fst signature) (JStr (snd signature)) mine)) sigs))
                 (case key of JObj ob \<Rightarrow> ob | _ \<Rightarrow> [])))
           | _ \<Rightarrow> Inl (BadDatabase ''signatures in keyid_key for a user is invalid.''))
      | Some _ \<Rightarrow> Inl (BadDatabase ''key in keyid_key has invalid signatures field.''))"

definition sign_key ::
    "serde \<Rightarrow> ruma \<Rightarrow> (bytes set \<Rightarrow> bytes list) \<Rightarrow> user_id \<Rightarrow> bytes \<Rightarrow> bytes \<times> bytes \<Rightarrow> user_id \<Rightarrow> ('a statecache_db_scheme, unit) dop" where
  "sign_key J R iter target key_id signature sender_id =
     (let key = target @ sep # key_id in
      bind (reads (\<lambda>s. ok_or (BadRequest InvalidParam ''Tried to sign nonexistent key.'') (kv_get (keyid_key s) key))) (\<lambda>b.
      bind (of_res (ok_or (BadDatabase ''key in keyid_key is invalid.'') (json_parse J b))) (\<lambda>cross_signing_key.
      bind (of_res (add_signature sender_id signature cross_signing_key)) (\<lambda>signed.
      andthen (modify (keyid_key_update (kv_insert key (json_print J signed))))
      (mark_device_key_update J R iter target)))))"

text \<open>The count in a change key, behind the first separator.\<close>

definition change_count :: "bytes \<Rightarrow> u64 option" where
  "change_count k = Option.bind (nth_part 1 (splitn_sep 2 k)) (\<lambda>b. res_ok (u64_from_bytes b))"

definition keys_changed :: "ruma \<Rightarrow> bytes \<Rightarrow> u64 \<Rightarrow> u64 option \<Rightarrow> 'a users_db_scheme \<Rightarrow> user_id res list" where
  "keys_changed R user_or_room from_count to s =
     (let prefx = user_or_room @ [sep]; last = (case to of None \<Rightarrow> -1 | Some t \<Rightarrow> t) in
      map (\<lambda>(_, b). id_from_bytes (is_user_id R) ''User ID in devicekeychangeid_userid is invalid unicode.''
             ''User ID in devicekeychangeid_userid is invalid.'' b)
        (takeWhile (\<lambda>(k, _). prefix prefx k \<and> (case change_count k of None \<Rightarrow> False | Some c \<Rightarrow> c \<le> last))
          (kv_iter_from (prefx @ to_be_bytes (from_count + 1)) False (keychangeid_userid s))))"

definition get_device_keys :: "serde \<Rightarrow> user_id \<Rightarrow> device_id \<Rightarrow> 'a users_db_scheme \<Rightarrow> json option res" where
  "get_device_keys J user device s =
     decode_json ''DeviceKeys in db are invalid.'' (json_parse J) (kv_get (keyid_key s) (userdeviceid user device))"

text \<open>The key an id points to, with the signatures the reader may see.\<close>

definition cleaned_key :: "serde \<Rightarrow> ruma \<Rightarrow> (user_id \<Rightarrow> bool) \<Rightarrow> user_id \<Rightarrow> bytes option \<Rightarrow> kv_tree \<Rightarrow> json option res" where
  "cleaned_key J R allowed user key_id keys =
     (case key_id of
        None \<Rightarrow> Inr None
      | Some k \<Rightarrow>
          bind_res (decode_json ''CrossSigningKey in db is invalid.'' (json_parse J) (kv_get keys k)) (\<lambda>found.
          case found of
            None \<Rightarrow> Inr None
          | Some key \<Rightarrow> map_res Some (clean_signatures R allowed user key)))"

definition get_master_key :: "serde \<Rightarrow> ruma \<Rightarrow> (user_id \<Rightarrow> bool) \<Rightarrow> user_id \<Rightarrow> 'a users_db_scheme \<Rightarrow> json option res" where
  "get_master_key J R allowed user s =
     cleaned_key J R allowed user (kv_get (userid_masterkeyid s) user) (keyid_key s)"

definition get_self_signing_key :: "serde \<Rightarrow> ruma \<Rightarrow> (user_id \<Rightarrow> bool) \<Rightarrow> user_id \<Rightarrow> 'a users_db_scheme \<Rightarrow> json option res" where
  "get_self_signing_key J R allowed user s =
     cleaned_key J R allowed user (kv_get (userid_selfsigningkeyid s) user) (keyid_key s)"

definition get_user_signing_key :: "serde \<Rightarrow> user_id \<Rightarrow> 'a users_db_scheme \<Rightarrow> json option res" where
  "get_user_signing_key J user s =
     (case kv_get (userid_usersigningkeyid s) user of
        None \<Rightarrow> Inr None
      | Some k \<Rightarrow> decode_json ''CrossSigningKey in db is invalid.'' (json_parse J) (kv_get (keyid_key s) k))"

section \<open>The log of key changes\<close>

text \<open>Every entry is an id, a separator and a count that has been handed out.\<close>

definition keychange_inv :: "ruma \<Rightarrow> 'a users_db_scheme \<Rightarrow> bool" where
  "keychange_inv R s \<longleftrightarrow> (\<forall>k v. kv_get (keychangeid_userid s) k = Some v \<longrightarrow>
     (\<exists>i n. k = i @ sep # to_be_bytes n \<and> sep \<notin> set i \<and> n \<le> count s) \<and> utf8_valid v \<and> is_user_id R v)"

lemma change_count_key [simp]: "sep \<notin> set i \<Longrightarrow> change_count (i @ sep # to_be_bytes n) = Some n"
  by (simp add: change_count_def splitn_sep_2 nth_part_def)

lemma takeWhile_conj: "takeWhile (\<lambda>x. P x \<and> Q x) xs = takeWhile Q (takeWhile P xs)"
  by (induction xs) auto

lemma takeWhile_filter_mono:
  assumes "sorted_wrt (\<lambda>x y. Q y \<longrightarrow> Q x) xs"
  shows "takeWhile Q xs = filter Q xs"
  using assms
proof (induction xs)
  case (Cons x xs)
  have "filter Q xs = []" if "\<not> Q x" using Cons.prems that by (auto simp: filter_empty_conv)
  with Cons show ?case by simp
qed simp

lemma keys_changed_view:
  assumes inv: "keychange_inv R s" and i: "sep \<notin> set i" and c: "c \<noteq> -1"
  shows "keys_changed R i c to s =
    map (\<lambda>e. Inr (snd e)) (filter (\<lambda>e. c < key_count (i @ [sep]) (fst e) \<and>
      key_count (i @ [sep]) (fst e) \<le> (case to of None \<Rightarrow> -1 | Some t \<Rightarrow> t)) (kv_scan_prefix (i @ [sep]) (keychangeid_userid s)))"
proof -
  let ?t = "keychangeid_userid s" and ?p = "i @ [sep]" and ?last = "case to of None \<Rightarrow> -1 | Some t \<Rightarrow> t"
  have key: "\<exists>n. fst e = ?p @ to_be_bytes n" if "prefix ?p (fst e)" "kv_get ?t (fst e) = Some v" for e :: "bytes \<times> bytes" and v
  proof -
    from inv that(2) obtain j n where j: "fst e = j @ sep # to_be_bytes n" "sep \<notin> set j"
      unfolding keychange_inv_def by blast
    with that(1) i have "j = i" by (simp add: sep_join_prefix)
    with j show ?thesis by simp
  qed
  have cnt: "counted ?p ?t"
    unfolding counted_def
  proof (intro allI impI)
    fix k v
    assume "kv_get ?t k = Some v" "prefix ?p k"
    with key [of "(k, v)" v] show "\<exists>n x. k = ?p @ to_be_bytes n @ x" by auto
  qed
  let ?es = "filter (\<lambda>e. prefix ?p (fst e) \<and> c < key_count ?p (fst e)) (kv_iter ?t)"
  have es: "\<exists>n v. e = (?p @ to_be_bytes n, v)" if "e \<in> set ?es" for e
  proof -
    obtain k v where kv [simp]: "e = (k, v)" by fastforce
    from that have "kv_get ?t k = Some v" "prefix ?p k" by (simp_all add: kv_iter_get)
    with key [of e v] show ?thesis by simp
  qed
  have Q: "(case change_count (fst e) of None \<Rightarrow> False | Some n \<Rightarrow> n \<le> ?last) \<longleftrightarrow> key_count ?p (fst e) \<le> ?last"
    if "e \<in> set ?es" for e
  proof -
    from es [OF that] obtain n v where e: "e = (?p @ to_be_bytes n, v)" by blast
    show ?thesis unfolding e using change_count_key [OF i, of n] key_count_append(2) [of ?p n] by simp
  qed
  have "sorted_wrt (<) (map fst ?es)"
    using kv.iter_ascending [of ?t] by (simp add: sorted_wrt_map sorted_wrt_filter)
  then have "sorted_wrt (\<lambda>x y. key_count ?p (fst y) \<le> ?last \<longrightarrow> key_count ?p (fst x) \<le> ?last) ?es"
    unfolding sorted_wrt_map
  proof (rule sorted_wrt_mono_rel [rotated])
    fix x y
    assume "x \<in> set ?es" "y \<in> set ?es" "fst x < fst y"
    moreover from this(1,2) obtain n v m w where "x = (?p @ to_be_bytes n, v)" "y = (?p @ to_be_bytes m, w)"
      using es by blast
    ultimately have "key_count ?p (fst x) < key_count ?p (fst y)"
      using key_count_append(2) [of ?p n] key_count_append(2) [of ?p m] append_less_cancel [of ?p]
      by (simp add: to_be_bytes_less_iff)
    then show "key_count ?p (fst y) \<le> ?last \<longrightarrow> key_count ?p (fst x) \<le> ?last" by auto
  qed
  then have last: "takeWhile (\<lambda>e. key_count ?p (fst e) \<le> ?last) ?es = filter (\<lambda>e. key_count ?p (fst e) \<le> ?last) ?es"
    by (rule takeWhile_filter_mono)
  have "takeWhile (\<lambda>(k, _). prefix ?p k \<and> (case change_count k of None \<Rightarrow> False | Some n \<Rightarrow> n \<le> ?last))
      (kv_iter_from (?p @ to_be_bytes (c + 1)) False ?t) =
    takeWhile (\<lambda>e. case change_count (fst e) of None \<Rightarrow> False | Some n \<Rightarrow> n \<le> ?last) ?es"
    unfolding case_prod_beta takeWhile_conj counted_since [OF cnt c] ..
  also have "\<dots> = filter (\<lambda>e. key_count ?p (fst e) \<le> ?last) ?es"
    unfolding last [symmetric] by (rule takeWhile_cong [OF refl]) (rule Q)
  also have "\<dots> = filter (\<lambda>e. c < key_count ?p (fst e) \<and> key_count ?p (fst e) \<le> ?last) (kv_scan_prefix ?p ?t)"
    by (auto simp: kv_scan_prefix_filter intro!: filter_cong)
  finally have eq: "takeWhile (\<lambda>(k, _). prefix ?p k \<and> (case change_count k of None \<Rightarrow> False | Some n \<Rightarrow> n \<le> ?last))
      (kv_iter_from (?p @ to_be_bytes (c + 1)) False ?t) =
    filter (\<lambda>e. c < key_count ?p (fst e) \<and> key_count ?p (fst e) \<le> ?last) (kv_scan_prefix ?p ?t)" .
  have ids: "id_from_bytes (is_user_id R) m m' v = Inr v" if "(k, v) \<in> set (kv_scan_prefix ?p ?t)" for k v m m'
    using that inv by (auto simp: keychange_inv_def set_kv_scan_prefix)
  show ?thesis
    unfolding keys_changed_def Let_def eq by (auto simp: ids)
qed

text \<open>What marking writes: one entry for each id it is announced to.\<close>

definition announce :: "u64 \<Rightarrow> user_id \<Rightarrow> bytes list \<Rightarrow> kv_tree \<Rightarrow> kv_tree" where
  "announce c user ids = fold (\<lambda>i. kv_insert (i @ sep # to_be_bytes c) user) ids"

lemma kv_get_announce:
  "kv_get (announce c user ids t) k = (if \<exists>i \<in> set ids. k = i @ sep # to_be_bytes c then Some user else kv_get t k)"
  by (induction ids arbitrary: t) (auto simp: announce_def)

lemma announce_append: "announce c user (ids @ ids') t = announce c user ids' (announce c user ids t)"
  by (simp add: announce_def)

lemma keychange_count [simp]: "count (keychangeid_userid_update f s) = count s"
  by (simp add: count_def)

lemma bump_keychange [simp]: "keychangeid_userid (bump s) = keychangeid_userid s"
  by (simp add: bump_def)

interpretation changes: state_read_frame "\<lambda>s. (keychangeid_userid s, count s)"
  by unfold_locales (simp_all add: count_def)

lemma mark_room_announces:
  "\<exists>ids. set ids \<subseteq> {room} \<and> keychangeid_userid (snd (mark_room J R iter user c room s)) = announce c user ids (keychangeid_userid s) \<and>
    count (snd (mark_room J R iter user c room s)) = count s"
proof -
  obtain r s' where r: "room_state_get J R iter room (ascii ''m.room.encryption'') [] s = (r, s')" by fastforce
  from keeps_result [OF changes.keeps_room_state_get this]
  have s': "keychangeid_userid s' = keychangeid_userid s" "count s' = count s" by simp_all
  consider e where "r = Inl e" | "r = Inr None" | p where "r = Inr (Some p)"
    by (metis sum.exhaust option.exhaust)
  then show ?thesis
  proof cases
    case 3
    then show ?thesis
      by (intro exI [of _ "[room]"]) (simp add: mark_room_def bind_apply r s' announce_def)
  qed (intro exI [of _ "[]"], simp add: mark_room_def bind_apply r s' announce_def)+
qed

lemma mark_rooms_announce:
  "\<exists>ids. set ids \<subseteq> set rooms \<and>
    keychangeid_userid (snd (for_each rooms (mark_room J R iter user c) s)) = announce c user ids (keychangeid_userid s) \<and>
    count (snd (for_each rooms (mark_room J R iter user c) s)) = count s"
proof (induction rooms arbitrary: s)
  case Nil
  show ?case by (intro exI [of _ "[]"]) (simp add: announce_def)
next
  case (Cons room rooms)
  obtain r s1 where r: "mark_room J R iter user c room s = (r, s1)" by fastforce
  from mark_room_announces [of room J R iter user c s] r obtain ids where
    ids: "set ids \<subseteq> {room}" "keychangeid_userid s1 = announce c user ids (keychangeid_userid s)" "count s1 = count s" by auto
  show ?case
  proof (cases r)
    case (Inl e)
    with r ids show ?thesis by (intro exI [of _ ids]) (auto simp: bind_apply)
  next
    case (Inr x)
    from Cons.IH [of s1] obtain ids' where "set ids' \<subseteq> set rooms"
      "keychangeid_userid (snd (for_each rooms (mark_room J R iter user c) s1)) = announce c user ids' (keychangeid_userid s1)"
      "count (snd (for_each rooms (mark_room J R iter user c) s1)) = count s1" by (elim exE conjE)
    with Inr r ids show ?thesis
      by (intro exI [of _ "ids @ ids'"]) (auto simp: bind_apply announce_append)
  qed
qed

lemma scan_announce:
  assumes "\<And>k v. kv_get t k = Some v \<Longrightarrow> \<exists>j n. k = j @ sep # to_be_bytes n \<and> sep \<notin> set j \<and> n < c"
    and "sep \<notin> set i" and "\<forall>j \<in> set ids. sep \<notin> set j"
  shows "kv_scan_prefix (i @ [sep]) (announce c user ids t) =
    kv_scan_prefix (i @ [sep]) t @ (if i \<in> set ids then [(i @ sep # to_be_bytes c, user)] else [])"
proof (rule entries_equal)
  have "k < i @ sep # to_be_bytes c" if k: "kv_get t k = Some v" "prefix (i @ [sep]) k" for k v
  proof -
    from assms(1) [OF k(1)] obtain j n where j: "k = j @ sep # to_be_bytes n" "sep \<notin> set j" "n < c" by blast
    with k(2) assms(2) have "j = i" by (simp add: sep_join_prefix)
    with j(1,3) show ?thesis using append_less_cancel [of "i @ [sep]"] by (simp add: to_be_bytes_less_iff)
  qed
  then show "sorted_wrt (<) (map fst (kv_scan_prefix (i @ [sep]) t @
      (if i \<in> set ids then [(i @ sep # to_be_bytes c, user)] else [])))"
    using sorted_kv_scan_prefix [of "i @ [sep]" t] by (auto simp: sorted_wrt_append set_kv_scan_prefix)
  have fresh: "kv_get t (j @ sep # to_be_bytes c) = None" if "sep \<notin> set j" for j
  proof (cases "kv_get t (j @ sep # to_be_bytes c)")
    case (Some v)
    from assms(1) [OF Some] that show ?thesis by (auto simp: sep_join_inject)
  qed
  show "set (kv_scan_prefix (i @ [sep]) (announce c user ids t)) = set (kv_scan_prefix (i @ [sep]) t @
      (if i \<in> set ids then [(i @ sep # to_be_bytes c, user)] else []))"
    using assms(2,3) fresh by (auto simp: set_kv_scan_prefix kv_get_announce sep_join_prefix split: if_splits)
qed (rule sorted_kv_scan_prefix)

lemma rooms_joined_sep: "room \<in> set (oks (rooms_joined R user s)) \<Longrightarrow> sep \<notin> set room"
  by (auto simp: set_oks rooms_joined_def ids_of_scan_def id_from_bytes_def string_from_bytes_def parse_id_def
      bind_res_def map_err_def utf8_no_sep split: if_splits sum.splits)

lemma mark_device_key_update_announces:
  assumes "mark_device_key_update J R iter user s = (Inr (), s')"
  obtains rooms where "set rooms \<subseteq> set (oks (rooms_joined R user s))"
    and "keychangeid_userid s' = announce (count s + 1) user (rooms @ [user]) (keychangeid_userid s)"
    and "count s' = count s + 1"
proof -
  let ?rooms = "oks (rooms_joined R user s)" and ?c = "count s + 1"
  have joined: "rooms_joined R user (bump s) = rooms_joined R user s" by (simp add: rooms_joined_def bump_def)
  obtain r s1 where r: "for_each ?rooms (mark_room J R iter user ?c) (bump s) = (r, s1)" by fastforce
  from mark_rooms_announce [of ?rooms J R iter user ?c "bump s"] r obtain ids where
    ids: "set ids \<subseteq> set ?rooms" "keychangeid_userid s1 = announce ?c user ids (keychangeid_userid s)" "count s1 = ?c"
    by auto
  from assms r have "r = Inr () \<and> s' = keychangeid_userid_update (kv_insert (user @ sep # to_be_bytes ?c) user) s1"
    by (cases r) (simp_all add: mark_device_key_update_def bind_ok [OF next_count_bump] joined andthen_def bind_apply)
  with ids show thesis
    by (intro that [of ids]) (simp_all add: announce_append, simp_all add: announce_def)
qed



end
