(* ===== verification/KeyBackups.thy ===== *)
theory KeyBackups
  imports DeviceKeys
begin

text \<open>
  Key backups (\<^verbatim>\<open>src/database/key_value/key_backups.rs\<close>): backup versions with their algorithm and
  etag, and the backed-up session keys below user, version and room. Raw JSON is identified with
  its value.
\<close>

record keybackups_db = statecache_db +
  backupid_algorithm :: kv_tree
  backupid_etag :: kv_tree
  backupkeyid_backup :: kv_tree

section \<open>Decimal numbers\<close>

text \<open>\<^verbatim>\<open>u64::to_string\<close>\<close>

fun decimal_nat :: "nat \<Rightarrow> bytes" where
  "decimal_nat n = (if n < 10 then [of_nat (48 + n)] else decimal_nat (n div 10) @ [of_nat (48 + n mod 10)])"

declare decimal_nat.simps [simp del]

definition decimal :: "u64 \<Rightarrow> bytes" where
  "decimal n = decimal_nat (unat n)"

section \<open>Backups\<close>

definition backup_id :: "user_id \<Rightarrow> bytes \<Rightarrow> bytes" where
  "backup_id user version = user @ sep # version"

definition create_backup :: "serde \<Rightarrow> user_id \<Rightarrow> json \<Rightarrow> ('a keybackups_db_scheme, bytes) dop" where
  "create_backup J user metadata =
     bind next_count (\<lambda>n.
     let version = decimal n; key = backup_id user version in
     andthen (modify (backupid_algorithm_update (kv_insert key (json_print J metadata))))
     (bind next_count (\<lambda>etag.
     andthen (modify (backupid_etag_update (kv_insert key (to_be_bytes etag))))
     (ret version))))"

definition delete_backup :: "user_id \<Rightarrow> bytes \<Rightarrow> ('a keybackups_db_scheme, unit) dop" where
  "delete_backup user version =
     (let key = backup_id user version in
      andthen (modify (backupid_algorithm_update (kv_remove key)))
      (andthen (modify (backupid_etag_update (kv_remove key)))
      (modify (backupkeyid_backup_update (kv_remove_prefix (key @ [sep]))))))"

definition update_backup :: "serde \<Rightarrow> user_id \<Rightarrow> bytes \<Rightarrow> json \<Rightarrow> ('a keybackups_db_scheme, bytes) dop" where
  "update_backup J user version metadata =
     (let key = backup_id user version in
      bind (gets (\<lambda>s. kv_get (backupid_algorithm s) key)) (\<lambda>found.
      if found = None then fail (BadRequest NotFound ''Tried to update nonexistent backup.'')
      else
        andthen (modify (backupid_algorithm_update (kv_insert key (json_print J metadata))))
        (bind next_count (\<lambda>etag.
        andthen (modify (backupid_etag_update (kv_insert key (to_be_bytes etag))))
        (ret version)))))"

text \<open>The entry the two lookups of the latest backup start from.\<close>

definition latest_entry :: "user_id \<Rightarrow> 'a keybackups_db_scheme \<Rightarrow> (bytes \<times> bytes) option" where
  "latest_entry user s =
     (let prefx = user @ [sep] in
      case takeWhile (\<lambda>e. prefix prefx (fst e))
             (kv_iter_from (prefx @ to_be_bytes (-1)) True (backupid_algorithm s)) of
        [] \<Rightarrow> None
      | e # _ \<Rightarrow> Some e)"

definition get_latest_backup_version :: "user_id \<Rightarrow> 'a keybackups_db_scheme \<Rightarrow> bytes option res" where
  "get_latest_backup_version user s =
     transpose_opt (map_option (\<lambda>e.
       map_err (BadDatabase ''backupid_algorithm key is invalid.'') (string_from_bytes (rsplit_last (fst e))))
       (latest_entry user s))"

definition get_latest_backup :: "serde \<Rightarrow> user_id \<Rightarrow> 'a keybackups_db_scheme \<Rightarrow> (bytes \<times> json) option res" where
  "get_latest_backup J user s =
     transpose_opt (map_option (\<lambda>e.
       bind_res (map_err (BadDatabase ''backupid_algorithm key is invalid.'') (string_from_bytes (rsplit_last (fst e)))) (\<lambda>version.
       map_res (\<lambda>alg. (version, alg))
         (ok_or (BadDatabase ''Algorithm in backupid_algorithm is invalid.'') (json_parse J (snd e)))))
       (latest_entry user s))"

text \<open>The stored bytes are parsed as an optional value, so JSON null reads as no backup.\<close>

definition get_backup :: "serde \<Rightarrow> user_id \<Rightarrow> bytes \<Rightarrow> 'a keybackups_db_scheme \<Rightarrow> json option res" where
  "get_backup J user version s =
     (case kv_get (backupid_algorithm s) (backup_id user version) of
        None \<Rightarrow> Inr None
      | Some b \<Rightarrow>
          (case json_parse J b of
             None \<Rightarrow> Inl (BadDatabase ''Algorithm in backupid_algorithm is invalid.'')
           | Some JNull \<Rightarrow> Inr None
           | Some j \<Rightarrow> Inr (Some j)))"

section \<open>Session keys\<close>

definition session_key :: "user_id \<Rightarrow> bytes \<Rightarrow> room_id \<Rightarrow> bytes \<Rightarrow> bytes" where
  "session_key user version room sess = backup_id user version @ sep # room @ sep # sess"

definition add_key :: "serde \<Rightarrow> user_id \<Rightarrow> bytes \<Rightarrow> room_id \<Rightarrow> bytes \<Rightarrow> json \<Rightarrow> ('a keybackups_db_scheme, unit) dop" where
  "add_key J user version room sess key_data =
     (let key = backup_id user version in
      bind (gets (\<lambda>s. kv_get (backupid_algorithm s) key)) (\<lambda>found.
      if found = None then fail (BadRequest NotFound ''Tried to update nonexistent backup.'')
      else
        bind next_count (\<lambda>etag.
        andthen (modify (backupid_etag_update (kv_insert key (to_be_bytes etag))))
        (modify (backupkeyid_backup_update (kv_insert (session_key user version room sess) (json_print J key_data)))))))"

definition count_keys :: "user_id \<Rightarrow> bytes \<Rightarrow> 'a keybackups_db_scheme \<Rightarrow> nat res" where
  "count_keys user version s = Inr (length (kv_scan_prefix (backup_id user version) (backupkeyid_backup s)))"

definition get_etag :: "user_id \<Rightarrow> bytes \<Rightarrow> 'a keybackups_db_scheme \<Rightarrow> bytes res" where
  "get_etag user version s =
     bind_res (ok_or (BadDatabase ''Backup has no etag.'') (kv_get (backupid_etag s) (backup_id user version))) (\<lambda>b.
     map_res decimal (map_err (BadDatabase ''etag in backupid_etag invalid.'') (u64_from_bytes b)))"

definition session_entry :: "serde \<Rightarrow> bytes \<times> bytes \<Rightarrow> (bytes \<times> json) res" where
  "session_entry J e =
     bind_res (ok_or (BadDatabase ''backupkeyid_backup key is invalid.'') (nth_part 0 (rsplit_sep (fst e)))) (\<lambda>b.
     bind_res (map_err (BadDatabase ''backupkeyid_backup session_id is invalid.'') (string_from_bytes b)) (\<lambda>sess.
     map_res (\<lambda>j. (sess, j))
       (ok_or (BadDatabase ''KeyBackupData in backupkeyid_backup is invalid.'') (json_parse J (snd e)))))"

definition room_session_entry :: "serde \<Rightarrow> ruma \<Rightarrow> bytes \<times> bytes \<Rightarrow> (room_id \<times> bytes \<times> json) res" where
  "room_session_entry J R e =
     (let parts = rsplit_sep (fst e) in
      bind_res (ok_or (BadDatabase ''backupkeyid_backup key is invalid.'') (nth_part 0 parts)) (\<lambda>b.
      bind_res (map_err (BadDatabase ''backupkeyid_backup session_id is invalid.'') (string_from_bytes b)) (\<lambda>sess.
      bind_res (ok_or (BadDatabase ''backupkeyid_backup key is invalid.'') (nth_part 1 parts)) (\<lambda>b.
      bind_res (id_from_bytes (is_room_id R) ''backupkeyid_backup room_id is invalid.''
        ''backupkeyid_backup room_id is invalid room id.'' b) (\<lambda>room.
      map_res (\<lambda>j. (room, sess, j))
        (ok_or (BadDatabase ''KeyBackupData in backupkeyid_backup is invalid.'') (json_parse J (snd e))))))))"

text \<open>\<^verbatim>\<open>rooms.entry(room).or_insert_with(empty).sessions.insert(sess, data)\<close>\<close>

definition insert_session ::
    "room_id \<times> bytes \<times> json \<Rightarrow> (room_id \<Rightarrow> (bytes \<Rightarrow> json option) option) \<Rightarrow> (room_id \<Rightarrow> (bytes \<Rightarrow> json option) option)" where
  "insert_session e rooms =
     (case e of (room, sess, j) \<Rightarrow>
       rooms(room \<mapsto> (case rooms room of None \<Rightarrow> Map.empty | Some m \<Rightarrow> m)(sess \<mapsto> j)))"

definition get_all :: "serde \<Rightarrow> ruma \<Rightarrow> user_id \<Rightarrow> bytes \<Rightarrow> 'a keybackups_db_scheme \<Rightarrow> (room_id \<Rightarrow> (bytes \<Rightarrow> json option) option) res" where
  "get_all J R user version s =
     map_res (\<lambda>es. fold insert_session es Map.empty)
       (collect_res (map (room_session_entry J R) (kv_scan_prefix (backup_id user version @ [sep]) (backupkeyid_backup s))))"

definition get_room :: "serde \<Rightarrow> user_id \<Rightarrow> bytes \<Rightarrow> room_id \<Rightarrow> 'a keybackups_db_scheme \<Rightarrow> (bytes \<Rightarrow> json option) res" where
  "get_room J user version room s =
     Inr (map_of (rev (oks (map (session_entry J)
       (kv_scan_prefix (backup_id user version @ sep # room @ [sep]) (backupkeyid_backup s))))))"

definition get_session :: "serde \<Rightarrow> user_id \<Rightarrow> bytes \<Rightarrow> room_id \<Rightarrow> bytes \<Rightarrow> 'a keybackups_db_scheme \<Rightarrow> json option res" where
  "get_session J user version room sess s =
     decode_json ''KeyBackupData in backupkeyid_backup is invalid.'' (json_parse J)
       (kv_get (backupkeyid_backup s) (session_key user version room sess))"

definition delete_all_keys :: "user_id \<Rightarrow> bytes \<Rightarrow> ('a keybackups_db_scheme, unit) dop" where
  "delete_all_keys user version = modify (backupkeyid_backup_update (kv_remove_prefix (backup_id user version @ [sep])))"

definition delete_room_keys :: "user_id \<Rightarrow> bytes \<Rightarrow> room_id \<Rightarrow> ('a keybackups_db_scheme, unit) dop" where
  "delete_room_keys user version room =
     modify (backupkeyid_backup_update (kv_remove_prefix (backup_id user version @ sep # room @ [sep])))"

definition delete_room_key :: "user_id \<Rightarrow> bytes \<Rightarrow> room_id \<Rightarrow> bytes \<Rightarrow> ('a keybackups_db_scheme, unit) dop" where
  "delete_room_key user version room sess =
     modify (backupkeyid_backup_update (kv_remove_prefix (session_key user version room sess)))"

section \<open>The stored sessions as a map\<close>

definition session_ids :: "user_id \<times> bytes \<times> room_id \<times> bytes \<Rightarrow> bool" where
  "session_ids x = (case x of (u, v, r, i) \<Rightarrow> utf8_valid u \<and> utf8_valid v \<and> utf8_valid r \<and> utf8_valid i)"

definition backup_inv :: "serde \<Rightarrow> 'a keybackups_db_scheme \<Rightarrow> bool" where
  "backup_inv J s \<longleftrightarrow> (\<forall>k b. kv_get (backupkeyid_backup s) k = Some b \<longrightarrow>
     (\<exists>u v r i j. k = session_key u v r i \<and> session_ids (u, v, r, i) \<and> json_parse J b = Some j))"

definition backup_view :: "serde \<Rightarrow> 'a keybackups_db_scheme \<Rightarrow> user_id \<times> bytes \<times> room_id \<times> bytes \<Rightarrow> json option" where
  "backup_view J s x = (case x of (u, v, r, i) \<Rightarrow>
     Option.bind (kv_get (backupkeyid_backup s) (session_key u v r i)) (json_parse J))"

lemma session_key_inject:
  assumes "session_ids (u, v, r, i)" and "session_ids (u', v', r', i')"
  shows "session_key u v r i = session_key u' v' r' i' \<longleftrightarrow> (u, v, r, i) = (u', v', r', i')"
  using assms by (simp add: session_key_def backup_id_def session_ids_def sep_join_inject utf8_no_sep)

lemma session_key_prefix:
  assumes "utf8_valid u" "utf8_valid v" "utf8_valid r" and "session_ids (u', v', r', i')"
  shows "prefix (session_key u v r i) (session_key u' v' r' i') \<longleftrightarrow> (u, v, r) = (u', v', r') \<and> prefix i i'"
proof -
  have "session_key u' v' r' i' = session_key u v r i @ zs \<longleftrightarrow> (u, v, r) = (u', v', r') \<and> i' = i @ zs" for zs
    using assms by (auto simp: session_key_def backup_id_def session_ids_def sep_join_inject utf8_no_sep)
  then show ?thesis by (auto simp: prefix_def)
qed

lemma backup_view_None:
  assumes "backup_inv J s" and "utf8_valid u" "utf8_valid v" "utf8_valid r" "\<not> utf8_valid i"
  shows "backup_view J s (u, v, r, i) = None"
proof (cases "kv_get (backupkeyid_backup s) (session_key u v r i)")
  case (Some b)
  with assms(1) obtain u' v' r' i' where *: "session_key u v r i = session_key u' v' r' i'" "session_ids (u', v', r', i')"
    unfolding backup_inv_def by blast
  then have "prefix (session_key u v r i) (session_key u' v' r' i')" by simp
  with assms(2-4) *(2) have "(u, v, r) = (u', v', r')" by (simp add: session_key_prefix)
  with * assms(5) show ?thesis by (simp add: session_key_def session_ids_def)
qed (simp add: backup_view_def)

lemma get_session_view:
  assumes "backup_inv J s"
  shows "get_session J u v r i s = Inr (backup_view J s (u, v, r, i))"
proof (cases "kv_get (backupkeyid_backup s) (session_key u v r i)")
  case (Some b)
  with assms obtain j where "json_parse J b = Some j" unfolding backup_inv_def by blast
  with Some show ?thesis by (simp add: get_session_def backup_view_def decode_json_def)
qed (simp add: get_session_def backup_view_def decode_json_def)

lemma option_eqI: "(\<And>y. x = Some y \<longleftrightarrow> x' = Some y) \<Longrightarrow> x = x'"
  by (cases x; cases x') auto

lemma get_room_view:
  assumes inv: "backup_inv J s" and ids: "utf8_valid u" "utf8_valid v" "utf8_valid r"
  shows "get_room J u v r s = Inr (\<lambda>i. backup_view J s (u, v, r, i))"
proof -
  let ?p = "backup_id u v @ sep # r @ [sep]" and ?t = "backupkeyid_backup s"
  let ?A = "{(i, b). kv_get ?t (session_key u v r i) = Some b}"
  let ?es = "kv_scan_prefix ?p ?t"
  have key: "session_key u v r i = ?p @ i" for i by (simp add: session_key_def)
  have es: "set ?es = (\<lambda>(i, b). (session_key u v r i, b)) ` ?A"
  proof (intro set_eqI)
    fix e :: "bytes \<times> bytes"
    obtain k b where e [simp]: "e = (k, b)" by fastforce
    show "e \<in> set ?es \<longleftrightarrow> e \<in> (\<lambda>(i, b). (session_key u v r i, b)) ` ?A"
      by (auto simp: set_kv_scan_prefix key prefix_def image_iff)
  qed
  have ok: "utf8_valid i \<and> (\<exists>j. json_parse J b = Some j)" if "(i, b) \<in> ?A" for i b
  proof -
    from that inv obtain u' v' r' i' j where *: "session_key u v r i = session_key u' v' r' i'"
      "session_ids (u', v', r', i')" "json_parse J b = Some j" unfolding backup_inv_def by blast
    from *(1) have "prefix (session_key u v r i) (session_key u' v' r' i')" by simp
    with ids *(2) have "(u, v, r) = (u', v', r')" by (simp add: session_key_prefix)
    with * show ?thesis by (simp add: session_key_def session_ids_def)
  qed
  have entry: "session_entry J (session_key u v r i, b) = Inr (i, the (json_parse J b))" if "(i, b) \<in> ?A" for i b
    using ok [OF that] ids
    by (auto simp: session_entry_def session_key_def backup_id_def rsplit_sep_def nth_part_def
        split_sep_append split_sep_nosep utf8_no_sep)
  have "map (session_entry J) ?es = map (\<lambda>e. Inr (drop (length ?p) (fst e), the (json_parse J (snd e)))) ?es"
    using entry unfolding es map_eq_conv by (auto simp: key)
  then have "oks (map (session_entry J) ?es) = map (\<lambda>e. (drop (length ?p) (fst e), the (json_parse J (snd e)))) ?es"
    by (simp only: oks_Inr)
  moreover have "map_of (rev (map (\<lambda>e. (drop (length ?p) (fst e), the (json_parse J (snd e)))) ?es)) i = backup_view J s (u, v, r, i)" for i
  proof -
    have "distinct ?es" using sorted_kv_scan_prefix [of ?p ?t] by (simp add: strict_sorted_iff distinct_map)
    moreover have "inj_on fst ?A" by (auto simp: inj_on_def)
    ultimately have of_scan: "map_of (rev (map (\<lambda>e. (drop (length ?p) (fst e), the (json_parse J (snd e)))) ?es)) i = Some j \<longleftrightarrow>
      (\<exists>x \<in> ?A. fst x = i \<and> the (json_parse J (snd x)) = j)" for j
      using map_of_image [OF _ es, of "\<lambda>e. (drop (length ?p) (fst e), the (json_parse J (snd e)))" fst] by (simp add: key case_prod_beta)
    have view: "(\<exists>x \<in> ?A. fst x = i \<and> the (json_parse J (snd x)) = j) \<longleftrightarrow> backup_view J s (u, v, r, i) = Some j" for j
    proof (cases "kv_get ?t (session_key u v r i)")
      case (Some b)
      with ok [of i b] show ?thesis by (auto simp: backup_view_def)
    qed (simp add: backup_view_def)
    show ?thesis
      by (rule option_eqI) (simp only: of_scan view)
  qed
  ultimately show ?thesis by (simp add: get_room_def fun_eq_iff)
qed

lemma backup_bump [simp]:
  "backupkeyid_backup (bump s) = backupkeyid_backup s" "backupid_etag (bump s) = backupid_etag s"
  by (simp_all add: bump_def)

definition key_added :: "serde \<Rightarrow> user_id \<Rightarrow> bytes \<Rightarrow> room_id \<Rightarrow> bytes \<Rightarrow> json \<Rightarrow> 'a keybackups_db_scheme \<Rightarrow> 'a keybackups_db_scheme" where
  "key_added J user version room sess data s =
     backupkeyid_backup_update (kv_insert (session_key user version room sess) (json_print J data))
       (backupid_etag_update (kv_insert (backup_id user version) (to_be_bytes (count s + 1))) (bump s))"

lemma add_key_run:
  "kv_get (backupid_algorithm s) (backup_id user version) = Some b \<Longrightarrow>
   add_key J user version room sess data s = (Inr (), key_added J user version room sess data s)"
  by (simp add: add_key_def Let_def key_added_def bind_ok [OF next_count_bump])

lemma key_added_fields [simp]:
  "backupkeyid_backup (key_added J user version room sess data s) =
     kv_insert (session_key user version room sess) (json_print J data) (backupkeyid_backup s)"
  "backupid_etag (key_added J user version room sess data s) =
     kv_insert (backup_id user version) (to_be_bytes (count s + 1)) (backupid_etag s)"
  by (simp_all add: key_added_def)

text \<open>C23: Backed-up keys refine a map from user, version, room and session to key data. Adding a key to an
  existing backup updates that entry and renews the etag, adding to a backup that does not
  exist is refused and changes nothing; reading a session or a room returns the map's
  entries. Deleting one key removes every session of the room whose id starts with the
  given one, and nothing else.\<close>
theorem key_backup_refines:
  assumes "serde_ok J" and "backup_inv J s" and "session_ids (user, version, room, sess)" and "json_ok data"
    and "kv_get (backupid_algorithm s) (backup_id user version) = Some b"
  shows "\<exists>s' s''. add_key J user version room sess data s = (Inr (), s') \<and> backup_inv J s' \<and>
    delete_room_key user version room del s' = (Inr (), s'') \<and> backup_inv J s'' \<and>
    get_etag user version s' = Inr (decimal (count s + 1)) \<and>
    (\<forall>v. kv_get (backupid_algorithm s) (backup_id user v) = None \<longrightarrow>
       add_key J user v room sess data s = (Inl (BadRequest NotFound ''Tried to update nonexistent backup.''), s)) \<and>
    (\<forall>u v r i. session_ids (u, v, r, i) \<longrightarrow>
       backup_view J s' (u, v, r, i) = ((backup_view J s)((user, version, room, sess) \<mapsto> data)) (u, v, r, i) \<and>
       get_session J u v r i s' = Inr (backup_view J s' (u, v, r, i)) \<and>
       get_room J u v r s' = Inr (\<lambda>x. backup_view J s' (u, v, r, x)) \<and>
       backup_view J s'' (u, v, r, i) =
         (if (u, v, r) = (user, version, room) \<and> prefix del i then None else backup_view J s' (u, v, r, i)))"
proof -
  let ?s = "key_added J user version room sess data s"
  let ?t = "backupkeyid_backup_update (kv_remove_prefix (session_key user version room del)) ?s"
  have parse: "json_parse J (json_print J data) = Some data" using serde_okD [OF assms(1,4)] .
  have inv: "backup_inv J ?s"
    using assms(2,3) parse unfolding backup_inv_def by auto
  have inv': "backup_inv J ?t"
    using inv unfolding backup_inv_def by auto
  have etag: "get_etag user version ?s = Inr (decimal (count s + 1))" by (simp add: get_etag_def)
  have view: "backup_view J ?s (u, v, r, i) = ((backup_view J s)((user, version, room, sess) \<mapsto> data)) (u, v, r, i)"
    if "session_ids (u, v, r, i)" for u v r i
    using parse session_key_inject [OF that assms(3)] by (auto simp: backup_view_def)
  have del: "backup_view J ?t (u, v, r, i) =
      (if (u, v, r) = (user, version, room) \<and> prefix del i then None else backup_view J ?s (u, v, r, i))"
    if "session_ids (u, v, r, i)" for u v r i
    using session_key_prefix [OF _ _ _ that, of user version room del] assms(3)
    by (auto simp: backup_view_def session_ids_def)
  have "get_room J u v r ?s = Inr (\<lambda>x. backup_view J ?s (u, v, r, x))" if "session_ids (u, v, r, i)" for u v r i
    using that by (intro get_room_view [OF inv]) (simp_all add: session_ids_def)
  with add_key_run [OF assms(5)] inv inv' etag view del get_session_view [OF inv] show ?thesis
    by (intro exI [of _ ?s] exI [of _ ?t]) (simp add: delete_room_key_def add_key_def Let_def)
qed

definition keybackups_init :: "servername \<Rightarrow> keybackups_db" where
  "keybackups_init name = statecache_db.extend (statecache_init name)
     \<lparr>backupid_algorithm = kv_empty, backupid_etag = kv_empty, backupkeyid_backup = kv_empty\<rparr>"

lemma keybackups_init_fields [simp]:
  "backupid_algorithm (keybackups_init n) = kv_empty" "backupid_etag (keybackups_init n) = kv_empty"
  "backupkeyid_backup (keybackups_init n) = kv_empty"
  by (simp_all add: keybackups_init_def statecache_db.defs)

definition example_backup :: keybackups_db where
  "example_backup = (keybackups_init (ascii ''h''))
     \<lparr>backupid_algorithm := kv_insert (backup_id (ascii ''@u:h'') (ascii ''7'')) [] kv_empty\<rparr>"

theorem key_backup_refines_witness:
  "\<exists>s' s''. add_key example_serde (ascii ''@u:h'') (ascii ''7'') (ascii ''!r:h'') (ascii ''abc'') JNull example_backup = (Inr (), s') \<and>
    get_session example_serde (ascii ''@u:h'') (ascii ''7'') (ascii ''!r:h'') (ascii ''abc'') s' = Inr (Some JNull) \<and>
    delete_room_key (ascii ''@u:h'') (ascii ''7'') (ascii ''!r:h'') (ascii ''ab'') s' = (Inr (), s'') \<and>
    backup_view example_serde s'' (ascii ''@u:h'', ascii ''7'', ascii ''!r:h'', ascii ''abc'') = None"
proof -
  have inv: "backup_inv example_serde example_backup" by (simp add: backup_inv_def example_backup_def)
  have ids: "session_ids (ascii ''@u:h'', ascii ''7'', ascii ''!r:h'', ascii ''abc'')"
    by (simp add: session_ids_def utf8_valid_ascii)
  have ok: "json_ok JNull" by simp
  have alg: "kv_get (backupid_algorithm example_backup) (backup_id (ascii ''@u:h'') (ascii ''7'')) = Some []"
    by (simp add: example_backup_def)
  note all = key_backup_refines [OF example_serde_ok inv ids ok alg, of "ascii ''ab''"]
  from all obtain s' s'' where
    "add_key example_serde (ascii ''@u:h'') (ascii ''7'') (ascii ''!r:h'') (ascii ''abc'') JNull example_backup = (Inr (), s')"
    "delete_room_key (ascii ''@u:h'') (ascii ''7'') (ascii ''!r:h'') (ascii ''ab'') s' = (Inr (), s'')" and
    *: "\<forall>u v r i. session_ids (u, v, r, i) \<longrightarrow>
       backup_view example_serde s' (u, v, r, i) =
         ((backup_view example_serde example_backup)((ascii ''@u:h'', ascii ''7'', ascii ''!r:h'', ascii ''abc'') \<mapsto> JNull)) (u, v, r, i) \<and>
       get_session example_serde u v r i s' = Inr (backup_view example_serde s' (u, v, r, i)) \<and>
       get_room example_serde u v r s' = Inr (\<lambda>x. backup_view example_serde s' (u, v, r, x)) \<and>
       backup_view example_serde s'' (u, v, r, i) =
         (if (u, v, r) = (ascii ''@u:h'', ascii ''7'', ascii ''!r:h'') \<and> prefix (ascii ''ab'') i then None
          else backup_view example_serde s' (u, v, r, i))"
    by (elim exE conjE)
  with * [rule_format, OF ids] show ?thesis by (intro exI [of _ s'] exI [of _ s'']) (simp add: ascii_def)
qed

text \<open>
  The latest backup is the one whose decimal version is greatest as a string: version 9 is taken for
  newer than version 10.
\<close>

lemma be_bytes_max: "to_be_bytes (-1) = [255, 255, 255, 255, 255, 255, 255, 255]"
  by code_simp

lemma latest_backup_by_string:
  assumes "backupid_algorithm s = kv_insert (backup_id u (ascii ''9'')) a (kv_insert (backup_id u (ascii ''10'')) b kv_empty)"
  shows "get_latest_backup_version u s = Inr (Some (ascii ''9''))"
proof -
  let ?k9 = "backup_id u (ascii ''9'')" and ?k10 = "backup_id u (ascii ''10'')"
  have less: "?k10 < ?k9"
    using append_less_cancel [of "u @ [sep]" "ascii ''10''" "ascii ''9''"] by (simp add: backup_id_def ascii_simps)
  have bound: "?k9 \<le> u @ sep # to_be_bytes (-1)" "?k10 \<le> u @ sep # to_be_bytes (-1)"
    using append_le_cancel [of "u @ [sep]" "ascii ''9''" "to_be_bytes (-1)"]
      append_le_cancel [of "u @ [sep]" "ascii ''10''" "to_be_bytes (-1)"]
    by (simp_all add: backup_id_def ascii_simps be_bytes_max)
  have "kv_iter (backupid_algorithm s) = [(?k10, b), (?k9, a)]"
    by (rule entries_equal) (use less in \<open>auto simp: assms kv_iter_ascending kv_iter_get split: if_splits\<close>)
  then have "latest_entry u s = Some (?k9, a)"
    using bound by (simp add: latest_entry_def Let_def kv_iter_from_def backup_id_def prefix_def)
  moreover have "sep \<notin> set (ascii ''9'')" by (simp add: ascii_simps sep_def)
  ultimately show ?thesis
    by (simp add: get_latest_backup_version_def backup_id_def rsplit_last_append utf8_valid_ascii)
qed

end
