(* ===== verification/Edus.thy ===== *)
theory Edus
  imports KeyBackups
begin

text \<open>
  Ephemeral room data: typing notifications, read receipts and presence
  (\<^verbatim>\<open>src/database/key_value/rooms/edus/\<close>, \<^verbatim>\<open>src/service/rooms/edus/\<close>). The clock
  is the parameter \<open>now\<close>, in milliseconds; presence events are read and written by ruma,
  parameters \<open>pparse\<close> and \<open>pprint\<close>.
\<close>

record edus_db = keybackups_db +
  readreceiptid_readreceipt :: kv_tree
  roomuserid_privateread :: kv_tree
  roomuserid_lastprivatereadupdate :: kv_tree
  typingid_userid :: kv_tree
  roomid_lasttypingupdate :: kv_tree
  presenceid_presence :: kv_tree
  userid_lastpresenceupdate :: kv_tree

section \<open>Typing\<close>

definition typing_id :: "room_id \<Rightarrow> u64 \<Rightarrow> u64 \<Rightarrow> bytes" where
  "typing_id room timeout c = room @ sep # to_be_bytes timeout @ sep # to_be_bytes c"

definition typing_add :: "user_id \<Rightarrow> room_id \<Rightarrow> u64 \<Rightarrow> ('a edus_db_scheme, unit) dop" where
  "typing_add user room timeout =
     bind next_count (\<lambda>c.
     andthen (modify (typingid_userid_update (kv_insert (typing_id room timeout c) user)))
     (modify (roomid_lasttypingupdate_update (kv_insert room (to_be_bytes c)))))"

definition touch_typing :: "room_id \<Rightarrow> bool \<Rightarrow> ('a edus_db_scheme, unit) dop" where
  "touch_typing room found_outdated =
     (if found_outdated
      then bind next_count (\<lambda>c. modify (roomid_lasttypingupdate_update (kv_insert room (to_be_bytes c))))
      else ret ())"

definition typing_remove :: "user_id \<Rightarrow> room_id \<Rightarrow> ('a edus_db_scheme, unit) dop" where
  "typing_remove user room =
     bind (gets (\<lambda>s. map fst (filter (\<lambda>e. snd e = user) (kv_scan_prefix (room @ [sep]) (typingid_userid s))))) (\<lambda>outdated.
     andthen (for_each outdated (\<lambda>k. modify (typingid_userid_update (kv_remove k))))
     (touch_typing room (outdated \<noteq> [])))"

fun remove_outdated :: "u64 \<Rightarrow> bool \<Rightarrow> bytes list \<Rightarrow> ('a edus_db_scheme, bool) dop" where
  "remove_outdated now found [] = ret found"
| "remove_outdated now found (k # ks) =
     (case nth_part 1 (splitn_sep 2 k) of
        None \<Rightarrow> remove_outdated now found ks
      | Some b \<Rightarrow>
          if length b < 8 then fail (Panic ''range end index 8 out of range'')
          else if from_be_bytes (take 8 b) < now
            then andthen (modify (typingid_userid_update (kv_remove k))) (remove_outdated now True ks)
          else ret found)"

definition typings_maintain :: "u64 \<Rightarrow> room_id \<Rightarrow> ('a edus_db_scheme, unit) dop" where
  "typings_maintain now room =
     bind (gets (\<lambda>s. map fst (kv_scan_prefix (room @ [sep]) (typingid_userid s)))) (\<lambda>ks.
     bind (remove_outdated now False ks) (\<lambda>found_outdated.
     touch_typing room found_outdated))"

definition last_typing_update_db :: "room_id \<Rightarrow> 'a edus_db_scheme \<Rightarrow> u64 res" where
  "last_typing_update_db room s =
     map_res (\<lambda>m. case m of None \<Rightarrow> 0 | Some n \<Rightarrow> n)
       (decode_u64 ''Count in roomid_lastroomactiveupdate is invalid.'' (kv_get (roomid_lasttypingupdate s) room))"

definition last_typing_update :: "u64 \<Rightarrow> room_id \<Rightarrow> ('a edus_db_scheme, u64) dop" where
  "last_typing_update now room =
     andthen (typings_maintain now room) (reads (last_typing_update_db room))"

definition typings_all :: "ruma \<Rightarrow> room_id \<Rightarrow> 'a edus_db_scheme \<Rightarrow> user_id set res" where
  "typings_all R room s =
     map_res set (collect_res (map (\<lambda>(_, b). id_from_bytes (is_user_id R)
         ''User ID in typingid_userid is invalid unicode.'' ''User ID in typingid_userid is invalid.'' b)
       (kv_scan_prefix (room @ [sep]) (typingid_userid s))))"

section \<open>Read receipts\<close>

definition receipt_id :: "room_id \<Rightarrow> u64 \<Rightarrow> user_id \<Rightarrow> bytes" where
  "receipt_id room c user = room @ sep # to_be_bytes c @ sep # user"

definition old_receipt :: "user_id \<Rightarrow> room_id \<Rightarrow> 'a edus_db_scheme \<Rightarrow> (bytes \<times> bytes) option" where
  "old_receipt user room s =
     (let prefx = room @ [sep] in
      find (\<lambda>e. rsplit_last (fst e) = user)
        (takeWhile (\<lambda>e. prefix prefx (fst e))
          (kv_iter_from (prefx @ to_be_bytes (-1)) True (readreceiptid_readreceipt s))))"

definition readreceipt_update :: "serde \<Rightarrow> user_id \<Rightarrow> room_id \<Rightarrow> json \<Rightarrow> ('a edus_db_scheme, unit) dop" where
  "readreceipt_update J user room event =
     bind (gets (old_receipt user room)) (\<lambda>found.
     andthen (case found of
                Some old \<Rightarrow> modify (readreceiptid_readreceipt_update (kv_remove (fst old)))
              | None \<Rightarrow> ret ())
     (bind next_count (\<lambda>c.
     modify (readreceiptid_readreceipt_update (kv_insert (receipt_id room c user) (json_print J event))))))"

definition receipt_entry :: "serde \<Rightarrow> ruma \<Rightarrow> nat \<Rightarrow> bytes \<times> bytes \<Rightarrow> (user_id \<times> u64 \<times> json) res" where
  "receipt_entry J R n e =
     (case e of (k, v) \<Rightarrow>
        if length k < n + 8 then Inl (Panic ''range end index out of range'')
        else if length k < n + 9 then Inl (Panic ''range start index out of range'')
        else
          bind_res (id_from_bytes (is_user_id R) ''Invalid readreceiptid userid bytes in db.''
            ''Invalid readreceiptid userid in db.'' (drop (n + 9) k)) (\<lambda>user.
          case json_parse J v of
            Some (JObj ob) \<Rightarrow> Inr (user, from_be_bytes (take 8 (drop n k)), JObj (obj_remove (ascii ''room_id'') ob))
          | _ \<Rightarrow> Inl (BadDatabase ''Read receipt in roomlatestid_roomlatest is invalid json.'')))"

definition readreceipts_since :: "serde \<Rightarrow> ruma \<Rightarrow> room_id \<Rightarrow> u64 \<Rightarrow> 'a edus_db_scheme \<Rightarrow> (user_id \<times> u64 \<times> json) res list" where
  "readreceipts_since J R room since s =
     (let prefx = room @ [sep] in
      map (receipt_entry J R (length prefx))
        (takeWhile (\<lambda>e. prefix prefx (fst e))
          (kv_iter_from (prefx @ to_be_bytes (since + 1)) False (readreceiptid_readreceipt s))))"

definition private_read_set :: "room_id \<Rightarrow> user_id \<Rightarrow> u64 \<Rightarrow> ('a edus_db_scheme, unit) dop" where
  "private_read_set room user c =
     (let key = room @ sep # user in
      andthen (modify (roomuserid_privateread_update (kv_insert key (to_be_bytes c))))
      (bind next_count (\<lambda>n. modify (roomuserid_lastprivatereadupdate_update (kv_insert key (to_be_bytes n))))))"

definition private_read_get :: "room_id \<Rightarrow> user_id \<Rightarrow> 'a edus_db_scheme \<Rightarrow> u64 option res" where
  "private_read_get room user s =
     decode_u64 ''Invalid private read marker bytes'' (kv_get (roomuserid_privateread s) (room @ sep # user))"

definition last_privateread_update :: "user_id \<Rightarrow> room_id \<Rightarrow> 'a edus_db_scheme \<Rightarrow> u64 res" where
  "last_privateread_update user room s =
     map_res (\<lambda>m. case m of None \<Rightarrow> 0 | Some n \<Rightarrow> n)
       (decode_u64 ''Count in roomuserid_lastprivatereadupdate is invalid.''
         (kv_get (roomuserid_lastprivatereadupdate s) (room @ sep # user)))"

section \<open>Presence\<close>

datatype PresenceState = Online | Offline | Unavailable | OtherPresence bytes

record PresenceEvent =
  presence_sender :: user_id
  presence :: PresenceState
  last_active_ago :: "u64 option"
  presence_rest :: json

definition update_presence :: "u64 \<Rightarrow> (PresenceEvent \<Rightarrow> bytes) \<Rightarrow> user_id \<Rightarrow> room_id \<Rightarrow> PresenceEvent \<Rightarrow> ('a edus_db_scheme, unit) dop" where
  "update_presence now pprint user room p =
     bind next_count (\<lambda>c.
     andthen (modify (presenceid_presence_update (kv_insert (receipt_id room c (presence_sender p)) (pprint p))))
     (modify (userid_lastpresenceupdate_update (kv_insert user (to_be_bytes now)))))"

definition ping_presence :: "u64 \<Rightarrow> user_id \<Rightarrow> ('a edus_db_scheme, unit) dop" where
  "ping_presence now user = modify (userid_lastpresenceupdate_update (kv_insert user (to_be_bytes now)))"

definition last_presence_update :: "user_id \<Rightarrow> 'a edus_db_scheme \<Rightarrow> u64 option res" where
  "last_presence_update user s =
     decode_u64 ''Invalid timestamp in userid_lastpresenceupdate.'' (kv_get (userid_lastpresenceupdate s) user)"

text \<open>The subtraction of two JavaScript integers, from ruma, is the parameter \<open>uint_sub\<close>.\<close>

definition parse_presence_event ::
    "u64 \<Rightarrow> (u64 \<Rightarrow> u64 \<Rightarrow> u64) \<Rightarrow> (bytes \<Rightarrow> PresenceEvent option) \<Rightarrow> bytes \<Rightarrow> PresenceEvent res" where
  "parse_presence_event now uint_sub pparse b =
     bind_res (ok_or (BadDatabase ''Invalid presence event in db.'') (pparse b)) (\<lambda>p.
     if MAX_UINT < unat now then Inl (Panic ''time is valid'')
     else if presence p = Online then Inr (p\<lparr>last_active_ago := None\<rparr>)
     else Inr (p\<lparr>last_active_ago := map_option (\<lambda>timestamp. uint_sub now timestamp) (last_active_ago p)\<rparr>))"

definition get_presence_event ::
    "u64 \<Rightarrow> (u64 \<Rightarrow> u64 \<Rightarrow> u64) \<Rightarrow> (bytes \<Rightarrow> PresenceEvent option) \<Rightarrow> room_id \<Rightarrow> user_id \<Rightarrow> u64 \<Rightarrow> 'a edus_db_scheme \<Rightarrow>
     PresenceEvent option res" where
  "get_presence_event now uint_sub pparse room user c s =
     transpose_opt (map_option (parse_presence_event now uint_sub pparse)
       (kv_get (presenceid_presence s) (receipt_id room c user)))"

definition presence_since ::
    "u64 \<Rightarrow> (u64 \<Rightarrow> u64 \<Rightarrow> u64) \<Rightarrow> (bytes \<Rightarrow> PresenceEvent option) \<Rightarrow> ruma \<Rightarrow> room_id \<Rightarrow> u64 \<Rightarrow> 'a edus_db_scheme \<Rightarrow>
     (user_id \<Rightarrow> PresenceEvent option) res" where
  "presence_since now uint_sub pparse R room since s =
     (let prefx = room @ [sep] in
      map_res (\<lambda>es. map_of (rev es)) (collect_res (map (\<lambda>(k, v).
        bind_res (id_from_bytes (is_user_id R) ''Invalid UserId bytes in presenceid_presence.''
          ''Invalid UserId in presenceid_presence.'' (rsplit_last k)) (\<lambda>user.
        map_res (\<lambda>p. (user, p)) (parse_presence_event now uint_sub pparse v)))
        (takeWhile (\<lambda>e. prefix prefx (fst e))
          (kv_iter_from (prefx @ to_be_bytes (since + 1)) False (presenceid_presence s))))))"

definition get_last_presence_event ::
    "u64 \<Rightarrow> (u64 \<Rightarrow> u64 \<Rightarrow> u64) \<Rightarrow> (bytes \<Rightarrow> PresenceEvent option) \<Rightarrow> user_id \<Rightarrow> room_id \<Rightarrow> 'a edus_db_scheme \<Rightarrow>
     PresenceEvent option res" where
  "get_last_presence_event now uint_sub pparse user room s =
     bind_res (last_presence_update user s) (\<lambda>last.
     case last of
       None \<Rightarrow> Inr None
     | Some last_update \<Rightarrow> get_presence_event now uint_sub pparse room user last_update s)"

section \<open>Read receipts as a map\<close>

definition receipt :: "serde \<Rightarrow> 'a edus_db_scheme \<Rightarrow> room_id \<Rightarrow> user_id \<Rightarrow> u64 \<Rightarrow> json \<Rightarrow> bool" where
  "receipt J s room user c j \<longleftrightarrow>
     (\<exists>v. kv_get (readreceiptid_readreceipt s) (receipt_id room c user) = Some v \<and> json_parse J v = Some j)"

text \<open>Well-formed entries, counts that have been handed out, at most one receipt per room and user.\<close>

definition receipts_inv :: "serde \<Rightarrow> ruma \<Rightarrow> 'a edus_db_scheme \<Rightarrow> bool" where
  "receipts_inv J R s \<longleftrightarrow>
     (\<forall>k v. kv_get (readreceiptid_readreceipt s) k = Some v \<longrightarrow>
        (\<exists>r c u ob. k = receipt_id r c u \<and> utf8_valid r \<and> utf8_valid u \<and> is_user_id R u \<and> c \<le> count s \<and>
           json_parse J v = Some (JObj ob))) \<and>
     (\<forall>r u c c'. utf8_valid r \<longrightarrow> kv_has (readreceiptid_readreceipt s) (receipt_id r c u) \<longrightarrow>
        kv_has (readreceiptid_readreceipt s) (receipt_id r c' u) \<longrightarrow> c = c')"

lemma receipt_id_inject:
  assumes "utf8_valid r" and "utf8_valid r'"
  shows "receipt_id r c u = receipt_id r' c' u' \<longleftrightarrow> r = r' \<and> c = c' \<and> u = u'"
  using assms by (auto simp: receipt_id_def sep_join_inject utf8_no_sep append_to_be_bytes_inject)

lemma receipt_id_prefix:
  assumes "utf8_valid r" and "utf8_valid r'"
  shows "prefix (r @ [sep]) (receipt_id r' c u) \<longleftrightarrow> r = r'"
  using assms by (simp add: receipt_id_def sep_join_prefix utf8_no_sep)

lemma receipt_id_last: "utf8_valid u \<Longrightarrow> rsplit_last (receipt_id r c u) = u"
  using rsplit_last_append [of u "r @ sep # to_be_bytes c"] by (simp add: receipt_id_def utf8_no_sep)

lemma receipts_entry:
  assumes "receipts_inv J R s" and "kv_get (readreceiptid_readreceipt s) k = Some v"
  obtains r c u ob where "k = receipt_id r c u" and "utf8_valid r" and "utf8_valid u" and "is_user_id R u"
    and "c \<le> count s" and "json_parse J v = Some (JObj ob)"
  using assms unfolding receipts_inv_def by blast

lemma receipts_scan_back:
  assumes "receipts_inv J R s" and "has_room s" and "utf8_valid room"
  shows "set (takeWhile (\<lambda>e. prefix (room @ [sep]) (fst e))
      (kv_iter_from ((room @ [sep]) @ to_be_bytes (-1)) True (readreceiptid_readreceipt s))) =
    {(receipt_id room c u, v) | c u v. kv_get (readreceiptid_readreceipt s) (receipt_id room c u) = Some v}"
    (is "set ?es = ?A")
proof -
  let ?t = "readreceiptid_readreceipt s" and ?p = "room @ [sep]"
  have "set ?es = {e \<in> set (kv_iter ?t). prefix ?p (fst e) \<and> fst e \<le> ?p @ to_be_bytes (-1)}"
    unfolding kv_iter_from_def if_True kv.desc_range by simp
  also have "\<dots> = ?A"
  proof (intro set_eqI iffI)
    fix e
    assume e: "e \<in> {e \<in> set (kv_iter ?t). prefix ?p (fst e) \<and> fst e \<le> ?p @ to_be_bytes (-1)}"
    obtain k v where [simp]: "e = (k, v)" by fastforce
    from e have k: "kv_get ?t k = Some v" "prefix ?p k" by (simp_all add: kv_iter_get)
    from receipts_entry [OF assms(1) k(1)] obtain r c u where "k = receipt_id r c u" "utf8_valid r" .
    with k(2) assms(3) have "k = receipt_id room c u" by (simp add: receipt_id_prefix)
    with k show "e \<in> ?A" by auto
  next
    fix e
    assume "e \<in> ?A"
    then obtain c u v where e: "e = (receipt_id room c u, v)" "kv_get ?t (receipt_id room c u) = Some v" by blast
    from receipts_entry [OF assms(1) e(2)] obtain r c' u' where *: "receipt_id room c u = receipt_id r c' u'"
      "utf8_valid r" "c' \<le> count s" .
    then have "c \<le> count s" using assms(3) by (simp add: receipt_id_inject)
    then have "c < -1" using assms(2) unfolding has_room_def by (metis word_order.extremum order.not_eq_order_implies_strict le_less_trans)
    then have "receipt_id room c u \<le> ?p @ to_be_bytes (-1)"
      using append_le_cancel [of ?p "to_be_bytes c @ sep # u" "to_be_bytes (-1)"] key_le_count [of c "sep # u" "-1"]
      by (simp add: receipt_id_def)
    with e assms(3) show "e \<in> {e \<in> set (kv_iter ?t). prefix ?p (fst e) \<and> fst e \<le> ?p @ to_be_bytes (-1)}"
      by (simp add: kv_iter_get receipt_id_prefix)
  qed
  finally show ?thesis .
qed

definition receipt_updated :: "serde \<Rightarrow> user_id \<Rightarrow> room_id \<Rightarrow> json \<Rightarrow> 'a edus_db_scheme \<Rightarrow> 'a edus_db_scheme" where
  "receipt_updated J user room event s =
     readreceiptid_readreceipt_update (\<lambda>t. kv_insert (receipt_id room (count s + 1) user) (json_print J event)
       (case old_receipt user room s of Some old \<Rightarrow> kv_remove (fst old) t | None \<Rightarrow> t)) (bump s)"

lemma readreceipt_count [simp]: "count (readreceiptid_readreceipt_update f s) = count s"
  by (simp add: count_def)

lemma bump_readreceipt [simp]:
  "readreceiptid_readreceipt (bump s) = readreceiptid_readreceipt s"
  "bump (readreceiptid_readreceipt_update f s) = readreceiptid_readreceipt_update f (bump s)"
  by (simp_all add: bump_def count_def)

lemma readreceipt_update_run: "readreceipt_update J user room event s = (Inr (), receipt_updated J user room event s)"
  by (cases "old_receipt user room s")
     (simp_all add: readreceipt_update_def receipt_updated_def bind_ok [OF next_count_bump] comp_def)

lemma old_receipt_cases:
  assumes "receipts_inv J R s" and "has_room s" and "utf8_valid room" and "utf8_valid user"
  shows "case old_receipt user room s of
      None \<Rightarrow> \<forall>c. kv_get (readreceiptid_readreceipt s) (receipt_id room c user) = None
    | Some old \<Rightarrow> \<exists>c. fst old = receipt_id room c user \<and> kv_has (readreceiptid_readreceipt s) (receipt_id room c user)"
proof -
  note scan = receipts_scan_back [OF assms(1-3)]
  show ?thesis
  proof (cases "old_receipt user room s")
    case None
    have "kv_get (readreceiptid_readreceipt s) (receipt_id room c user) \<noteq> Some v" for c v
    proof
      assume "kv_get (readreceiptid_readreceipt s) (receipt_id room c user) = Some v"
      then have "(receipt_id room c user, v) \<in> set (takeWhile (\<lambda>e. prefix (room @ [sep]) (fst e))
          (kv_iter_from ((room @ [sep]) @ to_be_bytes (-1)) True (readreceiptid_readreceipt s)))" unfolding scan by blast
      with None show False
        using receipt_id_last [OF assms(4)] unfolding old_receipt_def Let_def find_None_iff by fastforce
    qed
    then have "kv_get (readreceiptid_readreceipt s) (receipt_id room c user) = None" for c by (metis not_None_eq)
    with None show ?thesis by simp
  next
    case (Some old)
    then have old: "old \<in> set (takeWhile (\<lambda>e. prefix (room @ [sep]) (fst e))
      (kv_iter_from ((room @ [sep]) @ to_be_bytes (-1)) True (readreceiptid_readreceipt s)))" "rsplit_last (fst old) = user"
      unfolding old_receipt_def Let_def by (auto simp: find_Some_iff)
    from old(1) obtain c u v where c: "old = (receipt_id room c u, v)"
      "kv_get (readreceiptid_readreceipt s) (receipt_id room c u) = Some v" unfolding scan by blast
    from receipts_entry [OF assms(1) c(2)] obtain r c' u' where
      "receipt_id room c u = receipt_id r c' u'" "utf8_valid r" "utf8_valid u'" .
    then have "utf8_valid u" using assms(3) by (simp add: receipt_id_inject)
    with old(2) c have "u = user" by (simp add: receipt_id_last)
    with Some c show ?thesis by (auto simp: kv_has_def)
  qed
qed

lemma receipt_updated_get:
  assumes "receipts_inv J R s" and "has_room s" and "utf8_valid room" and "utf8_valid user" and "utf8_valid r"
  shows "kv_get (readreceiptid_readreceipt (receipt_updated J user room event s)) (receipt_id r c u) =
    (if (r, u) = (room, user) then (if c = count s + 1 then Some (json_print J event) else None)
     else kv_get (readreceiptid_readreceipt s) (receipt_id r c u))"
proof (cases "old_receipt user room s")
  case None
  with old_receipt_cases [OF assms(1-4)] have "kv_get (readreceiptid_readreceipt s) (receipt_id room c user) = None" for c
    by simp
  with None show ?thesis
    using assms(3,5) by (auto simp: receipt_updated_def receipt_id_inject)
next
  case (Some old)
  with old_receipt_cases [OF assms(1-4)] obtain c' where
    c': "fst old = receipt_id room c' user" "kv_has (readreceiptid_readreceipt s) (receipt_id room c' user)" by auto
  have "kv_get (readreceiptid_readreceipt s) (receipt_id room c'' user) = None" if "c'' \<noteq> c'" for c''
    using assms(1,3) c'(2) that unfolding receipts_inv_def kv_has_def by (metis not_None_eq)
  with Some c' show ?thesis
    using assms(3,5) by (auto simp: receipt_updated_def receipt_id_inject)
qed

lemma receipts_inv_updated:
  assumes "serde_ok J" and "receipts_inv J R s" and "has_room s" and "utf8_valid room" and "utf8_valid user"
    and "is_user_id R user" and "json_ok (JObj ob)"
  shows "receipts_inv J R (receipt_updated J user room (JObj ob) s)"
proof -
  let ?s = "receipt_updated J user room (JObj ob) s"
  let ?t = "readreceiptid_readreceipt s" and ?t' = "readreceiptid_readreceipt ?s"
  note get = receipt_updated_get [OF assms(2-5)] and less = count_less_next [OF assms(3)]
  have count: "count ?s = count s + 1" by (simp add: receipt_updated_def)
  have parse: "json_parse J (json_print J (JObj ob)) = Some (JObj ob)" using serde_okD [OF assms(1,7)] .
  have entry: "\<exists>r c u ob. k = receipt_id r c u \<and> utf8_valid r \<and> utf8_valid u \<and> is_user_id R u \<and> c \<le> count ?s \<and>
      json_parse J v = Some (JObj ob)" if kv: "kv_get ?t' k = Some v" for k v
  proof (cases "k = receipt_id room (count s + 1) user")
    case True
    with kv get [OF assms(4), of "JObj ob" "count s + 1" user] assms(4-6) parse count show ?thesis by auto
  next
    case False
    with kv have "kv_get ?t k = Some v" by (auto simp: receipt_updated_def split: option.splits if_splits)
    from receipts_entry [OF assms(2) this] obtain r c u ob' where "k = receipt_id r c u" "utf8_valid r" "utf8_valid u"
      "is_user_id R u" "c \<le> count s" "json_parse J v = Some (JObj ob')" .
    moreover from this(5) have "c \<le> count ?s" using less count by simp
    ultimately show ?thesis by blast
  qed
  have "c = c'" if r: "utf8_valid r" and c: "kv_has ?t' (receipt_id r c u)" and c': "kv_has ?t' (receipt_id r c' u)" for r u c c'
  proof -
    show ?thesis
    proof (cases "(r, u) = (room, user)")
      case True
      with c c' get [OF assms(4), of "JObj ob"] show ?thesis by (auto simp: kv_has_def split: if_splits)
    next
      case False
      with c c' have "kv_has ?t (receipt_id r c u)" "kv_has ?t (receipt_id r c' u)"
        by (simp_all only: kv_has_def get [OF r] if_False simp_thms)
      with assms(2) r show ?thesis unfolding receipts_inv_def by blast
    qed
  qed
  with entry show ?thesis unfolding receipts_inv_def by blast
qed

lemma receipt_entry_ok:
  assumes "utf8_valid u" and "is_user_id R u" and "json_parse J v = Some (JObj ob)"
  shows "receipt_entry J R (length (r @ [sep])) (receipt_id r c u, v) = Inr (u, c, JObj (obj_remove (ascii ''room_id'') ob))"
  using assms by (simp add: receipt_entry_def receipt_id_def)

lemma receipts_counted: "receipts_inv J R s \<Longrightarrow> utf8_valid r \<Longrightarrow> counted (r @ [sep]) (readreceiptid_readreceipt s)"
  unfolding counted_def
proof (intro allI impI)
  fix k v
  assume inv: "receipts_inv J R s" and r: "utf8_valid r" and k: "kv_get (readreceiptid_readreceipt s) k = Some v" "prefix (r @ [sep]) k"
  from receipts_entry [OF inv k(1)] obtain r' c u where "k = receipt_id r' c u" "utf8_valid r'" .
  with k(2) r have "k = (r @ [sep]) @ to_be_bytes c @ sep # u" by (auto simp: receipt_id_prefix) (simp add: receipt_id_def)
  then show "\<exists>n x. k = (r @ [sep]) @ to_be_bytes n @ x" by blast
qed

lemma readreceipts_since_view:
  assumes inv: "receipts_inv J R s" and r: "utf8_valid r" and since: "since \<noteq> -1"
  shows "Inr (u, c, j) \<in> set (readreceipts_since J R r since s) \<longleftrightarrow>
      (\<exists>ob. receipt J s r u c (JObj ob) \<and> since < c \<and> j = JObj (obj_remove (ascii ''room_id'') ob))"
    and "Inl e \<notin> set (readreceipts_since J R r since s)"
proof -
  let ?t = "readreceiptid_readreceipt s" and ?p = "r @ [sep]"
  let ?es = "filter (\<lambda>e. prefix ?p (fst e) \<and> since < key_count ?p (fst e)) (kv_iter ?t)"
  have scan: "readreceipts_since J R r since s = map (receipt_entry J R (length ?p)) ?es"
    unfolding readreceipts_since_def Let_def counted_since [OF receipts_counted [OF inv r] since] ..
  have key: "key_count ?p (receipt_id r c u) = c" for c u
    using key_count_append(1) [of ?p c "sep # u"] by (simp add: receipt_id_def)
  have es: "x \<in> set ?es \<longleftrightarrow> (\<exists>c u v ob. x = (receipt_id r c u, v) \<and> kv_get ?t (receipt_id r c u) = Some v \<and> since < c \<and>
      utf8_valid u \<and> is_user_id R u \<and> json_parse J v = Some (JObj ob))" for x
  proof
    assume x: "x \<in> set ?es"
    obtain k v where [simp]: "x = (k, v)" by fastforce
    from x have k: "kv_get ?t k = Some v" "prefix ?p k" "since < key_count ?p k" by (simp_all add: kv_iter_get)
    from receipts_entry [OF inv k(1)] obtain r' c u ob where e: "k = receipt_id r' c u" "utf8_valid r'" "utf8_valid u"
      "is_user_id R u" "json_parse J v = Some (JObj ob)" .
    with k(2) r have "r' = r" by (simp add: receipt_id_prefix)
    with e k key show "\<exists>c u v ob. x = (receipt_id r c u, v) \<and> kv_get ?t (receipt_id r c u) = Some v \<and> since < c \<and>
      utf8_valid u \<and> is_user_id R u \<and> json_parse J v = Some (JObj ob)"
      by (intro exI [of _ c] exI [of _ u] exI [of _ v] exI [of _ ob]) simp
  qed (auto simp: kv_iter_get key receipt_id_prefix r)
  have ok: "utf8_valid u \<and> is_user_id R u \<and> (\<exists>ob. json_parse J v = Some (JObj ob))"
    if get: "kv_get ?t (receipt_id r c u) = Some v" for c u v
  proof -
    from receipts_entry [OF inv get] obtain r' c' u' ob where "receipt_id r c u = receipt_id r' c' u'" "utf8_valid r'"
      "utf8_valid u'" "is_user_id R u'" "json_parse J v = Some (JObj ob)" .
    then show ?thesis using r by (auto simp: receipt_id_inject)
  qed
  show "Inr (u, c, j) \<in> set (readreceipts_since J R r since s) \<longleftrightarrow>
      (\<exists>ob. receipt J s r u c (JObj ob) \<and> since < c \<and> j = JObj (obj_remove (ascii ''room_id'') ob))"
  proof
    assume "Inr (u, c, j) \<in> set (readreceipts_since J R r since s)"
    then obtain x where x: "x \<in> set ?es" "Inr (u, c, j) = receipt_entry J R (length ?p) x" unfolding scan by auto
    from x(1) obtain c' u' v ob where "x = (receipt_id r c' u', v)" "kv_get ?t (receipt_id r c' u') = Some v" "since < c'"
      "utf8_valid u'" "is_user_id R u'" "json_parse J v = Some (JObj ob)" unfolding es by blast
    with x(2) receipt_entry_ok [of u' R J v ob r c'] show "\<exists>ob. receipt J s r u c (JObj ob) \<and> since < c \<and> j = JObj (obj_remove (ascii ''room_id'') ob)"
      by (auto simp: receipt_def)
  next
    assume "\<exists>ob. receipt J s r u c (JObj ob) \<and> since < c \<and> j = JObj (obj_remove (ascii ''room_id'') ob)"
    then obtain ob v where v: "kv_get ?t (receipt_id r c u) = Some v" "json_parse J v = Some (JObj ob)" "since < c"
      "j = JObj (obj_remove (ascii ''room_id'') ob)" by (auto simp: receipt_def)
    then have "(receipt_id r c u, v) \<in> set ?es" using ok [OF v(1)] unfolding es by blast
    moreover have "Inr (u, c, j) = receipt_entry J R (length ?p) (receipt_id r c u, v)"
      using receipt_entry_ok [of u R J v ob r c] ok [OF v(1)] v(2,4) by simp
    ultimately show "Inr (u, c, j) \<in> set (readreceipts_since J R r since s)"
      unfolding scan set_map by (rule rev_image_eqI)
  qed
  show "Inl e \<notin> set (readreceipts_since J R r since s)"
  proof
    assume "Inl e \<in> set (readreceipts_since J R r since s)"
    then obtain x where x: "x \<in> set ?es" "Inl e = receipt_entry J R (length ?p) x" unfolding scan by auto
    from x(1) obtain c' u' v ob where "x = (receipt_id r c' u', v)"
      "utf8_valid u'" "is_user_id R u'" "json_parse J v = Some (JObj ob)" unfolding es by blast
    with x(2) receipt_entry_ok [of u' R J v ob r c'] show False by simp
  qed
qed

text \<open>C24: Read receipts refine a map from room and user to the latest receipt with its count. Recording a
  receipt replaces the user's previous one in the room and keeps every other; asking for the
  receipts since a token returns exactly those with a later count, without their room id.\<close>
theorem read_receipts_refine:
  assumes "serde_ok J" and "receipts_inv J R s" and "has_room s" and "utf8_valid room" and "utf8_valid user"
    and "is_user_id R user" and "json_ok (JObj ob)"
  shows "\<exists>s'. readreceipt_update J user room (JObj ob) s = (Inr (), s') \<and> receipts_inv J R s' \<and>
    (\<forall>r u c j. utf8_valid r \<longrightarrow>
       (receipt J s' r u c j \<longleftrightarrow>
         (if (r, u) = (room, user) then c = count s + 1 \<and> j = JObj ob else receipt J s r u c j))) \<and>
    (\<forall>r since. utf8_valid r \<longrightarrow> since \<noteq> -1 \<longrightarrow>
       set (readreceipts_since J R r since s') =
         {Inr (u, c, JObj (obj_remove (ascii ''room_id'') ob)) | u c ob. receipt J s' r u c (JObj ob) \<and> since < c})"
proof (intro exI [of _ "receipt_updated J user room (JObj ob) s"] conjI allI impI)
  let ?s = "receipt_updated J user room (JObj ob) s"
  note inv = receipts_inv_updated [OF assms]
  show "readreceipt_update J user room (JObj ob) s = (Inr (), ?s)" by (rule readreceipt_update_run)
  show "receipts_inv J R ?s" by (rule inv)
  show "receipt J ?s r u c j \<longleftrightarrow>
      (if (r, u) = (room, user) then c = count s + 1 \<and> j = JObj ob else receipt J s r u c j)" if "utf8_valid r" for r u c j
    using receipt_updated_get [OF assms(2-5) that] serde_okD [OF assms(1,7)] by (auto simp: receipt_def)
  show "set (readreceipts_since J R r since ?s) =
      {Inr (u, c, JObj (obj_remove (ascii ''room_id'') ob)) | u c ob. receipt J ?s r u c (JObj ob) \<and> since < c}"
    if r: "utf8_valid r" "since \<noteq> -1" for r since
  proof (intro set_eqI iffI)
    fix x
    assume x: "x \<in> set (readreceipts_since J R r since ?s)"
    with readreceipts_since_view(2) [OF inv r] obtain u c j where "x = Inr (u, c, j)" by (cases x) auto
    with x readreceipts_since_view(1) [OF inv r]
    show "x \<in> {Inr (u, c, JObj (obj_remove (ascii ''room_id'') ob)) | u c ob. receipt J ?s r u c (JObj ob) \<and> since < c}" by auto
  qed (use readreceipts_since_view(1) [OF inv r] in auto)
qed

section \<open>Who is typing\<close>

definition typing_inv :: "ruma \<Rightarrow> 'a edus_db_scheme \<Rightarrow> bool" where
  "typing_inv R s \<longleftrightarrow> (\<forall>k u. kv_get (typingid_userid s) k = Some u \<longrightarrow>
     (\<exists>r t c. k = typing_id r t c \<and> utf8_valid r \<and> c \<le> count s) \<and> utf8_valid u \<and> is_user_id R u)"

definition typing :: "'a edus_db_scheme \<Rightarrow> room_id \<Rightarrow> user_id \<Rightarrow> u64 \<Rightarrow> bool" where
  "typing s room user timeout \<longleftrightarrow> (\<exists>c. kv_get (typingid_userid s) (typing_id room timeout c) = Some user)"

lemma typing_id_inject:
  assumes "utf8_valid r" and "utf8_valid r'"
  shows "typing_id r t c = typing_id r' t' c' \<longleftrightarrow> r = r' \<and> t = t' \<and> c = c'"
  using assms by (auto simp: typing_id_def sep_join_inject utf8_no_sep append_to_be_bytes_inject)

lemma typing_id_prefix:
  assumes "utf8_valid r" and "utf8_valid r'"
  shows "prefix (r @ [sep]) (typing_id r' t c) \<longleftrightarrow> r = r'"
  using assms by (simp add: typing_id_def sep_join_prefix utf8_no_sep)

lemma typing_scan:
  assumes "typing_inv R s" and "utf8_valid room"
  shows "(k, u) \<in> set (kv_scan_prefix (room @ [sep]) (typingid_userid s)) \<longleftrightarrow>
    (\<exists>t c. k = typing_id room t c) \<and> kv_get (typingid_userid s) k = Some u"
proof -
  have "prefix (room @ [sep]) k \<longleftrightarrow> (\<exists>t c. k = typing_id room t c)" if k: "kv_get (typingid_userid s) k = Some u"
  proof -
    from assms(1) k obtain r t c where "k = typing_id r t c" "utf8_valid r" unfolding typing_inv_def by blast
    with assms(2) show ?thesis by (auto simp: typing_id_prefix typing_id_inject)
  qed
  then show ?thesis by (auto simp: set_kv_scan_prefix)
qed

lemma typings_all_view:
  assumes "typing_inv R s" and "utf8_valid room"
  shows "typings_all R room s = Inr {u. \<exists>t. typing s room u t}"
proof -
  let ?es = "kv_scan_prefix (room @ [sep]) (typingid_userid s)"
  have eq: "map (\<lambda>(_, b). id_from_bytes (is_user_id R) m m' b) ?es = map (\<lambda>e. Inr (snd e)) ?es" for m m'
    using assms(1) typing_scan [OF assms] by (auto simp: typing_inv_def)
  have "snd ` set ?es = {u. \<exists>t. typing s room u t}"
    using typing_scan [OF assms] by (force simp: typing_def image_iff)
  then show ?thesis unfolding typings_all_def eq collect_res_Inr by simp
qed

lemma typing_frame [simp]:
  "typingid_userid (bump s) = typingid_userid s"
  "count (typingid_userid_update f s) = count s" "count (roomid_lasttypingupdate_update g s) = count s"
  by (simp_all add: bump_def count_def)

definition typing_added :: "user_id \<Rightarrow> room_id \<Rightarrow> u64 \<Rightarrow> 'a edus_db_scheme \<Rightarrow> 'a edus_db_scheme" where
  "typing_added user room timeout s =
     roomid_lasttypingupdate_update (kv_insert room (to_be_bytes (count s + 1)))
       (typingid_userid_update (kv_insert (typing_id room timeout (count s + 1)) user) (bump s))"

lemma typing_add_run: "typing_add user room timeout s = (Inr (), typing_added user room timeout s)"
  by (simp add: typing_add_def typing_added_def bind_ok [OF next_count_bump])

lemma typing_added_fields [simp]:
  "typingid_userid (typing_added user room timeout s) = kv_insert (typing_id room timeout (count s + 1)) user (typingid_userid s)"
  "count (typing_added user room timeout s) = count s + 1"
  by (simp_all add: typing_added_def)

lemma touch_typing_run:
  obtains s' where "touch_typing room found s = (Inr (), s')" and "typingid_userid s' = typingid_userid s"
    and "count s' = count s \<or> count s' = count s + 1"
proof (cases found)
  case True
  let ?s = "roomid_lasttypingupdate_update (kv_insert room (to_be_bytes (count s + 1))) (bump s)"
  have "touch_typing room found s = (Inr (), ?s)"
    using True by (simp add: touch_typing_def bind_ok [OF next_count_bump])
  then show thesis by (rule that) simp_all
qed (use that [of s] in \<open>simp add: touch_typing_def\<close>)

lemma typing_inv_added:
  assumes "typing_inv R s" and "has_room s" and "utf8_valid room" and "utf8_valid user" and "is_user_id R user"
  shows "typing_inv R (typing_added user room timeout s)"
proof -
  have le: "c \<le> count s \<Longrightarrow> c \<le> count s + 1" for c using count_less_next [OF assms(2)] by simp
  show ?thesis
    unfolding typing_inv_def
  proof (intro allI impI)
    fix k u
    assume "kv_get (typingid_userid (typing_added user room timeout s)) k = Some u"
    then consider "k = typing_id room timeout (count s + 1)" "u = user" | "kv_get (typingid_userid s) k = Some u"
      unfolding typing_added_fields kv_get_insert by (metis option.inject)
    then show "(\<exists>r t c. k = typing_id r t c \<and> utf8_valid r \<and> c \<le> count (typing_added user room timeout s)) \<and>
        utf8_valid u \<and> is_user_id R u"
    proof cases
      case 1
      with assms(3-5) show ?thesis by (intro conjI exI [of _ room] exI [of _ timeout] exI [of _ "count s + 1"]) simp_all
    next
      case 2
      with assms(1) obtain r t c where c: "k = typing_id r t c" "utf8_valid r" "c \<le> count s" and u: "utf8_valid u" "is_user_id R u"
        unfolding typing_inv_def by blast
      with le [OF c(3)] show ?thesis unfolding typing_added_fields by blast
    qed
  qed
qed

lemma typing_added_view:
  assumes "typing_inv R s" and "has_room s" and "utf8_valid room" and "utf8_valid r"
  shows "typing (typing_added user room timeout s) r u t \<longleftrightarrow> typing s r u t \<or> (r, u, t) = (room, user, timeout)"
proof -
  have "kv_get (typingid_userid s) (typing_id room timeout (count s + 1)) = None"
  proof (rule ccontr)
    assume "kv_get (typingid_userid s) (typing_id room timeout (count s + 1)) \<noteq> None"
    then obtain r t c where "typing_id room timeout (count s + 1) = typing_id r t c" "utf8_valid r" "c \<le> count s"
      using assms(1) unfolding typing_inv_def by blast
    then have "count s + 1 \<le> count s" using assms(3) by (simp add: typing_id_inject)
    then show False using count_less_next [OF assms(2)] by simp
  qed
  then have "kv_get (typingid_userid (typing_added user room timeout s)) (typing_id r t c) = Some u \<longleftrightarrow>
      kv_get (typingid_userid s) (typing_id r t c) = Some u \<or> (r, u, t) = (room, user, timeout) \<and> c = count s + 1" for c
    using assms(3,4) by (auto simp: typing_id_inject)
  then show ?thesis unfolding typing_def by blast
qed

text \<open>A set of entries of one room is removed.\<close>

definition typing_dropped :: "room_id \<Rightarrow> (user_id \<Rightarrow> u64 \<Rightarrow> bool) \<Rightarrow> 'a edus_db_scheme \<Rightarrow> 'a edus_db_scheme \<Rightarrow> bool" where
  "typing_dropped room P s s' \<longleftrightarrow> (count s' = count s \<or> count s' = count s + 1) \<and>
     (\<forall>k. kv_get (typingid_userid s') k =
        (if \<exists>t c u. k = typing_id room t c \<and> kv_get (typingid_userid s) k = Some u \<and> P u t then None
         else kv_get (typingid_userid s) k))"

lemma typing_dropped_view:
  assumes "typing_dropped room P s s'" and "utf8_valid room" and "utf8_valid r"
  shows "typing s' r u t \<longleftrightarrow> typing s r u t \<and> \<not> (r = room \<and> P u t)"
proof -
  have "kv_get (typingid_userid s') (typing_id r t c) = Some u \<longleftrightarrow>
      kv_get (typingid_userid s) (typing_id r t c) = Some u \<and> \<not> (r = room \<and> P u t)" for c
    using assms by (auto simp: typing_dropped_def typing_id_inject)
  then show ?thesis unfolding typing_def by blast
qed

lemma typing_dropped_inv:
  assumes "typing_dropped room P s s'" and "typing_inv R s" and "has_room s"
  shows "typing_inv R s'"
proof -
  have le: "count s \<le> count s'" using assms(1) count_less_next [OF assms(3)] by (auto simp: typing_dropped_def)
  show ?thesis
    unfolding typing_inv_def
  proof (intro allI impI)
    fix k u
    assume "kv_get (typingid_userid s') k = Some u"
    then have "kv_get (typingid_userid s) k = Some u" using assms(1) by (auto simp: typing_dropped_def split: if_splits)
    with assms(2) obtain r t c where c: "k = typing_id r t c" "utf8_valid r" "c \<le> count s" and u: "utf8_valid u" "is_user_id R u"
      unfolding typing_inv_def by blast
    from c(3) le have "c \<le> count s'" by (rule order_trans)
    with c(1,2) u show "(\<exists>r t c. k = typing_id r t c \<and> utf8_valid r \<and> c \<le> count s') \<and> utf8_valid u \<and> is_user_id R u" by blast
  qed
qed

lemma typing_removed_keys:
  assumes keys: "\<And>k. k \<in> set ks \<longleftrightarrow> (\<exists>t c u. k = typing_id room t c \<and> kv_get (typingid_userid s) k = Some u \<and> P u t)"
    and s1: "typingid_userid s1 = fold kv_remove ks (typingid_userid s)" "count s1 = count s"
    and s2: "typingid_userid s2 = typingid_userid s1" "count s2 = count s1 \<or> count s2 = count s1 + 1"
  shows "typing_dropped room P s s2"
  unfolding typing_dropped_def using s1 s2 by (simp add: kv_get_remove_list keys)

lemma typing_remove_run:
  assumes "typing_inv R s" and "utf8_valid room"
  obtains s' where "typing_remove user room s = (Inr (), s')" and "typing_dropped room (\<lambda>u t. u = user) s s'"
proof -
  define ks where "ks = map fst (filter (\<lambda>e. snd e = user) (kv_scan_prefix (room @ [sep]) (typingid_userid s)))"
  let ?s1 = "typingid_userid_update (fold kv_remove ks) s"
  have keys: "k \<in> set ks \<longleftrightarrow> (\<exists>t c u. k = typing_id room t c \<and> kv_get (typingid_userid s) k = Some u \<and> u = user)" for k
  proof -
    have "k \<in> set ks \<longleftrightarrow> (k, user) \<in> set (kv_scan_prefix (room @ [sep]) (typingid_userid s))"
      by (force simp: ks_def)
    then show ?thesis unfolding typing_scan [OF assms] by blast
  qed
  have run: "for_each ks (\<lambda>k. modify (typingid_userid_update (kv_remove k))) s = (Inr (), ?s1)"
    by (induction ks arbitrary: s) (simp_all add: comp_def)
  from touch_typing_run [of room "ks \<noteq> []" ?s1] obtain s2 where
    s2: "touch_typing room (ks \<noteq> []) ?s1 = (Inr (), s2)" "typingid_userid s2 = typingid_userid ?s1"
      "count s2 = count ?s1 \<or> count s2 = count ?s1 + 1" .
  have "typing_remove user room s = (Inr (), s2)"
    by (simp add: typing_remove_def ks_def [symmetric] andthen_def bind_apply run s2(1))
  moreover have "typing_dropped room (\<lambda>u t. u = user) s s2"
    by (rule typing_removed_keys [OF keys _ _ s2(2,3)]) simp_all
  ultimately show thesis by (rule that)
qed

definition timeout_of :: "room_id \<Rightarrow> bytes \<Rightarrow> u64" where
  "timeout_of room k = from_be_bytes (take 8 (drop (Suc (length room)) k))"

lemma timeout_of_id [simp]: "timeout_of room (typing_id room t c) = t"
  by (simp add: timeout_of_def typing_id_def)

lemma typing_id_less: "typing_id room t c < typing_id room t' c' \<Longrightarrow> t \<le> t'"
  using append_less_cancel [of "room @ [sep]" "to_be_bytes t @ sep # to_be_bytes c" "to_be_bytes t' @ sep # to_be_bytes c'"]
    append_less_same_length [of "to_be_bytes t" "to_be_bytes t'" "sep # to_be_bytes c" "sep # to_be_bytes c'"]
  by (auto simp: typing_id_def to_be_bytes_less_iff)

lemma remove_outdated_run:
  assumes "\<forall>k \<in> set ks. \<exists>t c. k = typing_id room t c" and "sorted_wrt (<) ks" and "utf8_valid room"
  shows "\<exists>f. remove_outdated now found ks s =
    (Inr f, typingid_userid_update (fold kv_remove (filter (\<lambda>k. timeout_of room k < now) ks)) s)"
  using assms(1,2)
proof (induction ks arbitrary: found s)
  case (Cons k ks)
  from Cons.prems(1) obtain t c where k: "k = typing_id room t c" by auto
  have part: "nth_part 1 (splitn_sep 2 k) = Some (to_be_bytes t @ sep # to_be_bytes c)"
    unfolding k typing_id_def splitn_sep_2 [OF utf8_no_sep [OF assms(3)]] by (simp add: nth_part_def)
  show ?case
  proof (cases "t < now")
    case True
    with Cons.IH [of True "typingid_userid_update (kv_remove k) s"] Cons.prems show ?thesis
      using part k by (simp add: comp_def)
  next
    case False
    have "filter (\<lambda>k. timeout_of room k < now) ks = []"
    proof (rule filter_False, intro ballI)
      fix k'
      assume "k' \<in> set ks"
      with Cons.prems obtain t' c' where k': "k' = typing_id room t' c'" "k < k'" by auto
      with typing_id_less [of room t c t' c'] False k show "\<not> timeout_of room k' < now" by simp
    qed
    with False part k show ?thesis by simp
  qed
qed simp

lemma typings_maintain_run:
  assumes "typing_inv R s" and "utf8_valid room"
  obtains s' where "typings_maintain now room s = (Inr (), s')" and "typing_dropped room (\<lambda>u t. t < now) s s'"
proof -
  let ?es = "kv_scan_prefix (room @ [sep]) (typingid_userid s)"
  let ?ks = "filter (\<lambda>k. timeout_of room k < now) (map fst ?es)"
  let ?s1 = "typingid_userid_update (fold kv_remove ?ks) s"
  have "\<forall>k \<in> set (map fst ?es). \<exists>t c. k = typing_id room t c" using typing_scan [OF assms] by auto
  from remove_outdated_run [OF this sorted_kv_scan_prefix assms(2)] obtain f where
    f: "remove_outdated now False (map fst ?es) s = (Inr f, ?s1)" by blast
  from touch_typing_run [of room f ?s1] obtain s2 where
    s2: "touch_typing room f ?s1 = (Inr (), s2)" "typingid_userid s2 = typingid_userid ?s1"
      "count s2 = count ?s1 \<or> count s2 = count ?s1 + 1" .
  have "typings_maintain now room s = (Inr (), s2)" by (simp add: typings_maintain_def bind_apply f s2(1))
  moreover have "k \<in> set ?ks \<longleftrightarrow> (\<exists>t c u. k = typing_id room t c \<and> kv_get (typingid_userid s) k = Some u \<and> t < now)" for k
  proof -
    have "k \<in> set ?ks \<longleftrightarrow> (\<exists>u. (k, u) \<in> set ?es) \<and> timeout_of room k < now" by force
    then show ?thesis unfolding typing_scan [OF assms] by auto
  qed
  then have "typing_dropped room (\<lambda>u t. t < now) s s2"
    by (rule typing_removed_keys [OF _ _ _ s2(2,3)]) simp_all
  ultimately show thesis by (rule that)
qed

text \<open>C25: Typing notices expire. A notice makes the user show up as typing in the room; maintenance
  removes exactly the notices whose timeout has passed, so a user shows up only while one of their
  notices is still running; withdrawing removes all of the user's notices. Other rooms
  never notice any of it.\<close>
theorem typing_expires:
  assumes "typing_inv R s" and "counts_left 3 s" and "utf8_valid room" and "utf8_valid user" and "is_user_id R user"
  shows "\<exists>s1 s2 s3. typing_add user room timeout s = (Inr (), s1) \<and>
    typings_maintain now room s1 = (Inr (), s2) \<and> typing_remove user room s2 = (Inr (), s3) \<and> typing_inv R s3 \<and>
    typings_all R room s1 = Inr (insert user {u. \<exists>t. typing s room u t}) \<and>
    typings_all R room s2 = Inr ({u. \<exists>t. typing s room u t \<and> now \<le> t} \<union> (if now \<le> timeout then {user} else {})) \<and>
    typings_all R room s3 = Inr ({u. \<exists>t. typing s room u t \<and> now \<le> t} - {user}) \<and>
    (\<forall>r. utf8_valid r \<longrightarrow> r \<noteq> room \<longrightarrow> typings_all R r s1 = typings_all R r s \<and>
       typings_all R r s2 = typings_all R r s \<and> typings_all R r s3 = typings_all R r s)"
proof -
  let ?s1 = "typing_added user room timeout s"
  have room: "has_room s" using counts_left_room [of 2 s] assms(2) by simp
  note inv1 = typing_inv_added [OF assms(1) room assms(3-5), of timeout]
    and view1 = typing_added_view [OF assms(1) room assms(3), where user = user and timeout = timeout]
  have left1: "counts_left 2 ?s1" using counts_left_next [of 2 s ?s1] assms(2) by simp
  from typings_maintain_run [OF inv1 assms(3), of now] obtain s2 where
    s2: "typings_maintain now room ?s1 = (Inr (), s2)" "typing_dropped room (\<lambda>u t. t < now) ?s1 s2" .
  have left2: "counts_left 1 s2"
    using s2(2) counts_left_next [of 1 ?s1 s2] counts_left_less [of 1 ?s1 s2] left1
    by (auto simp: typing_dropped_def numeral_2_eq_2)
  have room1: "has_room ?s1" using counts_left_room [of 1 ?s1] left1 by (simp add: numeral_2_eq_2)
  have room2: "has_room s2" using counts_left_room [of 0 s2] left2 by simp
  note inv2 = typing_dropped_inv [OF s2(2) inv1 room1] and view2 = typing_dropped_view [OF s2(2) assms(3)]
  from typing_remove_run [OF inv2 assms(3), of user] obtain s3 where
    s3: "typing_remove user room s2 = (Inr (), s3)" "typing_dropped room (\<lambda>u t. u = user) s2 s3" .
  note inv3 = typing_dropped_inv [OF s3(2) inv2 room2] and view3 = typing_dropped_view [OF s3(2) assms(3)]
  have "typings_all R room ?s1 = Inr (insert user {u. \<exists>t. typing s room u t})"
    unfolding typings_all_view [OF inv1 assms(3)] view1 [OF assms(3)] by auto
  moreover have "typings_all R room s2 = Inr ({u. \<exists>t. typing s room u t \<and> now \<le> t} \<union> (if now \<le> timeout then {user} else {}))"
    unfolding typings_all_view [OF inv2 assms(3)] view2 [OF assms(3)] view1 [OF assms(3)] by (auto simp: not_less)
  moreover have "typings_all R room s3 = Inr ({u. \<exists>t. typing s room u t \<and> now \<le> t} - {user})"
    unfolding typings_all_view [OF inv3 assms(3)] view3 [OF assms(3)] view2 [OF assms(3)] view1 [OF assms(3)]
    by (auto simp: not_less)
  moreover have "typings_all R r ?s1 = typings_all R r s \<and> typings_all R r s2 = typings_all R r s \<and> typings_all R r s3 = typings_all R r s"
    if "utf8_valid r" "r \<noteq> room" for r
    using that by (simp add: typings_all_view [OF _ that(1)] inv1 inv2 inv3 assms(1)
        view1 [OF that(1)] view2 [OF that(1)] view3 [OF that(1)])
  ultimately show ?thesis using typing_add_run [of user room timeout s] s2(1) s3(1) inv3
    by (intro exI [of _ ?s1] exI [of _ s2] exI [of _ s3]) simp
qed

definition edus_init :: "servername \<Rightarrow> edus_db" where
  "edus_init name = keybackups_db.extend (keybackups_init name)
     \<lparr>readreceiptid_readreceipt = kv_empty, roomuserid_privateread = kv_empty,
      roomuserid_lastprivatereadupdate = kv_empty, typingid_userid = kv_empty,
      roomid_lasttypingupdate = kv_empty, presenceid_presence = kv_empty, userid_lastpresenceupdate = kv_empty\<rparr>"

lemmas edus_init_defs = edus_init_def keybackups_init_def keybackups_db.defs statecache_db.defs statecache_init_defs

lemma edus_init_fields [simp]:
  "readreceiptid_readreceipt (edus_init n) = kv_empty" "typingid_userid (edus_init n) = kv_empty"
  "global (edus_init n) = kv_empty" "count (edus_init n) = 0" "has_room (edus_init n)"
  by (simp_all add: edus_init_defs count_def counter_at_def has_room_def)

theorem typing_expires_witness:
  "\<exists>s1 s2 s3. typing_add (ascii ''@u:h'') (ascii ''!r:h'') 10 (edus_init []) = (Inr (), s1) \<and>
    typings_maintain 20 (ascii ''!r:h'') s1 = (Inr (), s2) \<and> typing_remove (ascii ''@u:h'') (ascii ''!r:h'') s2 = (Inr (), s3) \<and>
    typings_all example_ruma (ascii ''!r:h'') s1 = Inr {ascii ''@u:h''} \<and> typings_all example_ruma (ascii ''!r:h'') s2 = Inr {}"
proof -
  have none: "{u. \<exists>t. typing (edus_init []) (ascii ''!r:h'') u t} = {}" "{u. \<exists>t. typing (edus_init []) (ascii ''!r:h'') u t \<and> 20 \<le> t} = {}"
    by (simp_all add: typing_def)
  have inv: "typing_inv example_ruma (edus_init [])" by (simp add: typing_inv_def)
  have left: "counts_left 3 (edus_init [])" by (simp add: counts_left_def)
  have u: "is_user_id example_ruma (ascii ''@u:h'')" by (simp add: example_ruma_def ascii_simps)
  have ids: "utf8_valid (ascii ''!r:h'')" "utf8_valid (ascii ''@u:h'')" by (simp_all add: utf8_valid_ascii)
  from typing_expires [OF inv left ids u, of 10 20] obtain s1 s2 s3 where
    "typing_add (ascii ''@u:h'') (ascii ''!r:h'') 10 (edus_init []) = (Inr (), s1)"
    "typings_maintain 20 (ascii ''!r:h'') s1 = (Inr (), s2)" "typing_remove (ascii ''@u:h'') (ascii ''!r:h'') s2 = (Inr (), s3)"
    "typings_all example_ruma (ascii ''!r:h'') s1 = Inr {ascii ''@u:h''}"
    "typings_all example_ruma (ascii ''!r:h'') s2 = Inr ({} \<union> (if (20 :: u64) \<le> 10 then {ascii ''@u:h''} else {}))"
    unfolding none by (elim exE conjE)
  then show ?thesis by (intro exI [of _ s1] exI [of _ s2] exI [of _ s3]) simp
qed

theorem read_receipts_refine_witness:
  "\<exists>s'. readreceipt_update example_serde (ascii ''@u:h'') (ascii ''!r:h'') (JObj []) (edus_init []) = (Inr (), s') \<and>
    set (readreceipts_since example_serde example_ruma (ascii ''!r:h'') 0 s') = {Inr (ascii ''@u:h'', 1, JObj [])}"
proof -
  have inv: "receipts_inv example_serde example_ruma (edus_init [])" by (simp add: receipts_inv_def)
  have ids: "utf8_valid (ascii ''!r:h'')" "utf8_valid (ascii ''@u:h'')" by (simp_all add: utf8_valid_ascii)
  have u: "is_user_id example_ruma (ascii ''@u:h'')" by (simp add: example_ruma_def ascii_simps)
  have ok: "json_ok (JObj [])" by simp
  from read_receipts_refine [OF example_serde_ok inv edus_init_fields(5) ids u ok] obtain s' where
    run: "readreceipt_update example_serde (ascii ''@u:h'') (ascii ''!r:h'') (JObj []) (edus_init []) = (Inr (), s')"
    and view: "\<forall>r u c j. utf8_valid r \<longrightarrow> (receipt example_serde s' r u c j \<longleftrightarrow>
         (if (r, u) = (ascii ''!r:h'', ascii ''@u:h'') then c = count (edus_init []) + 1 \<and> j = JObj []
          else receipt example_serde (edus_init []) r u c j))"
    and since: "\<forall>r since. utf8_valid r \<longrightarrow> since \<noteq> -1 \<longrightarrow>
       set (readreceipts_since example_serde example_ruma r since s') =
         {Inr (u, c, JObj (obj_remove (ascii ''room_id'') ob)) | u c ob. receipt example_serde s' r u c (JObj ob) \<and> since < c}"
    by (elim exE conjE)
  have "receipt example_serde s' (ascii ''!r:h'') u c (JObj ob) \<longleftrightarrow> u = ascii ''@u:h'' \<and> c = 1 \<and> ob = []" for u c ob
    using view [rule_format, OF ids(1), of u c "JObj ob"] by (auto simp: receipt_def)
  with since [rule_format, OF ids(1), of 0] run show ?thesis
    by (intro exI [of _ s']) (auto simp: obj_remove_def)
qed

end
