(* ===== verification/RoomStores.thy ===== *)
theory RoomStores
  imports Edus
begin

text \<open>
  The smaller room stores of \<^verbatim>\<open>src/database/key_value/rooms/\<close>: aliases, the public
  directory, room metadata, lazy loading of members, unread counts and sync tokens, the rooms users
  share, and the search index. The local part of an alias comes from ruma and is the parameter \<open>localpart\<close>.
\<close>

record roomstores_db = edus_db +
  alias_roomid :: kv_tree
  aliasid_alias :: kv_tree
  publicroomids :: kv_tree
  tokenids :: kv_tree
  disabledroomids :: kv_tree
  lazyloadedids :: kv_tree
  roomsynctoken_shortstatehash :: kv_tree
  lazy_load_waiting :: "user_id \<times> device_id \<times> room_id \<times> u64 \<Rightarrow> user_id set option"

section \<open>Aliases\<close>

definition set_alias :: "(bytes \<Rightarrow> bytes) \<Rightarrow> bytes \<Rightarrow> room_id \<Rightarrow> ('a roomstores_db_scheme, unit) dop" where
  "set_alias localpart alias room =
     andthen (modify (alias_roomid_update (kv_insert (localpart alias) room)))
     (bind next_count (\<lambda>c.
     modify (aliasid_alias_update (kv_insert (room @ sep # to_be_bytes c) alias))))"

definition remove_alias :: "(bytes \<Rightarrow> bytes) \<Rightarrow> bytes \<Rightarrow> ('a roomstores_db_scheme, unit) dop" where
  "remove_alias localpart alias =
     bind (gets (\<lambda>s. kv_get (alias_roomid s) (localpart alias))) (\<lambda>found.
     case found of
       Some room \<Rightarrow>
         andthen (modify (aliasid_alias_update (kv_remove_prefix (room @ [sep]))))
         (modify (alias_roomid_update (kv_remove (localpart alias))))
     | None \<Rightarrow> fail (BadRequest NotFound ''Alias does not exist.''))"

definition resolve_local_alias :: "ruma \<Rightarrow> (bytes \<Rightarrow> bytes) \<Rightarrow> bytes \<Rightarrow> 'a roomstores_db_scheme \<Rightarrow> room_id option res" where
  "resolve_local_alias R localpart alias s =
     transpose_opt (map_option (id_from_bytes (is_room_id R) ''Room ID in alias_roomid is invalid unicode.''
       ''Room ID in alias_roomid is invalid.'') (kv_get (alias_roomid s) (localpart alias)))"

definition local_aliases_for_room :: "ruma \<Rightarrow> room_id \<Rightarrow> 'a roomstores_db_scheme \<Rightarrow> bytes res list" where
  "local_aliases_for_room R room s =
     map (\<lambda>(_, b). id_from_bytes (is_room_alias R) ''Invalid alias bytes in aliasid_alias.''
       ''Invalid alias in aliasid_alias.'' b) (kv_scan_prefix (room @ [sep]) (aliasid_alias s))"

text \<open>\<^verbatim>\<open>users.is_admin\<close>: membership in the room behind \<^verbatim>\<open>#admins:server\<close>\<close>

definition is_admin :: "ruma \<Rightarrow> (bytes \<Rightarrow> bytes) \<Rightarrow> user_id \<Rightarrow> 'a roomstores_db_scheme \<Rightarrow> bool res" where
  "is_admin R localpart user s =
     (let alias = ascii ''#admins:'' @ server_name s in
      if \<not> is_room_alias R alias then Inl (BadRequest InvalidParam ''Invalid alias.'')
      else
        bind_res (resolve_local_alias R localpart alias s) (\<lambda>found.
        case found of
          None \<Rightarrow> Inl (Panic ''called unwrap on a None value'')
        | Some room \<Rightarrow> is_joined user room s))"

section \<open>Directory and metadata\<close>

definition set_public :: "room_id \<Rightarrow> ('a roomstores_db_scheme, unit) dop" where
  "set_public room = modify (publicroomids_update (kv_insert room []))"

definition set_not_public :: "room_id \<Rightarrow> ('a roomstores_db_scheme, unit) dop" where
  "set_not_public room = modify (publicroomids_update (kv_remove room))"

definition is_public_room :: "room_id \<Rightarrow> 'a roomstores_db_scheme \<Rightarrow> bool res" where
  "is_public_room room s = Inr (kv_has (publicroomids s) room)"

definition public_rooms :: "ruma \<Rightarrow> 'a roomstores_db_scheme \<Rightarrow> room_id res list" where
  "public_rooms R s =
     map (\<lambda>(b, _). id_from_bytes (is_room_id R) ''Room ID in publicroomids is invalid unicode.''
       ''Room ID in publicroomids is invalid.'' b) (kv_iter (publicroomids s))"

definition room_exists :: "room_id \<Rightarrow> 'a timeline_db_scheme \<Rightarrow> bool res" where
  "room_exists room s =
     bind_res (get_shortroomid room s) (\<lambda>short.
     case short of
       None \<Rightarrow> Inr False
     | Some n \<Rightarrow>
         Inr (case kv_iter_from (to_be_bytes n) False (pduid_pdu s) of
                [] \<Rightarrow> False
              | (k, _) # _ \<Rightarrow> prefix (to_be_bytes n) k))"

definition iter_ids :: "ruma \<Rightarrow> 'a short_db_scheme \<Rightarrow> room_id res list" where
  "iter_ids R s =
     map (\<lambda>(b, _). id_from_bytes (is_room_id R) ''Room ID in publicroomids is invalid unicode.''
       ''Room ID in roomid_shortroomid is invalid.'' b) (kv_iter (roomid_shortroomid s))"

definition is_disabled :: "room_id \<Rightarrow> 'a roomstores_db_scheme \<Rightarrow> bool res" where
  "is_disabled room s = Inr (kv_has (disabledroomids s) room)"

definition disable_room :: "room_id \<Rightarrow> bool \<Rightarrow> ('a roomstores_db_scheme, unit) dop" where
  "disable_room room disabled =
     (if disabled then modify (disabledroomids_update (kv_insert room []))
      else modify (disabledroomids_update (kv_remove room)))"

section \<open>Lazy loading\<close>

definition lazy_prefix :: "user_id \<Rightarrow> device_id \<Rightarrow> room_id \<Rightarrow> bytes" where
  "lazy_prefix user device room = user @ sep # device @ sep # room @ [sep]"

definition lazy_load_was_sent_before :: "user_id \<Rightarrow> device_id \<Rightarrow> room_id \<Rightarrow> user_id \<Rightarrow> 'a roomstores_db_scheme \<Rightarrow> bool res" where
  "lazy_load_was_sent_before user device room ll_user s =
     Inr (kv_has (lazyloadedids s) (lazy_prefix user device room @ ll_user))"

definition confirm_delivery_db :: "user_id \<Rightarrow> device_id \<Rightarrow> room_id \<Rightarrow> user_id list \<Rightarrow> ('a roomstores_db_scheme, unit) dop" where
  "confirm_delivery_db user device room confirmed =
     for_each confirmed (\<lambda>u. modify (lazyloadedids_update (kv_insert (lazy_prefix user device room @ u) [])))"

definition lazy_load_mark_sent :: "user_id \<Rightarrow> device_id \<Rightarrow> room_id \<Rightarrow> user_id set \<Rightarrow> u64 \<Rightarrow> ('a roomstores_db_scheme, unit) dop" where
  "lazy_load_mark_sent user device room lazy_load c =
     modify (lazy_load_waiting_update (\<lambda>w. w((user, device, room, c) \<mapsto> lazy_load)))"

definition lazy_load_confirm_delivery ::
    "(user_id set \<Rightarrow> user_id list) \<Rightarrow> user_id \<Rightarrow> device_id \<Rightarrow> room_id \<Rightarrow> u64 \<Rightarrow> ('a roomstores_db_scheme, unit) dop" where
  "lazy_load_confirm_delivery iter user device room since =
     bind (gets (\<lambda>s. lazy_load_waiting s (user, device, room, since))) (\<lambda>waiting.
     andthen (modify (lazy_load_waiting_update (\<lambda>w. w((user, device, room, since) := None))))
     (case waiting of
        Some users \<Rightarrow> confirm_delivery_db user device room (iter users)
      | None \<Rightarrow> ret ()))"

definition lazy_load_reset :: "user_id \<Rightarrow> device_id \<Rightarrow> room_id \<Rightarrow> ('a roomstores_db_scheme, unit) dop" where
  "lazy_load_reset user device room =
     modify (lazyloadedids_update (kv_remove_prefix (lazy_prefix user device room)))"

section \<open>Unread counts and sync tokens\<close>

text \<open>
  \<^verbatim>\<open>KeyValueDatabase::load_or_create\<close> opens \<^verbatim>\<open>roomuserid_lastnotificationread\<close> under the name
  \<^verbatim>\<open>userroomid_highlightcount\<close>, so both fields are handles of one tree.
\<close>

definition reset_notification_counts :: "user_id \<Rightarrow> room_id \<Rightarrow> ('a roomstores_db_scheme, unit) dop" where
  "reset_notification_counts user room =
     andthen (modify (userroomid_notificationcount_update (kv_insert (user @ sep # room) (to_be_bytes 0))))
     (andthen (modify (userroomid_highlightcount_update (kv_insert (user @ sep # room) (to_be_bytes 0))))
     (bind next_count (\<lambda>c.
     modify (userroomid_highlightcount_update (kv_insert (room @ sep # user) (to_be_bytes c))))))"

text \<open>A stored count, zero when there is none.\<close>

definition count_or_zero :: "string \<Rightarrow> bytes option \<Rightarrow> u64 res" where
  "count_or_zero msg v = map_res (\<lambda>m. case m of None \<Rightarrow> 0 | Some n \<Rightarrow> n) (decode_u64 msg v)"

definition notification_count :: "user_id \<Rightarrow> room_id \<Rightarrow> 'a timeline_db_scheme \<Rightarrow> u64 res" where
  "notification_count user room s =
     count_or_zero ''Invalid notification count in db.'' (kv_get (userroomid_notificationcount s) (user @ sep # room))"

definition highlight_count :: "user_id \<Rightarrow> room_id \<Rightarrow> 'a timeline_db_scheme \<Rightarrow> u64 res" where
  "highlight_count user room s =
     count_or_zero ''Invalid highlight count in db.'' (kv_get (userroomid_highlightcount s) (user @ sep # room))"

definition last_notification_read :: "user_id \<Rightarrow> room_id \<Rightarrow> 'a roomstores_db_scheme \<Rightarrow> u64 res" where
  "last_notification_read user room s =
     count_or_zero ''Count in roomuserid_lastprivatereadupdate is invalid.''
       (kv_get (userroomid_highlightcount s) (room @ sep # user))"

text \<open>\<^verbatim>\<open>get_shortroomid(room)?.expect("room exists")\<close>\<close>

definition existing_room :: "room_id \<Rightarrow> 'a short_db_scheme \<Rightarrow> u64 res" where
  "existing_room room s =
     bind_res (get_shortroomid room s) (\<lambda>short. ok_or (Panic ''room exists'') short)"

definition associate_token_shortstatehash :: "room_id \<Rightarrow> u64 \<Rightarrow> u64 \<Rightarrow> ('a roomstores_db_scheme, unit) dop" where
  "associate_token_shortstatehash room token shortstatehash =
     bind (reads (existing_room room)) (\<lambda>n.
     modify (roomsynctoken_shortstatehash_update (kv_insert (to_be_bytes n @ to_be_bytes token) (to_be_bytes shortstatehash))))"

definition get_token_shortstatehash :: "room_id \<Rightarrow> u64 \<Rightarrow> 'a roomstores_db_scheme \<Rightarrow> u64 option res" where
  "get_token_shortstatehash room token s =
     bind_res (existing_room room s) (\<lambda>n.
     decode_u64 ''Invalid shortstatehash in roomsynctoken_shortstatehash''
       (kv_get (roomsynctoken_shortstatehash s) (to_be_bytes n @ to_be_bytes token)))"

section \<open>Shared rooms\<close>

definition joined_room_ids :: "user_id \<Rightarrow> 'a statecache_db_scheme \<Rightarrow> bytes list" where
  "joined_room_ids user s =
     map (\<lambda>(k, _). tl (dropWhile (\<lambda>b. b \<noteq> sep) k))
       (filter (\<lambda>(k, _). sep \<in> set k) (kv_scan_prefix (user @ [sep]) (userroomid_joined s)))"

definition get_shared_rooms :: "ruma \<Rightarrow> user_id list \<Rightarrow> 'a statecache_db_scheme \<Rightarrow> room_id res list res" where
  "get_shared_rooms R users s =
     (case common_elements (map (\<lambda>u. joined_room_ids u s) users) bytes_cmp of
        None \<Rightarrow> Inl (Panic ''users is not empty'')
      | Some ids \<Rightarrow>
          Inr (map (id_from_bytes (is_room_id R) ''Invalid RoomId bytes in userroomid_joined''
            ''Invalid RoomId in userroomid_joined.'') ids))"

definition roomstores_init :: "servername \<Rightarrow> roomstores_db" where
  "roomstores_init name = edus_db.extend (edus_init name)
     \<lparr>alias_roomid = kv_empty, aliasid_alias = kv_empty, publicroomids = kv_empty, tokenids = kv_empty,
      disabledroomids = kv_empty, lazyloadedids = kv_empty, roomsynctoken_shortstatehash = kv_empty, lazy_load_waiting = (\<lambda>_. None)\<rparr>"

lemmas roomstores_init_defs = roomstores_init_def edus_db.defs edus_init_defs

lemma roomstores_init_fields [simp]:
  "tokenids (roomstores_init n) = kv_empty" "alias_roomid (roomstores_init n) = kv_empty"
  "aliasid_alias (roomstores_init n) = kv_empty" "global (roomstores_init n) = kv_empty"
  "count (roomstores_init n) = 0" "has_room (roomstores_init n)"
  by (simp_all add: roomstores_init_defs count_def counter_at_def has_room_def)

section \<open>Removing an alias\<close>

lemma aliases_other_room:
  assumes "utf8_valid r" and "utf8_valid room" and "r \<noteq> room"
  shows "kv_scan_prefix (r @ [sep]) (kv_remove_prefix (room @ [sep]) t) = kv_scan_prefix (r @ [sep]) t"
proof (rule entries_equal [OF sorted_kv_scan_prefix sorted_kv_scan_prefix], intro set_eqI)
  fix e
  have "\<not> prefix (room @ [sep]) k" if "prefix (r @ [sep]) k" for k
  proof -
    from that obtain x where "k = r @ sep # x" by (auto simp: prefix_def)
    with assms show ?thesis by (simp add: sep_join_prefix utf8_no_sep)
  qed
  then show "e \<in> set (kv_scan_prefix (r @ [sep]) (kv_remove_prefix (room @ [sep]) t)) \<longleftrightarrow>
      e \<in> set (kv_scan_prefix (r @ [sep]) t)"
    by (cases e) (auto simp: set_kv_scan_prefix kv_get_remove_prefix)
qed

text \<open>Removing an unknown alias fails and changes nothing. Removing a known one makes it, and it
  alone, stop resolving, but empties the list of all aliases of its room; other rooms keep theirs.\<close>
theorem remove_alias_effect:
  "(resolve_local_alias R localpart a s = Inr None \<longrightarrow>
      remove_alias localpart a s = (Inl (BadRequest NotFound ''Alias does not exist.''), s)) \<and>
   (\<forall>room. resolve_local_alias R localpart a s = Inr (Some room) \<longrightarrow>
     (\<exists>s'. remove_alias localpart a s = (Inr (), s') \<and>
       (\<forall>b. resolve_local_alias R localpart b s' =
          (if localpart b = localpart a then Inr None else resolve_local_alias R localpart b s)) \<and>
       local_aliases_for_room R room s' = [] \<and>
       (\<forall>r. utf8_valid r \<longrightarrow> r \<noteq> room \<longrightarrow> local_aliases_for_room R r s' = local_aliases_for_room R r s)))"
proof (intro conjI impI allI)
  assume "resolve_local_alias R localpart a s = Inr None"
  then have "kv_get (alias_roomid s) (localpart a) = None"
    by (simp add: resolve_local_alias_def transpose_opt_def split: option.splits sum.splits)
  then show "remove_alias localpart a s = (Inl (BadRequest NotFound ''Alias does not exist.''), s)"
    by (simp add: remove_alias_def fail_def)
next
  fix room
  assume "resolve_local_alias R localpart a s = Inr (Some room)"
  then have get: "kv_get (alias_roomid s) (localpart a) = Some room" and utf8: "utf8_valid room"
    by (auto simp: resolve_local_alias_def transpose_opt_def id_from_bytes_def string_from_bytes_def parse_id_def
        split: option.splits sum.splits if_splits)
  let ?s = "alias_roomid_update (kv_remove (localpart a)) (aliasid_alias_update (kv_remove_prefix (room @ [sep])) s)"
  show "\<exists>s'. remove_alias localpart a s = (Inr (), s') \<and>
       (\<forall>b. resolve_local_alias R localpart b s' =
          (if localpart b = localpart a then Inr None else resolve_local_alias R localpart b s)) \<and>
       local_aliases_for_room R room s' = [] \<and>
       (\<forall>r. utf8_valid r \<longrightarrow> r \<noteq> room \<longrightarrow> local_aliases_for_room R r s' = local_aliases_for_room R r s)"
  proof (intro exI [of _ ?s] conjI allI impI)
    show "remove_alias localpart a s = (Inr (), ?s)" using get by (simp add: remove_alias_def)
    show "resolve_local_alias R localpart b ?s =
        (if localpart b = localpart a then Inr None else resolve_local_alias R localpart b s)" for b
      by (simp add: resolve_local_alias_def transpose_opt_def)
    have "e \<notin> set (kv_scan_prefix (room @ [sep]) (kv_remove_prefix (room @ [sep]) (aliasid_alias s)))" for e
      by (cases e) (simp add: set_kv_scan_prefix kv_get_remove_prefix)
    then have "kv_scan_prefix (room @ [sep]) (kv_remove_prefix (room @ [sep]) (aliasid_alias s)) = []"
      by (meson last_in_set)
    then show "local_aliases_for_room R room ?s = []" by (simp add: local_aliases_for_room_def)
    show "local_aliases_for_room R r ?s = local_aliases_for_room R r s" if "utf8_valid r" "r \<noteq> room" for r
      using aliases_other_room [OF that(1) utf8 that(2)] by (simp add: local_aliases_for_room_def)
  qed
qed

theorem remove_alias_effect_witness:
  "\<exists>s'. remove_alias (\<lambda>a. a) (ascii ''#a:h'')
      (alias_roomid_update (\<lambda>t. kv_insert (ascii ''#a:h'') (ascii ''!r:h'') (kv_insert (ascii ''#b:h'') (ascii ''!r:h'') t))
        (roomstores_init [])) = (Inr (), s') \<and>
    resolve_local_alias example_ruma (\<lambda>a. a) (ascii ''#a:h'') s' = Inr None \<and>
    resolve_local_alias example_ruma (\<lambda>a. a) (ascii ''#b:h'') s' = Inr (Some (ascii ''!r:h''))"
proof -
  let ?s = "alias_roomid_update (\<lambda>t. kv_insert (ascii ''#a:h'') (ascii ''!r:h'') (kv_insert (ascii ''#b:h'') (ascii ''!r:h'') t))
        (roomstores_init [])"
  have ids: "utf8_valid (ascii ''!r:h'')" by (simp add: utf8_valid_ascii)
  have r: "is_room_id example_ruma (ascii ''!r:h'')" by (simp add: example_ruma_def ascii_simps)
  have ne: "ascii ''#b:h'' \<noteq> ascii ''#a:h''" by (simp add: ascii_simps)
  have a: "resolve_local_alias example_ruma (\<lambda>a. a) (ascii ''#a:h'') ?s = Inr (Some (ascii ''!r:h''))"
    using ids r by (simp add: resolve_local_alias_def)
  have b: "resolve_local_alias example_ruma (\<lambda>a. a) (ascii ''#b:h'') ?s = Inr (Some (ascii ''!r:h''))"
    using ids r ne by (simp add: resolve_local_alias_def)
  from remove_alias_effect [of example_ruma "\<lambda>a. a" "ascii ''#a:h''" ?s] a obtain s' where
    "remove_alias (\<lambda>a. a) (ascii ''#a:h'') ?s = (Inr (), s')"
    "\<forall>b. resolve_local_alias example_ruma (\<lambda>a. a) b s' =
        (if b = ascii ''#a:h'' then Inr None else resolve_local_alias example_ruma (\<lambda>a. a) b ?s)"
    by (elim conjE) blast
  with b ne show ?thesis by (intro exI [of _ s']) simp
qed

end
