(* ===== verification/Search.thy ===== *)
theory Search
  imports RoomStores
begin

text \<open>
  The search index (\<^verbatim>\<open>src/database/key_value/rooms/search.rs\<close>). A text is a list of Unicode code
  points; the code points that count as alphanumeric and the lower-case form of a word are
  parameters, taken from the Unicode tables of the standard library.
\<close>

section \<open>Words\<close>

fun utf8_char :: "nat \<Rightarrow> bytes" where
  "utf8_char c =
     (if c < 0x80 then [of_nat c]
      else if c < 0x800 then [of_nat (0xC0 + c div 0x40), of_nat (0x80 + c mod 0x40)]
      else if c < 0x10000 then [of_nat (0xE0 + c div 0x1000), of_nat (0x80 + c div 0x40 mod 0x40), of_nat (0x80 + c mod 0x40)]
      else [of_nat (0xF0 + c div 0x40000 mod 8), of_nat (0x80 + c div 0x1000 mod 0x40), of_nat (0x80 + c div 0x40 mod 0x40),
            of_nat (0x80 + c mod 0x40)])"

declare utf8_char.simps [simp del]

definition utf8 :: "nat list \<Rightarrow> bytes" where
  "utf8 cs = concat (map utf8_char cs)"

fun split_on :: "('a \<Rightarrow> bool) \<Rightarrow> 'a list \<Rightarrow> 'a list list" where
  "split_on p [] = [[]]"
| "split_on p (c # cs) =
     (if p c then [] # split_on p cs
      else (case split_on p cs of [] \<Rightarrow> [[c]] | w # ws \<Rightarrow> (c # w) # ws))"

definition split_terminator :: "('a \<Rightarrow> bool) \<Rightarrow> 'a list \<Rightarrow> 'a list list" where
  "split_terminator p cs =
     (let parts = split_on p cs in if last parts = [] then butlast parts else parts)"

section \<open>Operations\<close>

definition index_tokens :: "(nat \<Rightarrow> bool) \<Rightarrow> (nat list \<Rightarrow> nat list) \<Rightarrow> nat list \<Rightarrow> bytes list" where
  "index_tokens alnum lower message_body =
     map (\<lambda>w. utf8 (lower w))
       (filter (\<lambda>w. length (utf8 w) \<le> 50)
         (filter (\<lambda>w. w \<noteq> []) (split_terminator (\<lambda>c. \<not> alnum c) message_body)))"

definition token_id :: "u64 \<Rightarrow> bytes \<Rightarrow> bytes \<Rightarrow> bytes" where
  "token_id shortroomid word pdu_id = to_be_bytes shortroomid @ word @ sep # pdu_id"

definition index_pdu ::
    "(nat \<Rightarrow> bool) \<Rightarrow> (nat list \<Rightarrow> nat list) \<Rightarrow> u64 \<Rightarrow> bytes \<Rightarrow> nat list \<Rightarrow> ('a roomstores_db_scheme, unit) dop" where
  "index_pdu alnum lower shortroomid pdu_id message_body =
     modify (tokenids_update (kv_insert_batch
       (map (\<lambda>word. (token_id shortroomid word pdu_id, [])) (index_tokens alnum lower message_body))))"

definition search_words :: "(nat \<Rightarrow> bool) \<Rightarrow> (nat list \<Rightarrow> nat list) \<Rightarrow> nat list \<Rightarrow> nat list list" where
  "search_words alnum lower search_string =
     map lower (filter (\<lambda>w. w \<noteq> []) (split_terminator (\<lambda>c. \<not> alnum c) search_string))"

text \<open>The ids of the events that contain one word, newest first.\<close>

definition word_hits :: "bytes \<Rightarrow> 'a roomstores_db_scheme \<Rightarrow> bytes \<Rightarrow> bytes list" where
  "word_hits prefx s word =
     (let prefix2 = prefx @ word @ [sep] in
      map (\<lambda>e. drop (length (fst e) - 8) (fst e))
        (takeWhile (\<lambda>e. prefix prefix2 (fst e)) (kv_iter_from (prefix2 @ to_be_bytes (-1)) True (tokenids s))))"

definition search_pdus ::
    "(nat \<Rightarrow> bool) \<Rightarrow> (nat list \<Rightarrow> nat list) \<Rightarrow> room_id \<Rightarrow> nat list \<Rightarrow> 'a roomstores_db_scheme \<Rightarrow> (bytes list \<times> nat list list) option res" where
  "search_pdus alnum lower room search_string s =
     map_res (\<lambda>n.
       let prefx = to_be_bytes n; words = search_words alnum lower search_string in
       map_option (\<lambda>ids. (map (\<lambda>i. prefx @ i) ids, words))
         (common_elements (map (\<lambda>w. word_hits prefx s (utf8 w)) words) (\<lambda>a b. bytes_cmp b a)))
       (existing_room room s)"

section \<open>What the index holds\<close>

definition indexed :: "'a roomstores_db_scheme \<Rightarrow> u64 \<Rightarrow> bytes \<Rightarrow> u64 \<Rightarrow> bool" where
  "indexed s n word c \<longleftrightarrow> kv_has (tokenids s) (token_id n word (to_be_bytes n @ to_be_bytes c))"

definition index_inv :: "'a roomstores_db_scheme \<Rightarrow> bool" where
  "index_inv s \<longleftrightarrow> (\<forall>k v. kv_get (tokenids s) k = Some v \<longrightarrow>
     (\<exists>n word c. k = token_id n word (to_be_bytes n @ to_be_bytes c) \<and> sep \<notin> set word))"

lemma of_nat_not_sep: "n < 255 \<Longrightarrow> (of_nat n :: byte) \<noteq> sep"
proof
  assume "n < 255" and "(of_nat n :: byte) = sep"
  then have "unat (of_nat n :: byte) = 255" by (simp add: sep_def)
  with \<open>n < 255\<close> show False by (simp add: unat_of_nat take_bit_eq_mod)
qed

lemma utf8_char_no_sep: "sep \<notin> set (utf8_char c)"
proof -
  have cont: "(of_nat (0x80 + x mod 0x40) :: byte) \<noteq> sep" for x
    using mod_less_divisor [of "0x40" x] by (intro of_nat_not_sep) linarith
  have lead4: "(of_nat (0xF0 + x mod 8) :: byte) \<noteq> sep" for x
    using mod_less_divisor [of 8 x] by (intro of_nat_not_sep) linarith
  have lead2: "(of_nat (0xC0 + c div 0x40) :: byte) \<noteq> sep" if "c < 0x800"
    using that less_mult_imp_div_less [of c "0x20" "0x40"] by (intro of_nat_not_sep) simp
  have lead3: "(of_nat (0xE0 + c div 0x1000) :: byte) \<noteq> sep" if "c < 0x10000"
    using that less_mult_imp_div_less [of c "0x10" "0x1000"] by (intro of_nat_not_sep) simp
  have lead1: "(of_nat c :: byte) \<noteq> sep" if "c < 0x80"
    using that by (intro of_nat_not_sep) simp
  show ?thesis
    unfolding utf8_char.simps [of c]
    using cont lead4 lead3 lead2 lead1 by (simp del: of_nat_add add: not_sym)
qed

lemma utf8_word_no_sep: "sep \<notin> set (utf8 w)"
  using utf8_char_no_sep by (auto simp: utf8_def)

lemma token_id_inject:
  assumes "sep \<notin> set w" and "sep \<notin> set w'"
  shows "token_id n w x = token_id n' w' x' \<longleftrightarrow> n = n' \<and> w = w' \<and> x = x'"
  using assms by (auto simp: token_id_def append_to_be_bytes_inject sep_join_inject)

lemma token_id_prefix:
  assumes "sep \<notin> set w" and "sep \<notin> set w'"
  shows "prefix (to_be_bytes n @ w @ [sep]) (token_id n' w' x) \<longleftrightarrow> n = n' \<and> w = w'"
proof -
  have "token_id n' w' x = (to_be_bytes n @ w @ [sep]) @ zs \<longleftrightarrow> token_id n' w' x = token_id n w zs" for zs
    by (simp add: token_id_def)
  then show ?thesis unfolding prefix_def using token_id_inject [OF assms(2,1)] by auto
qed

lemma index_inv_key:
  assumes "index_inv s" and "kv_get (tokenids s) k = Some v" and "prefix (to_be_bytes n @ w @ [sep]) k" and "sep \<notin> set w"
  obtains c where "k = token_id n w (to_be_bytes n @ to_be_bytes c)"
proof -
  from assms(1,2) obtain m word c where k: "k = token_id m word (to_be_bytes m @ to_be_bytes c)" "sep \<notin> set word"
    unfolding index_inv_def by blast
  with assms(3,4) have "m = n" "word = w" using token_id_prefix [of w word n m] by auto
  with k show ?thesis by (intro that) simp
qed

lemma word_hits_scan:
  assumes "index_inv s" and "sep \<notin> set w" and "n \<noteq> -1"
  shows "word_hits (to_be_bytes n) s w =
         rev (map (\<lambda>e. drop (length (fst e) - 8) (fst e)) (kv_scan_prefix (to_be_bytes n @ w @ [sep]) (tokenids s)))"
proof -
  let ?p = "to_be_bytes n @ w @ [sep]"
  have "filter (\<lambda>e. prefix ?p (fst e) \<and> fst e \<le> ?p @ to_be_bytes (-1)) (kv_iter (tokenids s)) =
        filter (\<lambda>e. prefix ?p (fst e)) (kv_iter (tokenids s))"
  proof (rule filter_cong [OF refl])
    fix e assume "e \<in> set (kv_iter (tokenids s))"
    then have get: "kv_get (tokenids s) (fst e) = Some (snd e)" using kv_iter_get [of "fst e" "snd e"] by simp
    have "fst e \<le> ?p @ to_be_bytes (-1)" if pre: "prefix ?p (fst e)"
    proof -
      obtain c where "fst e = token_id n w (to_be_bytes n @ to_be_bytes c)"
        using index_inv_key [OF assms(1) get pre assms(2)] .
      moreover have "n < -1" using assms(3) by (simp add: word_order.not_eq_extremum)
      ultimately show ?thesis by (simp add: token_id_def key_le_count)
    qed
    then show "(prefix ?p (fst e) \<and> fst e \<le> ?p @ to_be_bytes (-1)) = prefix ?p (fst e)" by blast
  qed
  then show ?thesis
    using kv.desc_range [of ?p "to_be_bytes (-1)" "tokenids s"]
    by (simp add: word_hits_def Let_def kv_iter_from_def kv_scan_prefix_filter rev_map)
qed

lemma token_id_count:
  "drop (length (token_id n w (to_be_bytes n @ to_be_bytes c)) - 8) (token_id n w (to_be_bytes n @ to_be_bytes c)) = to_be_bytes c"
  by (simp add: token_id_def)

lemma word_hits_set:
  assumes "index_inv s" and "sep \<notin> set w" and "n \<noteq> -1"
  shows "set (word_hits (to_be_bytes n) s w) = to_be_bytes ` {c. indexed s n w c}"
proof (intro set_eqI iffI)
  fix i assume "i \<in> set (word_hits (to_be_bytes n) s w)"
  then obtain k v where k: "i = drop (length k - 8) k" "kv_get (tokenids s) k = Some v" "prefix (to_be_bytes n @ w @ [sep]) k"
    unfolding word_hits_scan [OF assms] by (auto simp: set_kv_scan_prefix)
  obtain c where c: "k = token_id n w (to_be_bytes n @ to_be_bytes c)"
    using index_inv_key [OF assms(1) k(2,3) assms(2)] .
  with k(1) have "i = to_be_bytes c" by (simp add: token_id_count)
  moreover have "indexed s n w c" using k(2) c by (simp add: indexed_def kv_has_def)
  ultimately show "i \<in> to_be_bytes ` {c. indexed s n w c}" by simp
next
  fix i assume "i \<in> to_be_bytes ` {c. indexed s n w c}"
  then obtain c v where c: "i = to_be_bytes c" "kv_get (tokenids s) (token_id n w (to_be_bytes n @ to_be_bytes c)) = Some v"
    by (auto simp: indexed_def kv_has_def)
  then have "(token_id n w (to_be_bytes n @ to_be_bytes c), v) \<in> set (kv_scan_prefix (to_be_bytes n @ w @ [sep]) (tokenids s))"
    by (simp add: set_kv_scan_prefix token_id_def)
  then show "i \<in> set (word_hits (to_be_bytes n) s w)"
    unfolding word_hits_scan [OF assms] using c(1) token_id_count [of n w c] by force
qed

lemma word_hits_newest_first:
  assumes "index_inv s" and "sep \<notin> set w" and "n \<noteq> -1"
  shows "sorted_wrt (>) (word_hits (to_be_bytes n) s w)"
proof -
  let ?scan = "kv_scan_prefix (to_be_bytes n @ w @ [sep]) (tokenids s)"
  have "sorted_wrt (\<lambda>x y. fst x < fst y) ?scan"
    using sorted_kv_scan_prefix by (simp add: sorted_wrt_map)
  then have "sorted_wrt (\<lambda>x y. drop (length (fst x) - 8) (fst x) < drop (length (fst y) - 8) (fst y)) ?scan"
  proof (rule sorted_wrt_mono_rel [rotated])
    fix x y assume xy: "x \<in> set ?scan" "y \<in> set ?scan" "fst x < fst y"
    have "\<exists>c. fst e = token_id n w (to_be_bytes n @ to_be_bytes c)" if e: "e \<in> set ?scan" for e
    proof -
      from e have "kv_get (tokenids s) (fst e) = Some (snd e)" "prefix (to_be_bytes n @ w @ [sep]) (fst e)"
        using set_kv_scan_prefix [of "fst e" "snd e"] by auto
      from index_inv_key [OF assms(1) this assms(2)] show ?thesis by metis
    qed
    with xy obtain a b where "fst x = token_id n w (to_be_bytes n @ to_be_bytes a)"
        "fst y = token_id n w (to_be_bytes n @ to_be_bytes b)" by metis
    with xy(3) show "drop (length (fst x) - 8) (fst x) < drop (length (fst y) - 8) (fst y)"
      by (simp add: token_id_count) (simp add: token_id_def)
  qed
  then show ?thesis unfolding word_hits_scan [OF assms] by (simp add: sorted_wrt_rev sorted_wrt_map)
qed

section \<open>Indexing and searching\<close>

lemma index_tokens_no_sep: "w \<in> set (index_tokens alnum lower body) \<Longrightarrow> sep \<notin> set w"
  by (auto simp: index_tokens_def utf8_word_no_sep)

lemma indexed_after:
  assumes "sep \<notin> set w"
  shows "indexed (tokenids_update (kv_insert_batch (map (\<lambda>word. (token_id n word (to_be_bytes n @ to_be_bytes c), []))
           (index_tokens alnum lower body))) s) m w d \<longleftrightarrow>
         indexed s m w d \<or> m = n \<and> d = c \<and> w \<in> set (index_tokens alnum lower body)"
proof -
  let ?es = "map (\<lambda>word. (token_id n word (to_be_bytes n @ to_be_bytes c), [] :: bytes)) (index_tokens alnum lower body)"
  have same: "token_id m w (to_be_bytes m @ to_be_bytes d) = token_id n word (to_be_bytes n @ to_be_bytes c) \<longleftrightarrow>
      m = n \<and> w = word \<and> d = c" if "word \<in> set (index_tokens alnum lower body)" for word
    using token_id_inject [OF assms index_tokens_no_sep [OF that]] by auto
  have "fst ` set (rev ?es) =
      (\<lambda>word. token_id n word (to_be_bytes n @ to_be_bytes c)) ` set (index_tokens alnum lower body)"
    by (simp add: image_image)
  then have "map_of (rev ?es) (token_id m w (to_be_bytes m @ to_be_bytes d)) = None \<longleftrightarrow>
      \<not> (m = n \<and> d = c \<and> w \<in> set (index_tokens alnum lower body))"
    using same by (auto simp: map_of_eq_None_iff image_iff)
  then show ?thesis
    by (cases "map_of (rev ?es) (token_id m w (to_be_bytes m @ to_be_bytes d))")
      (auto simp: indexed_def kv_has_def kv_get_insert_batch)
qed

lemma index_inv_after:
  assumes "index_inv s"
  shows "index_inv (tokenids_update (kv_insert_batch (map (\<lambda>word. (token_id n word (to_be_bytes n @ to_be_bytes c), []))
           (index_tokens alnum lower body))) s)"
  unfolding index_inv_def
proof (intro allI impI)
  fix k v
  let ?es = "map (\<lambda>word. (token_id n word (to_be_bytes n @ to_be_bytes c), [] :: bytes)) (index_tokens alnum lower body)"
  assume get: "kv_get (tokenids (tokenids_update (kv_insert_batch ?es) s)) k = Some v"
  show "\<exists>n word c. k = token_id n word (to_be_bytes n @ to_be_bytes c) \<and> sep \<notin> set word"
  proof (cases "map_of (rev ?es) k")
    case None
    with get have "kv_get (tokenids s) k = Some v" by (simp add: kv_get_insert_batch)
    with assms show ?thesis unfolding index_inv_def by blast
  next
    case (Some v')
    then have "(k, v') \<in> set ?es" using map_of_SomeD [OF Some] by simp
    then obtain word where "word \<in> set (index_tokens alnum lower body)" "k = token_id n word (to_be_bytes n @ to_be_bytes c)"
      by auto
    then show ?thesis using index_tokens_no_sep by (intro exI [of _ n] exI [of _ word] exI [of _ c]) blast
  qed
qed

lemma common_elements_newest_first:
  assumes "\<forall>it \<in> set its. sorted_wrt (>) it" and "its \<noteq> []"
  obtains ids where "common_elements its (\<lambda>a b. bytes_cmp b a) = Some ids" "sorted_wrt (>) ids"
    "set ids = {i. \<forall>it \<in> set its. i \<in> set it}"
proof -
  obtain first others where its: "its = first # others" using assms(2) by (cases its) auto
  have ord: "desc.in_order it" if "it \<in> set its" for it
    using assms(1) that by (auto simp: desc.in_order_def elim: sorted_wrt_mono_rel [rotated])
  have "common_elements its (\<lambda>a b. bytes_cmp b a) = Some (filter (\<lambda>t. \<forall>it \<in> set others. t \<in> set it) first)"
    using desc.common_filter_spec [of first others] ord by (simp add: its common_elements_def)
  then show ?thesis
    using assms(1) by (intro that [of "filter (\<lambda>t. \<forall>it \<in> set others. t \<in> set it) first"]) (auto simp: its sorted_wrt_filter)
qed

lemma search_pdus_run:
  assumes "index_inv s" and "get_shortroomid room s = Inr (Some n)" and "n \<noteq> -1" and "search_words alnum lower q \<noteq> []"
  shows "\<exists>ids. search_pdus alnum lower room q s = Inr (Some (ids, search_words alnum lower q)) \<and> sorted_wrt (>) ids \<and>
    set ids = {to_be_bytes n @ to_be_bytes d | d. \<forall>w \<in> set (search_words alnum lower q). indexed s n (utf8 w) d}"
proof -
  let ?words = "search_words alnum lower q"
  let ?its = "map (\<lambda>w. word_hits (to_be_bytes n) s (utf8 w)) ?words"
  have "\<forall>it \<in> set ?its. sorted_wrt (>) it" using word_hits_newest_first [OF assms(1) utf8_word_no_sep assms(3)] by simp
  moreover have "?its \<noteq> []" using assms(4) by simp
  ultimately obtain ids where ids: "common_elements ?its (\<lambda>a b. bytes_cmp b a) = Some ids" "sorted_wrt (>) ids"
      "set ids = {i. \<forall>it \<in> set ?its. i \<in> set it}" by (rule common_elements_newest_first)
  have "set ids = to_be_bytes ` {d. \<forall>w \<in> set ?words. indexed s n (utf8 w) d}" (is "_ = ?D")
  proof -
    obtain w0 where w0: "w0 \<in> set ?words" using assms(4) by (meson last_in_set)
    have hits: "i \<in> set ids \<longleftrightarrow> (\<forall>w \<in> set ?words. \<exists>d. i = to_be_bytes d \<and> indexed s n (utf8 w) d)" for i
      unfolding ids(3) using word_hits_set [OF assms(1) utf8_word_no_sep assms(3)] by (auto simp: image_iff)
    show ?thesis
    proof (intro set_eqI iffI)
      fix i assume "i \<in> set ids"
      with hits have all: "\<forall>w \<in> set ?words. \<exists>d. i = to_be_bytes d \<and> indexed s n (utf8 w) d" by blast
      with w0 obtain d where "i = to_be_bytes d" by blast
      with all show "i \<in> ?D" by auto
    qed (use hits in auto)
  qed
  moreover have "sorted_wrt (>) (map (\<lambda>i. to_be_bytes n @ i) ids)" using ids(2) by (simp add: sorted_wrt_map)
  moreover have "search_pdus alnum lower room q s = Inr (Some (map (\<lambda>i. to_be_bytes n @ i) ids, ?words))"
    using ids(1) assms(2) by (simp add: search_pdus_def existing_room_def ok_or_def Let_def)
  ultimately show ?thesis by (intro exI [of _ "map (\<lambda>i. to_be_bytes n @ i) ids"]) auto
qed



end
