(* ===== verification/Uiaa.thy ===== *)
theory Uiaa
  imports Search
begin

text \<open>
  User-interactive authentication: the sessions of \<^verbatim>\<open>src/database/key_value/uiaa.rs\<close> and the
  stages of \<^verbatim>\<open>src/service/uiaa/mod.rs\<close>. The serialised form of a \<open>UiaaInfo\<close>, the check of a
  password against a hash, the grammar of user names and the random session ids are parameters.
\<close>

section \<open>Sessions\<close>

record uiaa_db = roomstores_db +
  userdevicesessionid_uiaainfo :: kv_tree
  userdevicesessionid_uiaarequest :: "user_id \<times> device_id \<times> bytes \<Rightarrow> json option"

record uiaa_codec =
  uiaa_print :: "UiaaInfo \<Rightarrow> bytes"
  uiaa_parse :: "bytes \<Rightarrow> UiaaInfo option"

definition uiaa_codec_ok :: "uiaa_codec \<Rightarrow> bool" where
  "uiaa_codec_ok U \<longleftrightarrow> (\<forall>info. uiaa_parse U (uiaa_print U info) = Some info)"

definition uiaa_key :: "user_id \<Rightarrow> device_id \<Rightarrow> bytes \<Rightarrow> bytes" where
  "uiaa_key user device sess = user @ sep # device @ sep # sess"

definition set_uiaa_request :: "user_id \<Rightarrow> device_id \<Rightarrow> bytes \<Rightarrow> json \<Rightarrow> ('a uiaa_db_scheme, unit) dop" where
  "set_uiaa_request user device sess request =
     modify (userdevicesessionid_uiaarequest_update (\<lambda>m. m((user, device, sess) \<mapsto> request)))"

definition get_uiaa_request :: "user_id \<Rightarrow> device_id \<Rightarrow> bytes \<Rightarrow> 'a uiaa_db_scheme \<Rightarrow> json option" where
  "get_uiaa_request user device sess s = userdevicesessionid_uiaarequest s (user, device, sess)"

definition update_uiaa_session ::
    "uiaa_codec \<Rightarrow> user_id \<Rightarrow> device_id \<Rightarrow> bytes \<Rightarrow> UiaaInfo option \<Rightarrow> ('a uiaa_db_scheme, unit) dop" where
  "update_uiaa_session U user device sess uiaainfo =
     (case uiaainfo of
        Some info \<Rightarrow> modify (userdevicesessionid_uiaainfo_update (kv_insert (uiaa_key user device sess) (uiaa_print U info)))
      | None \<Rightarrow> modify (userdevicesessionid_uiaainfo_update (kv_remove (uiaa_key user device sess))))"

definition get_uiaa_session ::
    "uiaa_codec \<Rightarrow> user_id \<Rightarrow> device_id \<Rightarrow> bytes \<Rightarrow> 'a uiaa_db_scheme \<Rightarrow> UiaaInfo res" where
  "get_uiaa_session U user device sess s =
     bind_res (ok_or (BadRequest Forbidden ''UIAA session does not exist.'')
       (kv_get (userdevicesessionid_uiaainfo s) (uiaa_key user device sess))) (\<lambda>b.
     ok_or (BadDatabase ''UiaaInfo in userdeviceid_uiaainfo is invalid.'') (uiaa_parse U b))"

section \<open>The service\<close>

datatype user_identifier = UserIdOrLocalpart bytes | OtherIdentifier

datatype auth_data =
    Password user_identifier bytes "bytes option"
  | Dummy "bytes option"
  | OtherAuth "bytes option"

fun auth_session :: "auth_data \<Rightarrow> bytes option" where
  "auth_session (Password _ _ sess) = sess"
| "auth_session (Dummy sess) = sess"
| "auth_session (OtherAuth sess) = sess"

definition create_session ::
    "uiaa_codec \<Rightarrow> user_id \<Rightarrow> device_id \<Rightarrow> UiaaInfo \<Rightarrow> json \<Rightarrow> ('a uiaa_db_scheme, unit) dop" where
  "create_session U user device uiaainfo json_body =
     (case session uiaainfo of
        None \<Rightarrow> fail (Panic ''session should be set'')
      | Some sess \<Rightarrow>
          andthen (set_uiaa_request user device sess json_body)
          (update_uiaa_session U user device sess (Some uiaainfo)))"

text \<open>
  The stage a request completes: \<^verbatim>\<open>Inl info\<close> is the early \<^verbatim>\<open>Ok((false, uiaainfo))\<close> of a wrong
  password. \<open>verify\<close> is \<^verbatim>\<open>argon2::verify_encoded\<close>, \<open>parse_user\<close> is \<^verbatim>\<open>UserId::parse_with_server_name\<close>.
\<close>

definition complete_stage ::
    "(bytes \<Rightarrow> bytes \<Rightarrow> bool) \<Rightarrow> (bytes \<Rightarrow> servername \<Rightarrow> user_id option) \<Rightarrow> auth_data \<Rightarrow> UiaaInfo \<Rightarrow>
      'a users_db_scheme \<Rightarrow> (UiaaInfo + UiaaInfo) res" where
  "complete_stage verify parse_user auth uiaainfo s =
     (case auth of
        Password identifier password _ \<Rightarrow>
          (case identifier of
             OtherIdentifier \<Rightarrow> Inl (BadRequest Unrecognized ''Identifier type not recognized.'')
           | UserIdOrLocalpart username \<Rightarrow>
               bind_res (ok_or (BadRequest InvalidParam ''User ID is invalid.'') (parse_user username (server_name s))) (\<lambda>user.
               bind_res (password_hash user s) (\<lambda>found.
               Inr (case found of
                      Some hash \<Rightarrow>
                        if \<not> verify hash password
                        then Inl (uiaainfo\<lparr>auth_error := Some (Forbidden, ''Invalid username or password.'')\<rparr>)
                        else Inr (uiaainfo\<lparr>completed := completed uiaainfo @ [AuthPassword]\<rparr>)
                    | None \<Rightarrow> Inr (uiaainfo\<lparr>completed := completed uiaainfo @ [AuthPassword]\<rparr>)))))
      | Dummy _ \<Rightarrow> Inr (Inr (uiaainfo\<lparr>completed := completed uiaainfo @ [AuthDummy]\<rparr>))
      | OtherAuth _ \<Rightarrow> Inr (Inr uiaainfo))"

definition flow_completed :: "UiaaInfo \<Rightarrow> bool" where
  "flow_completed uiaainfo \<longleftrightarrow>
     list_ex (\<lambda>stages. list_all (\<lambda>stage. stage \<in> set (completed uiaainfo)) stages) (flows uiaainfo)"

definition try_auth ::
    "uiaa_codec \<Rightarrow> (bytes \<Rightarrow> bytes \<Rightarrow> bool) \<Rightarrow> (bytes \<Rightarrow> servername \<Rightarrow> user_id option) \<Rightarrow> bytes \<Rightarrow>
      user_id \<Rightarrow> device_id \<Rightarrow> auth_data \<Rightarrow> UiaaInfo \<Rightarrow> ('a uiaa_db_scheme, bool \<times> UiaaInfo) dop" where
  "try_auth U verify parse_user random user device auth uiaainfo =
     bind (case auth_session auth of
             Some sess \<Rightarrow> reads (get_uiaa_session U user device sess)
           | None \<Rightarrow> ret uiaainfo) (\<lambda>info0.
     let sess = (case session info0 of Some sess \<Rightarrow> sess | None \<Rightarrow> random);
         info = info0\<lparr>session := Some sess\<rparr> in
     bind (reads (complete_stage verify parse_user auth info)) (\<lambda>stage.
     case stage of
       Inl refused \<Rightarrow> ret (False, refused)
     | Inr info' \<Rightarrow>
         if \<not> flow_completed info'
         then andthen (update_uiaa_session U user device sess (Some info')) (ret (False, info'))
         else andthen (update_uiaa_session U user device sess None) (ret (True, info'))))"

section \<open>Which stages a request proves\<close>

text \<open>
  A password stage is proved by the password of whichever account the request names, and by any
  password when that account has none stored.
\<close>

fun proves ::
    "(bytes \<Rightarrow> bytes \<Rightarrow> bool) \<Rightarrow> (bytes \<Rightarrow> servername \<Rightarrow> user_id option) \<Rightarrow> auth_data \<Rightarrow> 'a users_db_scheme \<Rightarrow> AuthType \<Rightarrow> bool" where
  "proves verify parse_user (Password (UserIdOrLocalpart username) password _) s AuthPassword \<longleftrightarrow>
     (case parse_user username (server_name s) of
        None \<Rightarrow> False
      | Some u \<Rightarrow>
          (case password_hash u s of
             Inr None \<Rightarrow> True
           | Inr (Some hash) \<Rightarrow> verify hash password
           | Inl _ \<Rightarrow> False))"
| "proves verify parse_user (Dummy _) s AuthDummy \<longleftrightarrow> True"
| "proves verify parse_user _ s _ \<longleftrightarrow> False"

lemma complete_stage_proves:
  assumes "complete_stage verify parse_user auth info s = Inr (Inr info')"
  shows "flows info' = flows info \<and> session info' = session info \<and>
    set (completed info') = set (completed info) \<union> {stage. proves verify parse_user auth s stage}"
proof (cases auth)
  case (Password ident password sess)
  from assms show ?thesis unfolding Password
    by (cases ident) (auto simp: complete_stage_def ok_or_def bind_res_def elim: proves.elims
      split: option.splits sum.splits if_splits)
next
  case (Dummy sess)
  from assms show ?thesis unfolding Dummy by (auto simp: complete_stage_def elim: proves.elims)
next
  case (OtherAuth sess)
  from assms show ?thesis unfolding OtherAuth by (auto simp: complete_stage_def elim: proves.elims)
qed

section \<open>Sessions over several requests\<close>

text \<open>
  The history of one session: the requests made in it, each with the state it was made in. Between
  two requests any other work of the server may happen that leaves the entry of the session alone.
\<close>

inductive auth_trace ::
    "uiaa_codec \<Rightarrow> (bytes \<Rightarrow> bytes \<Rightarrow> bool) \<Rightarrow> (bytes \<Rightarrow> servername \<Rightarrow> user_id option) \<Rightarrow> user_id \<Rightarrow> device_id \<Rightarrow> bytes \<Rightarrow>
      AuthType list list \<Rightarrow> (auth_data \<times> 'a uiaa_db_scheme) list \<Rightarrow> 'a uiaa_db_scheme \<Rightarrow> bool"
  for U verify parse_user user device sess fs where
  created:
    "create_session U user device info body s0 = (Inr (), s) \<Longrightarrow> session info = Some sess \<Longrightarrow> completed info = [] \<Longrightarrow>
     flows info = fs \<Longrightarrow> auth_trace U verify parse_user user device sess fs [] s"
| other:
    "auth_trace U verify parse_user user device sess fs as s \<Longrightarrow>
     kv_get (userdevicesessionid_uiaainfo s') (uiaa_key user device sess) =
       kv_get (userdevicesessionid_uiaainfo s) (uiaa_key user device sess) \<Longrightarrow>
     auth_trace U verify parse_user user device sess fs as s'"
| request:
    "auth_trace U verify parse_user user device sess fs as s \<Longrightarrow> auth_session auth = Some sess \<Longrightarrow>
     try_auth U verify parse_user random user device auth info s = (r, s') \<Longrightarrow>
     auth_trace U verify parse_user user device sess fs (as @ [(auth, s)]) s'"

definition session_proved ::
    "(bytes \<Rightarrow> bytes \<Rightarrow> bool) \<Rightarrow> (bytes \<Rightarrow> servername \<Rightarrow> user_id option) \<Rightarrow> bytes \<Rightarrow> AuthType list list \<Rightarrow>
      (auth_data \<times> 'a uiaa_db_scheme) list \<Rightarrow> UiaaInfo \<Rightarrow> bool" where
  "session_proved verify parse_user sess fs as info \<longleftrightarrow>
     session info = Some sess \<and> flows info = fs \<and>
     (\<forall>stage \<in> set (completed info). \<exists>(a, t) \<in> set as. proves verify parse_user a t stage)"

lemma session_proved_stage:
  assumes "session_proved verify parse_user sess fs as info"
    and "complete_stage verify parse_user auth (info\<lparr>session := Some sess\<rparr>) s = Inr (Inr info')"
  shows "session_proved verify parse_user sess fs (as @ [(auth, s)]) info'"
  using assms complete_stage_proves [OF assms(2)] by (auto simp: session_proved_def)

text \<open>One request in a session, on every branch.\<close>

lemma try_auth_in_session:
  assumes "uiaa_codec_ok U" and "auth_session auth = Some sess"
    and entry: "kv_get (userdevicesessionid_uiaainfo s) (uiaa_key user device sess) = Some (uiaa_print U info)"
    and "session info = Some sess"
    and run: "try_auth U verify parse_user random user device auth uiaainfo s = (r, s')"
  shows "(s' = s \<and> (\<forall>info'. r \<noteq> Inr (True, info'))) \<or>
    (\<exists>info'. complete_stage verify parse_user auth (info\<lparr>session := Some sess\<rparr>) s = Inr (Inr info') \<and>
      (if flow_completed info'
       then r = Inr (True, info') \<and> kv_get (userdevicesessionid_uiaainfo s') (uiaa_key user device sess) = None
       else r = Inr (False, info') \<and>
         kv_get (userdevicesessionid_uiaainfo s') (uiaa_key user device sess) = Some (uiaa_print U info')))"
proof -
  have load: "get_uiaa_session U user device sess s = Inr info"
    using assms(1) entry by (simp add: get_uiaa_session_def ok_or_def uiaa_codec_ok_def)
  have sess: "info\<lparr>session := Some sess\<rparr> = info" using assms(4) by simp
  have eq: "try_auth U verify parse_user random user device auth uiaainfo s =
    bind (reads (complete_stage verify parse_user auth info)) (\<lambda>stage.
     case stage of
       Inl refused \<Rightarrow> ret (False, refused)
     | Inr info' \<Rightarrow>
         if \<not> flow_completed info'
         then andthen (update_uiaa_session U user device sess (Some info')) (ret (False, info'))
         else andthen (update_uiaa_session U user device sess None) (ret (True, info'))) s"
    using assms(2,4) load by (simp add: try_auth_def sess bind_apply [where m = "reads _"])
  consider (err) e where "complete_stage verify parse_user auth info s = Inl e"
    | (refused) i where "complete_stage verify parse_user auth info s = Inr (Inl i)"
    | (stage) i where "complete_stage verify parse_user auth info s = Inr (Inr i)"
    by (metis obj_sumE)
  then show ?thesis
  proof cases
    case err
    then have "(r, s') = (Inl e, s)" using run eq by simp
    then show ?thesis by simp
  next
    case refused
    then have "(r, s') = (Inr (False, i), s)" using run eq by simp
    then show ?thesis by simp
  next
    case stage
    with run eq show ?thesis
      by (cases "flow_completed i") (auto simp: sess update_uiaa_session_def)
  qed
qed

lemma auth_trace_entry:
  assumes "auth_trace U verify parse_user user device sess fs as s" and "uiaa_codec_ok U"
  shows "kv_get (userdevicesessionid_uiaainfo s) (uiaa_key user device sess) = None \<or>
    (\<exists>info. kv_get (userdevicesessionid_uiaainfo s) (uiaa_key user device sess) = Some (uiaa_print U info) \<and>
      session_proved verify parse_user sess fs as info)"
  using assms
proof (induction rule: auth_trace.induct)
  case (created info body s0 s)
  then have "s = userdevicesessionid_uiaainfo_update (kv_insert (uiaa_key user device sess) (uiaa_print U info))
      (userdevicesessionid_uiaarequest_update (\<lambda>m. m((user, device, sess) \<mapsto> body)) s0)"
    by (simp add: create_session_def set_uiaa_request_def update_uiaa_session_def)
  with created show ?case by (auto simp: session_proved_def)
next
  case (other as s s')
  then show ?case by simp
next
  case (request as s auth random info0 r s')
  show ?case
  proof (cases "kv_get (userdevicesessionid_uiaainfo s) (uiaa_key user device sess)")
    case None
    then have "try_auth U verify parse_user random user device auth info0 s =
        (Inl (BadRequest Forbidden ''UIAA session does not exist.''), s)"
      using request.hyps(2) by (simp add: try_auth_def get_uiaa_session_def ok_or_def)
    with request.hyps(3) None show ?thesis by simp
  next
    case (Some b)
    with request.IH [OF request.prems] obtain info where
      entry: "kv_get (userdevicesessionid_uiaainfo s) (uiaa_key user device sess) = Some (uiaa_print U info)"
      and proved: "session_proved verify parse_user sess fs as info" by auto
    then have "session info = Some sess" by (simp add: session_proved_def)
    from try_auth_in_session [OF request.prems request.hyps(2) entry this request.hyps(3)]
    consider (same) "s' = s"
      | (stage) info' where "complete_stage verify parse_user auth (info\<lparr>session := Some sess\<rparr>) s = Inr (Inr info')"
        "kv_get (userdevicesessionid_uiaainfo s') (uiaa_key user device sess) \<in> {None, Some (uiaa_print U info')}"
      by (fastforce split: if_splits)
    then show ?thesis
    proof cases
      case same
      have "session_proved verify parse_user sess fs (as @ [(auth, s)]) info"
        using proved by (auto simp: session_proved_def)
      with same entry show ?thesis by auto
    next
      case stage
      from session_proved_stage [OF proved stage(1)] stage(2) show ?thesis by auto
    qed
  qed
qed


instance ErrorKind :: countable
  by countable_datatype

instance AuthType :: countable
  by countable_datatype

instance UiaaInfo_ext :: (countable) countable
  by (rule countable_classI
    [of "\<lambda>i. to_nat (flows i, completed i, session i, auth_error i, UiaaInfo.more i)"])
    (simp add: UiaaInfo.equality)

definition example_uiaa :: uiaa_codec where
  "example_uiaa = \<lparr>uiaa_print = unary_print, uiaa_parse = unary_parse\<rparr>"

lemma example_uiaa_ok: "uiaa_codec_ok example_uiaa"
  using unary_codec by (auto simp: uiaa_codec_ok_def example_uiaa_def codec_def)

definition uiaa_init :: "servername \<Rightarrow> uiaa_db" where
  "uiaa_init name = roomstores_db.extend (roomstores_init name)
     \<lparr>userdevicesessionid_uiaainfo = kv_empty, userdevicesessionid_uiaarequest = (\<lambda>_. None)\<rparr>"

lemmas uiaa_init_defs = uiaa_init_def roomstores_db.defs roomstores_init_defs


end
