(* ===== verification/Media.thy ===== *)
theory Media
  imports Uiaa
begin

text \<open>
  Media files: \<^verbatim>\<open>src/database/key_value/media.rs\<close> and \<^verbatim>\<open>src/service/media/mod.rs\<close>. The files below
  the media folder are a map from file names to contents; the base64 form of a key and the image
  library are parameters.
\<close>

section \<open>Metadata\<close>

record media_db = uiaa_db +
  mediaid_file :: kv_tree
  media_files :: "bytes \<Rightarrow> bytes option"

definition u32_to_be_bytes :: "u32 \<Rightarrow> bytes" where
  "u32_to_be_bytes n = map (\<lambda>i. ucast (drop_bit (8 * i) n)) [3, 2, 1, 0]"

definition media_prefix :: "bytes \<Rightarrow> u32 \<Rightarrow> u32 \<Rightarrow> bytes" where
  "media_prefix mxc width height = mxc @ sep # u32_to_be_bytes width @ u32_to_be_bytes height @ [sep]"

definition create_file_metadata ::
    "bytes \<Rightarrow> u32 \<Rightarrow> u32 \<Rightarrow> bytes option \<Rightarrow> bytes option \<Rightarrow> ('a media_db_scheme, bytes) dop" where
  "create_file_metadata mxc width height content_disposition content_type =
     (let key = media_prefix mxc width height @ (case content_disposition of Some f \<Rightarrow> f | None \<Rightarrow> []) @
                sep # (case content_type of Some c \<Rightarrow> c | None \<Rightarrow> []) in
      andthen (modify (mediaid_file_update (kv_insert key []))) (ret key))"

definition search_file_metadata ::
    "bytes \<Rightarrow> u32 \<Rightarrow> u32 \<Rightarrow> 'a media_db_scheme \<Rightarrow> (bytes option \<times> bytes option \<times> bytes) res" where
  "search_file_metadata mxc width height s =
     (case kv_scan_prefix (media_prefix mxc width height) (mediaid_file s) of
        [] \<Rightarrow> Inl (BadRequest NotFound ''Media not found'')
      | (key, _) # _ \<Rightarrow>
          (let parts = rev (split_on (\<lambda>b. b = sep) key) in
           bind_res (map_err (BadDatabase ''Content type in mediaid_file is invalid unicode.'')
             (string_from_bytes (hd parts))) (\<lambda>content_type.
           case tl parts of
             [] \<Rightarrow> Inl (BadDatabase ''Media ID in db is invalid.'')
           | disposition # _ \<Rightarrow>
               bind_res (if disposition = [] then Inr None
                 else map_res Some (map_err (BadDatabase ''Content Disposition in mediaid_file is invalid unicode.'')
                   (string_from_bytes disposition))) (\<lambda>content_disposition.
               Inr (content_disposition, Some content_type, key)))))"

section \<open>Files\<close>

record file_meta =
  content_disposition :: "bytes option"
  content_type :: "bytes option"
  file_data :: bytes

definition write_file :: "(bytes \<Rightarrow> bytes) \<Rightarrow> bytes \<Rightarrow> bytes \<Rightarrow> ('a media_db_scheme, unit) dop" where
  "write_file base64 key data = modify (media_files_update (\<lambda>fs. fs(base64 key \<mapsto> data)))"

definition read_file :: "(bytes \<Rightarrow> bytes) \<Rightarrow> bytes \<Rightarrow> 'a media_db_scheme \<Rightarrow> bytes res" where
  "read_file base64 key s = ok_or (IoError ''No such file or directory'') (media_files s (base64 key))"

definition media_create ::
    "(bytes \<Rightarrow> bytes) \<Rightarrow> bytes \<Rightarrow> bytes option \<Rightarrow> bytes option \<Rightarrow> bytes \<Rightarrow> ('a media_db_scheme, unit) dop" where
  "media_create base64 mxc cd ct data =
     bind (create_file_metadata mxc 0 0 cd ct) (\<lambda>key. write_file base64 key data)"

definition upload_thumbnail ::
    "(bytes \<Rightarrow> bytes) \<Rightarrow> bytes \<Rightarrow> bytes option \<Rightarrow> bytes option \<Rightarrow> u32 \<Rightarrow> u32 \<Rightarrow> bytes \<Rightarrow> ('a media_db_scheme, unit) dop" where
  "upload_thumbnail base64 mxc cd ct width height data =
     bind (create_file_metadata mxc width height cd ct) (\<lambda>key. write_file base64 key data)"

definition media_get :: "(bytes \<Rightarrow> bytes) \<Rightarrow> bytes \<Rightarrow> 'a media_db_scheme \<Rightarrow> file_meta option res" where
  "media_get base64 mxc s =
     (case search_file_metadata mxc 0 0 s of
        Inr (cd, ct, key) \<Rightarrow>
          map_res (\<lambda>data. Some \<lparr>content_disposition = cd, content_type = ct, file_data = data\<rparr>) (read_file base64 key s)
      | Inl _ \<Rightarrow> Inr None)"

section \<open>Thumbnails\<close>

definition thumbnail_properties :: "u32 \<Rightarrow> u32 \<Rightarrow> (u32 \<times> u32 \<times> bool) option" where
  "thumbnail_properties width height =
     (if width \<le> 32 \<and> height \<le> 32 then Some (32, 32, True)
      else if width \<le> 96 \<and> height \<le> 96 then Some (96, 96, True)
      else if width \<le> 320 \<and> height \<le> 240 then Some (320, 240, False)
      else if width \<le> 640 \<and> height \<le> 480 then Some (640, 480, False)
      else if width \<le> 800 \<and> height \<le> 600 then Some (800, 600, False)
      else None)"

definition checked_div :: "u64 \<Rightarrow> u64 \<Rightarrow> u64 res" where
  "checked_div a b = (if b = 0 then Inl (Panic ''attempt to divide by zero'') else Inr (a div b))"

definition exact_dimensions :: "u32 \<Rightarrow> u32 \<Rightarrow> u32 \<Rightarrow> u32 \<Rightarrow> (u32 \<times> u32) res" where
  "exact_dimensions original_width original_height width height =
     (let ow = ucast original_width :: u64; oh = ucast original_height; w = ucast width; h = ucast height;
          u32_max = ucast (-1 :: u32) :: u64;
          ratio = ow * h; nratio = w * oh; use_width = (nratio \<le> ratio) in
      bind_res (if use_width then checked_div (oh * w) ow else checked_div (ow * h) oh) (\<lambda>intermediate.
      if use_width then
        (if intermediate \<le> u32_max then Inr (width, ucast intermediate)
         else map_res (\<lambda>q. (ucast q, -1)) (checked_div (w * u32_max) intermediate))
      else if intermediate \<le> u32_max then Inr (ucast intermediate, height)
      else map_res (\<lambda>q. (-1, ucast q)) (checked_div (h * u32_max) intermediate)))"

text \<open>
  The image library: the size of an image, and the PNG files of the image cropped to a size and scaled
  to a size.
\<close>

record image_lib =
  load_size :: "bytes \<Rightarrow> (u32 \<times> u32) option"
  resize_to_fill :: "bytes \<Rightarrow> u32 \<Rightarrow> u32 \<Rightarrow> bytes option"
  thumbnail_exact :: "bytes \<Rightarrow> u32 \<Rightarrow> u32 \<Rightarrow> bytes option"

definition generate_thumbnail :: "image_lib \<Rightarrow> bytes \<Rightarrow> u32 \<Rightarrow> u32 \<Rightarrow> bool \<Rightarrow> (u32 \<times> u32) \<Rightarrow> bytes res" where
  "generate_thumbnail I data width height crop original =
     (if crop then ok_or ImageError (resize_to_fill I data width height)
      else bind_res (exact_dimensions (fst original) (snd original) width height) (\<lambda>(exact_width, exact_height).
        ok_or ImageError (thumbnail_exact I data exact_width exact_height)))"

definition get_thumbnail ::
    "(bytes \<Rightarrow> bytes) \<Rightarrow> image_lib \<Rightarrow> bytes \<Rightarrow> u32 \<Rightarrow> u32 \<Rightarrow> ('a media_db_scheme, file_meta option) dop" where
  "get_thumbnail base64 I mxc width0 height0 =
     (let (width, height, crop) =
        (case thumbnail_properties width0 height0 of Some p \<Rightarrow> p | None \<Rightarrow> (0, 0, False)) in
      bind (gets (search_file_metadata mxc width height)) (\<lambda>saved.
      case saved of
        Inr (cd, ct, key) \<Rightarrow>
          bind (reads (read_file base64 key)) (\<lambda>data.
          ret (Some \<lparr>content_disposition = cd, content_type = ct, file_data = data\<rparr>))
      | Inl _ \<Rightarrow>
          bind (gets (search_file_metadata mxc 0 0)) (\<lambda>original.
          case original of
            Inl _ \<Rightarrow> ret None
          | Inr (cd, ct, key) \<Rightarrow>
              bind (reads (read_file base64 key)) (\<lambda>data.
              case load_size I data of
                None \<Rightarrow> ret (Some \<lparr>content_disposition = cd, content_type = ct, file_data = data\<rparr>)
              | Some (ow, oh) \<Rightarrow>
                  if ow < width \<or> oh < height
                  then ret (Some \<lparr>content_disposition = cd, content_type = ct, file_data = data\<rparr>)
                  else
                    bind (of_res (generate_thumbnail I data width height crop (ow, oh))) (\<lambda>thumbnail.
                    bind (create_file_metadata mxc width height cd ct) (\<lambda>thumbnail_key.
                    andthen (write_file base64 thumbnail_key thumbnail)
                    (ret (Some \<lparr>content_disposition = cd, content_type = ct, file_data = thumbnail\<rparr>))))))))"

lemma unat_u32_bound: "unat (x :: u32) < 2 ^ 32"
  using unsigned_less [of x] by simp

lemma unat_u32_widen [simp]: "unat (ucast (x :: u32) :: u64) = unat x"
  using unat_u32_bound [of x] by (simp add: unsigned_ucast_eq take_bit_nat_eq_self_iff)

lemma unat_u32_times: "unat ((ucast (x :: u32) :: u64) * ucast (y :: u32)) = unat x * unat y"
proof -
  have "unat x * unat y < 2 ^ 32 * 2 ^ 32"
    by (intro mult_strict_mono unat_u32_bound) simp_all
  then show ?thesis by (simp add: unat_word_ariths take_bit_nat_eq_self_iff)
qed

lemma ucast_u32_down: "unat (x :: u64) < 2 ^ 32 \<Longrightarrow> unat (ucast x :: u32) = unat x"
  by (simp add: unsigned_ucast_eq take_bit_nat_eq_self_iff)

lemma exact_dimensions_fit:
  assumes "original_width \<noteq> 0" and "original_height \<noteq> 0"
  shows "exact_dimensions original_width original_height width height =
    (if unat width * unat original_height \<le> unat original_width * unat height
     then Inr (width, of_nat (unat original_height * unat width div unat original_width))
     else Inr (of_nat (unat original_width * unat height div unat original_height), height))"
proof -
  let ?ow = "ucast original_width :: u64" and ?oh = "ucast original_height :: u64"
  let ?w = "ucast width :: u64" and ?h = "ucast height :: u64"
  have pos: "0 < unat original_width" "0 < unat original_height" using assms by (simp_all add: unat_gt_0)
  then have nz: "?ow \<noteq> 0" "?oh \<noteq> 0" by (metis unat_u32_widen unsigned_0 less_not_refl)+
  have le: "?w * ?oh \<le> ?ow * ?h \<longleftrightarrow> unat width * unat original_height \<le> unat original_width * unat height"
    by (simp add: word_le_nat_alt unat_u32_times)
  have dw: "unat (?oh * ?w div ?ow) = unat original_height * unat width div unat original_width"
    by (simp add: unat_div unat_u32_times)
  have dh: "unat (?ow * ?h div ?oh) = unat original_width * unat height div unat original_height"
    by (simp add: unat_div unat_u32_times)
  have max: "unat (ucast (-1 :: u32) :: u64) = 2 ^ 32 - 1"
    by (simp only: unat_u32_widen) (simp add: unsigned_minus_1_eq_mask mask_eq_exp_minus_1)
  show ?thesis
  proof (cases "unat width * unat original_height \<le> unat original_width * unat height")
    case True
    then have "unat original_height * unat width div unat original_width \<le> unat height"
      using pos by (metis div_le_mono mult.commute nonzero_mult_div_cancel_left not_gr_zero)
    then have small: "unat (?oh * ?w div ?ow) < 2 ^ 32" using unat_u32_bound [of height] dw by linarith
    then have "?oh * ?w div ?ow \<le> ucast (-1 :: u32)" unfolding word_le_nat_alt max by linarith
    moreover have "ucast (?oh * ?w div ?ow) = (of_nat (unat original_height * unat width div unat original_width) :: u32)"
      using ucast_u32_down [OF small] dw by (metis of_nat_unat)
    ultimately show ?thesis using True le nz by (simp add: exact_dimensions_def Let_def checked_div_def)
  next
    case False
    then have "unat original_width * unat height div unat original_height \<le> unat width"
      using pos by (metis div_le_mono linorder_le_cases mult.commute nonzero_mult_div_cancel_left not_gr_zero)
    then have small: "unat (?ow * ?h div ?oh) < 2 ^ 32" using unat_u32_bound [of width] dh by linarith
    then have "?ow * ?h div ?oh \<le> ucast (-1 :: u32)" unfolding word_le_nat_alt max by linarith
    moreover have "ucast (?ow * ?h div ?oh) = (of_nat (unat original_width * unat height div unat original_height) :: u32)"
      using ucast_u32_down [OF small] dh by (metis of_nat_unat)
    ultimately show ?thesis using False le nz by (simp add: exact_dimensions_def Let_def checked_div_def)
  qed
qed

lemma exact_dimensions_bounds:
  assumes "original_width \<noteq> 0" and "original_height \<noteq> 0"
  shows "\<exists>w h. exact_dimensions original_width original_height width height = Inr (w, h) \<and>
    w \<le> width \<and> h \<le> height \<and> (w = width \<or> h = height)"
proof -
  have pos: "0 < unat original_width" "0 < unat original_height" using assms by (simp_all add: unat_gt_0)
  have fit: "(of_nat n :: u32) \<le> x" if "n \<le> unat x" for n and x :: u32
    using that unat_u32_bound [of x] by (simp add: word_le_nat_alt unat_of_nat take_bit_nat_eq_self_iff)
  show ?thesis
  proof (cases "unat width * unat original_height \<le> unat original_width * unat height")
    case True
    then have "unat original_height * unat width div unat original_width \<le> unat height"
      using pos by (metis div_le_mono mult.commute nonzero_mult_div_cancel_left not_gr_zero)
    with True fit show ?thesis by (simp add: exact_dimensions_fit [OF assms])
  next
    case False
    then have "unat original_width * unat height div unat original_height \<le> unat width"
      using pos by (metis div_le_mono linorder_le_cases mult.commute nonzero_mult_div_cancel_left not_gr_zero)
    with False fit show ?thesis by (simp add: exact_dimensions_fit [OF assms])
  qed
qed

lemma thumbnail_properties_box:
  assumes "thumbnail_properties width0 height0 = Some (width, height, crop)"
  shows "width0 \<le> width \<and> height0 \<le> height \<and> 32 \<le> width \<and> 32 \<le> height \<and> width \<le> 800 \<and> height \<le> 600"
  using assms by (auto simp: thumbnail_properties_def split: if_splits)

lemma search_no_panic: "search_file_metadata mxc w h s \<noteq> Inl (Panic m)"
  by (auto simp: search_file_metadata_def Let_def map_err_def bind_res_def map_res_def
      split: list.splits sum.splits if_splits)

lemma read_no_panic: "read_file base64 key s \<noteq> Inl (Panic m)"
  by (simp add: read_file_def ok_or_def split: option.split)

lemma generate_no_panic:
  assumes "ow \<noteq> 0" and "oh \<noteq> 0"
  shows "generate_thumbnail I data w h crop (ow, oh) \<noteq> Inl (Panic m)"
  using exact_dimensions_bounds [OF assms, of w h]
  by (auto simp: generate_thumbnail_def ok_or_def split: option.splits)

definition no_panic :: "('s, 'a) dop \<Rightarrow> bool" where
  "no_panic p \<longleftrightarrow> (\<forall>s m. fst (p s) \<noteq> Inl (Panic m))"

lemma no_panic_bind: "no_panic p \<Longrightarrow> (\<And>x. no_panic (f x)) \<Longrightarrow> no_panic (bind p f)"
  by (auto simp: no_panic_def bind_apply split: sum.split prod.split) (metis fst_conv)

lemma no_panic_andthen: "no_panic p \<Longrightarrow> no_panic q \<Longrightarrow> no_panic (andthen p q)"
  by (simp add: andthen_def no_panic_bind)

lemma no_panic_base:
  "no_panic (ret x)" "no_panic (gets g)" "no_panic (modify h)"
  "(\<And>s m. r s \<noteq> Inl (Panic m)) \<Longrightarrow> no_panic (reads r)"
  "(\<And>m. v \<noteq> Inl (Panic m)) \<Longrightarrow> no_panic (of_res v)"
  by (simp_all add: no_panic_def)

lemmas no_panic_intros = no_panic_bind no_panic_andthen no_panic_base

lemma get_thumbnail_no_panic:
  "no_panic (get_thumbnail base64 I mxc width0 height0 :: ('a media_db_scheme, file_meta option) dop)"
proof -
  obtain w h crop where p: "(case thumbnail_properties width0 height0 of Some p \<Rightarrow> p | None \<Rightarrow> (0, 0, False)) = (w, h, crop)"
    by (cases "case thumbnail_properties width0 height0 of Some p \<Rightarrow> p | None \<Rightarrow> (0, 0, False)") auto
  show ?thesis
  proof (cases "w = 0 \<and> h = 0")
    case True
    have "fst (get_thumbnail base64 I mxc width0 height0 s) \<noteq> Inl (Panic m)"
      for s :: "'a media_db_scheme" and m
    proof (cases "search_file_metadata mxc 0 0 s")
      case (Inr found)
      obtain cd ct key where "found = (cd, ct, key)" by (cases found) auto
      with Inr p True show ?thesis using read_no_panic [of base64 key s m]
        by (cases "read_file base64 key s") (auto simp: get_thumbnail_def)
    qed (use p True in \<open>simp add: get_thumbnail_def\<close>)
    then show ?thesis by (simp add: no_panic_def)
  next
    case False
    with p have box: "thumbnail_properties width0 height0 = Some (w, h, crop)" by (auto split: option.splits)
    have pos: "0 < w" "0 < h"
      using thumbnail_properties_box [OF box] by (auto simp: word_less_nat_alt word_le_nat_alt)
    have "generate_thumbnail I data w h crop (ow, oh) \<noteq> Inl (Panic m)" if "\<not> (ow < w \<or> oh < h)" for data ow oh m
      using that pos by (intro generate_no_panic) auto
    then show ?thesis
      unfolding get_thumbnail_def p Let_def prod.case create_file_metadata_def write_file_def
      by (intro no_panic_intros read_no_panic)
        (simp add: no_panic_intros read_no_panic split: sum.split prod.split option.split)
  qed
qed



section \<open>Stored files are read back\<close>

lemma split_on_no_sep: "sep \<notin> set x \<Longrightarrow> split_on (\<lambda>b. b = sep) x = [x]"
  by (induction x) auto

lemma split_on_not_Nil: "split_on p x \<noteq> []"
  by (induction x) (auto split: list.split)

lemma split_on_append_sep: "split_on (\<lambda>b. b = sep) (x @ sep # y) = split_on (\<lambda>b. b = sep) x @ split_on (\<lambda>b. b = sep) y"
proof (induction x)
  case Nil
  show ?case by simp
next
  case (Cons a x)
  then show ?case using split_on_not_Nil [of "\<lambda>b. b = sep" x]
    by (auto simp: neq_Nil_conv split: list.splits)
qed

definition media_key :: "bytes \<Rightarrow> u32 \<Rightarrow> u32 \<Rightarrow> bytes option \<Rightarrow> bytes option \<Rightarrow> bytes" where
  "media_key mxc width height cd ct =
     media_prefix mxc width height @ (case cd of Some f \<Rightarrow> f | None \<Rightarrow> []) @ sep # (case ct of Some c \<Rightarrow> c | None \<Rightarrow> [])"

lemma scan_insert_only:
  assumes "kv_scan_prefix p t = []" and "prefix p k"
  shows "kv_scan_prefix p (kv_insert k v t) = [(k, v)]"
proof (rule entries_equal [OF sorted_kv_scan_prefix], simp, intro set_eqI)
  fix e
  have "kv_get t (fst e) \<noteq> Some (snd e)" if "prefix p (fst e)"
    using assms(1) set_kv_scan_prefix [of "fst e" "snd e" p t] that by simp
  then show "e \<in> set (kv_scan_prefix p (kv_insert k v t)) \<longleftrightarrow> e \<in> set [(k, v)]"
    using assms(2) by (cases e) (auto simp: set_kv_scan_prefix)
qed

lemma search_only_file:
  assumes "kv_scan_prefix (media_prefix mxc w h) (mediaid_file s) = [(media_key mxc w h cd ct, v)]"
    and "\<forall>f. cd = Some f \<longrightarrow> utf8_valid f" and "\<forall>c. ct = Some c \<longrightarrow> utf8_valid c"
  shows "search_file_metadata mxc w h s =
    Inr (if cd = Some [] then None else cd, Some (case ct of Some c \<Rightarrow> c | None \<Rightarrow> []), media_key mxc w h cd ct)"
proof -
  let ?d = "case cd of Some f \<Rightarrow> f | None \<Rightarrow> []" and ?t = "case ct of Some c \<Rightarrow> c | None \<Rightarrow> []"
  have valid: "utf8_valid ?d" "utf8_valid ?t" using assms(2,3) by (auto split: option.split)
  have "split_on (\<lambda>b. b = sep) (media_key mxc w h cd ct) =
      split_on (\<lambda>b. b = sep) (mxc @ sep # u32_to_be_bytes w @ u32_to_be_bytes h) @ [?d] @ [?t]"
  proof -
    have "media_key mxc w h cd ct = (mxc @ sep # u32_to_be_bytes w @ u32_to_be_bytes h) @ sep # ?d @ sep # ?t"
      by (simp add: media_key_def media_prefix_def)
    then show ?thesis
      using split_on_no_sep [OF utf8_no_sep [OF valid(1)]] split_on_no_sep [OF utf8_no_sep [OF valid(2)]]
      by (simp only: split_on_append_sep)
  qed
  then show ?thesis using valid
    by (cases cd) (auto simp: search_file_metadata_def assms(1) Let_def)
qed

lemma media_prefix_other:
  assumes "sep \<notin> set mxc" and "sep \<notin> set mxc'" and "mxc' \<noteq> mxc"
  shows "\<not> prefix (media_prefix mxc' w' h') (media_key mxc w h cd ct)"
proof
  assume "prefix (media_prefix mxc' w' h') (media_key mxc w h cd ct)"
  then obtain z where "mxc @ sep # (u32_to_be_bytes w @ u32_to_be_bytes h @ sep # (case cd of Some f \<Rightarrow> f | None \<Rightarrow> []) @
      sep # (case ct of Some c \<Rightarrow> c | None \<Rightarrow> [])) = mxc' @ sep # (u32_to_be_bytes w' @ u32_to_be_bytes h' @ sep # z)"
    by (auto simp: prefix_def media_prefix_def media_key_def)
  then show False using assms sep_join_inject [OF assms(1,2)] by blast
qed

lemma search_found_prefix:
  assumes "search_file_metadata mxc w h s = Inr (cd, ct, key)"
  shows "prefix (media_prefix mxc w h) key"
proof (cases "kv_scan_prefix (media_prefix mxc w h) (mediaid_file s)")
  case Nil
  with assms show ?thesis by (simp add: search_file_metadata_def)
next
  case (Cons e es)
  then have "key = fst e"
    using assms by (auto simp: search_file_metadata_def Let_def bind_res_def split: prod.splits sum.splits list.splits)
  with Cons show ?thesis using set_kv_scan_prefix [of "fst e" "snd e"] by (metis list.set_intros(1) prod.collapse)
qed

text \<open>C30: An uploaded file is served with its content and its metadata, an absent content type coming
  back as an empty one, and uploads do not change what other media ids serve.\<close>
theorem media_roundtrip:
  assumes "inj base64" and "sep \<notin> set mxc" and "kv_scan_prefix (media_prefix mxc 0 0) (mediaid_file s) = []"
    and "\<forall>f. cd = Some f \<longrightarrow> utf8_valid f" and "\<forall>c. ct = Some c \<longrightarrow> utf8_valid c"
  shows "\<exists>s'. media_create base64 mxc cd ct data s = (Inr (), s') \<and>
    media_get base64 mxc s' = Inr (Some \<lparr>content_disposition = (if cd = Some [] then None else cd),
      content_type = Some (case ct of Some c \<Rightarrow> c | None \<Rightarrow> []), file_data = data\<rparr>) \<and>
    (\<forall>other. sep \<notin> set other \<longrightarrow> other \<noteq> mxc \<longrightarrow> media_get base64 other s' = media_get base64 other s)"
proof -
  let ?k = "media_key mxc 0 0 cd ct"
  let ?s = "media_files_update (\<lambda>fs. fs(base64 ?k \<mapsto> data)) (mediaid_file_update (kv_insert ?k []) s)"
  have "prefix (media_prefix mxc 0 0) ?k" by (simp add: media_key_def)
  from scan_insert_only [OF assms(3) this]
  have found: "search_file_metadata mxc 0 0 ?s =
      Inr (if cd = Some [] then None else cd, Some (case ct of Some c \<Rightarrow> c | None \<Rightarrow> []), ?k)"
    by (intro search_only_file [OF _ assms(4,5)]) simp
  have rest: "media_get base64 other ?s = media_get base64 other s" if "sep \<notin> set other" "other \<noteq> mxc" for other
  proof -
    note no = media_prefix_other [OF assms(2) that, of 0 0 0 0 cd ct]
    have same: "search_file_metadata other 0 0 ?s = search_file_metadata other 0 0 s"
      using no by (simp add: search_file_metadata_def)
    have "read_file base64 key ?s = read_file base64 key s" if "search_file_metadata other 0 0 s = Inr (d, t, key)" for d t key
    proof -
      have "key \<noteq> ?k" using search_found_prefix [OF that] no by blast
      then show ?thesis using assms(1) by (simp add: read_file_def inj_eq)
    qed
    with same show ?thesis by (auto simp: media_get_def split: sum.split)
  qed
  have "media_create base64 mxc cd ct data s = (Inr (), ?s)"
    by (simp add: media_create_def create_file_metadata_def write_file_def media_key_def Let_def)
  moreover have "media_get base64 mxc ?s = Inr (Some \<lparr>content_disposition = (if cd = Some [] then None else cd),
      content_type = Some (case ct of Some c \<Rightarrow> c | None \<Rightarrow> []), file_data = data\<rparr>)"
    using found by (simp add: media_get_def read_file_def ok_or_def)
  ultimately show ?thesis using rest by (intro exI [of _ ?s]) blast
qed

definition media_init :: "servername \<Rightarrow> media_db" where
  "media_init name = uiaa_db.extend (uiaa_init name) \<lparr>mediaid_file = kv_empty, media_files = (\<lambda>_. None)\<rparr>"

lemmas media_init_defs = media_init_def uiaa_db.defs uiaa_init_defs

theorem media_roundtrip_witness:
  "\<exists>s'. media_create (\<lambda>b. b) (ascii ''mxc'') (Some (ascii ''f'')) None [7] (media_init []) = (Inr (), s') \<and>
    media_get (\<lambda>b. b) (ascii ''mxc'') s' =
      Inr (Some \<lparr>content_disposition = Some (ascii ''f''), content_type = Some [], file_data = [7]\<rparr>)"
proof -
  have mxc: "sep \<notin> set (ascii ''mxc'')" by (intro utf8_no_sep) (simp add: utf8_valid_ascii)
  have f: "\<forall>f. Some (ascii ''f'') = Some f \<longrightarrow> utf8_valid f" by (simp add: utf8_valid_ascii)
  have ne: "Some (ascii ''f'') \<noteq> Some []" by (simp add: ascii_simps)
  have empty: "kv_scan_prefix (media_prefix (ascii ''mxc'') 0 0) (mediaid_file (media_init [])) = []"
    by (simp add: media_init_def uiaa_db.defs)
  from media_roundtrip [OF _ mxc empty f, of "\<lambda>b. b" None "[7]"] ne show ?thesis by (auto simp: inj_def)
qed

end
