(* ===== verification/Pushers.thy ===== *)
theory Pushers
  imports Media
begin

text \<open>
  Transaction ids (\<^verbatim>\<open>src/database/key_value/transaction_ids.rs\<close>), appservice registrations
  (\<^verbatim>\<open>src/database/key_value/appservice.rs\<close>), pushers (\<^verbatim>\<open>src/database/key_value/pusher.rs\<close>) and the push
  notices of \<^verbatim>\<open>src/service/pusher/mod.rs\<close>. Typed contents, the evaluation of push rules and the
  request to the push gateway are parameters.
\<close>

record pushers_db = media_db +
  userdevicetxnid_response :: kv_tree
  id_appserviceregistrations :: kv_tree
  cached_registrations :: "bytes \<Rightarrow> json option"
  senderkey_pusher :: kv_tree

section \<open>Transaction ids\<close>

definition txn_key :: "user_id \<Rightarrow> device_id option \<Rightarrow> bytes \<Rightarrow> bytes" where
  "txn_key user device txn = user @ sep # (case device of Some d \<Rightarrow> d | None \<Rightarrow> []) @ sep # txn"

definition add_txnid :: "user_id \<Rightarrow> device_id option \<Rightarrow> bytes \<Rightarrow> bytes \<Rightarrow> ('a pushers_db_scheme, unit) dop" where
  "add_txnid user device txn data = modify (userdevicetxnid_response_update (kv_insert (txn_key user device txn) data))"

definition existing_txnid :: "user_id \<Rightarrow> device_id option \<Rightarrow> bytes \<Rightarrow> 'a pushers_db_scheme \<Rightarrow> bytes option res" where
  "existing_txnid user device txn s = Inr (kv_get (userdevicetxnid_response s) (txn_key user device txn))"

section \<open>Appservice registrations\<close>

text \<open>A YAML document is a JSON value; \<open>print\<close> and \<open>parse\<close> are \<^verbatim>\<open>serde_yaml\<close>.\<close>

definition yaml_str :: "json \<Rightarrow> bytes \<Rightarrow> bytes option" where
  "yaml_str doc key = (case json_get doc key of Some (JStr t) \<Rightarrow> Some t | _ \<Rightarrow> None)"

definition register_appservice :: "(json \<Rightarrow> bytes) \<Rightarrow> json \<Rightarrow> ('a pushers_db_scheme, bytes) dop" where
  "register_appservice print yaml =
     (case yaml_str yaml (ascii ''id'') of
        None \<Rightarrow> fail (Panic ''called unwrap on a None value'')
      | Some i \<Rightarrow>
          andthen (modify (id_appserviceregistrations_update (kv_insert i (print yaml))))
          (andthen (modify (cached_registrations_update (\<lambda>c. c(i \<mapsto> yaml))))
          (ret i)))"

definition unregister_appservice :: "bytes \<Rightarrow> ('a pushers_db_scheme, unit) dop" where
  "unregister_appservice service_name =
     andthen (modify (id_appserviceregistrations_update (kv_remove service_name)))
     (modify (cached_registrations_update (\<lambda>c. c(service_name := None))))"

definition get_registration :: "(bytes \<Rightarrow> json option) \<Rightarrow> bytes \<Rightarrow> 'a pushers_db_scheme \<Rightarrow> json option res" where
  "get_registration parse i s =
     (case cached_registrations s i of
        Some r \<Rightarrow> Inr (Some r)
      | None \<Rightarrow>
          transpose_opt (map_option
            (\<lambda>b. ok_or (BadDatabase ''Invalid registration bytes in id_appserviceregistrations.'') (parse b))
            (kv_get (id_appserviceregistrations s) i)))"

definition appservice_ids :: "'a pushers_db_scheme \<Rightarrow> bytes res list" where
  "appservice_ids s =
     map (\<lambda>(i, _). map_err (BadDatabase ''Invalid id bytes in id_appserviceregistrations.'') (string_from_bytes i))
       (kv_iter (id_appserviceregistrations s))"

definition all_appservices :: "(bytes \<Rightarrow> json option) \<Rightarrow> 'a pushers_db_scheme \<Rightarrow> (bytes \<times> json) list res" where
  "all_appservices parse s =
     collect_res (map (\<lambda>i. bind_res (get_registration parse i s) (\<lambda>found.
         map_res (\<lambda>r. (i, r)) (ok_or (Panic ''iter_ids only returns appservices that exist'') found)))
       (List.map_filter res_ok (appservice_ids s)))"

section \<open>Pushers\<close>

datatype push_format = FullEvent | EventIdOnly

datatype pusher_kind = Http bytes "push_format option" json | Email | OtherPusher

record pusher =
  pushkey :: bytes
  app_id :: bytes
  pusher_of :: pusher_kind

datatype pusher_action = PostPusher pusher | DeletePusher bytes

definition set_pusher :: "(pusher_action \<Rightarrow> bytes) \<Rightarrow> user_id \<Rightarrow> pusher_action \<Rightarrow> ('a pushers_db_scheme, unit) dop" where
  "set_pusher print user act =
     (case act of
        PostPusher p \<Rightarrow> modify (senderkey_pusher_update (kv_insert (user @ sep # pushkey p) (print act)))
      | DeletePusher key \<Rightarrow> modify (senderkey_pusher_update (kv_remove (user @ sep # key))))"

definition get_pusher :: "(bytes \<Rightarrow> pusher option) \<Rightarrow> user_id \<Rightarrow> bytes \<Rightarrow> 'a pushers_db_scheme \<Rightarrow> pusher option res" where
  "get_pusher parse user key s =
     transpose_opt (map_option (\<lambda>b. ok_or (BadDatabase ''Invalid Pusher in db.'') (parse b))
       (kv_get (senderkey_pusher s) (user @ sep # key)))"

definition get_pushers :: "(bytes \<Rightarrow> pusher option) \<Rightarrow> user_id \<Rightarrow> 'a pushers_db_scheme \<Rightarrow> pusher list res" where
  "get_pushers parse user s =
     collect_res (map (\<lambda>(_, b). ok_or (BadDatabase ''Invalid Pusher in db.'') (parse b))
       (kv_scan_prefix (user @ [sep]) (senderkey_pusher s)))"

definition get_pushkeys :: "user_id \<Rightarrow> 'a pushers_db_scheme \<Rightarrow> bytes res list" where
  "get_pushkeys user s =
     map (\<lambda>(k, _).
       if sep \<notin> set k then Inl (BadDatabase ''Invalid senderkey_pusher in db'')
       else map_err (BadDatabase ''Invalid pusher bytes in senderkey_pusher'')
         (string_from_bytes (tl (dropWhile (\<lambda>b. b \<noteq> sep) k))))
       (kv_scan_prefix (user @ [sep]) (senderkey_pusher s))"

section \<open>Push notices\<close>

datatype tweak = Sound bytes | Highlight bool | CustomTweak bytes json

datatype push_act = DontNotify | Notify | Coalesce | SetTweak tweak

datatype priority = Low | High

record push_device =
  dev_app_id :: bytes
  dev_pushkey :: bytes
  dev_payload :: json
  dev_format :: "push_format option"
  dev_tweaks :: "tweak list"

record notification =
  n_device :: push_device
  n_prio :: priority
  n_event_id :: event_id
  n_room_id :: room_id
  n_unread :: u64
  n_sender :: "user_id option"
  n_type :: "bytes option"
  n_content :: "json option"
  n_user_is_target :: bool
  n_sender_display_name :: "bytes option"
  n_room_name :: "bytes option"

record push_ctx =
  ctx_room :: room_id
  ctx_member_count :: nat
  ctx_user :: user_id
  ctx_display_name :: bytes
  ctx_power_levels :: json

text \<open>
  What comes from ruma: typed contents (power levels and room names; a missing power level event gives
  the default), the local part of a user id, and the actions a rule set has for an event.
\<close>

record push_lib =
  power_levels_of :: "json \<Rightarrow> json option"
  default_power_levels :: json
  room_name_of :: "json \<Rightarrow> bytes option option"
  user_localpart :: "user_id \<Rightarrow> bytes"
  ruleset_actions :: "json \<Rightarrow> push_ctx \<Rightarrow> json \<Rightarrow> push_act list"

definition get_actions ::
    "push_lib \<Rightarrow> user_id \<Rightarrow> json \<Rightarrow> json \<Rightarrow> json \<Rightarrow> room_id \<Rightarrow> 'a users_db_scheme \<Rightarrow> push_act list res" where
  "get_actions P user ruleset power_levels event room s =
     map_res (\<lambda>name. ruleset_actions P ruleset
         \<lparr>ctx_room = room, ctx_member_count = 10, ctx_user = user,
          ctx_display_name = (case name of Some n \<Rightarrow> n | None \<Rightarrow> user_localpart P user),
          ctx_power_levels = power_levels\<rparr> event)
       (displayname user s)"

definition malformed_pushrule :: error where
  "malformed_pushrule = BadDatabase (''Malformed pushrule contains more than one of these actions: '' @
     ''[\"dont_notify\", \"notify\", \"coalesce\"]'')"

fun decide_notify :: "push_act list \<Rightarrow> bool option \<Rightarrow> tweak list \<Rightarrow> (bool option \<times> tweak list) res" where
  "decide_notify [] notify tweaks = Inr (notify, tweaks)"
| "decide_notify (SetTweak t # as) notify tweaks = decide_notify as notify (tweaks @ [t])"
| "decide_notify (a # as) notify tweaks =
     (if notify \<noteq> None
      then Inl malformed_pushrule
      else decide_notify as (Some (a \<noteq> DontNotify)) tweaks)"

definition notice_priority :: "PduEvent \<Rightarrow> tweak list \<Rightarrow> priority" where
  "notice_priority event tweaks =
     (if kind event = ascii ''m.room.encrypted'' \<or>
         (\<exists>t \<in> set tweaks. t = Highlight True \<or> (\<exists>x. t = Sound x))
      then High else Low)"

text \<open>\<open>post\<close> is the request to the push gateway at a URL.\<close>

definition send_notice ::
    "serde \<Rightarrow> ruma \<Rightarrow> (bytes set \<Rightarrow> bytes list) \<Rightarrow> push_lib \<Rightarrow> (bytes \<Rightarrow> notification \<Rightarrow> unit res) \<Rightarrow>
      u64 \<Rightarrow> pusher \<Rightarrow> tweak list \<Rightarrow> PduEvent \<Rightarrow> ('a accessor_db_scheme, unit) dop" where
  "send_notice J R iter P post unread p tweaks event =
     (case pusher_of p of
        Http url format payload \<Rightarrow>
          (let event_id_only = (format = Some EventIdOnly);
               device = \<lparr>dev_app_id = app_id p, dev_pushkey = pushkey p, dev_payload = payload, dev_format = format,
                         dev_tweaks = (if event_id_only then [] else tweaks)\<rparr>;
               notifi = \<lparr>n_device = device, n_prio = notice_priority event tweaks, n_event_id = event_id event,
                         n_room_id = room_id event, n_unread = unread, n_sender = None, n_type = None, n_content = None,
                         n_user_is_target = False, n_sender_display_name = None, n_room_name = None\<rparr> in
           if event_id_only then of_res (post url notifi)
           else
             bind (reads (displayname (sender event))) (\<lambda>name.
             bind (room_state_get J R iter (room_id event) (ascii ''m.room.name'') []) (\<lambda>name_pdu.
             bind (case name_pdu of
                     Some room_name_pdu \<Rightarrow>
                       of_res (ok_or (BadDatabase ''Invalid room name event in database.'') (room_name_of P (content room_name_pdu)))
                   | None \<Rightarrow> ret None) (\<lambda>room_name.
             of_res (post url (notifi
               \<lparr>n_sender := Some (sender event), n_type := Some (kind event), n_content := Some (content event),
                n_user_is_target := (kind event = ascii ''m.room.member'' \<and> state_key event = Some (sender event)),
                n_sender_display_name := name, n_room_name := room_name\<rparr>))))))
      | Email \<Rightarrow> ret ()
      | OtherPusher \<Rightarrow> ret ())"

definition send_push_notice ::
    "serde \<Rightarrow> ruma \<Rightarrow> (bytes set \<Rightarrow> bytes list) \<Rightarrow> push_lib \<Rightarrow> (bytes \<Rightarrow> notification \<Rightarrow> unit res) \<Rightarrow>
      user_id \<Rightarrow> u64 \<Rightarrow> pusher \<Rightarrow> json \<Rightarrow> PduEvent \<Rightarrow> ('a accessor_db_scheme, unit) dop" where
  "send_push_notice J R iter P post user unread p ruleset pdu =
     bind (room_state_get J R iter (room_id pdu) (ascii ''m.room.power_levels'') []) (\<lambda>levels.
     bind (case levels of
             Some ev \<Rightarrow> of_res (ok_or (BadDatabase ''invalid m.room.power_levels event'') (power_levels_of P (content ev)))
           | None \<Rightarrow> ret (default_power_levels P)) (\<lambda>power_levels.
     bind (reads (get_actions P user ruleset power_levels (to_sync_room_event pdu) (room_id pdu))) (\<lambda>actions.
     bind (of_res (decide_notify actions None [])) (\<lambda>(notify, tweaks).
     if notify = Some True then send_notice J R iter P post unread p tweaks pdu else ret ()))))"

section \<open>Lemmas\<close>

text \<open>A well-formed list of actions notifies exactly when it asks for it, with the tweaks in order.\<close>

definition tweaks_of :: "push_act list \<Rightarrow> tweak list" where
  "tweaks_of as = List.map_filter (\<lambda>a. case a of SetTweak t \<Rightarrow> Some t | _ \<Rightarrow> None) as"

definition decisions_of :: "push_act list \<Rightarrow> push_act list" where
  "decisions_of as = filter (\<lambda>a. case a of SetTweak _ \<Rightarrow> False | _ \<Rightarrow> True) as"

lemma decide_notify_given:
  "decide_notify as (Some n) ts =
     (if decisions_of as = [] then Inr (Some n, ts @ tweaks_of as)
      else Inl malformed_pushrule)"
proof (induction as arbitrary: ts)
  case Nil
  show ?case by (simp add: decisions_of_def tweaks_of_def List.map_filter_def)
next
  case (Cons a as)
  then show ?case by (cases a) (simp_all add: decisions_of_def tweaks_of_def List.map_filter_def)
qed

lemma decide_notify_spec:
  "decide_notify as None ts =
     (case decisions_of as of
        [] \<Rightarrow> Inr (None, ts @ tweaks_of as)
      | [a] \<Rightarrow> Inr (Some (a \<noteq> DontNotify), ts @ tweaks_of as)
      | _ \<Rightarrow> Inl malformed_pushrule)"
proof (induction as arbitrary: ts)
  case Nil
  show ?case by (simp add: decisions_of_def tweaks_of_def List.map_filter_def)
next
  case (Cons a as)
  then show ?case
    by (cases a) (auto simp: decide_notify_given decisions_of_def tweaks_of_def List.map_filter_def split: list.split)
qed

text \<open>A repeated transaction is recognised, and only by the same user, device and transaction id.\<close>

lemma txnid_refines:
  assumes "utf8_valid user" and "utf8_valid user'"
    and "\<forall>d. device = Some d \<longrightarrow> utf8_valid d" and "\<forall>d. device' = Some d \<longrightarrow> utf8_valid d"
  shows "existing_txnid user' device' txn' (snd (add_txnid user device txn data s)) =
    (if user' = user \<and> (case device' of Some d \<Rightarrow> d | None \<Rightarrow> []) = (case device of Some d \<Rightarrow> d | None \<Rightarrow> []) \<and> txn' = txn
     then Inr (Some data) else existing_txnid user' device' txn' s)"
proof -
  let ?d = "case device of Some d \<Rightarrow> d | None \<Rightarrow> []" and ?d' = "case device' of Some d \<Rightarrow> d | None \<Rightarrow> []"
  have d: "sep \<notin> set ?d" "sep \<notin> set ?d'" using assms(3,4) by (auto split: option.split dest: utf8_no_sep)
  have "txn_key user' device' txn' = txn_key user device txn \<longleftrightarrow> user' = user \<and> ?d' = ?d \<and> txn' = txn"
    unfolding txn_key_def using sep_join_inject [OF utf8_no_sep [OF assms(2)] utf8_no_sep [OF assms(1)]]
      sep_join_inject [OF d(2,1)] by simp
  then show ?thesis by (simp add: add_txnid_def existing_txnid_def)
qed

text \<open>The cache of registrations is never stale.\<close>

definition registrations_inv :: "(bytes \<Rightarrow> json option) \<Rightarrow> 'a pushers_db_scheme \<Rightarrow> bool" where
  "registrations_inv parse s \<longleftrightarrow>
     (\<forall>i r. cached_registrations s i = Some r \<longrightarrow> Option.bind (kv_get (id_appserviceregistrations s) i) parse = Some r)"

lemma register_appservice_refines:
  assumes "codec parse print" and "registrations_inv parse s" and "yaml_str yaml (ascii ''id'') = Some i"
  shows "\<exists>s'. register_appservice print yaml s = (Inr i, s') \<and> registrations_inv parse s' \<and>
    (\<forall>j. get_registration parse j s' = (if j = i then Inr (Some yaml) else get_registration parse j s))"
proof -
  let ?s = "cached_registrations_update (\<lambda>c. c(i \<mapsto> yaml)) (id_appserviceregistrations_update (kv_insert i (print yaml)) s)"
  have "registrations_inv parse ?s" using assms(1,2) by (simp add: registrations_inv_def codecD)
  then show ?thesis
    by (intro exI [of _ ?s]) (simp add: register_appservice_def assms(3) get_registration_def split: option.split)
qed

lemma unregister_appservice_refines:
  assumes "registrations_inv parse s"
  shows "\<exists>s'. unregister_appservice i s = (Inr (), s') \<and> registrations_inv parse s' \<and>
    (\<forall>j. get_registration parse j s' = (if j = i then Inr None else get_registration parse j s))"
proof -
  let ?s = "cached_registrations_update (\<lambda>c. c(i := None)) (id_appserviceregistrations_update (kv_remove i) s)"
  have "registrations_inv parse ?s" using assms by (simp add: registrations_inv_def)
  then show ?thesis
    by (intro exI [of _ ?s]) (simp add: unregister_appservice_def get_registration_def split: option.split)
qed

end
