(* ===== verification/SendQueue.thy ===== *)
theory SendQueue
  imports Pushers
begin

text \<open>
  The queues of outgoing events, \<^verbatim>\<open>src/database/key_value/sending.rs\<close>: events that wait for a
  destination, events in the transaction that is under way, and how their keys are parsed back. The
  in-memory state of the sending service is part of the record.
\<close>

section \<open>Destinations and events\<close>

datatype OutgoingKind = Appservice bytes | Push user_id bytes | Normal servername

datatype SendingEventType = SendPdu bytes | SendEdu bytes

definition get_prefix :: "OutgoingKind \<Rightarrow> bytes" where
  "get_prefix k =
     (case k of
        Appservice server \<Rightarrow> ascii ''+'' @ server
      | Push user key \<Rightarrow> ascii ''$'' @ user @ sep # key
      | Normal server \<Rightarrow> server) @ [sep]"

type_synonym sending_message = "OutgoingKind \<times> SendingEventType \<times> bytes"

datatype TransactionStatus = Running | Failed u32 nat | Retrying u32

record sending_db = pushers_db +
  servername_educount :: kv_tree
  servernameevent_data :: kv_tree
  servercurrentevent_data :: kv_tree
  sending_channel :: "sending_message list"
  current_transaction_status :: "OutgoingKind \<Rightarrow> TransactionStatus option"
  sending_futures :: "(OutgoingKind \<times> SendingEventType list) list"

section \<open>Parsing\<close>

text \<open>\<^verbatim>\<open>splitn(2, ..)\<close>: the part before the first separator and the rest, if there is one.\<close>

definition split2 :: "bytes \<Rightarrow> bytes \<times> bytes option" where
  "split2 b = (takeWhile (\<lambda>x. x \<noteq> sep) b, if sep \<in> set b then Some (tl (dropWhile (\<lambda>x. x \<noteq> sep) b)) else None)"

definition stored_event :: "bytes \<Rightarrow> bytes \<Rightarrow> SendingEventType" where
  "stored_event event v = (if v = [] then SendPdu event else SendEdu v)"

definition parse_servercurrentevent :: "ruma \<Rightarrow> bytes \<Rightarrow> bytes \<Rightarrow> (OutgoingKind \<times> SendingEventType) res" where
  "parse_servercurrentevent R key v =
     (if prefix (ascii ''+'') key then
        (case split2 (tl key) of (server, rest) \<Rightarrow>
         bind_res (ok_or (BadDatabase ''Invalid bytes in servercurrentpdus.'') rest) (\<lambda>event.
         bind_res (map_err (BadDatabase ''Invalid server bytes in server_currenttransaction'') (string_from_bytes server)) (\<lambda>server.
         Inr (Appservice server, stored_event event v))))
      else if prefix (ascii ''$'') key then
        (case split2 (tl key) of (user, rest) \<Rightarrow>
         bind_res (map_err (BadDatabase ''Invalid user string in servercurrentevent'') (string_from_bytes user)) (\<lambda>user_string.
         bind_res (map_err (BadDatabase ''Invalid user id in servercurrentevent'') (parse_id (is_user_id R) user_string)) (\<lambda>user_id.
         bind_res (ok_or (BadDatabase ''Invalid bytes in servercurrentpdus.'') rest) (\<lambda>rest.
         case split2 rest of (pushkey_bytes, rest) \<Rightarrow>
         bind_res (map_err (BadDatabase ''Invalid pushkey in servercurrentevent'') (string_from_bytes pushkey_bytes)) (\<lambda>pushkey_string.
         bind_res (ok_or (BadDatabase ''Invalid bytes in servercurrentpdus.'') rest) (\<lambda>event.
         Inr (Push user_id pushkey_string, stored_event event v)))))))
      else
        (case split2 key of (server, rest) \<Rightarrow>
         bind_res (ok_or (BadDatabase ''Invalid bytes in servercurrentpdus.'') rest) (\<lambda>event.
         bind_res (map_err (BadDatabase ''Invalid server bytes in server_currenttransaction'') (string_from_bytes server)) (\<lambda>server.
         bind_res (map_err (BadDatabase ''Invalid server string in server_currenttransaction'') (parse_id (is_server_name R) server)) (\<lambda>server.
         Inr (Normal server, stored_event event v))))))"

section \<open>Operations\<close>

definition active_requests :: "ruma \<Rightarrow> 'a sending_db_scheme \<Rightarrow> (bytes \<times> OutgoingKind \<times> SendingEventType) res list" where
  "active_requests R s =
     map (\<lambda>(key, v). map_res (\<lambda>(k, e). (key, k, e)) (parse_servercurrentevent R key v)) (kv_iter (servercurrentevent_data s))"

definition active_requests_for :: "ruma \<Rightarrow> OutgoingKind \<Rightarrow> 'a sending_db_scheme \<Rightarrow> (bytes \<times> SendingEventType) res list" where
  "active_requests_for R k s =
     map (\<lambda>(key, v). map_res (\<lambda>(_, e). (key, e)) (parse_servercurrentevent R key v))
       (kv_scan_prefix (get_prefix k) (servercurrentevent_data s))"

definition delete_active_request :: "bytes \<Rightarrow> ('a sending_db_scheme, unit) dop" where
  "delete_active_request key = modify (servercurrentevent_data_update (kv_remove key))"

definition delete_all_active_requests_for :: "OutgoingKind \<Rightarrow> ('a sending_db_scheme, unit) dop" where
  "delete_all_active_requests_for k = modify (servercurrentevent_data_update (kv_remove_prefix (get_prefix k)))"

definition delete_all_requests_for :: "OutgoingKind \<Rightarrow> ('a sending_db_scheme, unit) dop" where
  "delete_all_requests_for k =
     andthen (modify (servercurrentevent_data_update (kv_remove_prefix (get_prefix k))))
     (modify (servernameevent_data_update (kv_remove_prefix (get_prefix k))))"

definition stored_value :: "SendingEventType \<Rightarrow> bytes" where
  "stored_value e = (case e of SendEdu v \<Rightarrow> v | SendPdu _ \<Rightarrow> [])"

definition request_key :: "OutgoingKind \<Rightarrow> SendingEventType \<Rightarrow> ('a sending_db_scheme, bytes) dop" where
  "request_key k e =
     (case e of
        SendPdu v \<Rightarrow> ret (get_prefix k @ v)
      | SendEdu _ \<Rightarrow> bind next_count (\<lambda>c. ret (get_prefix k @ to_be_bytes c)))"

fun request_keys :: "(OutgoingKind \<times> SendingEventType) list \<Rightarrow> ('a sending_db_scheme, bytes list) dop" where
  "request_keys [] = ret []"
| "request_keys ((k, e) # rs) =
     bind (request_key k e) (\<lambda>key. bind (request_keys rs) (\<lambda>keys. ret (key # keys)))"

definition queue_requests :: "(OutgoingKind \<times> SendingEventType) list \<Rightarrow> ('a sending_db_scheme, bytes list) dop" where
  "queue_requests requests =
     bind (request_keys requests) (\<lambda>keys.
     andthen (modify (servernameevent_data_update
       (kv_insert_batch (zip keys (map (\<lambda>(_, e). stored_value e) requests)))))
     (ret keys))"

definition queued_requests :: "ruma \<Rightarrow> OutgoingKind \<Rightarrow> 'a sending_db_scheme \<Rightarrow> (SendingEventType \<times> bytes) res list" where
  "queued_requests R k s =
     map (\<lambda>(key, v). map_res (\<lambda>(_, e). (e, key)) (parse_servercurrentevent R key v))
       (kv_scan_prefix (get_prefix k) (servernameevent_data s))"

definition mark_as_active :: "(SendingEventType \<times> bytes) list \<Rightarrow> ('a sending_db_scheme, unit) dop" where
  "mark_as_active events =
     for_each events (\<lambda>(e, key).
       modify (\<lambda>s. servernameevent_data_update (kv_remove key)
         (servercurrentevent_data_update (kv_insert key (stored_value e)) s)))"

definition set_latest_educount :: "servername \<Rightarrow> u64 \<Rightarrow> ('a sending_db_scheme, unit) dop" where
  "set_latest_educount server last_count = modify (servername_educount_update (kv_insert server (to_be_bytes last_count)))"

definition get_latest_educount :: "servername \<Rightarrow> 'a sending_db_scheme \<Rightarrow> u64 res" where
  "get_latest_educount server s =
     (case kv_get (servername_educount s) server of
        None \<Rightarrow> Inr 0
      | Some b \<Rightarrow> map_err (BadDatabase ''Invalid u64 in servername_educount.'') (u64_from_bytes b))"

section \<open>Well-formed entries\<close>

fun kind_ok :: "ruma \<Rightarrow> OutgoingKind \<Rightarrow> bool" where
  "kind_ok R (Appservice a) \<longleftrightarrow> utf8_valid a"
| "kind_ok R (Push u p) \<longleftrightarrow> utf8_valid u \<and> is_user_id R u \<and> utf8_valid p"
| "kind_ok R (Normal n) \<longleftrightarrow> utf8_valid n \<and> is_server_name R n"

text \<open>The grammar of server names has neither of the two sigils that mark other destinations.\<close>

definition server_names_ok :: "ruma \<Rightarrow> bool" where
  "server_names_ok R \<longleftrightarrow> (\<forall>n. is_server_name R n \<longrightarrow> \<not> prefix (ascii ''+'') n \<and> \<not> prefix (ascii ''$'') n \<and> n \<noteq> [])"

lemma split2_sep: "sep \<notin> set a \<Longrightarrow> split2 (a @ sep # x) = (a, Some x)"
  by (simp add: split2_def takeWhile_append dropWhile_append)

lemma not_prefix_sigil:
  assumes "n \<noteq> []" and "\<not> prefix (ascii [c]) n"
  shows "\<not> prefix (ascii [c]) (n @ x)"
  using assms by (cases n) (auto simp: ascii_simps)

lemma parse_own_key:
  assumes "server_names_ok R" and "kind_ok R k"
  shows "parse_servercurrentevent R (get_prefix k @ x) v = Inr (k, stored_event x v)"
proof (cases k)
  case (Appservice a)
  with assms(2) show ?thesis
    by (simp add: parse_servercurrentevent_def get_prefix_def ascii_simps split2_sep utf8_no_sep ok_or_def)
next
  case (Push u p)
  with assms(2) show ?thesis
    by (simp add: parse_servercurrentevent_def get_prefix_def ascii_simps split2_sep utf8_no_sep ok_or_def)
next
  case (Normal n)
  with assms have "n \<noteq> []" "\<not> prefix (ascii ''+'') n" "\<not> prefix (ascii ''$'') n"
    by (auto simp: server_names_ok_def)
  with not_prefix_sigil have "\<not> prefix (ascii ''+'') (n @ sep # x)" "\<not> prefix (ascii ''$'') (n @ sep # x)" by blast+
  with Normal assms(2) show ?thesis
    by (simp add: parse_servercurrentevent_def get_prefix_def split2_sep utf8_no_sep ok_or_def)
qed

lemma get_prefix_inject:
  assumes "server_names_ok R" and "kind_ok R k" and "kind_ok R k'"
  shows "get_prefix k @ x = get_prefix k' @ x' \<longleftrightarrow> k = k' \<and> x = x'"
proof
  assume eq: "get_prefix k @ x = get_prefix k' @ x'"
  then have "k = k'" using parse_own_key [OF assms(1,2), of x "[]"] parse_own_key [OF assms(1,3), of x' "[]"] by simp
  with eq show "k = k' \<and> x = x'" by simp
qed simp

lemma get_prefix_prefix:
  assumes "server_names_ok R" and "kind_ok R k" and "kind_ok R k'"
  shows "prefix (get_prefix k) (get_prefix k' @ x) \<longleftrightarrow> k = k'"
proof
  assume "prefix (get_prefix k) (get_prefix k' @ x)"
  then obtain z where "get_prefix k' @ x = get_prefix k @ z" by (auto simp: prefix_def)
  then show "k = k'" using get_prefix_inject [OF assms(1,3,2)] by simp
qed simp

text \<open>
  A stored entry: behind the prefix of its destination an event carries its 16-byte id and no value,
  an EDU a count that has been handed out and its JSON.
\<close>

definition entry_ok :: "u64 \<Rightarrow> bytes \<Rightarrow> bytes \<Rightarrow> bool" where
  "entry_ok n x v \<longleftrightarrow> (if v = [] then length x = 16 else (\<exists>c. c \<le> n \<and> x = to_be_bytes c))"

definition keys_typed :: "ruma \<Rightarrow> u64 \<Rightarrow> kv_tree \<Rightarrow> bool" where
  "keys_typed R n t \<longleftrightarrow>
     (\<forall>key v. kv_get t key = Some v \<longrightarrow> (\<exists>k x. kind_ok R k \<and> key = get_prefix k @ x \<and> entry_ok n x v))"

definition queues_typed :: "ruma \<Rightarrow> 'a sending_db_scheme \<Rightarrow> bool" where
  "queues_typed R s \<longleftrightarrow>
     keys_typed R (count s) (servernameevent_data s) \<and> keys_typed R (count s) (servercurrentevent_data s)"

fun request_ok :: "ruma \<Rightarrow> OutgoingKind \<times> SendingEventType \<Rightarrow> bool" where
  "request_ok R (k, SendPdu p) \<longleftrightarrow> kind_ok R k \<and> length p = 16"
| "request_ok R (k, SendEdu v) \<longleftrightarrow> kind_ok R k \<and> v \<noteq> []"

text \<open>The key of an event of a destination.\<close>

definition keyed :: "ruma \<Rightarrow> u64 \<Rightarrow> OutgoingKind \<Rightarrow> SendingEventType \<Rightarrow> bytes \<Rightarrow> bool" where
  "keyed R n k e key \<longleftrightarrow> kind_ok R k \<and>
     (\<exists>x. key = get_prefix k @ x \<and> entry_ok n x (stored_value e) \<and> stored_event x (stored_value e) = e)"

text \<open>The events a queue holds for a destination.\<close>

definition held :: "kv_tree \<Rightarrow> OutgoingKind \<Rightarrow> SendingEventType set" where
  "held t k = {e. \<exists>x v. kv_get t (get_prefix k @ x) = Some v \<and> e = stored_event x v}"

lemma entry_ok_mono: "entry_ok n x v \<Longrightarrow> n \<le> m \<Longrightarrow> entry_ok m x v"
  by (auto simp: entry_ok_def split: if_splits)

lemma keys_typed_mono: "keys_typed R n t \<Longrightarrow> n \<le> m \<Longrightarrow> keys_typed R m t"
  unfolding keys_typed_def using entry_ok_mono by blast

lemma keyed_mono: "keyed R n k e key \<Longrightarrow> n \<le> m \<Longrightarrow> keyed R m k e key"
  unfolding keyed_def using entry_ok_mono by blast

lemma keys_typed_insert:
  "keys_typed R n t \<Longrightarrow> keyed R n k e key \<Longrightarrow> keys_typed R n (kv_insert key (stored_value e) t)"
  unfolding keys_typed_def keyed_def by (auto split: if_splits)

lemma keys_typed_put:
  "keys_typed R n t \<Longrightarrow> keyed R n k e key \<Longrightarrow> keys_typed R n (kv_put_quiet key (stored_value e) t)"
  unfolding keys_typed_def keyed_def by (auto split: if_splits)

lemma keys_typed_remove: "keys_typed R n t \<Longrightarrow> keys_typed R n (kv_remove key t)"
  unfolding keys_typed_def by (auto split: if_splits)

lemma keys_typed_remove_prefix: "keys_typed R n t \<Longrightarrow> keys_typed R n (kv_remove_prefix p t)"
  unfolding keys_typed_def by (auto simp: kv_get_remove_prefix split: if_splits)

lemma keys_typed_scan:
  assumes "keys_typed R n t" and "server_names_ok R" and "kind_ok R k" and "(key, v) \<in> set (kv_scan_prefix (get_prefix k) t)"
  obtains x where "key = get_prefix k @ x" "kv_get t key = Some v" "entry_ok n x v"
proof -
  from assms(4) have get: "kv_get t key = Some v" and pre: "prefix (get_prefix k) key" by (simp_all add: set_kv_scan_prefix)
  from assms(1) get obtain k' x where "kind_ok R k'" "key = get_prefix k' @ x" "entry_ok n x v" unfolding keys_typed_def by blast
  with pre assms(2,3) have "key = get_prefix k @ x" "entry_ok n x v" using get_prefix_prefix by blast+
  with get show ?thesis by (intro that)
qed

text \<open>What a scan of a destination parses to: nothing is lost, and every entry is that destination's.\<close>

definition scanned :: "OutgoingKind \<Rightarrow> kv_tree \<Rightarrow> (SendingEventType \<times> bytes) list" where
  "scanned k t = map (\<lambda>(key, v). (stored_event (drop (length (get_prefix k)) key) v, key)) (kv_scan_prefix (get_prefix k) t)"

lemma requests_of_scan:
  assumes "keys_typed R n t" and "server_names_ok R" and "kind_ok R k"
  shows "map (\<lambda>(key, v). map_res (\<lambda>(_, e). f e key) (parse_servercurrentevent R key v)) (kv_scan_prefix (get_prefix k) t) =
    map (\<lambda>(e, key). Inr (f e key)) (scanned k t)"
proof -
  have "(case e of (key, v) \<Rightarrow> map_res (\<lambda>(_, e). f e key) (parse_servercurrentevent R key v)) =
      (case e of (key, v) \<Rightarrow> Inr (f (stored_event (drop (length (get_prefix k)) key) v) key))"
    if "e \<in> set (kv_scan_prefix (get_prefix k) t)" for e
  proof -
    from that obtain x where "fst e = get_prefix k @ x"
      using keys_typed_scan [OF assms, of "fst e" "snd e"] by auto
    then show ?thesis using parse_own_key [OF assms(2,3)] by (cases e) simp
  qed
  then show ?thesis by (simp add: scanned_def comp_def case_prod_beta)
qed

lemma scanned_keyed:
  assumes "keys_typed R n t" and "server_names_ok R" and "kind_ok R k" and "(e, key) \<in> set (scanned k t)"
  shows "keyed R n k e key" and "kv_get t key = Some (stored_value e)"
proof -
  from assms(4) obtain v where v: "(key, v) \<in> set (kv_scan_prefix (get_prefix k) t)"
    and e: "e = stored_event (drop (length (get_prefix k)) key) v" by (auto simp: scanned_def)
  obtain x where x: "key = get_prefix k @ x" "kv_get t key = Some v" "entry_ok n x v"
    using keys_typed_scan [OF assms(1-3) v] .
  with e have "e = stored_event x v" and "stored_value e = v" by (simp_all add: stored_event_def stored_value_def)
  with x assms(3) show "keyed R n k e key" and "kv_get t key = Some (stored_value e)"
    by (auto simp: keyed_def)
qed

lemma fst_scanned:
  assumes "keys_typed R n t" and "server_names_ok R" and "kind_ok R k"
  shows "fst ` set (scanned k t) = held t k"
proof (intro set_eqI iffI)
  fix e assume "e \<in> fst ` set (scanned k t)"
  then obtain key where "(e, key) \<in> set (scanned k t)" by auto
  from scanned_keyed [OF assms this] show "e \<in> held t k" by (auto simp: held_def keyed_def) (metis)
next
  fix e assume "e \<in> held t k"
  then obtain x v where "kv_get t (get_prefix k @ x) = Some v" "e = stored_event x v" by (auto simp: held_def)
  then have "(get_prefix k @ x, v) \<in> set (kv_scan_prefix (get_prefix k) t)" by (simp add: set_kv_scan_prefix)
  with \<open>e = stored_event x v\<close> show "e \<in> fst ` set (scanned k t)" by (force simp: scanned_def)
qed

section \<open>What the operations do to the queues\<close>

lemma held_insert:
  assumes "server_names_ok R" and "keys_typed R n t" and "keyed R n k e key" and "kind_ok R k'"
    and "\<forall>v. kv_get t key = Some v \<longrightarrow> v = stored_value e"
  shows "held (kv_insert key (stored_value e) t) k' = (if k' = k then insert e (held t k) else held t k')"
proof -
  from assms(3) obtain x where k: "kind_ok R k" and x: "key = get_prefix k @ x" "stored_event x (stored_value e) = e"
    by (auto simp: keyed_def)
  have "e' \<in> held (kv_insert key (stored_value e) t) k' \<longleftrightarrow> e' \<in> held t k' \<or> k' = k \<and> e' = e" for e'
  proof -
    have get: "kv_get (kv_insert key (stored_value e) t) (get_prefix k' @ y) =
        (if k' = k \<and> y = x then Some (stored_value e) else kv_get t (get_prefix k' @ y))" for y
      using get_prefix_inject [OF assms(1,4) k, of y x] by (auto simp: x(1))
    show ?thesis
    proof
      assume "e' \<in> held (kv_insert key (stored_value e) t) k'"
      then obtain y v where "kv_get (kv_insert key (stored_value e) t) (get_prefix k' @ y) = Some v" "e' = stored_event y v"
        by (auto simp: held_def)
      then show "e' \<in> held t k' \<or> k' = k \<and> e' = e"
        using x(2) unfolding get held_def by (auto split: if_splits)
    next
      assume "e' \<in> held t k' \<or> k' = k \<and> e' = e"
      then show "e' \<in> held (kv_insert key (stored_value e) t) k'"
      proof
        assume "e' \<in> held t k'"
        then obtain y v where y: "kv_get t (get_prefix k' @ y) = Some v" "e' = stored_event y v" by (auto simp: held_def)
        then have "kv_get (kv_insert key (stored_value e) t) (get_prefix k' @ y) = Some v"
          using assms(5) x(1) by (auto simp: get)
        with y(2) show ?thesis unfolding held_def by blast
      next
        assume "k' = k \<and> e' = e"
        then have "kv_get (kv_insert key (stored_value e) t) (get_prefix k' @ x) = Some (stored_value e)" by (simp add: x(1))
        moreover have "e' = stored_event x (stored_value e)" using x(2) \<open>k' = k \<and> e' = e\<close> by simp
        ultimately show ?thesis unfolding held_def by blast
      qed
    qed
  qed
  then show ?thesis by auto
qed

lemma held_put: "held (kv_put_quiet key v t) k = held (kv_insert key v t) k"
  by (simp add: held_def)

lemma held_remove_prefix:
  assumes "server_names_ok R" and "kind_ok R k" and "kind_ok R k'"
  shows "held (kv_remove_prefix (get_prefix k) t) k' = (if k' = k then {} else held t k')"
  using get_prefix_prefix [OF assms] by (auto simp: held_def kv_get_remove_prefix)

lemma held_remove:
  assumes "keyed R n k e key" and "server_names_ok R" and "kind_ok R k'"
  shows "held (kv_remove key t) k' \<subseteq> held t k'"
    and "k' \<noteq> k \<Longrightarrow> held (kv_remove key t) k' = held t k'"
    and "kv_get t key = Some (stored_value e) \<Longrightarrow> held t k \<subseteq> insert e (held (kv_remove key t) k)"
proof -
  from assms(1) obtain x where k: "kind_ok R k" and x: "key = get_prefix k @ x" "stored_event x (stored_value e) = e"
    by (auto simp: keyed_def)
  show "held (kv_remove key t) k' \<subseteq> held t k'" by (auto simp: held_def split: if_splits)
  show "held (kv_remove key t) k' = held t k'" if "k' \<noteq> k"
    using get_prefix_inject [OF assms(2,3) k] that by (auto simp: held_def x(1))
  show "held t k \<subseteq> insert e (held (kv_remove key t) k)" if "kv_get t key = Some (stored_value e)"
  proof
    fix e' assume "e' \<in> held t k"
    then obtain y v where y: "kv_get t (get_prefix k @ y) = Some v" "e' = stored_event y v" by (auto simp: held_def)
    show "e' \<in> insert e (held (kv_remove key t) k)"
    proof (cases "y = x")
      case True
      with y that x show ?thesis by simp
    next
      case False
      with y have "kv_get (kv_remove key t) (get_prefix k @ y) = Some v" by (simp add: x(1))
      with y(2) show ?thesis unfolding held_def by blast
    qed
  qed
qed

lemma keyed_value:
  assumes "server_names_ok R" and "keys_typed R n t" and "keyed R m k e key" and "kv_get t key = Some v"
    and "\<forall>c. stored_value e \<noteq> [] \<longrightarrow> key = get_prefix k @ to_be_bytes c \<longrightarrow> n < c"
  shows "v = stored_value e"
proof -
  from assms(3) obtain x where k: "kind_ok R k" "key = get_prefix k @ x" "entry_ok m x (stored_value e)"
    by (auto simp: keyed_def)
  from assms(2,4) obtain k' y where k': "kind_ok R k'" "key = get_prefix k' @ y" "entry_ok n y v"
    unfolding keys_typed_def by blast
  with k(2) have "get_prefix k' @ y = get_prefix k @ x" by simp
  then have "y = x" using get_prefix_inject [OF assms(1) k'(1) k(1)] by blast
  with k'(3) have old: "entry_ok n x v" by simp
  show ?thesis
  proof (cases "stored_value e = []")
    case True
    with k(3) have "length x = 16" by (simp add: entry_ok_def)
    with old have "v = []" by (auto simp: entry_ok_def length_to_be_bytes split: if_splits)
    with True show ?thesis by simp
  next
    case False
    with k(3) obtain c where c: "x = to_be_bytes c" by (auto simp: entry_ok_def)
    with assms(5) False k(2) have "n < c" by blast
    with old c have False by (auto simp: entry_ok_def length_to_be_bytes split: if_splits)
    then show ?thesis ..
  qed
qed

text \<open>Keys drawn one after the other, each EDU with a count of its own.\<close>

fun keys_fresh :: "ruma \<Rightarrow> u64 \<Rightarrow> (OutgoingKind \<times> SendingEventType) list \<Rightarrow> bytes list \<Rightarrow> u64 \<Rightarrow> bool" where
  "keys_fresh R n [] [] m \<longleftrightarrow> n = m"
| "keys_fresh R n ((k, e) # rs) (key # keys) m \<longleftrightarrow>
     (\<exists>n'. n \<le> n' \<and> keyed R n' k e key \<and> (\<forall>c. stored_value e \<noteq> [] \<longrightarrow> key = get_prefix k @ to_be_bytes c \<longrightarrow> n < c) \<and>
       keys_fresh R n' rs keys m)"
| "keys_fresh R n _ _ m \<longleftrightarrow> False"

lemma keys_fresh_mono: "keys_fresh R n rs keys m \<Longrightarrow> n \<le> m"
  by (induction R n rs keys m rule: keys_fresh.induct) (auto intro: order.trans)

lemma keys_fresh_length: "keys_fresh R n rs keys m \<Longrightarrow> length keys = length rs"
  by (induction R n rs keys m rule: keys_fresh.induct) auto

lemma keys_fresh_keyed:
  "keys_fresh R n rs keys m \<Longrightarrow> ((k, e), key) \<in> set (zip rs keys) \<Longrightarrow> keyed R m k e key"
proof (induction R n rs keys m rule: keys_fresh.induct)
  case (2 R n k' e' rs key' keys m)
  from 2(2) obtain n' where n': "keyed R n' k' e' key'" "keys_fresh R n' rs keys m" by auto
  from 2(3) consider "k = k'" "e = e'" "key = key'" | "((k, e), key) \<in> set (zip rs keys)" by auto
  then show ?case
  proof cases
    case 1
    with n' show ?thesis using keyed_mono keys_fresh_mono by blast
  next
    case 2
    with "2.IH" n'(2) show ?thesis by blast
  qed
qed auto

lemma insert_fresh:
  "keys_fresh R n rs keys m \<Longrightarrow> keys_typed R n t \<Longrightarrow> server_names_ok R \<Longrightarrow>
    keys_typed R m (kv_insert_batch (zip keys (map (\<lambda>(_, e). stored_value e) rs)) t) \<and>
    (\<forall>k'. kind_ok R k' \<longrightarrow>
      held (kv_insert_batch (zip keys (map (\<lambda>(_, e). stored_value e) rs)) t) k' = held t k' \<union> {e. (k', e) \<in> set rs})"
proof (induction R n rs keys m arbitrary: t rule: keys_fresh.induct)
  case (1 R n m)
  then show ?case by (simp add: kv_insert_batch_def)
next
  case (2 R n k e rs key keys m)
  from 2(2) obtain n' where n': "n \<le> n'" "keyed R n' k e key"
    "\<forall>c. stored_value e \<noteq> [] \<longrightarrow> key = get_prefix k @ to_be_bytes c \<longrightarrow> n < c" "keys_fresh R n' rs keys m" by auto
  let ?t = "kv_put_quiet key (stored_value e) t"
  have typed: "keys_typed R n' ?t" using keys_typed_put [OF keys_typed_mono [OF 2(3) n'(1)] n'(2)] .
  note names = 2(4)
  have "held ?t k' = (if k' = k then insert e (held t k) else held t k')" if "kind_ok R k'" for k'
    unfolding held_put
    by (rule held_insert [OF names keys_typed_mono [OF 2(3) n'(1)] n'(2) that])
      (use keyed_value [OF names 2(3) n'(2) _ n'(3)] in blast)
  with 2(1) [OF n'(4) typed names] show ?case by (auto simp: kv_insert_batch_def)
qed auto

lemma request_key_run:
  assumes "request_ok R (k, e)" and "counts_left 1 s"
  shows "\<exists>key g. request_key k e s = (Inr key, s\<lparr>global := g\<rparr>) \<and> count s \<le> count (s\<lparr>global := g\<rparr>) \<and>
    unat (count (s\<lparr>global := g\<rparr>)) \<le> unat (count s) + 1 \<and> keyed R (count (s\<lparr>global := g\<rparr>)) k e key \<and>
    (\<forall>c. stored_value e \<noteq> [] \<longrightarrow> key = get_prefix k @ to_be_bytes c \<longrightarrow> count s < c)"
proof (cases e)
  case (SendPdu p)
  then show ?thesis
    using assms(1) by (intro exI [of _ "get_prefix k @ p"] exI [of _ "global s"])
      (simp add: request_key_def keyed_def stored_value_def stored_event_def entry_ok_def)
next
  case (SendEdu v)
  have less: "count s < count s + 1" and succ: "unat (count s + 1) \<le> unat (count s) + 1"
    using assms(2) by (auto simp: counts_left_def word_less_nat_alt unat_word_ariths)
  obtain g where bump: "bump s = s\<lparr>global := g\<rparr>" by (simp add: bump_def)
  have "count (s\<lparr>global := g\<rparr>) = count s + 1" using count_bump [of s] unfolding bump .
  with SendEdu assms(1) less succ bump show ?thesis
    by (intro exI [of _ "get_prefix k @ to_be_bytes (count s + 1)"] exI [of _ g])
      (auto simp: request_key_def keyed_def stored_value_def stored_event_def entry_ok_def)
qed

lemma request_keys_run:
  assumes "\<forall>r \<in> set rs. request_ok R r" and "counts_left (length rs) s"
  shows "\<exists>keys g. request_keys rs s = (Inr keys, s\<lparr>global := g\<rparr>) \<and>
    unat (count (s\<lparr>global := g\<rparr>)) \<le> unat (count s) + length rs \<and>
    keys_fresh R (count s) rs keys (count (s\<lparr>global := g\<rparr>))"
  using assms
proof (induction rs arbitrary: s)
  case Nil
  show ?case by (intro exI [of _ "[]"] exI [of _ "global s"]) simp
next
  case (Cons r rs)
  obtain k e where r: "r = (k, e)" by (cases r)
  have "counts_left 1 s" using Cons.prems(2) by (simp add: counts_left_def)
  moreover have "request_ok R (k, e)" using Cons.prems(1) r by simp
  ultimately obtain key g where key: "request_key k e s = (Inr key, s\<lparr>global := g\<rparr>)" "count s \<le> count (s\<lparr>global := g\<rparr>)"
      "unat (count (s\<lparr>global := g\<rparr>)) \<le> unat (count s) + 1" "keyed R (count (s\<lparr>global := g\<rparr>)) k e key"
      "\<forall>c. stored_value e \<noteq> [] \<longrightarrow> key = get_prefix k @ to_be_bytes c \<longrightarrow> count s < c"
    using request_key_run by blast
  have "counts_left (length rs) (s\<lparr>global := g\<rparr>)" using Cons.prems(2) key(3) by (simp add: counts_left_def)
  then obtain keys g' where keys: "request_keys rs (s\<lparr>global := g\<rparr>) = (Inr keys, s\<lparr>global := g\<rparr>\<lparr>global := g'\<rparr>)"
      "unat (count (s\<lparr>global := g\<rparr>\<lparr>global := g'\<rparr>)) \<le> unat (count (s\<lparr>global := g\<rparr>)) + length rs"
      "keys_fresh R (count (s\<lparr>global := g\<rparr>)) rs keys (count (s\<lparr>global := g\<rparr>\<lparr>global := g'\<rparr>))"
    using Cons.IH Cons.prems(1) by fastforce
  have "request_keys (r # rs) s = (Inr (key # keys), s\<lparr>global := g'\<rparr>)"
    using key(1) keys(1) by (simp add: r bind_apply)
  moreover have "keys_fresh R (count s) (r # rs) (key # keys) (count (s\<lparr>global := g'\<rparr>))"
    unfolding r keys_fresh.simps using key(2,4,5) keys(3) by (intro exI [of _ "count (s\<lparr>global := g\<rparr>)"]) simp
  moreover have "unat (count (s\<lparr>global := g'\<rparr>)) \<le> unat (count s) + length (r # rs)" using key(3) keys(2) by simp
  ultimately show ?case by (intro exI [of _ "key # keys"] exI [of _ g']) simp
qed

lemma queue_requests_run:
  assumes "server_names_ok R" and "queues_typed R s" and "\<forall>r \<in> set rs. request_ok R r" and "counts_left (length rs) s"
  shows "\<exists>keys g t. queue_requests rs s = (Inr keys, s\<lparr>global := g, servernameevent_data := t\<rparr>) \<and>
    count s \<le> count (s\<lparr>global := g\<rparr>) \<and> keys_typed R (count (s\<lparr>global := g\<rparr>)) t \<and>
    keys_fresh R (count s) rs keys (count (s\<lparr>global := g\<rparr>)) \<and>
    t = kv_insert_batch (zip keys (map (\<lambda>(_, e). stored_value e) rs)) (servernameevent_data s) \<and>
    (\<forall>k. kind_ok R k \<longrightarrow> held t k = held (servernameevent_data s) k \<union> {e. (k, e) \<in> set rs})"
proof -
  obtain keys g where run: "request_keys rs s = (Inr keys, s\<lparr>global := g\<rparr>)"
      and fresh: "keys_fresh R (count s) rs keys (count (s\<lparr>global := g\<rparr>))"
    using request_keys_run [OF assms(3,4)] by blast
  let ?t = "kv_insert_batch (zip keys (map (\<lambda>(_, e). stored_value e) rs)) (servernameevent_data s)"
  have typed: "keys_typed R (count s) (servernameevent_data s)" using assms(2) by (simp add: queues_typed_def)
  from insert_fresh [OF fresh typed assms(1)]
  have "keys_typed R (count (s\<lparr>global := g\<rparr>)) ?t"
    and "\<forall>k. kind_ok R k \<longrightarrow> held ?t k = held (servernameevent_data s) k \<union> {e. (k, e) \<in> set rs}" by blast+
  moreover have "queue_requests rs s = (Inr keys, s\<lparr>global := g, servernameevent_data := ?t\<rparr>)"
    by (simp add: queue_requests_def run)
  ultimately show ?thesis
    using fresh keys_fresh_mono [OF fresh] by (intro exI [of _ keys] exI [of _ g] exI [of _ ?t]) simp
qed

lemma mark_as_active_run:
  assumes "server_names_ok R" and "keys_typed R n (servernameevent_data s)" and "keys_typed R n (servercurrentevent_data s)"
    and "kind_ok R k"
    and "\<forall>(e, key) \<in> set evs. keyed R n k e key \<and> kv_get (servernameevent_data s) key \<in> {None, Some (stored_value e)} \<and>
      kv_get (servercurrentevent_data s) key \<in> {None, Some (stored_value e)}"
    and "inj_on snd (set evs)"
  shows "\<exists>w a. mark_as_active evs s = (Inr (), s\<lparr>servernameevent_data := w, servercurrentevent_data := a\<rparr>) \<and>
    keys_typed R n w \<and> keys_typed R n a \<and>
    (\<forall>k'. kind_ok R k' \<longrightarrow> k' \<noteq> k \<longrightarrow> held w k' = held (servernameevent_data s) k' \<and> held a k' = held (servercurrentevent_data s) k') \<and>
    held w k \<subseteq> held (servernameevent_data s) k \<and> held (servernameevent_data s) k \<subseteq> fst ` set evs \<union> held w k \<and>
    held a k = held (servercurrentevent_data s) k \<union> fst ` set evs \<and>
    (\<forall>key v. kv_get w key = Some v \<longleftrightarrow> kv_get (servernameevent_data s) key = Some v \<and> key \<notin> snd ` set evs)"
  using assms
proof (induction evs arbitrary: s)
  case Nil
  show ?case
    by (rule exI [of _ "servernameevent_data s"], rule exI [of _ "servercurrentevent_data s"])
      (use Nil in \<open>simp add: mark_as_active_def\<close>)
next
  case (Cons ev evs)
  obtain e key where ev: "ev = (e, key)" by (cases ev)
  let ?w = "kv_remove key (servernameevent_data s)" and ?a = "kv_insert key (stored_value e) (servercurrentevent_data s)"
  let ?s = "s\<lparr>servernameevent_data := ?w, servercurrentevent_data := ?a\<rparr>"
  have keyed: "keyed R n k e key" using Cons.prems(5) ev by simp
  have same: "kv_get (servernameevent_data s) key \<in> {None, Some (stored_value e)}"
    "\<forall>v. kv_get (servercurrentevent_data s) key = Some v \<longrightarrow> v = stored_value e" using Cons.prems(5) ev by auto
  have tw: "keys_typed R n ?w" using keys_typed_remove [OF Cons.prems(2)] .
  have ta: "keys_typed R n ?a" using keys_typed_insert [OF Cons.prems(3) keyed] .
  have "\<exists>w a. mark_as_active evs ?s = (Inr (), ?s\<lparr>servernameevent_data := w, servercurrentevent_data := a\<rparr>) \<and>
    keys_typed R n w \<and> keys_typed R n a \<and>
    (\<forall>k'. kind_ok R k' \<longrightarrow> k' \<noteq> k \<longrightarrow> held w k' = held ?w k' \<and> held a k' = held ?a k') \<and>
    held w k \<subseteq> held ?w k \<and> held ?w k \<subseteq> fst ` set evs \<union> held w k \<and> held a k = held ?a k \<union> fst ` set evs \<and>
    (\<forall>key' v. kv_get w key' = Some v \<longleftrightarrow> kv_get ?w key' = Some v \<and> key' \<notin> snd ` set evs)"
  proof -
    have five: "\<forall>(e', key') \<in> set evs. keyed R n k e' key' \<and> kv_get (servernameevent_data ?s) key' \<in> {None, Some (stored_value e')} \<and>
        kv_get (servercurrentevent_data ?s) key' \<in> {None, Some (stored_value e')}"
    proof (clarify, intro conjI)
      fix e' key' assume mem: "(e', key') \<in> set evs"
      then have "key' = key \<Longrightarrow> e' = e"
        using inj_onD [OF Cons.prems(6), of "(e', key')" "(e, key)"] ev by simp
      moreover have "keyed R n k e' key'" "kv_get (servernameevent_data s) key' \<in> {None, Some (stored_value e')}"
          "kv_get (servercurrentevent_data s) key' \<in> {None, Some (stored_value e')}"
        using Cons.prems(5) mem by auto
      ultimately show "keyed R n k e' key'" "kv_get (servernameevent_data ?s) key' \<in> {None, Some (stored_value e')}"
          "kv_get (servercurrentevent_data ?s) key' \<in> {None, Some (stored_value e')}"
        by (auto split: if_splits)
    qed
    have six: "inj_on snd (set evs)" using Cons.prems(6) by (simp add: inj_on_def)
    show ?thesis using Cons.IH [OF Cons.prems(1), of ?s] tw ta Cons.prems(4) five six by simp
  qed
  then obtain w a where wa: "mark_as_active evs ?s = (Inr (), ?s\<lparr>servernameevent_data := w, servercurrentevent_data := a\<rparr>)"
    "keys_typed R n w" "keys_typed R n a"
    "\<forall>k'. kind_ok R k' \<longrightarrow> k' \<noteq> k \<longrightarrow> held w k' = held ?w k' \<and> held a k' = held ?a k'"
    "held w k \<subseteq> held ?w k" "held ?w k \<subseteq> fst ` set evs \<union> held w k" "held a k = held ?a k \<union> fst ` set evs"
    "\<forall>key' v. kv_get w key' = Some v \<longleftrightarrow> kv_get ?w key' = Some v \<and> key' \<notin> snd ` set evs" by (elim exE conjE)
  have run: "mark_as_active (ev # evs) s = (Inr (), s\<lparr>servernameevent_data := w, servercurrentevent_data := a\<rparr>)"
  proof -
    have eq: "servernameevent_data_update (kv_remove key) (servercurrentevent_data_update (kv_insert key (stored_value e)) s) = ?s"
      by simp
    show ?thesis using wa(1) by (simp add: mark_as_active_def ev bind_apply eq)
  qed
  have others: "held ?w k' = held (servernameevent_data s) k'" "held ?a k' = held (servercurrentevent_data s) k'"
    if "kind_ok R k'" "k' \<noteq> k" for k'
    using held_remove(2) [OF keyed Cons.prems(1) that] held_insert [OF Cons.prems(1,3) keyed that(1) same(2)] that(2) by simp_all
  have ak: "held ?a k = insert e (held (servercurrentevent_data s) k)"
    using held_insert [OF Cons.prems(1,3) keyed Cons.prems(4) same(2)] by simp
  have wk: "held ?w k \<subseteq> held (servernameevent_data s) k" "held (servernameevent_data s) k \<subseteq> insert e (held ?w k)"
  proof -
    show "held ?w k \<subseteq> held (servernameevent_data s) k" by (rule held_remove(1) [OF keyed Cons.prems(1,4)])
    show "held (servernameevent_data s) k \<subseteq> insert e (held ?w k)"
    proof (cases "kv_get (servernameevent_data s) key")
      case None
      then have "held (servernameevent_data s) k \<subseteq> held ?w k" by (auto simp: held_def) (metis option.distinct(1))
      then show ?thesis by blast
    next
      case (Some v)
      with same(1) show ?thesis using held_remove(3) [OF keyed Cons.prems(1,4)] by simp
    qed
  qed
  show ?case
  proof (rule exI [of _ w], rule exI [of _ a], intro conjI allI impI)
    show "mark_as_active (ev # evs) s = (Inr (), s\<lparr>servernameevent_data := w, servercurrentevent_data := a\<rparr>)" by (rule run)
    show "keys_typed R n w" "keys_typed R n a" by (rule wa)+
    show "held w k' = held (servernameevent_data s) k'" "held a k' = held (servercurrentevent_data s) k'"
      if "kind_ok R k'" "k' \<noteq> k" for k'
      using wa(4) others that by simp_all
    show "held w k \<subseteq> held (servernameevent_data s) k" using wa(5) wk(1) by blast
    show "held (servernameevent_data s) k \<subseteq> fst ` set (ev # evs) \<union> held w k" using wa(6) wk(2) ev by auto
    show "held a k = held (servercurrentevent_data s) k \<union> fst ` set (ev # evs)" using wa(7) ak ev by auto
    show "kv_get w key' = Some v \<longleftrightarrow> kv_get (servernameevent_data s) key' = Some v \<and> key' \<notin> snd ` set (ev # evs)" for key' v
      using wa(8) ev by auto
  qed
qed

lemma queued_requests_scanned:
  assumes "server_names_ok R" and "queues_typed R s" and "kind_ok R k"
  shows "queued_requests R k s = map Inr (scanned k (servernameevent_data s))"
    and "active_requests_for R k s = map (\<lambda>(e, key). Inr (key, e)) (scanned k (servercurrentevent_data s))"
  using requests_of_scan [OF _ assms(1,3), of "count s" "servernameevent_data s" "\<lambda>e key. (e, key)"]
    requests_of_scan [OF _ assms(1,3), of "count s" "servercurrentevent_data s" "\<lambda>e key. (key, e)"] assms(2)
  by (simp_all add: queued_requests_def active_requests_for_def queues_typed_def)

text \<open>C20: Every entry of the sending queues parses to a destination and an event, whatever requests
  are queued, and what is queued for a destination is exactly what was queued before and the new
  requests for it.\<close>
theorem sending_queues_typed:
  assumes "server_names_ok R" and "queues_typed R s" and "\<forall>r \<in> set rs. request_ok R r" and "counts_left (length rs) s"
    and "kind_ok R k"
  shows "\<exists>keys s'. queue_requests rs s = (Inr keys, s') \<and> queues_typed R s' \<and>
    (\<forall>x. Inl x \<notin> set (queued_requests R k s') \<and> Inl x \<notin> set (active_requests_for R k s')) \<and>
    {e. \<exists>key. Inr (e, key) \<in> set (queued_requests R k s')} =
      {e. \<exists>key. Inr (e, key) \<in> set (queued_requests R k s)} \<union> {e. (k, e) \<in> set rs}"
proof -
  obtain keys g t where run: "queue_requests rs s = (Inr keys, s\<lparr>global := g, servernameevent_data := t\<rparr>)"
      and le: "count s \<le> count (s\<lparr>global := g\<rparr>)" and typed: "keys_typed R (count (s\<lparr>global := g\<rparr>)) t"
      and held: "\<forall>k. kind_ok R k \<longrightarrow> held t k = held (servernameevent_data s) k \<union> {e. (k, e) \<in> set rs}"
    using queue_requests_run [OF assms(1-4)] by blast
  let ?s = "s\<lparr>global := g, servernameevent_data := t\<rparr>"
  have count: "count ?s = count (s\<lparr>global := g\<rparr>)" by (simp add: count_def)
  have typed': "queues_typed R ?s"
    using assms(2) typed keys_typed_mono [OF _ le] by (simp add: queues_typed_def count)
  have view: "{e. \<exists>key. Inr (e, key) \<in> set (queued_requests R k u)} = held (servernameevent_data u) k"
    if "queues_typed R u" for u :: "'a sending_db_scheme"
  proof -
    have "{e. \<exists>key. Inr (e, key) \<in> set (queued_requests R k u)} = fst ` set (scanned k (servernameevent_data u))"
      by (auto simp: queued_requests_scanned [OF assms(1) that assms(5)] image_iff Bex_def)
    then show ?thesis using fst_scanned [OF _ assms(1,5), of "count u" "servernameevent_data u"] that
      by (simp add: queues_typed_def)
  qed
  show ?thesis
  proof (intro exI [of _ keys] exI [of _ ?s] conjI allI)
    show "queue_requests rs s = (Inr keys, ?s)" by (rule run)
    show "queues_typed R ?s" by (rule typed')
    show "Inl x \<notin> set (queued_requests R k ?s)" "Inl x \<notin> set (active_requests_for R k ?s)" for x
      unfolding queued_requests_scanned [OF assms(1) typed' assms(5)] by auto
    show "{e. \<exists>key. Inr (e, key) \<in> set (queued_requests R k ?s)} =
        {e. \<exists>key. Inr (e, key) \<in> set (queued_requests R k s)} \<union> {e. (k, e) \<in> set rs}"
      unfolding view [OF typed'] view [OF assms(2)] using held assms(5) by simp
  qed
qed

definition pushers_init :: "servername \<Rightarrow> pushers_db" where
  "pushers_init name = media_db.extend (media_init name)
     \<lparr>userdevicetxnid_response = kv_empty, id_appserviceregistrations = kv_empty, cached_registrations = (\<lambda>_. None),
      senderkey_pusher = kv_empty\<rparr>"

definition sending_init :: "servername \<Rightarrow> sending_db" where
  "sending_init name = pushers_db.extend (pushers_init name)
     \<lparr>servername_educount = kv_empty, servernameevent_data = kv_empty, servercurrentevent_data = kv_empty,
      sending_channel = [], current_transaction_status = (\<lambda>_. None), sending_futures = []\<rparr>"

lemmas sending_init_defs = sending_init_def pushers_db.defs pushers_init_def media_db.defs media_init_defs

lemma sending_init_fields [simp]:
  "servernameevent_data (sending_init n) = kv_empty" "servercurrentevent_data (sending_init n) = kv_empty"
  "sending_channel (sending_init n) = []" "current_transaction_status (sending_init n) = (\<lambda>_. None)"
  "sending_futures (sending_init n) = []" "count (sending_init n) = 0"
  by (simp_all add: sending_init_defs count_def counter_at_def)

definition example_sending_ruma :: ruma where
  "example_sending_ruma = example_ruma\<lparr>is_server_name := (\<lambda>n. n = ascii ''h'')\<rparr>"

lemma example_sending_ruma_ok: "server_names_ok example_sending_ruma"
  by (auto simp: server_names_ok_def example_sending_ruma_def ascii_simps)

theorem sending_queues_typed_witness:
  "\<exists>keys s'. queue_requests [(Normal (ascii ''h''), SendEdu [1]), (Normal (ascii ''h''), SendPdu (replicate 16 0))]
      (sending_init []) = (Inr keys, s') \<and>
    {e. \<exists>key. Inr (e, key) \<in> set (queued_requests example_sending_ruma (Normal (ascii ''h'')) s')} =
      {SendEdu [1], SendPdu (replicate 16 0)}"
proof -
  let ?k = "Normal (ascii ''h'')"
  let ?rs = "[(?k, SendEdu [1]), (?k, SendPdu (replicate 16 0))]"
  have k: "kind_ok example_sending_ruma ?k" by (simp add: example_sending_ruma_def utf8_valid_ascii)
  have typed: "queues_typed example_sending_ruma (sending_init [])" by (simp add: queues_typed_def keys_typed_def)
  have none: "queued_requests example_sending_ruma ?k (sending_init []) = []" by (simp add: queued_requests_def)
  have ok: "\<forall>r \<in> set ?rs. request_ok example_sending_ruma r" using k by simp
  have left: "counts_left (length ?rs) (sending_init [])" by (simp add: counts_left_def)
  from sending_queues_typed [OF example_sending_ruma_ok typed ok left k] obtain keys s' where
    "queue_requests ?rs (sending_init []) = (Inr keys, s')"
    "{e. \<exists>key. Inr (e, key) \<in> set (queued_requests example_sending_ruma ?k s')} =
      {e. \<exists>key. Inr (e, key) \<in> set (queued_requests example_sending_ruma ?k (sending_init []))} \<union> {e. (?k, e) \<in> set ?rs}"
    by (elim exE conjE)
  then show ?thesis unfolding none by (intro exI [of _ keys] exI [of _ s']) auto
qed

end
