(* ===== verification/Sending.thy ===== *)
theory Sending
  imports SendQueue "HOL-Library.AList"
begin

text \<open>
  The sending service, \<^verbatim>\<open>src/service/sending/mod.rs\<close>: queueing of events for other servers,
  appservices and push gateways, the transactions built from them, retries with back-off, and the loop
  of the handler as a step relation. Typed EDU contents, the transports and the clock are parameters.
\<close>

text \<open>The result of an operation as a value; a panic is no result.\<close>

fun is_panic :: "error \<Rightarrow> bool" where
  "is_panic (Panic _) = True"
| "is_panic _ = False"

definition catching :: "('s, 'a) dop \<Rightarrow> ('s, 'a res) dop" where
  "catching p = bind (attempt p) (\<lambda>r. case r of Inl e \<Rightarrow> if is_panic e then fail e else ret r | Inr _ \<Rightarrow> ret r)"

section \<open>Queueing\<close>

definition send_message :: "sending_message \<Rightarrow> ('a sending_db_scheme, unit) dop" where
  "send_message m = modify (sending_channel_update (\<lambda>c. c @ [m]))"

definition first_key :: "bytes list \<Rightarrow> bytes res" where
  "first_key keys = (case keys of [] \<Rightarrow> Inl (Panic ''called unwrap on a None value'') | key # _ \<Rightarrow> Inr key)"

definition send_push_pdu :: "bytes \<Rightarrow> user_id \<Rightarrow> bytes \<Rightarrow> ('a sending_db_scheme, unit) dop" where
  "send_push_pdu pdu_id user key =
     (let outgoing_kind = Push user key; event = SendPdu pdu_id in
      bind (queue_requests [(outgoing_kind, event)]) (\<lambda>keys.
      bind (of_res (first_key keys)) (\<lambda>key. send_message (outgoing_kind, event, key))))"

definition send_pdu :: "servername list \<Rightarrow> bytes \<Rightarrow> ('a sending_db_scheme, unit) dop" where
  "send_pdu servers pdu_id =
     (let requests = map (\<lambda>server. (Normal server, SendPdu pdu_id)) servers in
      bind (queue_requests requests) (\<lambda>keys.
      for_each (zip requests keys) (\<lambda>((outgoing_kind, event), key). send_message (outgoing_kind, event, key))))"

definition send_reliable_edu :: "servername \<Rightarrow> bytes \<Rightarrow> ('a sending_db_scheme, unit) dop" where
  "send_reliable_edu server serialized =
     (let outgoing_kind = Normal server; event = SendEdu serialized in
      bind (queue_requests [(outgoing_kind, event)]) (\<lambda>keys.
      bind (of_res (first_key keys)) (\<lambda>key. send_message (outgoing_kind, event, key))))"

definition send_pdu_appservice :: "bytes \<Rightarrow> bytes \<Rightarrow> ('a sending_db_scheme, unit) dop" where
  "send_pdu_appservice appservice_id pdu_id =
     (let outgoing_kind = Appservice appservice_id; event = SendPdu pdu_id in
      bind (queue_requests [(outgoing_kind, event)]) (\<lambda>keys.
      bind (of_res (first_key keys)) (\<lambda>key. send_message (outgoing_kind, event, key))))"

definition cleanup_events :: "bytes \<Rightarrow> ('a sending_db_scheme, unit) dop" where
  "cleanup_events appservice_id = delete_all_requests_for (Appservice appservice_id)"

section \<open>EDUs for a server\<close>

text \<open>
  What comes from ruma: the content of a receipt event (outer \<open>None\<close>: not an ephemeral event, inner
  \<open>None\<close>: another kind of event) as lists in map order, and the JSON of the two EDUs.
\<close>

record edu_lib =
  receipt_content :: "json \<Rightarrow> (event_id \<times> (bytes \<times> (user_id \<times> json) list) list) list option option"
  receipt_edu :: "room_id \<Rightarrow> user_id \<Rightarrow> json \<Rightarrow> event_id \<Rightarrow> bytes"
  device_list_edu :: "user_id \<Rightarrow> bytes"

definition receipt_to_edu ::
    "edu_lib \<Rightarrow> room_id \<Rightarrow> user_id \<Rightarrow> (event_id \<times> (bytes \<times> (user_id \<times> json) list) list) list \<Rightarrow> bytes res" where
  "receipt_to_edu E room user items =
     (case items of
        [] \<Rightarrow> Inl (Panic ''we only use one event per read receipt'')
      | (eventid, receipts) # _ \<Rightarrow>
          bind_res (ok_or (Panic ''our read receipts always set this'') (map_of receipts (ascii ''m.read''))) (\<lambda>users.
          bind_res (ok_or (Panic ''our read receipts always have the user here'') (map_of users user)) (\<lambda>data.
          Inr (receipt_edu E room user data eventid))))"

text \<open>The receipts of one room; the flag is the \<^verbatim>\<open>break 'outer\<close>.\<close>

fun room_receipts ::
    "edu_lib \<Rightarrow> ruma \<Rightarrow> servername \<Rightarrow> room_id \<Rightarrow> (user_id \<times> u64 \<times> json) res list \<Rightarrow> bytes list \<Rightarrow> u64 \<Rightarrow>
      (bytes list \<times> u64 \<times> bool) res" where
  "room_receipts E R me room [] events max_count = Inr (events, max_count, False)"
| "room_receipts E R me room (r # rs) events max_count =
     bind_res r (\<lambda>(user, c, read_receipt).
     let max_count = (if c > max_count then c else max_count) in
     if user_server R user \<noteq> me then room_receipts E R me room rs events max_count
     else
       bind_res (ok_or (BadDatabase ''Invalid edu event in read_receipts.'') (receipt_content E read_receipt)) (\<lambda>found.
       case found of
         None \<Rightarrow> room_receipts E R me room rs events max_count
       | Some items \<Rightarrow>
           bind_res (receipt_to_edu E room user items) (\<lambda>edu.
           let events = events @ [edu] in
           if length events \<ge> 20 then Inr (events, max_count, True)
           else room_receipts E R me room rs events max_count)))"

fun server_edus ::
    "serde \<Rightarrow> edu_lib \<Rightarrow> ruma \<Rightarrow> u64 \<Rightarrow> room_id res list \<Rightarrow> bytes list \<Rightarrow> u64 \<Rightarrow> user_id set \<Rightarrow> 'a edus_db_scheme \<Rightarrow>
      (bytes list \<times> u64 \<times> user_id set) res" where
  "server_edus J E R since [] events max_count changed s = Inr (events, max_count, changed)"
| "server_edus J E R since (r # rs) events max_count changed s =
     bind_res r (\<lambda>room.
     let changed = changed \<union> {u. Inr u \<in> set (keys_changed R room since None s) \<and> user_server R u = server_name s} in
     bind_res (room_receipts E R (server_name s) room (readreceipts_since J R room since s) events max_count)
       (\<lambda>(events, max_count, stop).
         if stop then Inr (events, max_count, changed)
         else server_edus J E R since rs events max_count changed s))"

definition select_edus ::
    "serde \<Rightarrow> edu_lib \<Rightarrow> ruma \<Rightarrow> (bytes set \<Rightarrow> bytes list) \<Rightarrow> servername \<Rightarrow> 'a sending_db_scheme \<Rightarrow> (bytes list \<times> u64) res" where
  "select_edus J E R iter server s =
     bind_res (get_latest_educount server s) (\<lambda>since.
     map_res (\<lambda>(events, max_count, changed). (events @ map (device_list_edu E) (iter changed), max_count))
       (server_edus J E R since (server_rooms R server s) [] since {} s))"

section \<open>Selecting the events of a transaction\<close>

text \<open>
  \<^verbatim>\<open>Duration::from_secs(30) * tries * tries\<close>, at most a day. The product panics when the seconds do
  not fit 64 bits.
\<close>

definition min_elapsed :: "u32 \<Rightarrow> nat res" where
  "min_elapsed tries =
     (let secs = 30 * unat tries * unat tries in
      if secs \<ge> 2 ^ 64 then Inl (Panic ''overflow when multiplying duration by scalar'')
      else Inr (if secs > 60 * 60 * 24 then 60 * 60 * 24 else secs))"

text \<open>The entry of the destination: whether to go on, whether this is a retry, and the new status.\<close>

definition admit :: "nat \<Rightarrow> TransactionStatus option \<Rightarrow> (bool \<times> bool \<times> TransactionStatus) res" where
  "admit now st =
     (case st of
        None \<Rightarrow> Inr (True, False, Running)
      | Some Running \<Rightarrow> Inr (False, False, Running)
      | Some (Retrying n) \<Rightarrow> Inr (False, False, Retrying n)
      | Some (Failed tries time) \<Rightarrow>
          map_res (\<lambda>wait. if now - time < wait then (False, False, Failed tries time) else (True, True, Retrying tries))
            (min_elapsed tries))"

definition select_events ::
    "serde \<Rightarrow> edu_lib \<Rightarrow> ruma \<Rightarrow> (bytes set \<Rightarrow> bytes list) \<Rightarrow> nat \<Rightarrow> OutgoingKind \<Rightarrow> (SendingEventType \<times> bytes) list \<Rightarrow>
      ('a sending_db_scheme, SendingEventType list option) dop" where
  "select_events J E R iter now k new_events =
     bind (reads (\<lambda>s. admit now (current_transaction_status s k))) (\<lambda>(allow, retry, st).
     andthen (modify (current_transaction_status_update (\<lambda>m. m(k \<mapsto> st))))
     (if \<not> allow then ret None
      else if retry then
        gets (\<lambda>s. Some (map snd (List.map_filter res_ok (active_requests_for R k s))))
      else
        andthen (mark_as_active new_events)
        (case k of
           Normal server \<Rightarrow>
             bind (gets (select_edus J E R iter server)) (\<lambda>r.
             case r of
               Inr (edus, last_count) \<Rightarrow>
                 andthen (set_latest_educount server last_count) (ret (Some (map fst new_events @ map SendEdu edus)))
             | Inl e \<Rightarrow> if is_panic e then fail e else ret (Some (map fst new_events)))
         | _ \<Rightarrow> ret (Some (map fst new_events)))))"

section \<open>Transactions\<close>

text \<open>
  The requests a transaction makes: to an appservice with its registration, to a server, to a push
  gateway. \<open>hash64\<close> is the base64 form of \<^verbatim>\<open>calculate_hash\<close>, the id of the transaction.
\<close>

record transports =
  put_appservice :: "json \<Rightarrow> json list \<Rightarrow> bytes \<Rightarrow> unit res"
  put_federation :: "servername \<Rightarrow> json list \<Rightarrow> json list \<Rightarrow> bytes \<Rightarrow> unit res"
  post_gateway :: "bytes \<Rightarrow> notification \<Rightarrow> unit res"
  hash64 :: "bytes list \<Rightarrow> bytes"

record codecs =
  yaml_parse :: "bytes \<Rightarrow> json option"
  pusher_parse :: "bytes \<Rightarrow> pusher option"
  push_rules_parse :: "json \<Rightarrow> json option"
  server_default_rules :: "user_id \<Rightarrow> json"

fun event_bytes_of :: "SendingEventType \<Rightarrow> bytes" where
  "event_bytes_of (SendPdu b) = b"
| "event_bytes_of (SendEdu b) = b"

fun appservice_events :: "serde \<Rightarrow> ruma \<Rightarrow> SendingEventType list \<Rightarrow> 'a sending_db_scheme \<Rightarrow> json list res" where
  "appservice_events J R [] s = Inr []"
| "appservice_events J R (SendPdu i # es) s =
     bind_res (get_pdu_from_id J R i s) (\<lambda>found.
     bind_res (ok_or (BadDatabase ''[Appservice] Event in servernameevent_data not found in db.'') found) (\<lambda>pdu.
     map_res (\<lambda>rest. to_room_event pdu # rest) (appservice_events J R es s)))"
| "appservice_events J R (SendEdu _ # es) s = appservice_events J R es s"

fun push_pdus :: "serde \<Rightarrow> ruma \<Rightarrow> SendingEventType list \<Rightarrow> 'a sending_db_scheme \<Rightarrow> PduEvent list res" where
  "push_pdus J R [] s = Inr []"
| "push_pdus J R (SendPdu i # es) s =
     bind_res (get_pdu_from_id J R i s) (\<lambda>found.
     bind_res (ok_or (BadDatabase ''[Push] Event in servernamevent_datas not found in db.'') found) (\<lambda>pdu.
     map_res (\<lambda>rest. pdu # rest) (push_pdus J R es s)))"
| "push_pdus J R (SendEdu _ # es) s = push_pdus J R es s"

fun federation_events :: "serde \<Rightarrow> SendingEventType list \<Rightarrow> 'a sending_db_scheme \<Rightarrow> (json list \<times> json list) res" where
  "federation_events J [] s = Inr ([], [])"
| "federation_events J (SendPdu i # es) s =
     bind_res (get_pdu_json_from_id J i s) (\<lambda>found.
     bind_res (ok_or (BadDatabase ''[Normal] Event in servernamevent_datas not found in db.'') found) (\<lambda>ob.
     map_res (\<lambda>(pdus, edus). (convert_to_outgoing_federation_event ob # pdus, edus)) (federation_events J es s)))"
| "federation_events J (SendEdu b # es) s =
     map_res (\<lambda>(pdus, edus). (pdus, (case json_parse J b of Some j \<Rightarrow> j # edus | None \<Rightarrow> edus))) (federation_events J es s)"

text \<open>One event of a push transaction; the answer of the gateway is ignored.\<close>

definition is_redacted :: "PduEvent \<Rightarrow> bool" where
  "is_redacted pdu \<longleftrightarrow> (\<exists>u. unsigned pdu = Some u \<and> json_get u (ascii ''redacted_because'') \<noteq> None)"

definition push_one ::
    "serde \<Rightarrow> ruma \<Rightarrow> (bytes set \<Rightarrow> bytes list) \<Rightarrow> push_lib \<Rightarrow> codecs \<Rightarrow> transports \<Rightarrow> user_id \<Rightarrow> bytes \<Rightarrow> PduEvent \<Rightarrow>
      ('a sending_db_scheme, unit) dop" where
  "push_one J R iter P K T user key pdu =
     (if is_redacted pdu then ret ()
      else
        bind (reads (get_pusher (pusher_parse K) user key)) (\<lambda>found.
        case found of
          None \<Rightarrow> ret ()
        | Some p \<Rightarrow>
            bind (gets (get_account_data J None user (ascii ''m.push_rules''))) (\<lambda>stored.
            let rules = (case stored of
                  Inr (Some ev) \<Rightarrow> (case push_rules_parse K ev of Some r \<Rightarrow> r | None \<Rightarrow> server_default_rules K user)
                | _ \<Rightarrow> server_default_rules K user) in
            bind (reads (notification_count user (room_id pdu))) (\<lambda>unread.
            if unat unread > MAX_UINT then fail (Panic ''notification count can't go that high'')
            else
              bind (catching (send_push_notice J R iter P (post_gateway T) user unread p rules pdu)) (\<lambda>_. ret ())))))"

definition handle_events ::
    "serde \<Rightarrow> ruma \<Rightarrow> (bytes set \<Rightarrow> bytes list) \<Rightarrow> push_lib \<Rightarrow> codecs \<Rightarrow> transports \<Rightarrow> OutgoingKind \<Rightarrow> SendingEventType list \<Rightarrow>
      ('a sending_db_scheme, OutgoingKind) dop" where
  "handle_events J R iter P K T k events =
     (case k of
        Appservice i \<Rightarrow>
          bind (reads (appservice_events J R events)) (\<lambda>pdu_jsons.
          bind (reads (get_registration (yaml_parse K) i)) (\<lambda>found.
          bind (of_res (ok_or (BadDatabase ''[Appservice] Could not load registration from db.'') found)) (\<lambda>registration.
          andthen (of_res (put_appservice T registration pdu_jsons (hash64 T (map event_bytes_of events))))
          (ret k))))
      | Push user key \<Rightarrow>
          bind (reads (push_pdus J R events)) (\<lambda>pdus.
          andthen (for_each pdus (push_one J R iter P K T user key)) (ret k))
      | Normal server \<Rightarrow>
          bind (reads (federation_events J events)) (\<lambda>(pdu_jsons, edu_jsons).
          andthen (of_res (put_federation T server pdu_jsons edu_jsons (hash64 T (map event_bytes_of events))))
          (ret k)))"

section \<open>The handler\<close>

definition start_transaction :: "OutgoingKind \<Rightarrow> SendingEventType list \<Rightarrow> ('a sending_db_scheme, unit) dop" where
  "start_transaction k events = modify (sending_futures_update (\<lambda>f. f @ [(k, events)]))"

text \<open>The transactions left over from before a restart, at most 31 events for a destination.\<close>

fun initial_transactions ::
    "(bytes \<times> OutgoingKind \<times> SendingEventType) list \<Rightarrow> (OutgoingKind \<times> SendingEventType list) list \<Rightarrow>
      ('a sending_db_scheme, (OutgoingKind \<times> SendingEventType list) list) dop" where
  "initial_transactions [] acc = ret acc"
| "initial_transactions ((key, k, e) # rs) acc =
     (let entry = (case map_of acc k of Some es \<Rightarrow> es | None \<Rightarrow> []) in
      if length entry > 30
      then andthen (delete_active_request key) (initial_transactions rs (AList.update k entry acc))
      else initial_transactions rs (AList.update k (entry @ [e]) acc))"

definition handler_start :: "ruma \<Rightarrow> ('a sending_db_scheme, unit) dop" where
  "handler_start R =
     bind (gets (\<lambda>s. List.map_filter res_ok (active_requests R s))) (\<lambda>active.
     bind (initial_transactions active []) (\<lambda>initial.
     for_each initial (\<lambda>(k, events).
       andthen (modify (current_transaction_status_update (\<lambda>m. m(k \<mapsto> Running))))
       (start_transaction k events))))"

definition handler_ok :: "ruma \<Rightarrow> OutgoingKind \<Rightarrow> ('a sending_db_scheme, unit) dop" where
  "handler_ok R k =
     andthen (delete_all_active_requests_for k)
     (bind (gets (\<lambda>s. take 30 (List.map_filter res_ok (queued_requests R k s)))) (\<lambda>new_events.
     if new_events \<noteq> [] then
       andthen (mark_as_active new_events) (start_transaction k (map fst new_events))
     else modify (current_transaction_status_update (\<lambda>m. m(k := None)))))"

definition handler_err :: "nat \<Rightarrow> OutgoingKind \<Rightarrow> ('a sending_db_scheme, unit) dop" where
  "handler_err now k =
     modify (current_transaction_status_update (\<lambda>m.
       case m k of
         None \<Rightarrow> m
       | Some Running \<Rightarrow> m(k \<mapsto> Failed 1 now)
       | Some (Retrying n) \<Rightarrow> m(k \<mapsto> Failed (n + 1) now)
       | Some (Failed _ _) \<Rightarrow> m))"

definition handler_recv ::
    "serde \<Rightarrow> edu_lib \<Rightarrow> ruma \<Rightarrow> (bytes set \<Rightarrow> bytes list) \<Rightarrow> nat \<Rightarrow> sending_message \<Rightarrow> ('a sending_db_scheme, unit) dop" where
  "handler_recv J E R iter now msg =
     (case msg of (k, event, key) \<Rightarrow>
      bind (catching (select_events J E R iter now k [(event, key)])) (\<lambda>r.
      case r of
        Inr (Some events) \<Rightarrow> start_transaction k events
      | _ \<Rightarrow> ret ()))"

section \<open>Messages agree with the queue\<close>

definition consistent :: "ruma \<Rightarrow> u64 \<Rightarrow> kv_tree \<Rightarrow> sending_message \<Rightarrow> bool" where
  "consistent R n t m \<longleftrightarrow> (case m of (k, e, key) \<Rightarrow> keyed R n k e key \<and> kv_get t key \<in> {None, Some (stored_value e)})"

lemma consistent_put:
  assumes "server_names_ok R" and "consistent R n t m" and "n \<le> n'" and "keyed R n' k' e' key'"
    and fresh: "\<forall>c. stored_value e' \<noteq> [] \<longrightarrow> key' = get_prefix k' @ to_be_bytes c \<longrightarrow> n < c"
  shows "consistent R n' (kv_put_quiet key' (stored_value e') t) m"
proof -
  obtain k e key where m: "m = (k, e, key)" by (cases m) auto
  with assms(2) have keyed: "keyed R n k e key" and get: "kv_get t key \<in> {None, Some (stored_value e)}"
    by (simp_all add: consistent_def)
  have "stored_value e' = stored_value e" if "key' = key"
  proof -
    from keyed obtain x where x: "kind_ok R k" "key = get_prefix k @ x" "entry_ok n x (stored_value e)"
      by (auto simp: keyed_def)
    from assms(4) obtain y where y: "kind_ok R k'" "key' = get_prefix k' @ y" "entry_ok n' y (stored_value e')"
        "stored_event y (stored_value e') = e'"
      by (auto simp: keyed_def)
    from x(2) y(2) that have "get_prefix k' @ y = get_prefix k @ x" by simp
    then have "k' = k" "y = x" using get_prefix_inject [OF assms(1) y(1) x(1)] by blast+
    show ?thesis
    proof (cases "stored_value e' = []")
      case True
      with y(3) \<open>y = x\<close> have "length x = 16" by (simp add: entry_ok_def)
      with x(3) True show ?thesis by (auto simp: entry_ok_def length_to_be_bytes split: if_splits)
    next
      case False
      with y(3) \<open>y = x\<close> obtain c where c: "x = to_be_bytes c" by (auto simp: entry_ok_def)
      with fresh False y(2) \<open>y = x\<close> have "n < c" by blast
      with x(3) c have False by (auto simp: entry_ok_def length_to_be_bytes split: if_splits)
      then show ?thesis ..
    qed
  qed
  with keyed_mono [OF keyed assms(3)] get show ?thesis by (auto simp: consistent_def m)
qed

definition messages_of :: "(OutgoingKind \<times> SendingEventType) list \<Rightarrow> bytes list \<Rightarrow> sending_message list" where
  "messages_of rs keys = map (\<lambda>((k, e), key). (k, e, key)) (zip rs keys)"

lemma insert_fresh_consistent:
  "keys_fresh R n rs keys m \<Longrightarrow> server_names_ok R \<Longrightarrow> (\<forall>msg \<in> M. consistent R n t msg) \<Longrightarrow>
    \<forall>msg \<in> M \<union> set (messages_of rs keys).
      consistent R m (kv_insert_batch (zip keys (map (\<lambda>(_, e). stored_value e) rs)) t) msg"
proof (induction R n rs keys m arbitrary: t M rule: keys_fresh.induct)
  case (1 R n m)
  then show ?case by (simp add: kv_insert_batch_def messages_of_def)
next
  case (2 R n k e rs key keys m)
  from 2(2) obtain n' where n': "n \<le> n'" "keyed R n' k e key"
    "\<forall>c. stored_value e \<noteq> [] \<longrightarrow> key = get_prefix k @ to_be_bytes c \<longrightarrow> n < c" "keys_fresh R n' rs keys m" by auto
  let ?t = "kv_put_quiet key (stored_value e) t"
  have "\<forall>msg \<in> insert (k, e, key) M. consistent R n' ?t msg"
    using consistent_put [OF 2(3) _ n'(1,2,3)] 2(4) n'(2) by (auto simp: consistent_def)
  from 2(1) [OF n'(4) 2(3) this] show ?case by (simp add: kv_insert_batch_def messages_of_def)
qed auto

lemma consistent_remove:
  assumes "consistent R n t m" and "\<forall>key v. kv_get t' key = Some v \<longrightarrow> kv_get t key = Some v"
  shows "consistent R n t' m"
proof -
  obtain k e key where m: "m = (k, e, key)" by (cases m) auto
  from assms(2) have "kv_get t' key = None \<or> kv_get t' key = kv_get t key" by (cases "kv_get t' key") auto
  with assms(1) show ?thesis by (auto simp: consistent_def m)
qed

section \<open>The invariant of the handler\<close>

definition busy :: "TransactionStatus option \<Rightarrow> bool" where
  "busy st \<longleftrightarrow> (case st of Some Running \<Rightarrow> True | Some (Retrying _) \<Rightarrow> True | _ \<Rightarrow> False)"

text \<open>
  One destination: a status, the events of its transaction under way, and its active events. It is busy
  exactly when it has a transaction, which has all its active events; without a status it has none.
\<close>

definition slot_ok :: "TransactionStatus option \<Rightarrow> SendingEventType list option \<Rightarrow> SendingEventType set \<Rightarrow> bool" where
  "slot_ok st fut act \<longleftrightarrow>
     (busy st \<longleftrightarrow> fut \<noteq> None) \<and> (\<forall>evs. fut = Some evs \<longrightarrow> act \<subseteq> set evs) \<and> (st = None \<longrightarrow> act = {})"

definition sending_inv :: "ruma \<Rightarrow> 'a sending_db_scheme \<Rightarrow> bool" where
  "sending_inv R s \<longleftrightarrow>
     queues_typed R s \<and>
     (\<forall>m \<in> set (sending_channel s). consistent R (count s) (servernameevent_data s) m) \<and>
     distinct (map fst (sending_futures s)) \<and> (\<forall>k \<in> fst ` set (sending_futures s). kind_ok R k) \<and>
     (\<forall>k. kind_ok R k \<longrightarrow>
       slot_ok (current_transaction_status s k) (map_of (sending_futures s) k) (held (servercurrentevent_data s) k))"

text \<open>What is still to be delivered to a destination.\<close>

definition pending :: "'a sending_db_scheme \<Rightarrow> OutgoingKind \<Rightarrow> SendingEventType set" where
  "pending s k = held (servernameevent_data s) k \<union> held (servercurrentevent_data s) k"

lemma sending_invD:
  assumes "sending_inv R s"
  shows "queues_typed R s" and "\<forall>m \<in> set (sending_channel s). consistent R (count s) (servernameevent_data s) m"
    and "distinct (map fst (sending_futures s))" and "\<forall>k \<in> fst ` set (sending_futures s). kind_ok R k"
    and "\<forall>k. kind_ok R k \<longrightarrow>
      slot_ok (current_transaction_status s k) (map_of (sending_futures s) k) (held (servercurrentevent_data s) k)"
    and "keys_typed R (count s) (servernameevent_data s)" and "keys_typed R (count s) (servercurrentevent_data s)"
  using assms by (simp_all add: sending_inv_def queues_typed_def)

lemma sending_count [simp]:
  "count (sending_futures_update f s) = count s" "count (sending_channel_update c s) = count s"
  "count (servernameevent_data_update w s) = count s" "count (servercurrentevent_data_update a s) = count s"
  "count (current_transaction_status_update st s) = count s" "count (servername_educount_update u s) = count s"
  by (simp_all add: count_def)

text \<open>Queueing requests and announcing them on the channel.\<close>

lemma queue_and_announce:
  assumes "server_names_ok R" and "sending_inv R s" and "\<forall>r \<in> set rs. request_ok R r" and "counts_left (length rs) s"
  shows "\<exists>keys s1. queue_requests rs s = (Inr keys, s1) \<and> length keys = length rs \<and>
    sending_inv R (sending_channel_update (\<lambda>c. c @ messages_of rs keys) s1) \<and>
    (\<forall>k. kind_ok R k \<longrightarrow> pending s1 k = pending s k \<union> {e. (k, e) \<in> set rs})"
proof -
  note inv = sending_invD [OF assms(2)]
  obtain keys g t where run: "queue_requests rs s = (Inr keys, s\<lparr>global := g, servernameevent_data := t\<rparr>)"
      and le: "count s \<le> count (s\<lparr>global := g\<rparr>)" and typed: "keys_typed R (count (s\<lparr>global := g\<rparr>)) t"
      and fresh: "keys_fresh R (count s) rs keys (count (s\<lparr>global := g\<rparr>))"
      and t: "t = kv_insert_batch (zip keys (map (\<lambda>(_, e). stored_value e) rs)) (servernameevent_data s)"
      and held: "\<forall>k. kind_ok R k \<longrightarrow> held t k = held (servernameevent_data s) k \<union> {e. (k, e) \<in> set rs}"
    using queue_requests_run [OF assms(1) inv(1) assms(3,4)] by blast
  let ?s = "s\<lparr>global := g, servernameevent_data := t\<rparr>"
  let ?s' = "sending_channel_update (\<lambda>c. c @ messages_of rs keys) ?s"
  have chan: "\<forall>m \<in> set (sending_channel s) \<union> set (messages_of rs keys). consistent R (count (s\<lparr>global := g\<rparr>)) t m"
    unfolding t by (rule insert_fresh_consistent [OF fresh assms(1) inv(2)])
  have typed': "queues_typed R ?s'"
    using inv(1) typed keys_typed_mono [OF _ le] by (simp add: queues_typed_def)
  have "sending_inv R ?s'"
    using typed' chan inv(3-5) by (auto simp: sending_inv_def)
  moreover have "\<forall>k. kind_ok R k \<longrightarrow> pending ?s k = pending s k \<union> {e. (k, e) \<in> set rs}"
    using held by (auto simp: pending_def)
  ultimately show ?thesis using run keys_fresh_length [OF fresh] by blast
qed

lemma map_filter_res_ok_Inr: "List.map_filter res_ok (map Inr xs) = xs"
  by (induction xs) (simp_all add: List.map_filter_def)

lemma scanned_inj: "inj_on snd (set (scanned k t))"
proof (rule inj_onI)
  fix p q assume pq: "p \<in> set (scanned k t)" "q \<in> set (scanned k t)" "snd p = snd q"
  then obtain v w where "p = (stored_event (drop (length (get_prefix k)) (snd p)) v, snd p)" "kv_get t (snd p) = Some v"
      "q = (stored_event (drop (length (get_prefix k)) (snd q)) w, snd q)" "kv_get t (snd q) = Some w"
    by (auto simp: scanned_def set_kv_scan_prefix)
  with pq(3) show "p = q" by simp
qed

lemma held_empty_get:
  assumes "held t k = {}"
  shows "kv_get t (get_prefix k @ x) = None"
proof (cases "kv_get t (get_prefix k @ x)")
  case (Some v)
  then have "stored_event x v \<in> held t k" unfolding held_def by blast
  with assms show ?thesis by simp
qed

text \<open>Moving events of an idle destination from the queue into a transaction.\<close>

definition activated ::
    "ruma \<Rightarrow> OutgoingKind \<Rightarrow> (SendingEventType \<times> bytes) list \<Rightarrow> 'a sending_db_scheme \<Rightarrow> kv_tree \<Rightarrow> kv_tree \<Rightarrow> bool" where
  "activated R k evs s w a \<longleftrightarrow>
     keys_typed R (count s) w \<and> keys_typed R (count s) a \<and>
     (\<forall>k'. kind_ok R k' \<longrightarrow> k' \<noteq> k \<longrightarrow> held w k' = held (servernameevent_data s) k' \<and> held a k' = held (servercurrentevent_data s) k') \<and>
     held w k \<subseteq> held (servernameevent_data s) k \<and> held (servernameevent_data s) k \<subseteq> fst ` set evs \<union> held w k \<and>
     held a k = fst ` set evs \<and>
     (\<forall>key v. kv_get w key = Some v \<longleftrightarrow> kv_get (servernameevent_data s) key = Some v \<and> key \<notin> snd ` set evs)"

lemma activate:
  assumes "server_names_ok R" and "queues_typed R s" and "kind_ok R k" and "held (servercurrentevent_data s) k = {}"
    and "\<forall>(e, key) \<in> set evs. consistent R (count s) (servernameevent_data s) (k, e, key)" and "inj_on snd (set evs)"
  shows "\<exists>w a. mark_as_active evs s = (Inr (), s\<lparr>servernameevent_data := w, servercurrentevent_data := a\<rparr>) \<and>
    activated R k evs s w a"
proof -
  have "kv_get (servercurrentevent_data s) key = None" if "keyed R (count s) k e key" for e key
    using that held_empty_get [OF assms(4)] by (auto simp: keyed_def)
  then have "\<forall>(e, key) \<in> set evs. keyed R (count s) k e key \<and> kv_get (servernameevent_data s) key \<in> {None, Some (stored_value e)} \<and>
      kv_get (servercurrentevent_data s) key \<in> {None, Some (stored_value e)}"
    using assms(5) by (auto simp: consistent_def)
  from mark_as_active_run [OF assms(1) _ _ assms(3) this assms(6)] assms(2)
  show ?thesis unfolding queues_typed_def activated_def assms(4) Un_empty_left by blast
qed

lemma activated_consistent:
  assumes "activated R k evs s w a" and "consistent R (count s) (servernameevent_data s) m"
  shows "consistent R (count s) w m"
  using consistent_remove [OF assms(2)] assms(1) by (simp add: activated_def)

text \<open>The first thirty queued events of a destination can be activated.\<close>

lemma scanned_consistent:
  assumes "server_names_ok R" and "queues_typed R s" and "kind_ok R k"
  shows "\<forall>(e, key) \<in> set (take n (scanned k (servernameevent_data s))).
      consistent R (count s) (servernameevent_data s) (k, e, key)"
    and "inj_on snd (set (take n (scanned k (servernameevent_data s))))"
proof -
  have "consistent R (count s) (servernameevent_data s) (k, e, key)"
    if "(e, key) \<in> set (take n (scanned k (servernameevent_data s)))" for e key
    using scanned_keyed [OF _ assms(1,3), of "count s" "servernameevent_data s" e key] in_set_takeD [OF that] assms(2)
    by (simp add: consistent_def queues_typed_def)
  then show "\<forall>(e, key) \<in> set (take n (scanned k (servernameevent_data s))).
      consistent R (count s) (servernameevent_data s) (k, e, key)" by blast
  show "inj_on snd (set (take n (scanned k (servernameevent_data s))))"
    using inj_on_subset [OF scanned_inj set_take_subset] .
qed

text \<open>Replacing the transaction of one destination.\<close>

lemma sending_inv_slot:
  assumes "sending_inv R s" and "kind_ok R k"
    and "queues_typed R t" and "\<forall>m \<in> set (sending_channel t). consistent R (count t) (servernameevent_data t) m"
    and "distinct (map fst (sending_futures t))" and "fst ` set (sending_futures t) \<subseteq> insert k (fst ` set (sending_futures s))"
    and "\<forall>k'. k' \<noteq> k \<longrightarrow> current_transaction_status t k' = current_transaction_status s k' \<and>
      map_of (sending_futures t) k' = map_of (sending_futures s) k' \<and>
      (kind_ok R k' \<longrightarrow> held (servercurrentevent_data t) k' = held (servercurrentevent_data s) k')"
    and "slot_ok (current_transaction_status t k) (map_of (sending_futures t) k) (held (servercurrentevent_data t) k)"
  shows "sending_inv R t"
proof -
  note inv = sending_invD [OF assms(1)]
  have "slot_ok (current_transaction_status t k') (map_of (sending_futures t) k') (held (servercurrentevent_data t) k')"
    if "kind_ok R k'" for k'
    using assms(7,8) inv(5) that by (cases "k' = k") auto
  then show ?thesis
    using assms(2-6) inv(4) unfolding sending_inv_def by blast
qed

lemma future_removed:
  assumes "sending_inv R s" and "sending_futures s = fs1 @ (k, evs) # fs2"
  shows "kind_ok R k" and "busy (current_transaction_status s k)" and "held (servercurrentevent_data s) k \<subseteq> set evs"
    and "distinct (map fst (fs1 @ fs2))" and "k \<notin> fst ` set (fs1 @ fs2)" and "map_of (fs1 @ fs2) k = None"
    and "k' \<noteq> k \<Longrightarrow> map_of (fs1 @ fs2) k' = map_of (sending_futures s) k'"
proof -
  note inv = sending_invD [OF assms(1)]
  show k: "kind_ok R k" using inv(4) assms(2) by simp
  have d: "k \<notin> fst ` set fs1" "k \<notin> fst ` set fs2" using inv(3) assms(2) by auto
  then have "map_of (sending_futures s) k = Some evs"
    by (simp add: assms(2) map_add_def map_of_eq_None_iff [THEN iffD2])
  with inv(5) k show "busy (current_transaction_status s k)" "held (servercurrentevent_data s) k \<subseteq> set evs"
    by (auto simp: slot_ok_def)
  show "distinct (map fst (fs1 @ fs2))" "k \<notin> fst ` set (fs1 @ fs2)" using inv(3) assms(2) by auto
  then show "map_of (fs1 @ fs2) k = None" unfolding map_of_eq_None_iff by blast
  show "map_of (fs1 @ fs2) k' = map_of (sending_futures s) k'" if "k' \<noteq> k"
    using that by (simp add: assms(2) map_add_def split: option.split)
qed

lemma map_of_snoc:
  assumes "k \<notin> fst ` set fs"
  shows "map_of (fs @ [(k, v)]) k = Some v" and "k' \<noteq> k \<Longrightarrow> map_of (fs @ [(k, v)]) k' = map_of fs k'"
proof -
  have "map_of fs k = None" using assms unfolding map_of_eq_None_iff .
  then show "map_of (fs @ [(k, v)]) k = Some v" by (simp add: map_add_def)
  show "k' \<noteq> k \<Longrightarrow> map_of (fs @ [(k, v)]) k' = map_of fs k'" by (simp add: map_add_def split: option.split)
qed

text \<open>An idle destination gets a transaction.\<close>

lemma started_inv:
  assumes "sending_inv R s" and "kind_ok R k" and "k \<notin> fst ` set fs" and "distinct (map fst fs)"
    and "fst ` set fs \<subseteq> fst ` set (sending_futures s)" and "\<forall>k'. k' \<noteq> k \<longrightarrow> map_of fs k' = map_of (sending_futures s) k'"
    and "sending_futures t = fs @ [(k, evs)]" and "queues_typed R t"
    and "\<forall>m \<in> set (sending_channel t). consistent R (count t) (servernameevent_data t) m"
    and "\<forall>k'. k' \<noteq> k \<longrightarrow> current_transaction_status t k' = current_transaction_status s k'" and "busy (current_transaction_status t k)"
    and "\<forall>k'. kind_ok R k' \<longrightarrow> k' \<noteq> k \<longrightarrow> held (servercurrentevent_data t) k' = held (servercurrentevent_data s) k'"
    and "held (servercurrentevent_data t) k \<subseteq> set evs"
  shows "sending_inv R t"
proof (rule sending_inv_slot [OF assms(1,2,8,9)])
  show "distinct (map fst (sending_futures t))" using assms(3,4,7) by simp
  show "fst ` set (sending_futures t) \<subseteq> insert k (fst ` set (sending_futures s))" using assms(5,7) by auto
  show "\<forall>k'. k' \<noteq> k \<longrightarrow> current_transaction_status t k' = current_transaction_status s k' \<and>
      map_of (sending_futures t) k' = map_of (sending_futures s) k' \<and>
      (kind_ok R k' \<longrightarrow> held (servercurrentevent_data t) k' = held (servercurrentevent_data s) k')"
    unfolding assms(7) using map_of_snoc(2) [OF assms(3)] assms(6,10,12) by simp
  show "slot_ok (current_transaction_status t k) (map_of (sending_futures t) k) (held (servercurrentevent_data t) k)"
    unfolding assms(7) map_of_snoc(1) [OF assms(3)] slot_ok_def using assms(11,13) by (auto simp: busy_def)
qed

text \<open>A transaction that was accepted: its events are done, the next ones are sent.\<close>

definition next_batch :: "OutgoingKind \<Rightarrow> 'a sending_db_scheme \<Rightarrow> (SendingEventType \<times> bytes) list" where
  "next_batch k s = take 30 (scanned k (servernameevent_data s))"

lemma handler_ok_cleared:
  assumes "server_names_ok R" and "sending_inv R s" and "sending_futures s = fs1 @ (k, evs) # fs2"
  defines "t \<equiv> s\<lparr>sending_futures := fs1 @ fs2, servercurrentevent_data := kv_remove_prefix (get_prefix k) (servercurrentevent_data s)\<rparr>"
  shows "handler_ok R k (s\<lparr>sending_futures := fs1 @ fs2\<rparr>) =
      (if next_batch k s \<noteq> [] then andthen (mark_as_active (next_batch k s)) (start_transaction k (map fst (next_batch k s))) t
       else modify (current_transaction_status_update (\<lambda>m. m(k := None))) t)"
    and "queues_typed R t" and "held (servercurrentevent_data t) k = {}"
    and "\<forall>k'. kind_ok R k' \<longrightarrow> k' \<noteq> k \<longrightarrow> held (servercurrentevent_data t) k' = held (servercurrentevent_data s) k'"
proof -
  note inv = sending_invD [OF assms(2)] and k = future_removed(1) [OF assms(2,3)]
  show typed: "queues_typed R t"
    using inv(6) keys_typed_remove_prefix [OF inv(7)] by (simp add: queues_typed_def t_def)
  have "List.map_filter res_ok (queued_requests R k t) = scanned k (servernameevent_data s)"
    using queued_requests_scanned(1) [OF assms(1) typed k] by (simp add: map_filter_res_ok_Inr t_def)
  moreover have "delete_all_active_requests_for k (s\<lparr>sending_futures := fs1 @ fs2\<rparr>) = (Inr (), t)"
    by (simp add: delete_all_active_requests_for_def t_def)
  ultimately show "handler_ok R k (s\<lparr>sending_futures := fs1 @ fs2\<rparr>) =
      (if next_batch k s \<noteq> [] then andthen (mark_as_active (next_batch k s)) (start_transaction k (map fst (next_batch k s))) t
       else modify (current_transaction_status_update (\<lambda>m. m(k := None))) t)"
    by (simp add: handler_ok_def next_batch_def)
  show "held (servercurrentevent_data t) k = {}"
    "\<forall>k'. kind_ok R k' \<longrightarrow> k' \<noteq> k \<longrightarrow> held (servercurrentevent_data t) k' = held (servercurrentevent_data s) k'"
    using held_remove_prefix [OF assms(1) k] k by (simp_all add: t_def)
qed

lemma handler_ok_run:
  assumes "server_names_ok R" and "sending_inv R s" and fut: "sending_futures s = fs1 @ (k, evs) # fs2"
  shows "\<exists>s'. handler_ok R k (s\<lparr>sending_futures := fs1 @ fs2\<rparr>) = (Inr (), s') \<and> sending_inv R s' \<and>
    (\<forall>k'. kind_ok R k' \<longrightarrow> k' \<noteq> k \<longrightarrow> pending s' k' = pending s k') \<and>
    pending s' k = held (servernameevent_data s) k \<and> pending s k \<subseteq> pending s' k \<union> set evs \<and>
    (if next_batch k s = [] then current_transaction_status s' k = None
     else sending_futures s' = (fs1 @ fs2) @ [(k, map fst (next_batch k s))] \<and>
       (\<forall>key v. kv_get (servernameevent_data s') key = Some v \<longleftrightarrow>
         kv_get (servernameevent_data s) key = Some v \<and> key \<notin> snd ` set (next_batch k s)))"
proof -
  note inv = sending_invD [OF assms(2)] and rm = future_removed [OF assms(2) fut]
  let ?t = "s\<lparr>sending_futures := fs1 @ fs2, servercurrentevent_data := kv_remove_prefix (get_prefix k) (servercurrentevent_data s)\<rparr>"
  note clear = handler_ok_cleared [OF assms]
  have queued: "fst ` set (scanned k (servernameevent_data s)) = held (servernameevent_data s) k"
    by (rule fst_scanned [OF inv(6) assms(1) rm(1)])
  show ?thesis
  proof (cases "next_batch k s = []")
    case True
    then have none: "held (servernameevent_data s) k = {}" using queued by (simp add: next_batch_def)
    let ?u = "current_transaction_status_update (\<lambda>m. m(k := None)) ?t"
    have "sending_inv R ?u"
      by (rule sending_inv_slot [OF assms(2) rm(1)])
        (use inv(2) clear(2-4) rm(4-7) fut in \<open>auto simp: queues_typed_def slot_ok_def busy_def\<close>)
    moreover have "handler_ok R k (s\<lparr>sending_futures := fs1 @ fs2\<rparr>) = (Inr (), ?u)" using clear(1) True by simp
    ultimately show ?thesis using True none clear(3,4) rm(3) by (intro exI [of _ ?u]) (auto simp: pending_def)
  next
    case False
    have "\<exists>w a. mark_as_active (next_batch k s) ?t = (Inr (), ?t\<lparr>servernameevent_data := w, servercurrentevent_data := a\<rparr>) \<and>
        activated R k (next_batch k s) ?t w a"
      using activate [OF assms(1) clear(2) rm(1) clear(3)] scanned_consistent [OF assms(1) clear(2) rm(1), of 30]
      by (simp add: next_batch_def)
    then obtain w a where mark: "mark_as_active (next_batch k s) ?t = (Inr (), ?t\<lparr>servernameevent_data := w, servercurrentevent_data := a\<rparr>)"
      and act: "activated R k (next_batch k s) ?t w a" by (elim exE conjE)
    let ?u = "s\<lparr>sending_futures := (fs1 @ fs2) @ [(k, map fst (next_batch k s))], servernameevent_data := w, servercurrentevent_data := a\<rparr>"
    have run: "handler_ok R k (s\<lparr>sending_futures := fs1 @ fs2\<rparr>) = (Inr (), ?u)"
      using clear(1) False mark by (simp add: start_transaction_def)
    have "sending_inv R ?u"
    proof (rule started_inv [OF assms(2) rm(1,5,4)])
      show "\<forall>m \<in> set (sending_channel ?u). consistent R (count ?u) (servernameevent_data ?u) m"
        using activated_consistent [OF act] inv(2) by simp
      show "\<forall>k'. k' \<noteq> k \<longrightarrow> map_of (fs1 @ fs2) k' = map_of (sending_futures s) k'" using rm(7) by blast
      show "held (servercurrentevent_data ?u) k \<subseteq> set (map fst (next_batch k s))" using act by (simp add: activated_def)
    qed (use act clear(4) rm(2) fut in \<open>auto simp: queues_typed_def activated_def\<close>)
    moreover have "fst ` set (next_batch k s) \<subseteq> held (servernameevent_data s) k"
      using queued set_take_subset [of 30 "scanned k (servernameevent_data s)"] by (auto simp: next_batch_def)
    ultimately show ?thesis
      using run False act clear(3,4) rm(3) by (intro exI [of _ ?u]) (auto simp: pending_def activated_def)
  qed
qed

text \<open>A transaction that failed: its events stay active for the next try.\<close>

lemma handler_err_run:
  assumes "sending_inv R s" and fut: "sending_futures s = fs1 @ (k, evs) # fs2"
  shows "\<exists>s'. handler_err now k (s\<lparr>sending_futures := fs1 @ fs2\<rparr>) = (Inr (), s') \<and> sending_inv R s' \<and>
    (\<forall>k'. pending s' k' = pending s k') \<and> (\<exists>n. current_transaction_status s' k = Some (Failed n now))"
proof -
  note inv = sending_invD [OF assms(1)] and rm = future_removed [OF assms]
  obtain n where st: "(case current_transaction_status s k of None \<Rightarrow> current_transaction_status s
       | Some Running \<Rightarrow> (current_transaction_status s)(k \<mapsto> Failed 1 now)
       | Some (Retrying n) \<Rightarrow> (current_transaction_status s)(k \<mapsto> Failed (n + 1) now)
       | Some (Failed _ _) \<Rightarrow> current_transaction_status s) = (current_transaction_status s)(k \<mapsto> Failed n now)"
    using rm(2) by (auto simp: busy_def split: option.splits TransactionStatus.splits)
  let ?u = "s\<lparr>sending_futures := fs1 @ fs2, current_transaction_status := (current_transaction_status s)(k \<mapsto> Failed n now)\<rparr>"
  have "handler_err now k (s\<lparr>sending_futures := fs1 @ fs2\<rparr>) = (Inr (), ?u)"
    using st by (simp add: handler_err_def)
  moreover have "sending_inv R ?u"
    by (rule sending_inv_slot [OF assms(1) rm(1)])
      (use inv(2,6,7) rm(4-7) fut in \<open>auto simp: queues_typed_def slot_ok_def busy_def\<close>)
  ultimately show ?thesis by (intro exI [of _ ?u]) (simp add: pending_def)
qed

text \<open>A message from the channel, on every branch of \<^verbatim>\<open>select_events\<close>.\<close>

lemma educount_inv: "sending_inv R (servername_educount_update f s) \<longleftrightarrow> sending_inv R s"
  by (simp add: sending_inv_def queues_typed_def)

lemma educount_pending: "pending (servername_educount_update f s) k = pending s k"
  by (simp add: pending_def)

lemma select_events_idle:
  assumes "current_transaction_status s k = None"
    and mark: "mark_as_active [(e, key)] (current_transaction_status_update (\<lambda>m. m(k \<mapsto> Running)) s) = (Inr (), u)"
  obtains evs x where "select_events J E R iter now k [(e, key)] s = (Inr (Some (e # evs)), u\<lparr>servername_educount := x\<rparr>)"
    | err t where "select_events J E R iter now k [(e, key)] s = (Inl err, t)" "is_panic err"
proof -
  have same: "u\<lparr>servername_educount := servername_educount u\<rparr> = u" by simp
  have eq: "select_events J E R iter now k [(e, key)] s =
      (case k of
           Normal server \<Rightarrow>
             bind (gets (select_edus J E R iter server)) (\<lambda>r.
             case r of
               Inr (edus, last_count) \<Rightarrow>
                 andthen (set_latest_educount server last_count) (ret (Some (map fst [(e, key)] @ map SendEdu edus)))
             | Inl err \<Rightarrow> if is_panic err then fail err else ret (Some (map fst [(e, key)])))
         | _ \<Rightarrow> ret (Some (map fst [(e, key)]))) u"
    using assms(1) mark by (simp add: select_events_def admit_def)
  show thesis
  proof (cases k)
    case (Normal server)
    show thesis
    proof (cases "select_edus J E R iter server u")
      case (Inl err)
      with eq Normal that(1) [of "[]" "servername_educount u"] that(2) [of err u] same show thesis
        by (cases "is_panic err") simp_all
    next
      case (Inr r)
      obtain edus c where "r = (edus, c)" by (cases r)
      with Inr Normal eq have "select_events J E R iter now k [(e, key)] s =
          (Inr (Some (e # map SendEdu edus)), servername_educount_update (kv_insert server (to_be_bytes c)) u)"
        by (simp add: set_latest_educount_def)
      then show thesis using that(1) [of "map SendEdu edus" "kv_insert server (to_be_bytes c) (servername_educount u)"] by simp
    qed
  qed (use that(1) [of "[]" "servername_educount u"] eq same in simp_all)
qed

lemma handler_recv_idle:
  assumes "server_names_ok R" and "sending_inv R s" and "consistent R (count s) (servernameevent_data s) (k, e, key)"
    and "current_transaction_status s k = None"
    and "handler_recv J E R iter now (k, e, key) s = (Inr (), s')"
  shows "sending_inv R s' \<and> (\<forall>k'. kind_ok R k' \<longrightarrow> pending s k' \<subseteq> pending s' k')"
proof -
  note inv = sending_invD [OF assms(2)]
  have k: "kind_ok R k" using assms(3) by (simp add: consistent_def keyed_def)
  have idle: "held (servercurrentevent_data s) k = {}" and fut: "k \<notin> fst ` set (sending_futures s)"
    using inv(5) k assms(4) by (auto simp: slot_ok_def busy_def map_of_eq_None_iff [symmetric])
  let ?t = "current_transaction_status_update (\<lambda>m. m(k \<mapsto> Running)) s"
  have "\<exists>w a. mark_as_active [(e, key)] ?t = (Inr (), ?t\<lparr>servernameevent_data := w, servercurrentevent_data := a\<rparr>) \<and>
      activated R k [(e, key)] ?t w a"
    by (rule activate [OF assms(1) _ k]) (use inv(1) idle assms(3) in \<open>simp_all add: queues_typed_def\<close>)
  then obtain w a where mark: "mark_as_active [(e, key)] ?t = (Inr (), ?t\<lparr>servernameevent_data := w, servercurrentevent_data := a\<rparr>)"
    and act: "activated R k [(e, key)] ?t w a" by (elim exE conjE)
  let ?u = "?t\<lparr>servernameevent_data := w, servercurrentevent_data := a\<rparr>"
  have "\<exists>evs x. s' = (sending_futures_update (\<lambda>fs. fs @ [(k, e # evs)]) ?u)\<lparr>servername_educount := x\<rparr>"
  proof (rule select_events_idle [OF assms(4) mark, of J E R iter now])
    fix evs x assume "select_events J E R iter now k [(e, key)] s = (Inr (Some (e # evs)), ?u\<lparr>servername_educount := x\<rparr>)"
    then have "handler_recv J E R iter now (k, e, key) s =
        (Inr (), (sending_futures_update (\<lambda>fs. fs @ [(k, e # evs)]) ?u)\<lparr>servername_educount := x\<rparr>)"
      by (simp add: handler_recv_def catching_def attempt_apply bind_apply start_transaction_def)
    with assms(5) show ?thesis by auto
  next
    fix err t assume "select_events J E R iter now k [(e, key)] s = (Inl err, t)" "is_panic err"
    then show ?thesis using assms(5) by (simp add: handler_recv_def catching_def attempt_apply bind_apply)
  qed
  then obtain evs x where s': "s' = (sending_futures_update (\<lambda>fs. fs @ [(k, e # evs)]) ?u)\<lparr>servername_educount := x\<rparr>"
    by (elim exE)
  have "sending_inv R (sending_futures_update (\<lambda>fs. fs @ [(k, e # evs)]) ?u)"
  proof (rule started_inv [OF assms(2) k fut inv(3)])
    show "\<forall>m \<in> set (sending_channel (sending_futures_update (\<lambda>fs. fs @ [(k, e # evs)]) ?u)).
        consistent R (count (sending_futures_update (\<lambda>fs. fs @ [(k, e # evs)]) ?u)) (servernameevent_data (sending_futures_update (\<lambda>fs. fs @ [(k, e # evs)]) ?u)) m"
      using activated_consistent [OF act] inv(2) by simp
  qed (use act in \<open>auto simp: queues_typed_def activated_def busy_def\<close>)
  moreover have "pending s k' \<subseteq> pending ?u k'" if "kind_ok R k'" for k'
    using act idle that by (cases "k' = k") (auto simp: pending_def activated_def)
  ultimately show ?thesis unfolding s' educount_inv educount_pending by (simp add: pending_def)
qed

lemma handler_recv_other:
  assumes "server_names_ok R" and "sending_inv R s" and "kind_ok R k" and "current_transaction_status s k = Some st"
    and "handler_recv J E R iter now (k, e, key) s = (Inr (), s')"
  shows "sending_inv R s' \<and> (\<forall>k'. pending s' k' = pending s k')"
proof -
  note inv = sending_invD [OF assms(2)]
  let ?sel = "select_events J E R iter now k [(e, key)] s"
  have keep: "current_transaction_status_update (\<lambda>m. m(k \<mapsto> st)) s = s"
    using assms(4) by (simp add: fun_upd_idem)
  consider "?sel = (Inr None, s)"
    | (retry) n time where "st = Failed n time" "?sel = (Inr (Some (map fst (scanned k (servercurrentevent_data s)))),
        current_transaction_status_update (\<lambda>m. m(k \<mapsto> Retrying n)) s)"
    | err where "?sel = (Inl err, s)" "is_panic err"
  proof (cases "admit now (Some st)")
    case (Inl err)
    then have "is_panic err"
      by (auto simp: admit_def min_elapsed_def Let_def map_res_def split: TransactionStatus.splits sum.splits if_splits)
    moreover have "?sel = (Inl err, s)" using Inl assms(4) by (simp add: select_events_def)
    ultimately show thesis by (intro that(3))
  next
    case (Inr r)
    then consider "r = (False, False, st)" | (retry) n time where "st = Failed n time" "r = (True, True, Retrying n)"
      by (auto simp: admit_def map_res_def split: TransactionStatus.splits sum.splits if_splits)
    then show thesis
    proof cases
      case 1
      with Inr assms(4) keep have "?sel = (Inr None, s)" by (simp add: select_events_def)
      then show thesis by (rule that(1))
    next
      case retry
      let ?r = "current_transaction_status_update (\<lambda>m. m(k \<mapsto> Retrying n)) s"
      have "queues_typed R ?r" using inv(1) by (simp add: queues_typed_def)
      from queued_requests_scanned(2) [OF assms(1) this assms(3)]
      have "map snd (List.map_filter res_ok (active_requests_for R k ?r)) = map fst (scanned k (servercurrentevent_data s))"
        by (simp add: List.map_filter_def comp_def case_prod_beta)
      with Inr assms(4) retry(2) have "?sel = (Inr (Some (map fst (scanned k (servercurrentevent_data s)))), ?r)"
        by (simp add: select_events_def)
      with retry(1) show thesis by (rule that(2))
    qed
  qed
  then show ?thesis
  proof cases
    case 1
    with assms(5) have "s' = s" by (simp add: handler_recv_def catching_def attempt_apply bind_apply)
    with assms(2) show ?thesis by simp
  next
    case retry
    let ?u = "sending_futures_update (\<lambda>fs. fs @ [(k, map fst (scanned k (servercurrentevent_data s)))])
        (current_transaction_status_update (\<lambda>m. m(k \<mapsto> Retrying n)) s)"
    from retry(2) assms(5) have s': "s' = ?u"
      by (simp add: handler_recv_def catching_def attempt_apply bind_apply start_transaction_def)
    have fut: "k \<notin> fst ` set (sending_futures s)"
      using inv(5) assms(3,4) retry(1) by (auto simp: slot_ok_def busy_def map_of_eq_None_iff [symmetric])
    have "sending_inv R ?u"
    proof (rule started_inv [OF assms(2,3) fut inv(3)])
      show "held (servercurrentevent_data ?u) k \<subseteq> set (map fst (scanned k (servercurrentevent_data s)))"
        unfolding set_map fst_scanned [OF inv(7) assms(1,3)] by simp
    qed (use inv(1,2) in \<open>simp_all add: queues_typed_def busy_def\<close>)
    then show ?thesis unfolding s' by (simp add: pending_def)
  next
    case (3 err)
    with assms(5) show ?thesis by (simp add: handler_recv_def catching_def attempt_apply bind_apply)
  qed
qed

section \<open>Runs of the service\<close>

lemma consistent_mono: "consistent R n t m \<Longrightarrow> n \<le> n' \<Longrightarrow> consistent R n' t m"
  by (cases m) (auto simp: consistent_def intro: keyed_mono)

lemma announce_all:
  "for_each (zip rs keys) (\<lambda>((k, e), key). send_message (k, e, key)) s =
     (Inr (), sending_channel_update (\<lambda>c. c @ messages_of rs keys) s)"
proof (induction "zip rs keys" arbitrary: rs keys s)
  case Nil
  from Nil [symmetric] show ?case by (simp only: messages_of_def) simp
next
  case (Cons p ps)
  then obtain k e rs' key keys' where rs: "rs = (k, e) # rs'" and keys: "keys = key # keys'" and ps: "ps = zip rs' keys'"
    by (cases rs; cases keys) auto
  have "for_each (zip rs keys) (\<lambda>((k, e), key). send_message (k, e, key)) s =
      for_each (zip rs' keys') (\<lambda>((k, e), key). send_message (k, e, key)) (sending_channel_update (\<lambda>c. c @ [(k, e, key)]) s)"
    by (simp add: rs keys send_message_def)
  also have "\<dots> = (Inr (), sending_channel_update (\<lambda>c. c @ messages_of rs' keys') (sending_channel_update (\<lambda>c. c @ [(k, e, key)]) s))"
    by (rule Cons(1) [OF ps])
  finally show ?case by (simp add: rs keys messages_of_def comp_def)
qed

lemma queue_all_run:
  assumes "server_names_ok R" and "sending_inv R s" and "\<forall>r \<in> set rs. request_ok R r" and "counts_left (length rs) s"
    and "bind (queue_requests rs) (\<lambda>keys. for_each (zip rs keys) (\<lambda>((k, e), key). send_message (k, e, key))) s = (Inr (), s')"
  shows "sending_inv R s' \<and> (\<forall>k. kind_ok R k \<longrightarrow> pending s' k = pending s k \<union> {e. (k, e) \<in> set rs})"
proof -
  obtain keys s1 where run: "queue_requests rs s = (Inr keys, s1)" "length keys = length rs"
      and inv: "sending_inv R (sending_channel_update (\<lambda>c. c @ messages_of rs keys) s1)"
      and pend: "\<forall>k. kind_ok R k \<longrightarrow> pending s1 k = pending s k \<union> {e. (k, e) \<in> set rs}"
    using queue_and_announce [OF assms(1-4)] by blast
  have "s' = sending_channel_update (\<lambda>c. c @ messages_of rs keys) s1"
    using assms(5) run(1) by (simp add: announce_all)
  with inv pend show ?thesis by (simp add: pending_def)
qed

lemma queue_one_run:
  assumes "server_names_ok R" and "sending_inv R s" and "request_ok R (k, e)" and "counts_left 1 s"
    and "bind (queue_requests [(k, e)]) (\<lambda>keys. bind (of_res (first_key keys)) (\<lambda>key. send_message (k, e, key))) s = (Inr (), s')"
  shows "sending_inv R s' \<and> (\<forall>k'. kind_ok R k' \<longrightarrow> pending s' k' = pending s k' \<union> (if k' = k then {e} else {}))"
proof -
  obtain keys s1 where run: "queue_requests [(k, e)] s = (Inr keys, s1)" "length keys = 1"
    using queue_and_announce [OF assms(1,2), of "[(k, e)]"] assms(3,4) by auto
  then obtain key where keys: "keys = [key]" by (auto simp: length_Suc_conv)
  have "bind (queue_requests [(k, e)]) (\<lambda>keys. for_each (zip [(k, e)] keys) (\<lambda>((k, e), key). send_message (k, e, key))) s = (Inr (), s')"
    using assms(5) run(1) keys by (simp add: first_key_def send_message_def)
  from queue_all_run [OF assms(1,2) _ _ this] assms(3,4) show ?thesis by auto
qed

text \<open>
  The steps of the service, with the set of events that transactions accepted by their destination
  carried. Requests may be queued at any time, a transaction under way may be accepted or fail, the handler takes
  messages from the channel, and the rest of the server may change everything else.
\<close>

definition sending_part where
  "sending_part s = (servernameevent_data s, servercurrentevent_data s, sending_channel s, current_transaction_status s, sending_futures s)"

inductive sending_step ::
    "serde \<Rightarrow> edu_lib \<Rightarrow> ruma \<Rightarrow> (bytes set \<Rightarrow> bytes list) \<Rightarrow>
      'a sending_db_scheme \<times> (OutgoingKind \<times> SendingEventType) set \<Rightarrow>
      'a sending_db_scheme \<times> (OutgoingKind \<times> SendingEventType) set \<Rightarrow> bool"
  for J E R iter where
  push: "send_push_pdu i user key s = (Inr (), s') \<Longrightarrow> request_ok R (Push user key, SendPdu i) \<Longrightarrow> counts_left 1 s \<Longrightarrow>
    sending_step J E R iter (s, D) (s', D)"
| federate: "send_pdu servers i s = (Inr (), s') \<Longrightarrow> \<forall>server \<in> set servers. request_ok R (Normal server, SendPdu i) \<Longrightarrow>
    counts_left (length servers) s \<Longrightarrow> sending_step J E R iter (s, D) (s', D)"
| edu: "send_reliable_edu server b s = (Inr (), s') \<Longrightarrow> request_ok R (Normal server, SendEdu b) \<Longrightarrow> counts_left 1 s \<Longrightarrow>
    sending_step J E R iter (s, D) (s', D)"
| appservice: "send_pdu_appservice a i s = (Inr (), s') \<Longrightarrow> request_ok R (Appservice a, SendPdu i) \<Longrightarrow> counts_left 1 s \<Longrightarrow>
    sending_step J E R iter (s, D) (s', D)"
| accepted: "sending_futures s = fs1 @ (k, evs) # fs2 \<Longrightarrow> handler_ok R k (s\<lparr>sending_futures := fs1 @ fs2\<rparr>) = (Inr (), s') \<Longrightarrow>
    sending_step J E R iter (s, D) (s', D \<union> Pair k ` set evs)"
| rejected: "sending_futures s = fs1 @ (k, evs) # fs2 \<Longrightarrow> handler_err now k (s\<lparr>sending_futures := fs1 @ fs2\<rparr>) = (Inr (), s') \<Longrightarrow>
    sending_step J E R iter (s, D) (s', D)"
| received: "sending_channel s = m # ms \<Longrightarrow> handler_recv J E R iter now m (s\<lparr>sending_channel := ms\<rparr>) = (Inr (), s') \<Longrightarrow>
    sending_step J E R iter (s, D) (s', D)"
| other: "sending_part s' = sending_part s \<Longrightarrow> count s \<le> count s' \<Longrightarrow> sending_step J E R iter (s, D) (s', D)"

definition accounted :: "'a sending_db_scheme \<times> (OutgoingKind \<times> SendingEventType) set \<Rightarrow> OutgoingKind \<Rightarrow> SendingEventType set" where
  "accounted x k = pending (fst x) k \<union> {e. (k, e) \<in> snd x}"

lemma sending_step_keeps:
  assumes "sending_step J E R iter x y" and "server_names_ok R" and "sending_inv R (fst x)"
  shows "sending_inv R (fst y) \<and> (\<forall>k. kind_ok R k \<longrightarrow> accounted x k \<subseteq> accounted y k)"
  using assms
proof (induction rule: sending_step.induct)
  case (push i user key s s' D)
  then show ?case using queue_one_run [of R s "Push user key" "SendPdu i" s'] by (auto simp: send_push_pdu_def Let_def accounted_def)
next
  case (federate servers i s s' D)
  then show ?case
    using queue_all_run [of R s "map (\<lambda>server. (Normal server, SendPdu i)) servers" s']
    by (auto simp: send_pdu_def Let_def accounted_def)
next
  case (edu server b s s' D)
  then show ?case using queue_one_run [of R s "Normal server" "SendEdu b" s'] by (auto simp: send_reliable_edu_def Let_def accounted_def)
next
  case (appservice a i s s' D)
  then show ?case using queue_one_run [of R s "Appservice a" "SendPdu i" s'] by (auto simp: send_pdu_appservice_def Let_def accounted_def)
next
  case (accepted s fs1 k evs fs2 s' D)
  then have inv: "sending_inv R s" by simp
  obtain t where "handler_ok R k (s\<lparr>sending_futures := fs1 @ fs2\<rparr>) = (Inr (), t)" and t: "sending_inv R t"
      "\<forall>k'. kind_ok R k' \<longrightarrow> k' \<noteq> k \<longrightarrow> pending t k' = pending s k'" "pending s k \<subseteq> pending t k \<union> set evs"
    using handler_ok_run [OF accepted.prems(1) inv accepted.hyps(1)] by blast
  with accepted.hyps(2) have "s' = t" by simp
  with t show ?case by (auto simp: accounted_def)
next
  case (rejected s fs1 k evs fs2 now s' D)
  then have inv: "sending_inv R s" by simp
  obtain t where "handler_err now k (s\<lparr>sending_futures := fs1 @ fs2\<rparr>) = (Inr (), t)" and t: "sending_inv R t"
      "\<forall>k'. pending t k' = pending s k'"
    using handler_err_run [OF inv rejected.hyps(1), of now] by blast
  with rejected.hyps(2) have "s' = t" by simp
  with t show ?case by (simp add: accounted_def)
next
  case (received s m ms now s' D)
  obtain k e key where m: "m = (k, e, key)" by (cases m) auto
  let ?t = "s\<lparr>sending_channel := ms\<rparr>"
  have inv: "sending_inv R ?t" and con: "consistent R (count ?t) (servernameevent_data ?t) (k, e, key)"
    using received.prems(2) received.hyps(1) m by (auto simp: sending_inv_def queues_typed_def)
  then have k: "kind_ok R k" by (simp add: consistent_def keyed_def)
  have same: "pending ?t k' = pending s k'" for k' by (simp add: pending_def)
  note run = received.hyps(2) [unfolded m]
  show ?case
  proof (cases "current_transaction_status ?t k")
    case None
    from handler_recv_idle [OF received.prems(1) inv con None run] show ?thesis by (auto simp: accounted_def same)
  next
    case (Some st)
    from handler_recv_other [OF received.prems(1) inv k Some run] show ?thesis by (auto simp: accounted_def same)
  qed
next
  case (other s' s D)
  then have "sending_inv R s'"
    using keys_typed_mono consistent_mono by (auto simp: sending_inv_def queues_typed_def sending_part_def)
  with other show ?case by (simp add: accounted_def pending_def sending_part_def)
qed

lemma distinct_kv_scan: "distinct (kv_scan_prefix p t)"
  using sorted_kv_scan_prefix [of p t] by (simp add: strict_sorted_iff distinct_map)

lemma batch_shrinks:
  assumes "\<forall>key v. kv_get w' key = Some v \<longleftrightarrow> kv_get w key = Some v \<and> key \<notin> snd ` set (take n (scanned k w))"
  shows "length (scanned k w') = length (scanned k w) - n"
proof -
  let ?p = "get_prefix k"
  have keys: "snd ` set (take n (scanned k w)) = fst ` set (take n (kv_scan_prefix ?p w))"
    by (simp add: scanned_def take_map image_image case_prod_beta)
  have "set (kv_scan_prefix ?p w') = set (kv_scan_prefix ?p w) - set (take n (kv_scan_prefix ?p w))"
  proof (intro set_eqI iffI)
    fix e assume e: "e \<in> set (kv_scan_prefix ?p w')"
    obtain key v where kv: "e = (key, v)" by (cases e)
    with e have "kv_get w' key = Some v" "prefix ?p key" by (simp_all add: set_kv_scan_prefix)
    with assms have "kv_get w key = Some v" "key \<notin> fst ` set (take n (kv_scan_prefix ?p w))" unfolding keys by blast+
    then have "e \<notin> set (take n (kv_scan_prefix ?p w))" using imageI [of e _ fst] kv by auto
    with kv \<open>kv_get w key = Some v\<close> \<open>prefix ?p key\<close>
    show "e \<in> set (kv_scan_prefix ?p w) - set (take n (kv_scan_prefix ?p w))" by (simp add: set_kv_scan_prefix)
  next
    fix e assume e: "e \<in> set (kv_scan_prefix ?p w) - set (take n (kv_scan_prefix ?p w))"
    have "fst e \<notin> fst ` set (take n (kv_scan_prefix ?p w))"
    proof
      assume "fst e \<in> fst ` set (take n (kv_scan_prefix ?p w))"
      then obtain e' where e': "e' \<in> set (take n (kv_scan_prefix ?p w))" "fst e' = fst e" by auto
      then have "e' \<in> set (kv_scan_prefix ?p w)" using in_set_takeD by fast
      with e e'(2) have "e' = e" by (cases e; cases e') (simp add: set_kv_scan_prefix)
      with e e'(1) show False by blast
    qed
    moreover have "kv_get w (fst e) = Some (snd e)" "prefix ?p (fst e)"
      using e set_kv_scan_prefix [of "fst e" "snd e" ?p w] by simp_all
    ultimately have "kv_get w' (fst e) = Some (snd e)" using assms unfolding keys by blast
    with \<open>prefix ?p (fst e)\<close> show "e \<in> set (kv_scan_prefix ?p w')"
      using set_kv_scan_prefix [of "fst e" "snd e" ?p w'] by simp
  qed
  then have "card (set (kv_scan_prefix ?p w')) = card (set (kv_scan_prefix ?p w)) - card (set (take n (kv_scan_prefix ?p w)))"
    by (simp add: card_Diff_subset set_take_subset)
  then show ?thesis
    by (simp add: distinct_card distinct_kv_scan distinct_take scanned_def)
qed

text \<open>The destination accepts the transaction under way.\<close>

definition accept_step ::
    "ruma \<Rightarrow> OutgoingKind \<Rightarrow> 'a sending_db_scheme \<times> (OutgoingKind \<times> SendingEventType) set \<Rightarrow>
      'a sending_db_scheme \<times> (OutgoingKind \<times> SendingEventType) set \<Rightarrow> bool" where
  "accept_step R k x y \<longleftrightarrow>
     (\<exists>fs1 evs fs2. sending_futures (fst x) = fs1 @ (k, evs) # fs2 \<and>
        handler_ok R k ((fst x)\<lparr>sending_futures := fs1 @ fs2\<rparr>) = (Inr (), fst y) \<and> snd y = snd x \<union> Pair k ` set evs)"

lemma accept_sending_step: "accept_step R k x y \<Longrightarrow> sending_step J E R iter x y"
  by (cases x; cases y) (auto simp: accept_step_def intro: sending_step.accepted)

lemma accepts_grow: "(accept_step R k ^^ n) x y \<Longrightarrow> snd x \<subseteq> snd y"
proof (induction n arbitrary: y)
  case 0
  then show ?case by simp
next
  case (Suc n)
  from Suc.prems obtain z where "(accept_step R k ^^ n) x z" "accept_step R k z y" by (rule relpowp_Suc_E)
  with Suc.IH show ?case unfolding accept_step_def by blast
qed

lemma batch_count:
  fixes m n :: nat
  assumes "0 < m" and "n \<le> (m - 30 + 29) div 30 + 1"
  shows "Suc n \<le> (m + 29) div 30 + 1"
proof (cases "m \<le> 30")
  case True
  with assms have "n \<le> 1" by simp
  moreover have "30 div 30 \<le> (m + 29) div 30" using assms(1) by (intro div_le_mono) simp
  ultimately show ?thesis by simp
next
  case False
  then have "m + 29 = (m - 30 + 29) + 30" by simp
  then have "(m + 29) div 30 = (m - 30 + 29) div 30 + 1" by (metis div_add_self2 zero_neq_numeral)
  with assms show ?thesis by simp
qed

lemma accept_until_idle:
  assumes "server_names_ok R" and "sending_inv R s" and "k \<in> fst ` set (sending_futures s)"
  shows "\<exists>n t D'. n \<le> (length (scanned k (servernameevent_data s)) + 29) div 30 + 1 \<and> (accept_step R k ^^ n) (s, D) (t, D') \<and>
    sending_inv R t \<and> current_transaction_status t k = None \<and> pending t k = {} \<and> Pair k ` pending s k \<subseteq> D'"
  using assms
proof (induction "length (scanned k (servernameevent_data s))" arbitrary: s D rule: less_induct)
  case less
  obtain evs where "(k, evs) \<in> set (sending_futures s)" using less.prems(3) by auto
  then obtain fs1 fs2 where fut: "sending_futures s = fs1 @ (k, evs) # fs2" by (meson split_list)
  have kind: "kind_ok R k" using future_removed(1) [OF less.prems(2) fut] .
  obtain t where run: "handler_ok R k (s\<lparr>sending_futures := fs1 @ fs2\<rparr>) = (Inr (), t)" and inv: "sending_inv R t"
    and pend: "pending t k = held (servernameevent_data s) k" "pending s k \<subseteq> pending t k \<union> set evs"
    and cont: "if next_batch k s = [] then current_transaction_status t k = None
     else sending_futures t = (fs1 @ fs2) @ [(k, map fst (next_batch k s))] \<and>
       (\<forall>key v. kv_get (servernameevent_data t) key = Some v \<longleftrightarrow>
         kv_get (servernameevent_data s) key = Some v \<and> key \<notin> snd ` set (next_batch k s))"
    using handler_ok_run [OF less.prems(1,2) fut] by blast
  have step: "accept_step R k (s, D) (t, D \<union> Pair k ` set evs)" using fut run by (auto simp: accept_step_def)
  have queued: "fst ` set (scanned k (servernameevent_data s)) = held (servernameevent_data s) k"
    by (rule fst_scanned [OF sending_invD(6) [OF less.prems(2)] less.prems(1) kind])
  show ?case
  proof (cases "next_batch k s = []")
    case True
    then have "pending t k = {}" using pend(1) queued by (simp add: next_batch_def)
    with True cont inv pend(2) step show ?thesis
      by (intro exI [of _ "1 :: nat"] exI [of _ t] exI [of _ "D \<union> Pair k ` set evs"]) auto
  next
    case False
    with cont have fut': "k \<in> fst ` set (sending_futures t)"
      and get: "\<forall>key v. kv_get (servernameevent_data t) key = Some v \<longleftrightarrow>
         kv_get (servernameevent_data s) key = Some v \<and> key \<notin> snd ` set (take 30 (scanned k (servernameevent_data s)))"
      by (simp_all add: next_batch_def)
    let ?m = "length (scanned k (servernameevent_data s))"
    have m: "length (scanned k (servernameevent_data t)) = ?m - 30" by (rule batch_shrinks [OF get])
    have "0 < ?m" using False by (auto simp: next_batch_def)
    then have "length (scanned k (servernameevent_data t)) < ?m" using m by simp
    from less.hyps [OF this less.prems(1) inv fut', of "D \<union> Pair k ` set evs"] obtain n u D' where
      n: "n \<le> (length (scanned k (servernameevent_data t)) + 29) div 30 + 1" and
      steps: "(accept_step R k ^^ n) (t, D \<union> Pair k ` set evs) (u, D')" and
      u: "sending_inv R u" "current_transaction_status u k = None" "pending u k = {}" "Pair k ` pending t k \<subseteq> D'"
      by (elim exE conjE)
    have "Suc n \<le> (?m + 29) div 30 + 1" using batch_count [OF \<open>0 < ?m\<close>] n m by simp
    moreover have "(accept_step R k ^^ Suc n) (s, D) (u, D')" using step steps by (rule relpowp_Suc_I2)
    moreover have "Pair k ` pending s k \<subseteq> D'"
    proof -
      from accepts_grow [OF steps] have "Pair k ` set evs \<subseteq> D'" by simp
      with u(4) pend(2) show ?thesis by blast
    qed
    ultimately show ?thesis using u by (intro exI [of _ "Suc n"] exI [of _ u] exI [of _ D']) blast
  qed
qed

section \<open>Properties\<close>

lemma pending_requests:
  assumes "server_names_ok R" and "sending_inv R s" and "kind_ok R k"
  shows "e \<in> pending s k \<longleftrightarrow>
    (\<exists>key. Inr (e, key) \<in> set (queued_requests R k s)) \<or> (\<exists>key. Inr (key, e) \<in> set (active_requests_for R k s))"
proof -
  note inv = sending_invD [OF assms(2)]
  have "held (servernameevent_data s) k = fst ` set (scanned k (servernameevent_data s))"
    "held (servercurrentevent_data s) k = fst ` set (scanned k (servercurrentevent_data s))"
    using fst_scanned [OF inv(6) assms(1,3)] fst_scanned [OF inv(7) assms(1,3)] by simp_all
  moreover have "e \<in> fst ` S \<longleftrightarrow> (\<exists>key. (e, key) \<in> S)" for S :: "(SendingEventType \<times> bytes) set"
    by (auto simp: image_iff Bex_def)
  ultimately show ?thesis
    unfolding pending_def queued_requests_scanned [OF assms(1) inv(1) assms(3)] by (auto simp del: in_set_conv_nth)
qed

lemma sending_steps_keep:
  assumes "(sending_step J E R iter)\<^sup>*\<^sup>* x y" and "server_names_ok R" and "sending_inv R (fst x)"
  shows "sending_inv R (fst y) \<and> (\<forall>k. kind_ok R k \<longrightarrow> accounted x k \<subseteq> accounted y k)"
  using assms
proof (induction rule: rtranclp_induct)
  case (step y z)
  then show ?case using sending_step_keeps [OF step.hyps(2) step.prems(1)] by blast
qed simp

text \<open>C6: No event is lost: once an event has been sent to a list of servers, at every later moment, whatever
  transactions fail or succeed and however the messages interleave, each of these servers has
  accepted it in a transaction or it is still queued or active for that server.\<close>
theorem sending_no_loss:
  assumes "server_names_ok R" and "sending_inv R s" and "send_pdu servers i s = (Inr (), s1)"
    and "\<forall>server \<in> set servers. request_ok R (Normal server, SendPdu i)" and "counts_left (length servers) s"
    and "(sending_step J E R iter)\<^sup>*\<^sup>* (s1, D) (s2, D2)" and "server \<in> set servers"
  shows "(Normal server, SendPdu i) \<in> D2 \<or>
    (\<exists>key. Inr (SendPdu i, key) \<in> set (queued_requests R (Normal server) s2)) \<or>
    (\<exists>key. Inr (key, SendPdu i) \<in> set (active_requests_for R (Normal server) s2))"
proof -
  have k: "kind_ok R (Normal server)" using assms(4,7) by simp
  have sent: "sending_inv R s1 \<and> (\<forall>k. kind_ok R k \<longrightarrow>
      pending s1 k = pending s k \<union> {e. (k, e) \<in> set (map (\<lambda>server. (Normal server, SendPdu i)) servers)})"
    by (rule queue_all_run [OF assms(1,2)]) (use assms(3-5) in \<open>auto simp: send_pdu_def Let_def\<close>)
  then have "SendPdu i \<in> accounted (s1, D) (Normal server)" using assms(7) k by (auto simp: accounted_def)
  moreover from sending_steps_keep [OF assms(6,1)] sent
  have "sending_inv R s2" "accounted (s1, D) (Normal server) \<subseteq> accounted (s2, D2) (Normal server)" using k by auto
  ultimately show ?thesis
    using pending_requests [OF assms(1) _ k, of s2 "SendPdu i"] by (auto simp: accounted_def)
qed

text \<open>C13: A destination that keeps accepting gets everything: with a transaction under way, after at most one
  transaction more than the queue has batches of thirty, every event that was queued or active has
  been accepted, the queues of the destination are empty and it is idle.\<close>
theorem sending_liveness:
  assumes "server_names_ok R" and "sending_inv R s" and "k \<in> fst ` set (sending_futures s)"
  shows "\<exists>n t D'. n \<le> (length (queued_requests R k s) + 29) div 30 + 1 \<and> (accept_step R k ^^ n) (s, D) (t, D') \<and>
    current_transaction_status t k = None \<and> queued_requests R k t = [] \<and> active_requests_for R k t = [] \<and>
    (\<forall>e key. Inr (e, key) \<in> set (queued_requests R k s) \<or> Inr (key, e) \<in> set (active_requests_for R k s) \<longrightarrow> (k, e) \<in> D')"
proof -
  have k: "kind_ok R k" using sending_invD(4) [OF assms(2)] assms(3) by blast
  obtain n t D' where n: "n \<le> (length (scanned k (servernameevent_data s)) + 29) div 30 + 1"
    and steps: "(accept_step R k ^^ n) (s, D) (t, D')"
    and t: "sending_inv R t" "current_transaction_status t k = None" "pending t k = {}" "Pair k ` pending s k \<subseteq> D'"
    using accept_until_idle [OF assms] by blast
  have "length (queued_requests R k s) = length (scanned k (servernameevent_data s))"
    using queued_requests_scanned(1) [OF assms(1) sending_invD(1) [OF assms(2)] k] by simp
  moreover have "queued_requests R k t = []" "active_requests_for R k t = []"
    using fst_scanned [OF sending_invD(6) [OF t(1)] assms(1) k] fst_scanned [OF sending_invD(7) [OF t(1)] assms(1) k] t(3)
    unfolding queued_requests_scanned [OF assms(1) sending_invD(1) [OF t(1)] k] by (auto simp: pending_def)
  moreover have "(k, e) \<in> D'"
    if "Inr (e, key) \<in> set (queued_requests R k s) \<or> Inr (key, e) \<in> set (active_requests_for R k s)" for e key
    using pending_requests [OF assms(1,2) k, of e] that t(4) by blast
  ultimately show ?thesis using n steps t(2) by (intro exI [of _ n] exI [of _ t] exI [of _ D']) simp
qed

lemma sending_inv_init: "sending_inv R (sending_init n)"
  by (simp add: sending_inv_def queues_typed_def keys_typed_def slot_ok_def busy_def held_def)

theorem sending_no_loss_witness:
  "\<exists>s1. send_pdu [ascii ''h''] [1, 1, 1, 1, 1, 1, 1, 1, 1, 1, 1, 1, 1, 1, 1, 1] (sending_init []) = (Inr (), s1) \<and>
    ((\<exists>key. Inr (SendPdu [1, 1, 1, 1, 1, 1, 1, 1, 1, 1, 1, 1, 1, 1, 1, 1], key) \<in> set (queued_requests example_sending_ruma (Normal (ascii ''h'')) s1)) \<or>
     (\<exists>key. Inr (key, SendPdu [1, 1, 1, 1, 1, 1, 1, 1, 1, 1, 1, 1, 1, 1, 1, 1]) \<in> set (active_requests_for example_sending_ruma (Normal (ascii ''h'')) s1)))"
proof -
  let ?R = example_sending_ruma and ?i = "[1, 1, 1, 1, 1, 1, 1, 1, 1, 1, 1, 1, 1, 1, 1, 1] :: bytes"
  let ?s = "sending_init []"
  have ok: "\<forall>server \<in> set [ascii ''h'']. request_ok ?R (Normal server, SendPdu ?i)"
    by (simp add: example_sending_ruma_def utf8_valid_ascii)
  have left: "counts_left (length [ascii ''h'']) ?s" by (simp add: counts_left_def)
  have "\<exists>s1. send_pdu [ascii ''h''] ?i ?s = (Inr (), s1)"
    by (simp add: send_pdu_def queue_requests_def request_key_def send_message_def)
  then obtain s1 where run: "send_pdu [ascii ''h''] ?i ?s = (Inr (), s1)" by (elim exE)
  have mem: "ascii ''h'' \<in> set [ascii ''h'']" by simp
  from sending_no_loss [OF example_sending_ruma_ok sending_inv_init run ok left rtranclp.rtrancl_refl [of _ "(s1, {})"] mem] run
  show ?thesis by (intro exI [of _ s1] conjI) (assumption, blast)
qed

theorem sending_liveness_witness:
  "\<exists>t D'. (accept_step example_sending_ruma (Normal (ascii ''h'')) ^^ 1)
      (sending_init []\<lparr>sending_futures := [(Normal (ascii ''h''), [])],
        current_transaction_status := (\<lambda>_. None)(Normal (ascii ''h'') \<mapsto> Running)\<rparr>, {}) (t, D') \<and>
    current_transaction_status t (Normal (ascii ''h'')) = None"
proof -
  let ?R = example_sending_ruma and ?k = "Normal (ascii ''h'')"
  let ?s = "sending_init []\<lparr>sending_futures := [(?k, [])], current_transaction_status := (\<lambda>_. None)(?k \<mapsto> Running)\<rparr>"
  have k: "kind_ok ?R ?k" by (simp add: example_sending_ruma_def utf8_valid_ascii)
  have inv: "sending_inv ?R ?s"
    using k by (simp add: sending_inv_def queues_typed_def keys_typed_def slot_ok_def busy_def held_def)
  have none: "queued_requests ?R ?k ?s = []" by (simp add: queued_requests_def)
  have mem: "?k \<in> fst ` set (sending_futures ?s)" by simp
  from sending_liveness [OF example_sending_ruma_ok inv mem, of "{}"] none obtain n t D' where
    n: "n \<le> 1" and steps: "(accept_step ?R ?k ^^ n) (?s, {}) (t, D')" and idle: "current_transaction_status t ?k = None"
    by auto
  have "n \<noteq> 0"
  proof
    assume "n = 0"
    with steps have "t = ?s" by simp
    with idle show False by simp
  qed
  with n have "n = 1" by simp
  with steps idle show ?thesis by (intro exI [of _ t] exI [of _ D']) simp
qed

end
