(* ===== verification/Config.thy ===== *)
theory Config
  imports Sending
begin

text \<open>
  The configuration (\<^verbatim>\<open>src/config/mod.rs\<close>, the fields the services read), the choice of a proxy for a request
  (\<^verbatim>\<open>src/config/proxy.rs\<close>) and the loading of the globals service with its room versions
  (\<^verbatim>\<open>src/service/globals/mod.rs\<close>). URLs and their domains, the HTTP clients, the resolver and key parsing are parameters.
\<close>

section \<open>Proxies\<close>

datatype WildCardedDomain = WildCard | WildCarded bytes | Exact bytes

definition wildcard_from_str :: "bytes \<Rightarrow> WildCardedDomain" where
  "wildcard_from_str s =
     (if prefix (ascii ''*.'') s then WildCarded (drop 1 s)
      else if s = ascii ''*'' then WildCarded []
      else Exact s)"

fun matches :: "WildCardedDomain \<Rightarrow> bytes \<Rightarrow> bool" where
  "matches WildCard domain = True"
| "matches (WildCarded d) domain = suffix d domain"
| "matches (Exact d) domain = (domain = d)"

fun more_specific_than :: "WildCardedDomain \<Rightarrow> WildCardedDomain \<Rightarrow> bool" where
  "more_specific_than WildCard WildCard = False"
| "more_specific_than _ WildCard = True"
| "more_specific_than (Exact a) (WildCarded b) = matches (WildCarded b) a"
| "more_specific_than (WildCarded a) (WildCarded b) = (a \<noteq> b \<and> suffix b a)"
| "more_specific_than _ _ = False"

text \<open>The type \<open>'u\<close> is a parsed URL; \<open>domain\<close> is \<^verbatim>\<open>Url::domain\<close>.\<close>

record 'u PartialProxyConfig =
  proxy_url :: 'u
  proxy_include :: "WildCardedDomain list"
  proxy_exclude :: "WildCardedDomain list"

text \<open>The loop that keeps the most specific matching rule seen so far.\<close>

fun most_specific :: "bytes \<Rightarrow> WildCardedDomain list \<Rightarrow> WildCardedDomain option \<Rightarrow> WildCardedDomain option" where
  "most_specific domain [] because = because"
| "most_specific domain (wc_domain # rest) because =
     most_specific domain rest
       (if matches wc_domain domain then
          (case because of
             Some prev \<Rightarrow> if \<not> more_specific_than wc_domain prev then because else Some wc_domain
           | None \<Rightarrow> Some wc_domain)
        else because)"

definition for_url :: "('u \<Rightarrow> bytes option) \<Rightarrow> 'u PartialProxyConfig \<Rightarrow> 'u \<Rightarrow> 'u option" where
  "for_url domain_of p url =
     Option.bind (domain_of url) (\<lambda>domain.
     let included_because = most_specific domain (proxy_include p) (if proxy_include p = [] then Some WildCard else None);
         excluded_because = most_specific domain (proxy_exclude p) None in
     case (included_because, excluded_because) of
       (Some a, Some b) \<Rightarrow> if more_specific_than a b then Some (proxy_url p) else None
     | (Some _, None) \<Rightarrow> Some (proxy_url p)
     | _ \<Rightarrow> None)"

datatype 'u ProxyConfig = NoProxy | Global 'u | ByDomain "'u PartialProxyConfig list"

fun find_map :: "('a \<Rightarrow> 'b option) \<Rightarrow> 'a list \<Rightarrow> 'b option" where
  "find_map f [] = None"
| "find_map f (x # xs) = (case f x of Some y \<Rightarrow> Some y | None \<Rightarrow> find_map f xs)"

text \<open>A proxy decides for each URL which proxy URL is used; \<open>proxy_all\<close> is \<^verbatim>\<open>Proxy::all\<close>.\<close>

definition to_proxy ::
    "('u \<Rightarrow> bytes option) \<Rightarrow> ('u \<Rightarrow> ('u \<Rightarrow> 'u option) res) \<Rightarrow> 'u ProxyConfig \<Rightarrow> ('u \<Rightarrow> 'u option) option res" where
  "to_proxy domain_of proxy_all c =
     (case c of
        NoProxy \<Rightarrow> Inr None
      | Global url \<Rightarrow> map_res Some (proxy_all url)
      | ByDomain proxies \<Rightarrow> Inr (Some (\<lambda>url. find_map (\<lambda>proxy. for_url domain_of proxy url) proxies)))"

section \<open>Configuration\<close>

datatype RoomVersionId = V1 | V2 | V3 | V4 | V5 | V6 | V7 | V8 | V9 | V10 | CustomVersion bytes

record config =
  max_request_size :: u32
  max_fetch_prev_events :: "16 word"
  allow_registration :: bool
  allow_encryption :: bool
  allow_federation :: bool
  allow_room_creation :: bool
  allow_unstable_room_versions :: bool
  default_room_version :: RoomVersionId
  enable_lightning_bolt :: bool
  proxy :: "bytes ProxyConfig"
  jwt_secret :: "bytes option"
  trusted_servers :: "servername list"
  turn_username :: bytes
  turn_password :: bytes
  turn_uris :: "bytes list"
  turn_secret :: bytes
  turn_ttl :: u64
  emergency_password :: "bytes option"

definition default_default_room_version :: RoomVersionId where
  "default_default_room_version = V9"

text \<open>What serde fills in for the fields that have a default; the two options are absent.\<close>

definition default_config :: config where
  "default_config =
     \<lparr>max_request_size = 20 * 1024 * 1024, max_fetch_prev_events = 100, allow_registration = False,
      allow_encryption = True, allow_federation = False, allow_room_creation = True,
      allow_unstable_room_versions = True, default_room_version = default_default_room_version,
      enable_lightning_bolt = True, proxy = NoProxy, jwt_secret = None, trusted_servers = [],
      turn_username = [], turn_password = [], turn_uris = [], turn_secret = [],
      turn_ttl = 60 * 60 * 24, emergency_password = None\<rparr>"

section \<open>The globals service\<close>

definition stable_room_versions :: "RoomVersionId list" where
  "stable_room_versions = [V6, V7, V8, V9, V10]"

definition unstable_room_versions :: "RoomVersionId list" where
  "unstable_room_versions = [V3, V4, V5]"

definition supported_room_versions :: "config \<Rightarrow> RoomVersionId list" where
  "supported_room_versions c =
     stable_room_versions @ (if allow_unstable_room_versions c then unstable_room_versions else [])"

text \<open>
  The state of the running services: the database, the configuration and the channel of the
  admin service.
\<close>

record services_db = sending_db +
  config :: config
  admin_channel :: "bytes list"

text \<open>
  \<^verbatim>\<open>Service::load\<close>. The outcomes of the HTTP client builders and of the resolver set-up are
  given as \<open>clients\<close> and \<open>resolver\<close>.
\<close>

definition load_globals ::
    "bytes \<Rightarrow> (bytes \<Rightarrow> bytes \<Rightarrow> 'k option) \<Rightarrow> (config \<Rightarrow> unit res) \<Rightarrow> bool \<Rightarrow> config \<Rightarrow>
     ('a services_db_scheme, 'k) dop" where
  "load_globals fresh from_der clients resolver cfg =
     bind (catching (load_keypair fresh from_der)) (\<lambda>loaded.
     case loaded of
       Inl e \<Rightarrow> andthen remove_keypair (fail e)
     | Inr keypair \<Rightarrow>
         andthen (of_res (clients cfg))
         (andthen (if resolver then ret ()
                   else fail (BadConfig ''Failed to set up trust dns resolver with system config.''))
         (andthen (modify (config_update (\<lambda>_.
             if default_room_version cfg \<in> set (supported_room_versions cfg) then cfg
             else cfg\<lparr>default_room_version := default_default_room_version\<rparr>)))
         (ret keypair))))"

section \<open>Lemmas\<close>

text \<open>The specificity of a rule: how much of a domain it fixes.\<close>

definition specificity :: "WildCardedDomain \<Rightarrow> nat" where
  "specificity r = (case r of WildCard \<Rightarrow> 0 | WildCarded d \<Rightarrow> Suc (2 * length d) | Exact d \<Rightarrow> 2 * length d + 2)"

lemma more_specific_iff:
  assumes "matches a domain" and "matches b domain"
  shows "more_specific_than a b \<longleftrightarrow> specificity b < specificity a"
proof (cases "\<exists>x y. a = WildCarded x \<and> b = WildCarded y")
  case True
  then obtain x y where ab: "a = WildCarded x" "b = WildCarded y" by auto
  with assms have suf: "suffix x domain" "suffix y domain" by simp_all
  have "suffix y x" if "length y < length x"
    using suffix_length_suffix [OF suf(2) suf(1)] that by simp
  moreover have "length y < length x" if "suffix y x" "x \<noteq> y"
    using that by (metis suffix_length_less strict_suffix_def)
  ultimately show ?thesis
    using ab by (auto simp: specificity_def)
next
  case False
  with assms show ?thesis
    by (cases a; cases b) (auto simp: specificity_def dest: suffix_length_le)
qed

lemma most_specific_spec:
  assumes "pred_option (\<lambda>r. matches r domain) because"
  shows "case most_specific domain rules because of
      None \<Rightarrow> because = None \<and> (\<forall>r \<in> set rules. \<not> matches r domain)
    | Some a \<Rightarrow> (a \<in> set rules \<or> because = Some a) \<and> matches a domain \<and>
        (\<forall>r \<in> set rules. matches r domain \<longrightarrow> specificity r \<le> specificity a) \<and>
        (\<forall>r. because = Some r \<longrightarrow> specificity r \<le> specificity a)"
  using assms
proof (induction rules arbitrary: because)
  case Nil
  then show ?case by (cases because) simp_all
next
  case (Cons w rest)
  define next_because where "next_because =
    (if matches w domain then
       (case because of
          Some prev \<Rightarrow> if \<not> more_specific_than w prev then because else Some w
        | None \<Rightarrow> Some w)
     else because)"
  have step: "most_specific domain (w # rest) because = most_specific domain rest next_because"
    by (simp add: next_because_def)
  have "pred_option (\<lambda>r. matches r domain) next_because"
    using Cons.prems by (cases because) (simp_all add: next_because_def)
  note IH = Cons.IH [OF this]
  show ?case
  proof (cases "matches w domain")
    case False
    then show ?thesis using IH unfolding step by (simp add: next_because_def split: option.splits)
  next
    case True
    show ?thesis
    proof (cases because)
      case None
      then show ?thesis using IH True unfolding step by (auto simp: next_because_def split: option.splits)
    next
      case (Some prev)
      then have "more_specific_than w prev \<longleftrightarrow> specificity prev < specificity w"
        using Cons.prems True by (intro more_specific_iff [of _ domain]) simp_all
      then show ?thesis using IH True Some unfolding step
        by (cases "more_specific_than w prev") (simp add: next_because_def split: option.splits; force)+
    qed
  qed
qed

text \<open>The rules a list stands for: an empty include list is the rule that takes everything.\<close>

definition included_rules :: "'u PartialProxyConfig \<Rightarrow> WildCardedDomain set" where
  "included_rules p = (if proxy_include p = [] then {WildCard} else set (proxy_include p))"

text \<open>A request goes through a proxy exactly if its URL has a domain and one of the including rules that match the
  domain is more specific than every excluding rule that matches it, whatever the order of the rules.\<close>

theorem proxy_for_url_spec:
  "for_url domain_of p url =
     (case domain_of url of
        None \<Rightarrow> None
      | Some d \<Rightarrow>
          if \<exists>a \<in> included_rules p. matches a d \<and>
              (\<forall>b \<in> set (proxy_exclude p). matches b d \<longrightarrow> more_specific_than a b)
          then Some (proxy_url p) else None)"
proof (cases "domain_of url")
  case (Some d)
  let ?inc = "most_specific d (proxy_include p) (if proxy_include p = [] then Some WildCard else None)"
  let ?exc = "most_specific d (proxy_exclude p) None"
  note exc = most_specific_spec [of d None "proxy_exclude p", simplified]
  have inc: "case ?inc of None \<Rightarrow> \<forall>a \<in> included_rules p. \<not> matches a d
    | Some a \<Rightarrow> a \<in> included_rules p \<and> matches a d \<and>
        (\<forall>r \<in> included_rules p. matches r d \<longrightarrow> specificity r \<le> specificity a)"
    using most_specific_spec [of d "if proxy_include p = [] then Some WildCard else None" "proxy_include p"]
    by (cases "proxy_include p") (auto simp: included_rules_def specificity_def split: option.splits)
  show ?thesis
  proof (cases ?inc)
    case None
    with inc Some show ?thesis by (auto simp: for_url_def)
  next
    case (Some a)
    with inc have a: "a \<in> included_rules p" "matches a d"
      "\<And>r. r \<in> included_rules p \<Longrightarrow> matches r d \<Longrightarrow> specificity r \<le> specificity a" by auto
    show ?thesis
    proof (cases ?exc)
      case None
      with exc Some \<open>domain_of url = Some d\<close> a show ?thesis by (auto simp: for_url_def)
    next
      case (Some b)
      with exc have b: "b \<in> set (proxy_exclude p)" "matches b d"
        "\<And>r. r \<in> set (proxy_exclude p) \<Longrightarrow> matches r d \<Longrightarrow> specificity r \<le> specificity b" by auto
      have "(\<exists>x \<in> included_rules p. matches x d \<and>
          (\<forall>y \<in> set (proxy_exclude p). matches y d \<longrightarrow> more_specific_than x y)) \<longleftrightarrow> more_specific_than a b"
      proof
        assume "more_specific_than a b"
        then have "specificity b < specificity a" using more_specific_iff [OF a(2) b(2)] by simp
        then have "more_specific_than a y" if "y \<in> set (proxy_exclude p)" "matches y d" for y
          using more_specific_iff [OF a(2) that(2)] b(3) [OF that] by simp
        with a show "\<exists>x \<in> included_rules p. matches x d \<and>
          (\<forall>y \<in> set (proxy_exclude p). matches y d \<longrightarrow> more_specific_than x y)" by blast
      next
        assume "\<exists>x \<in> included_rules p. matches x d \<and>
          (\<forall>y \<in> set (proxy_exclude p). matches y d \<longrightarrow> more_specific_than x y)"
        then obtain x where x: "x \<in> included_rules p" "matches x d" "more_specific_than x b" using b by blast
        then show "more_specific_than a b"
          using more_specific_iff [OF x(2) b(2)] more_specific_iff [OF a(2) b(2)] a(3) [OF x(1,2)] by simp
      qed
      with Some \<open>domain_of url = Some d\<close> \<open>?inc = Some a\<close> show ?thesis by (simp add: for_url_def)
    qed
  qed
qed (simp add: for_url_def)

text \<open>The example of the documentation of \<^verbatim>\<open>ProxyConfig\<close>.\<close>

definition example_proxy :: "bytes PartialProxyConfig" where
  "example_proxy =
     \<lparr>proxy_url = ascii ''socks5h://localhost:9050'',
      proxy_include = map wildcard_from_str [ascii ''*.onion'', ascii ''matrix.myspecial.onion''],
      proxy_exclude = map wildcard_from_str [ascii ''*.myspecial.onion'']\<rparr>"

theorem proxy_for_url_spec_witness:
  "for_url Some example_proxy (ascii ''ordinary.onion'') = Some (proxy_url example_proxy) \<and>
   for_url Some example_proxy (ascii ''matrix.myspecial.onion'') = Some (proxy_url example_proxy) \<and>
   for_url Some example_proxy (ascii ''hello.myspecial.onion'') = None"
  unfolding proxy_for_url_spec
  by (simp add: included_rules_def example_proxy_def wildcard_from_str_def ascii_def suffix_def)

section \<open>Loading\<close>


lemma load_globals_version:
  assumes "load_globals fresh from_der clients resolver cfg s = (Inr k, s')"
  shows "default_room_version (config s') \<in> set (supported_room_versions (config s'))"
    and "config s' = cfg \<or> config s' = cfg\<lparr>default_room_version := default_default_room_version\<rparr>"
  using assms
  by (auto simp: load_globals_def bind_apply andthen_def supported_room_versions_def stable_room_versions_def
        default_default_room_version_def fail_def modify_def ret_def of_res_def split: prod.splits sum.splits if_splits)

lemma load_keypair_errors:
  assumes "load_keypair fresh from_der s = (Inl e, s')"
  shows "\<not> is_panic e"
  using assms
  by (auto simp: load_keypair_def bind_apply andthen_def Let_def of_res_def map_err_def ok_or_def ret_def gets_def modify_def
        split: prod.splits sum.splits option.splits if_splits)

text \<open>A key pair that cannot be read is deleted, so that the next start creates one.\<close>

lemma load_globals_recovers:
  assumes "load_keypair fresh from_der s = (Inl e, s')"
  shows "\<exists>s''. load_globals fresh from_der clients resolver cfg s = (Inl e, s'') \<and> kv_get (global s'') KEYPAIR = None"
  using assms load_keypair_errors [OF assms]
  by (simp add: load_globals_def catching_def bind_apply attempt_apply andthen_def remove_keypair_def)

end
