(* ===== verification/TimelineService.thy ===== *)
theory TimelineService
  imports Config
begin

text \<open>
  The timeline service (\<^verbatim>\<open>src/service/rooms/timeline/mod.rs\<close>): creating, hashing and signing an event,
  appending it to a room with everything that follows from it (notifications, memberships,
  redactions, the search index, admin commands, appservices), sending it to the other servers of the room, appending events
  of other servers, and redaction. Authorization, signatures and typed contents are parameters.
\<close>

section \<open>What comes from libraries\<close>

datatype sign_error = PduSize | OtherSignError

text \<open>
  ruma: conversion to canonical JSON, push rules, user ids of a server, the state an event is authorized by, the
  authorization rules, the room versions they cover, signatures with the server's key, reference hashes and the
  successor of an unsigned integer. \<open>values_of\<close> is the order of the values of a hash map, \<open>regex_new\<close>
  the regular expressions, \<open>alphanumeric\<close> and \<open>lowercase\<close> the character tables.
\<close>

record event_lib =
  canonical_map :: "jobj \<Rightarrow> jobj option"
  push_rules_of :: "json \<Rightarrow> json option"
  server_default_rules :: "user_id \<Rightarrow> json"
  user_with_server_name :: "bytes \<Rightarrow> servername \<Rightarrow> user_id option"
  regex_new :: "bytes \<Rightarrow> (bytes \<Rightarrow> bool) option"
  auth_types_for_event :: "bytes \<Rightarrow> user_id \<Rightarrow> bytes option \<Rightarrow> json \<Rightarrow> (bytes \<times> bytes) list option"
  auth_check :: "bytes \<Rightarrow> PduEvent \<Rightarrow> (bytes \<times> bytes \<Rightarrow> PduEvent option) \<Rightarrow> bool option"
  room_version_known :: "bytes \<Rightarrow> bool"
  hash_and_sign_event :: "servername \<Rightarrow> jobj \<Rightarrow> bytes \<Rightarrow> sign_error + jobj"
  reference_hash :: "jobj \<Rightarrow> bytes \<Rightarrow> bytes option"
  uint_succ :: "nat \<Rightarrow> nat"
  values_of :: "(bytes \<times> bytes \<Rightarrow> PduEvent option) \<Rightarrow> PduEvent list"
  alphanumeric :: "nat \<Rightarrow> bool"
  lowercase :: "nat list \<Rightarrow> nat list"
  yaml_from_slice :: "bytes \<Rightarrow> json option"
  alias_localpart :: "bytes \<Rightarrow> bytes"

definition to_canonical_object :: "event_lib \<Rightarrow> json \<Rightarrow> jobj option" where
  "to_canonical_object L value = (case value of JObj m \<Rightarrow> canonical_map L m | _ \<Rightarrow> None)"

text \<open>\<^verbatim>\<open>Result::unwrap\<close>\<close>

definition unwrapped :: "('s, 'a) dop \<Rightarrow> ('s, 'a) dop" where
  "unwrapped p = bind (attempt p) (\<lambda>r. case r of
     Inl e \<Rightarrow> fail (Panic ''called Result::unwrap() on an Err value'') | Inr x \<Rightarrow> ret x)"

text \<open>\<^verbatim>\<open>str::chars\<close> on well-formed UTF-8.\<close>

fun chars :: "bytes \<Rightarrow> nat list" where
  "chars [] = []"
| "chars (b # bs) =
     (if b < 0x80 then unat b # chars bs
      else if b < 0xE0 then
        (case bs of c # r \<Rightarrow> ((unat b - 0xC0) * 0x40 + (unat c - 0x80)) # chars r | _ \<Rightarrow> [])
      else if b < 0xF0 then
        (case bs of c # d # r \<Rightarrow>
           ((unat b - 0xE0) * 0x1000 + (unat c - 0x80) * 0x40 + (unat d - 0x80)) # chars r | _ \<Rightarrow> [])
      else
        (case bs of c # d # e # r \<Rightarrow>
           ((unat b - 0xF0) * 0x40000 + (unat c - 0x80) * 0x1000 + (unat d - 0x80) * 0x40 + (unat e - 0x80)) # chars r
         | _ \<Rightarrow> []))"

fun version_str :: "RoomVersionId \<Rightarrow> bytes" where
  "version_str V1 = ascii ''1''" | "version_str V2 = ascii ''2''" | "version_str V3 = ascii ''3''"
| "version_str V4 = ascii ''4''" | "version_str V5 = ascii ''5''" | "version_str V6 = ascii ''6''"
| "version_str V7 = ascii ''7''" | "version_str V8 = ascii ''8''" | "version_str V9 = ascii ''9''"
| "version_str V10 = ascii ''10''" | "version_str (CustomVersion v) = v"

section \<open>Redaction\<close>

definition redact_pdu :: "serde \<Rightarrow> ruma \<Rightarrow> event_id \<Rightarrow> PduEvent \<Rightarrow> ('a timeline_db_scheme, unit) dop" where
  "redact_pdu J R e reason =
     bind (reads (get_pdu_id e)) (\<lambda>found.
     case found of
       None \<Rightarrow> ret ()
     | Some pdu_id \<Rightarrow>
         bind (reads (get_pdu_from_id J R pdu_id)) (\<lambda>stored.
         bind (of_res (ok_or (BadDatabase ''PDU ID points to invalid PDU.'') stored)) (\<lambda>pdu.
         bind (of_res (redact reason pdu)) (\<lambda>redacted.
         replace_pdu J pdu_id redacted))))"

section \<open>Appending an event\<close>

text \<open>A state event carries the content it replaces in its unsigned part.\<close>

definition with_prev_content ::
    "serde \<Rightarrow> ruma \<Rightarrow> event_lib \<Rightarrow> (bytes set \<Rightarrow> bytes list) \<Rightarrow> PduEvent \<Rightarrow> jobj \<Rightarrow> ('a accessor_db_scheme, jobj) dop" where
  "with_prev_content J R L iter pdu pdu_json =
     (case state_key pdu of
        None \<Rightarrow> ret pdu_json
      | Some key \<Rightarrow>
          (case (case obj_get pdu_json (ascii ''unsigned'') of Some j \<Rightarrow> j | None \<Rightarrow> JObj []) of
             JObj uns \<Rightarrow>
               bind (unwrapped (reads (pdu_shortstatehash (event_id pdu)))) (\<lambda>hash.
               bind (case hash of
                       None \<Rightarrow> ret None
                     | Some shortstatehash \<Rightarrow> unwrapped (state_get J R iter shortstatehash (kind pdu) key)) (\<lambda>prev_state.
               case prev_state of
                 None \<Rightarrow> ret (obj_insert (ascii ''unsigned'') (JObj uns) pdu_json)
               | Some prev \<Rightarrow>
                   bind (of_res (ok_or (Panic ''event is valid, we just created it'')
                           (to_canonical_object L (content prev)))) (\<lambda>ob.
                   ret (obj_insert (ascii ''unsigned'')
                          (JObj (obj_insert (ascii ''prev_content'') (JObj ob) uns)) pdu_json))))
           | _ \<Rightarrow> ret pdu_json))"

text \<open>The actions of the push rules: whether to notify and whether to highlight.\<close>

fun push_flags :: "push_act list \<Rightarrow> bool \<times> bool \<Rightarrow> bool \<times> bool" where
  "push_flags [] flags = flags"
| "push_flags (DontNotify # as) (notify, highlight) = push_flags as (False, highlight)"
| "push_flags (Notify # as) (notify, highlight) = push_flags as (True, highlight)"
| "push_flags (Coalesce # as) (notify, highlight) = push_flags as (True, highlight)"
| "push_flags (SetTweak (Highlight True) # as) (notify, highlight) = push_flags as (notify, True)"
| "push_flags (SetTweak _ # as) flags = push_flags as flags"

definition room_power_levels ::
    "serde \<Rightarrow> ruma \<Rightarrow> push_lib \<Rightarrow> (bytes set \<Rightarrow> bytes list) \<Rightarrow> room_id \<Rightarrow> ('a accessor_db_scheme, json) dop" where
  "room_power_levels J R P iter room =
     bind (room_state_get J R iter room (ascii ''m.room.power_levels'') []) (\<lambda>found.
     case found of
       None \<Rightarrow> ret (default_power_levels P)
     | Some ev \<Rightarrow> of_res (ok_or (BadDatabase ''invalid m.room.power_levels event'') (power_levels_of P (content ev))))"

definition rules_for_user :: "serde \<Rightarrow> event_lib \<Rightarrow> user_id \<Rightarrow> 'a accountdata_db_scheme \<Rightarrow> json res" where
  "rules_for_user J L user s =
     bind_res (get_account_data J None user (ascii ''m.push_rules'') s) (\<lambda>found.
     case found of
       None \<Rightarrow> Inr (server_default_rules L user)
     | Some event \<Rightarrow> ok_or (BadDatabase ''Invalid push rules event in db.'') (push_rules_of L event))"

text \<open>The users to notify and to highlight; on the way the event is queued for their pushers.\<close>

fun push_to_users ::
    "serde \<Rightarrow> push_lib \<Rightarrow> event_lib \<Rightarrow> json \<Rightarrow> bytes \<Rightarrow> PduEvent \<Rightarrow> user_id list \<Rightarrow>
     ('a sending_db_scheme, user_id list \<times> user_id list) dop" where
  "push_to_users J P L power_levels pdu_id pdu [] = ret ([], [])"
| "push_to_users J P L power_levels pdu_id pdu (user # users) =
     (if user = sender pdu then push_to_users J P L power_levels pdu_id pdu users
      else
        bind (reads (rules_for_user J L user)) (\<lambda>rules.
        bind (reads (get_actions P user rules power_levels (to_sync_room_event pdu) (room_id pdu))) (\<lambda>actions.
        let (notify, highlight) = push_flags actions (False, False) in
        bind (gets (get_pushkeys user)) (\<lambda>keys.
        andthen (for_each keys (\<lambda>key. bind (of_res key) (send_push_pdu pdu_id user)))
        (bind (push_to_users J P L power_levels pdu_id pdu users) (\<lambda>(notifies, highlights).
         ret (if notify then user # notifies else notifies, if highlight then user # highlights else highlights)))))))"

definition process_message :: "bytes \<Rightarrow> ('a services_db_scheme, unit) dop" where
  "process_message body = modify (admin_channel_update (\<lambda>c. c @ [body]))"

text \<open>What a room member event does to the membership of its target.\<close>

definition append_member ::
    "serde \<Rightarrow> ruma \<Rightarrow> contents \<Rightarrow> (bytes set \<Rightarrow> bytes list) \<Rightarrow> PduEvent \<Rightarrow> ('a statecache_db_scheme, unit) dop" where
  "append_member J R C iter pdu =
     (case state_key pdu of
        None \<Rightarrow> ret ()
      | Some target_user_id \<Rightarrow>
          if \<not> is_user_id R target_user_id then fail (Panic ''This state_key was previously validated'')
          else
            bind (of_res (ok_or (BadDatabase ''Invalid content in pdu.'') (member_membership C (content pdu)))) (\<lambda>membership.
            bind (if membership = Invite
                  then bind (calculate_invite_state J R iter pdu) (\<lambda>st. ret (Some st))
                  else ret None) (\<lambda>invite_state.
            update_membership J R C iter (room_id pdu) target_user_id membership (sender pdu) invite_state True)))"

text \<open>The body of \<^verbatim>\<open>ExtractBody\<close>.\<close>

definition extract_body :: "json \<Rightarrow> bytes option option" where
  "extract_body j = Option.bind (as_object j) (\<lambda>ob. p_opt ob (ascii ''body'') as_string)"

definition append_message ::
    "ruma \<Rightarrow> event_lib \<Rightarrow> u64 \<Rightarrow> bytes \<Rightarrow> PduEvent \<Rightarrow> ('a services_db_scheme, unit) dop" where
  "append_message R L shortroomid pdu_id pdu =
     bind (of_res (ok_or (BadDatabase ''Invalid content in pdu.'') (extract_body (content pdu)))) (\<lambda>found.
     case found of
       None \<Rightarrow> ret ()
     | Some body \<Rightarrow>
         andthen (index_pdu (alphanumeric L) (lowercase L) shortroomid pdu_id (chars body))
         (bind (gets server_name) (\<lambda>name.
          let alias = ascii ''#admins:'' @ name; server_user = ascii ''@conduit:'' @ name in
          andthen (if is_room_alias R alias then ret () else fail (Panic ''#admins:server_name is a valid room alias''))
          (bind (reads (resolve_local_alias R (alias_localpart L) alias)) (\<lambda>admin_room.
           bind (gets (\<lambda>s. emergency_password (config s))) (\<lambda>emergency.
           let to_conduit = prefix (server_user @ ascii '': '') body;
               from_conduit = (sender pdu = server_user \<and> emergency = None) in
           if to_conduit \<and> \<not> from_conduit \<and> admin_room = Some (room_id pdu) then process_message body else ret ()))))))"

definition append_effects ::
    "serde \<Rightarrow> ruma \<Rightarrow> contents \<Rightarrow> event_lib \<Rightarrow> (bytes set \<Rightarrow> bytes list) \<Rightarrow> u64 \<Rightarrow> bytes \<Rightarrow> PduEvent \<Rightarrow>
     ('a services_db_scheme, unit) dop" where
  "append_effects J R C L iter shortroomid pdu_id pdu =
     (if kind pdu = ascii ''m.room.redaction'' then
        (case redacts pdu of Some redact_id \<Rightarrow> redact_pdu J R redact_id pdu | None \<Rightarrow> ret ())
      else if kind pdu = ascii ''m.room.member'' then append_member J R C iter pdu
      else if kind pdu = ascii ''m.room.message'' then append_message R L shortroomid pdu_id pdu
      else ret ())"
text \<open>The regular expressions of a namespace; malformed entries are skipped.\<close>

definition namespace_regexes :: "event_lib \<Rightarrow> json \<Rightarrow> bytes \<Rightarrow> (bytes \<Rightarrow> bool) list" where
  "namespace_regexes L namespaces key =
     (case json_get namespaces key of
        Some (JArr docs) \<Rightarrow>
          List.map_filter (\<lambda>e. Option.bind (yaml_str e (ascii ''regex'')) (regex_new L)) docs
      | _ \<Rightarrow> [])"

definition bridge_user :: "event_lib \<Rightarrow> servername \<Rightarrow> json \<Rightarrow> user_id option" where
  "bridge_user L name registration =
     Option.bind (yaml_str registration (ascii ''sender_localpart'')) (\<lambda>string. user_with_server_name L string name)"

text \<open>A registration as \<^const>\<open>appservice_in_room\<close> reads it.\<close>

definition appservice_of :: "event_lib \<Rightarrow> servername \<Rightarrow> bytes \<times> json \<Rightarrow> appservice" where
  "appservice_of L name reg =
     \<lparr>as_id = fst reg,
      as_users = map_option (\<lambda>namespaces u. \<exists>r \<in> set (namespace_regexes L namespaces (ascii ''users'')). r u)
        (json_get (snd reg) (ascii ''namespaces'')),
      as_bridge = bridge_user L name (snd reg)\<rparr>"

text \<open>The two further reasons to send an event to an appservice that has no user in the room.\<close>

definition targets_bridge :: "ruma \<Rightarrow> event_lib \<Rightarrow> servername \<Rightarrow> json \<Rightarrow> PduEvent \<Rightarrow> bool" where
  "targets_bridge R L name registration pdu \<longleftrightarrow>
     kind pdu = ascii ''m.room.member'' \<and>
     (case state_key pdu of
        None \<Rightarrow> False
      | Some key \<Rightarrow> is_user_id R key \<and> bridge_user L name registration = Some key)"

definition in_namespaces :: "ruma \<Rightarrow> event_lib \<Rightarrow> json \<Rightarrow> PduEvent \<Rightarrow> 'a roomstores_db_scheme \<Rightarrow> bool" where
  "in_namespaces R L namespaces pdu s \<longleftrightarrow>
     (\<exists>a \<in> set (namespace_regexes L namespaces (ascii ''aliases'')).
        \<exists>r \<in> set (List.map_filter res_ok (local_aliases_for_room R (room_id pdu) s)). a r) \<or>
     (case json_get namespaces (ascii ''rooms'') of Some (JArr rooms) \<Rightarrow> JStr (room_id pdu) \<in> set rooms | _ \<Rightarrow> False) \<or>
     (\<exists>u \<in> set (namespace_regexes L namespaces (ascii ''users'')).
        u (sender pdu) \<or>
        kind pdu = ascii ''m.room.member'' \<and> (case state_key pdu of None \<Rightarrow> False | Some key \<Rightarrow> u key))"

definition notify_appservice ::
    "ruma \<Rightarrow> event_lib \<Rightarrow> PduEvent \<Rightarrow> bytes \<Rightarrow> bytes \<times> json \<Rightarrow> ('a sending_db_scheme, unit) dop" where
  "notify_appservice R L pdu pdu_id reg =
     bind (gets server_name) (\<lambda>name.
     bind (appservice_in_room R (room_id pdu) (appservice_of L name reg)) (\<lambda>in_room.
     if in_room then send_pdu_appservice (fst reg) pdu_id
     else if targets_bridge R L name (snd reg) pdu then send_pdu_appservice (fst reg) pdu_id
     else
       (case json_get (snd reg) (ascii ''namespaces'') of
          None \<Rightarrow> ret ()
        | Some namespaces \<Rightarrow>
            bind (gets (in_namespaces R L namespaces pdu)) (\<lambda>matching.
            if matching then send_pdu_appservice (fst reg) pdu_id else ret ()))))"

text \<open>The event is filed: what happens under the insert lock.\<close>

definition insert_pdu ::
    "serde \<Rightarrow> u64 \<Rightarrow> PduEvent \<Rightarrow> jobj \<Rightarrow> ('a roomstores_db_scheme, bytes) dop" where
  "insert_pdu J shortroomid pdu pdu_json =
     bind next_count (\<lambda>count1.
     andthen (private_read_set (room_id pdu) (sender pdu) count1)
     (andthen (reset_notification_counts (sender pdu) (room_id pdu))
     (bind next_count (\<lambda>count2.
      let pdu_id = to_be_bytes shortroomid @ to_be_bytes count2 in
      andthen (append_pdu_db J pdu_id pdu pdu_json count2)
      (ret pdu_id)))))"

text \<open>Everything that follows from a filed event.\<close>

definition publish_pdu ::
    "serde \<Rightarrow> ruma \<Rightarrow> contents \<Rightarrow> push_lib \<Rightarrow> event_lib \<Rightarrow> (bytes set \<Rightarrow> bytes list) \<Rightarrow> u64 \<Rightarrow> bytes \<Rightarrow> PduEvent \<Rightarrow>
     ('a services_db_scheme, unit) dop" where
  "publish_pdu J R C P L iter shortroomid pdu_id pdu =
     bind (room_power_levels J R P iter (room_id pdu)) (\<lambda>power_levels.
     bind (get_our_real_users R iter (room_id pdu)) (\<lambda>users.
     bind (push_to_users J P L power_levels pdu_id pdu (iter users)) (\<lambda>(notifies, highlights).
     andthen (increment_notification_counts (room_id pdu) notifies highlights)
     (andthen (append_effects J R C L iter shortroomid pdu_id pdu)
     (bind (reads (all_appservices (yaml_from_slice L))) (\<lambda>appservices.
      for_each appservices (notify_appservice R L pdu pdu_id)))))))"

definition append_pdu ::
    "serde \<Rightarrow> ruma \<Rightarrow> contents \<Rightarrow> push_lib \<Rightarrow> event_lib \<Rightarrow> (bytes set \<Rightarrow> bytes list) \<Rightarrow> PduEvent \<Rightarrow> jobj \<Rightarrow> event_id list \<Rightarrow>
     ('a services_db_scheme, bytes) dop" where
  "append_pdu J R C P L iter pdu pdu_json leaves =
     bind (reads (get_shortroomid (room_id pdu))) (\<lambda>short.
     bind (of_res (ok_or (Panic ''room exists'') short)) (\<lambda>shortroomid.
     bind (with_prev_content J R L iter pdu pdu_json) (\<lambda>pdu_json.
     andthen (mark_as_referenced (room_id pdu) (prev_events pdu))
     (andthen (set_forward_extremities (room_id pdu) leaves)
     (bind (insert_pdu J shortroomid pdu pdu_json) (\<lambda>pdu_id.
      andthen (publish_pdu J R C P L iter shortroomid pdu_id pdu)
      (ret pdu_id)))))))"

section \<open>Creating an event\<close>

record PduBuilder =
  event_type :: bytes
  builder_content :: json
  builder_unsigned :: "jobj option"
  builder_state_key :: "bytes option"
  builder_redacts :: "event_id option"

fun known_depths :: "serde \<Rightarrow> ruma \<Rightarrow> event_id list \<Rightarrow> ('a timeline_db_scheme, nat list) dop" where
  "known_depths J R [] = ret []"
| "known_depths J R (e # es) =
     bind (catching (get_pdu J R e)) (\<lambda>found.
     bind (known_depths J R es) (\<lambda>rest.
     ret (case found of Inr (Some pdu) \<Rightarrow> depth pdu # rest | _ \<Rightarrow> rest)))"

definition room_version_for_new ::
    "serde \<Rightarrow> ruma \<Rightarrow> contents \<Rightarrow> (bytes set \<Rightarrow> bytes list) \<Rightarrow> room_id \<Rightarrow> ('a services_db_scheme, bytes) dop" where
  "room_version_for_new J R C iter room =
     bind (room_state_get J R iter room (ascii ''m.room.create'') []) (\<lambda>create_event.
     case create_event of
       None \<Rightarrow> gets (\<lambda>s. version_str (default_room_version (config s)))
     | Some ev \<Rightarrow> of_res (ok_or (BadDatabase ''Invalid create event in db.'') (create_version C (content ev))))"

text \<open>The unsigned part of a new event.\<close>

definition new_unsigned ::
    "serde \<Rightarrow> ruma \<Rightarrow> (bytes set \<Rightarrow> bytes list) \<Rightarrow> room_id \<Rightarrow> PduBuilder \<Rightarrow> ('a accessor_db_scheme, jobj) dop" where
  "new_unsigned J R iter room b =
     (let uns = (case builder_unsigned b of Some u \<Rightarrow> u | None \<Rightarrow> []) in
      case builder_state_key b of
        None \<Rightarrow> ret uns
      | Some key \<Rightarrow>
          bind (room_state_get J R iter room (event_type b) key) (\<lambda>prev.
          ret (case prev of
                 None \<Rightarrow> uns
               | Some prev_pdu \<Rightarrow>
                   obj_insert (ascii ''prev_sender'') (JStr (sender prev_pdu))
                     (obj_insert (ascii ''prev_content'') (content prev_pdu) uns))))"

text \<open>Hashing, signing and naming an event that passed the authorization rules.\<close>

definition hash_and_sign ::
    "ruma \<Rightarrow> event_lib \<Rightarrow> bytes \<Rightarrow> PduEvent \<Rightarrow> ('a services_db_scheme, PduEvent \<times> jobj) dop" where
  "hash_and_sign R L room_version_id pdu =
     bind (of_res (ok_or (Panic ''event is valid, we just created it'') (to_canonical_object L (json_of_pdu pdu)))) (\<lambda>pdu_json.
     bind (gets server_name) (\<lambda>name.
     let pdu_json = obj_insert (ascii ''origin'') (JStr name) (obj_remove (ascii ''event_id'') pdu_json) in
     case hash_and_sign_event L name pdu_json room_version_id of
       Inl PduSize \<Rightarrow> fail (BadRequest TooLarge ''Message is too long'')
     | Inl _ \<Rightarrow> fail (BadRequest Unknown ''Signing event failed'')
     | Inr signed_json \<Rightarrow>
         bind (of_res (ok_or (Panic ''ruma can calculate reference hashes'') (reference_hash L signed_json room_version_id))) (\<lambda>hash.
         let e = ascii ''$'' @ hash in
         if \<not> is_event_id R e then fail (Panic (''ruma'' @ [CHR 0x27] @ ''s reference hashes are valid event ids''))
         else
           andthen (get_or_create_shorteventid e)
           (ret (pdu\<lparr>event_id := e\<rparr>, obj_insert (ascii ''event_id'') (JStr e) signed_json)))))"

text \<open>The event as it is authorized, before it has its id.\<close>

definition prepare_event ::
    "serde \<Rightarrow> ruma \<Rightarrow> contents \<Rightarrow> event_lib \<Rightarrow> (bytes set \<Rightarrow> bytes list) \<Rightarrow> nat \<Rightarrow> PduBuilder \<Rightarrow> user_id \<Rightarrow> room_id \<Rightarrow>
     ('a services_db_scheme, bytes \<times> PduEvent) dop" where
  "prepare_event J R C L iter now b sender_user room =
     bind (reads (get_forward_extremities R room)) (\<lambda>leaves.
     let prevs = take 20 (iter leaves) in
     bind (room_version_for_new J R C iter room) (\<lambda>room_version_id.
     if \<not> room_version_known L room_version_id then fail (Panic ''room version is supported'')
     else
       bind (get_auth_events J R iter (auth_types_for_event L) room (event_type b) sender_user
               (builder_state_key b) (builder_content b)) (\<lambda>auths.
       bind (known_depths J R prevs) (\<lambda>depths.
       bind (new_unsigned J R iter room b) (\<lambda>uns.
       if MAX_UINT < now then fail (Panic ''time is valid'')
       else
         let pdu = \<lparr>event_id = ascii ''$thiswillbefilledinlater'', room_id = room, sender = sender_user,
                    origin_server_ts = now, kind = event_type b, content = builder_content b,
                    state_key = builder_state_key b, prev_events = prevs,
                    depth = uint_succ L (Max (set (0 # depths))),
                    auth_events = map event_id (values_of L auths), redacts = builder_redacts b,
                    unsigned = (if uns = [] then None else Some (JObj uns)), hashes = ascii ''aaa'', signatures = None\<rparr> in
         bind (of_res (ok_or (BadDatabase ''Auth check failed.'') (auth_check L room_version_id pdu auths))) (\<lambda>allowed.
         if \<not> allowed then fail (BadRequest Forbidden ''Event is not authorized.'')
         else ret (room_version_id, pdu)))))))"

definition create_hash_and_sign_event ::
    "serde \<Rightarrow> ruma \<Rightarrow> contents \<Rightarrow> event_lib \<Rightarrow> (bytes set \<Rightarrow> bytes list) \<Rightarrow> nat \<Rightarrow> PduBuilder \<Rightarrow> user_id \<Rightarrow> room_id \<Rightarrow>
     ('a services_db_scheme, PduEvent \<times> jobj) dop" where
  "create_hash_and_sign_event J R C L iter now b sender_user room =
     bind (prepare_event J R C L iter now b sender_user room) (\<lambda>(room_version_id, pdu).
     hash_and_sign R L room_version_id pdu)"

definition build_and_append_pdu ::
    "serde \<Rightarrow> ruma \<Rightarrow> contents \<Rightarrow> push_lib \<Rightarrow> event_lib \<Rightarrow> (bytes set \<Rightarrow> bytes list) \<Rightarrow> nat \<Rightarrow> PduBuilder \<Rightarrow> user_id \<Rightarrow> room_id \<Rightarrow>
     ('a services_db_scheme, event_id) dop" where
  "build_and_append_pdu J R C P L iter now b sender_user room =
     bind (create_hash_and_sign_event J R C L iter now b sender_user room) (\<lambda>(pdu, pdu_json).
     bind (append_to_state iter pdu) (\<lambda>statehashid.
     bind (append_pdu J R C P L iter pdu pdu_json [event_id pdu]) (\<lambda>pdu_id.
     andthen (set_room_state room statehashid)
     (bind (gets (\<lambda>s. set (List.map_filter res_ok (room_servers R room s)))) (\<lambda>servers.
      let servers = (if kind pdu = ascii ''m.room.member'' then
                       (case state_key pdu of
                          Some key \<Rightarrow> if is_user_id R key then insert (user_server R key) servers else servers
                        | None \<Rightarrow> servers)
                     else servers) in
      bind (gets server_name) (\<lambda>name.
      andthen (send_pdu (iter (servers - {name})) pdu_id)
      (ret (event_id pdu))))))))"

definition append_incoming_pdu ::
    "serde \<Rightarrow> ruma \<Rightarrow> contents \<Rightarrow> push_lib \<Rightarrow> event_lib \<Rightarrow> (bytes set \<Rightarrow> bytes list) \<Rightarrow> (bytes \<Rightarrow> bytes) \<Rightarrow> PduEvent \<Rightarrow> jobj \<Rightarrow>
     event_id list \<Rightarrow> CompressedStateEvent set \<Rightarrow> bool \<Rightarrow> ('a services_db_scheme, bytes option) dop" where
  "append_incoming_pdu J R C P L iter digest pdu pdu_json new_room_leaves state_ids_compressed soft_fail =
     andthen (set_event_state iter digest (event_id pdu) (room_id pdu) state_ids_compressed)
     (if soft_fail then
        andthen (mark_as_referenced (room_id pdu) (prev_events pdu))
        (andthen (set_forward_extremities (room_id pdu) new_room_leaves)
        (ret None))
      else
        bind (append_pdu J R C P L iter pdu pdu_json new_room_leaves) (\<lambda>pdu_id. ret (Some pdu_id)))"

definition all_pdus :: "serde \<Rightarrow> ruma \<Rightarrow> user_id \<Rightarrow> room_id \<Rightarrow> 'a timeline_db_scheme \<Rightarrow> (bytes \<times> PduEvent) res list res" where
  "all_pdus J R user room = pdus_since J R user room 0"

section \<open>What publishing an event leaves alone\<close>

text \<open>
  The tables that say which events a room has and which state it is in. Nothing that follows from a
  filed event touches them, except that a redaction rewrites the redacted event.
\<close>

definition room_tables where
  "room_tables s = (eventid_shorteventid s, statekey_shortstatekey s, shortstatehash_statediff s, roomid_shortstatehash s,
     roomid_shortroomid s, roomid_pduleaves s, eventid_pduid s, referencedevents s, shorteventid_shortstatehash s, server_name s)"

definition room_obs where
  "room_obs s = (room_tables s, pduid_pdu s)"

lemmas obs_simps = room_obs_def room_tables_def

lemma keeps_tables: "keeps room_obs p \<Longrightarrow> keeps room_tables p"
  by (simp add: keeps_def room_obs_def)

interpretation obs: state_read_frame room_obs
  by unfold_locales (simp_all add: obs_simps)

lemma keeps_obs_counts: "keeps room_obs (update_joined_count R iter room)"
  unfolding update_joined_count_def add_server_def
  by (intro keeps_intros keeps_drop_old_servers) (simp_all add: obs_simps)

lemma keeps_obs_users: "keeps room_obs (get_our_real_users R iter room)"
  unfolding get_our_real_users_def by (intro keeps_intros keeps_obs_counts)

lemma keeps_obs_power_levels: "keeps room_obs (room_power_levels J R P iter room)"
  unfolding room_power_levels_def by (intro keeps_intros obs.keeps_room_state_get)

lemma keeps_request_keys:
  assumes "\<And>g s. f (global_update g s) = f s"
  shows "keeps f (request_keys rs)"
proof (induction rs)
  case (Cons r rs)
  have "keeps f (request_key k e)" for k e
    unfolding request_key_def by (cases e; simp only: SendingEventType.case) (intro keeps_intros assms)+
  then show ?case
    using Cons by (cases r) (simp only: request_keys.simps, intro keeps_intros)
qed (simp only: request_keys.simps keeps_basic)

lemma keeps_queue_requests:
  assumes "\<And>g s. f (global_update g s) = f s" and "\<And>g s. f (servernameevent_data_update g s) = f s"
  shows "keeps f (queue_requests rs)"
  unfolding queue_requests_def by (intro keeps_intros keeps_request_keys assms)

lemma keeps_queueing:
  assumes "\<And>g s. f (global_update g s) = f s" and "\<And>g s. f (servernameevent_data_update g s) = f s"
    and "\<And>g s. f (sending_channel_update g s) = f s"
  shows "keeps f (send_push_pdu pdu_id user key)" and "keeps f (send_pdu servers pdu_id)"
    and "keeps f (send_pdu_appservice appservice pdu_id)"
proof -
  note queue = keeps_queue_requests [OF assms(1,2)]
  show "keeps f (send_push_pdu pdu_id user key)" "keeps f (send_pdu_appservice appservice pdu_id)"
    unfolding send_push_pdu_def send_pdu_appservice_def send_message_def Let_def
    by (intro keeps_intros queue assms(3))+
  show "keeps f (send_pdu servers pdu_id)"
    unfolding send_pdu_def send_message_def Let_def
    by (rule keeps_bind [OF queue], rule keeps_for_each, simp only: split_beta) (intro keeps_intros assms(3))
qed

lemma keeps_obs_queueing:
  "keeps room_obs (send_push_pdu pdu_id user key)" "keeps room_obs (send_pdu servers pdu_id)"
  "keeps room_obs (send_pdu_appservice appservice pdu_id)"
  by (rule keeps_queueing; simp add: obs_simps)+

lemma keeps_obs_push: "keeps room_obs (push_to_users J P L power_levels pdu_id pdu users)"
proof (induction users)
  case (Cons user users)
  show ?case
    unfolding push_to_users.simps by (intro keeps_intros keeps_obs_queueing Cons)
qed (simp only: push_to_users.simps keeps_basic)

lemma keeps_obs_notifications: "keeps room_obs (increment_notification_counts room notifies highlights)"
  unfolding increment_notification_counts_def by (intro keeps_intros) (simp_all add: obs_simps)

lemma keeps_obs_invite_state: "keeps room_obs (calculate_invite_state J R iter pdu)"
  unfolding calculate_invite_state_def stripped_state_def Let_def by (intro keeps_intros obs.keeps_room_state_get)

lemma keeps_obs_first_join: "keeps room_obs (first_join J R C iter room user)"
  unfolding first_join_def mark_as_once_joined_def copy_settings_def update_account_data_def Let_def
  by (intro keeps_intros obs.keeps_room_state_get) (simp_all add: obs_simps)

lemma keeps_obs_membership: "keeps room_obs (update_membership J R C iter room user membership from_user st n)"
proof -
  have "keeps room_obs (create_user argon2 user pw)" for argon2 pw
    unfolding create_user_def set_password_def by (intro keeps_intros) (simp_all add: obs_simps)
  moreover have "keeps room_obs (member_update J R C iter room user membership from_user st n)"
    unfolding member_update_def mark_as_joined_def mark_as_invited_def mark_as_left_def Let_def
    by (cases membership; simp only: MembershipState.case)
       (intro keeps_intros keeps_obs_first_join keeps_obs_counts; simp add: obs_simps)+
  ultimately show ?thesis unfolding update_membership_def by (intro keeps_intros)
qed

lemma keeps_obs_member: "keeps room_obs (append_member J R C iter pdu)"
  unfolding append_member_def
  by (intro keeps_intros keeps_obs_invite_state keeps_obs_membership)

lemma keeps_obs_message: "keeps room_obs (append_message R L shortroomid pdu_id pdu)"
  unfolding append_message_def index_pdu_def process_message_def Let_def
  by (intro keeps_intros) (simp_all add: obs_simps)

lemma keeps_obs_appservice: "keeps room_obs (notify_appservice R L pdu pdu_id reg)"
  unfolding notify_appservice_def appservice_in_room_def
  by (intro keeps_intros keeps_obs_queueing) (simp_all add: obs_simps)

text \<open>A redaction of the event \<open>e\<close> rewrites at most the entry of that event.\<close>

definition redact_obs where
  "redact_obs e k s = (room_tables s, kv_get (pduid_pdu s) k \<noteq> None,
     if kv_get (eventid_pduid s) e = Some k then None else kv_get (pduid_pdu s) k)"

lemma keeps_coarser: "keeps room_obs p \<Longrightarrow> (\<And>s s'. room_obs s' = room_obs s \<Longrightarrow> f s' = f s) \<Longrightarrow> keeps f p"
  unfolding keeps_def by blast

lemma redact_obs_coarser: "room_obs s' = room_obs s \<Longrightarrow> redact_obs e k s' = redact_obs e k s"
  by (simp add: obs_simps redact_obs_def)

lemma redact_obs_replaced:
  assumes "kv_get (eventid_pduid s) e = Some pdu_id" and "kv_get (pduid_pdu s) pdu_id \<noteq> None"
  shows "redact_obs e k (s\<lparr>pduid_pdu := kv_insert pdu_id v (pduid_pdu s)\<rparr>) = redact_obs e k s"
  using assms by (cases "k = pdu_id") (auto simp: redact_obs_def room_tables_def)

lemma keeps_redaction: "keeps (redact_obs e k) (redact_pdu J R e reason)"
  unfolding keeps_def
proof
  fix s
  show "redact_obs e k (snd (redact_pdu J R e reason s)) = redact_obs e k s"
  proof (cases "kv_get (eventid_pduid s) e")
    case (Some pdu_id)
    then have "redact_obs e k (snd (replace_pdu J pdu_id p s)) = redact_obs e k s" for p
      using redact_obs_replaced [OF Some] by (cases "kv_get (pduid_pdu s) pdu_id") (simp_all add: replace_pdu_def)
    note replaced = this
    show ?thesis
    proof (cases "bind_res (get_pdu_from_id J R pdu_id s) (ok_or (BadDatabase ''PDU ID points to invalid PDU.''))")
      case (Inl x)
      with Some show ?thesis
        by (cases "get_pdu_from_id J R pdu_id s") (simp_all add: redact_pdu_def get_pdu_id_def)
    next
      case (Inr p)
      with Some replaced show ?thesis
        by (cases "get_pdu_from_id J R pdu_id s"; cases "redact reason p") (simp_all add: redact_pdu_def get_pdu_id_def)
    qed
  qed (simp add: redact_pdu_def get_pdu_id_def)
qed

lemma publish_pdu_frame:
  assumes "\<And>s s'. room_obs s' = room_obs s \<Longrightarrow> f s' = f s"
    and "\<And>e. kind pdu = ascii ''m.room.redaction'' \<Longrightarrow> redacts pdu = Some e \<Longrightarrow> keeps f (redact_pdu J R e pdu)"
  shows "keeps f (publish_pdu J R C P L iter shortroomid pdu_id pdu)"
proof -
  note coarse = keeps_coarser [where f = f, OF _ assms(1)]
  have "keeps f (append_effects J R C L iter shortroomid pdu_id pdu)"
  proof (cases "kind pdu = ascii ''m.room.redaction''")
    case True
    then show ?thesis
      by (cases "redacts pdu") (simp_all only: append_effects_def if_True refl option.case keeps_basic assms(2))
  next
    case False
    then show ?thesis
      by (simp only: append_effects_def if_False)
         (intro keeps_intros coarse [OF keeps_obs_member] coarse [OF keeps_obs_message])
  qed
  then show ?thesis
    unfolding publish_pdu_def
    by (intro keeps_intros coarse [OF keeps_obs_power_levels] coarse [OF keeps_obs_users] coarse [OF keeps_obs_push]
        coarse [OF keeps_obs_notifications] coarse [OF keeps_obs_appservice])
qed

section \<open>Filing an event\<close>

interpretation counted: state_read_frame "\<lambda>s. (room_obs s, count s)"
  by unfold_locales (simp_all add: obs_simps count_def)

lemma keeps_unwrapped: "keeps f p \<Longrightarrow> keeps f (unwrapped p)"
  unfolding unwrapped_def by (intro keeps_intros)

lemma keeps_with_prev_content: "keeps (\<lambda>s. (room_obs s, count s)) (with_prev_content J R L iter pdu pdu_json)"
proof -
  have "keeps (\<lambda>s. (room_obs s, count s)) (case j of JObj uns \<Rightarrow> k uns | _ \<Rightarrow> m)"
    if "\<And>uns. keeps (\<lambda>s. (room_obs s, count s)) (k uns)" "keeps (\<lambda>s. (room_obs s, count s)) m" for j k m
    using that by (cases j) simp_all
  note cases_json = this
  show ?thesis
    unfolding with_prev_content_def
    by (intro keeps_intros cases_json keeps_unwrapped counted.keeps_state_get)
qed

lemma mark_as_referenced_run:
  "mark_as_referenced room es s =
     (Inr (), s\<lparr>referencedevents := fold (\<lambda>e. kv_insert (room @ e) []) es (referencedevents s)\<rparr>)"
  unfolding mark_as_referenced_def by (induction es arbitrary: s) simp_all

lemma kv_get_referenced:
  "kv_get (fold (\<lambda>e. kv_insert (room @ e) []) es t) (room @ p) = (if p \<in> set es then Some [] else kv_get t (room @ p))"
  by (induction es arbitrary: t) auto

lemma set_forward_extremities_run:
  fixes s :: "'a accessor_db_scheme"
  shows "set_forward_extremities room es s =
     (Inr (), s\<lparr>roomid_pduleaves := fold (\<lambda>e. kv_insert (room @ sep # e) e) es (kv_remove_prefix (room @ [sep]) (roomid_pduleaves s))\<rparr>)"
proof -
  have "for_each es (\<lambda>e. modify (roomid_pduleaves_update (kv_insert (room @ sep # e) e))) s =
      (Inr (), s\<lparr>roomid_pduleaves := fold (\<lambda>e. kv_insert (room @ sep # e) e) es (roomid_pduleaves s)\<rparr>)"
      for s :: "'a accessor_db_scheme"
    by (induction es arbitrary: s) simp_all
  note run = this
  show ?thesis by (simp add: set_forward_extremities_def run)
qed

lemma kv_get_leaves:
  "kv_get (fold (\<lambda>e. kv_insert (room @ sep # e) e) es t) k =
     (if \<exists>e \<in> set es. k = room @ sep # e then Some (drop (Suc (length room)) k) else kv_get t k)"
  by (induction es arbitrary: t) auto

lemma forward_extremities_set:
  assumes "\<forall>e \<in> set es. utf8_valid e \<and> is_event_id R e"
    and "roomid_pduleaves s' = fold (\<lambda>e. kv_insert (room @ sep # e) e) es (kv_remove_prefix (room @ [sep]) t)"
  shows "get_forward_extremities R room s' = Inr (set es)"
proof -
  let ?scan = "kv_scan_prefix (room @ [sep]) (roomid_pduleaves s')"
  have scan: "(k, v) \<in> set ?scan \<longleftrightarrow> (\<exists>e \<in> set es. k = room @ sep # e \<and> v = e)" for k v
    unfolding set_kv_scan_prefix assms(2) kv_get_leaves by (auto simp: prefix_def)
  have "map (\<lambda>(_, b). id_from_bytes (is_event_id R)
         ''EventID in roomid_pduleaves is invalid unicode.'' ''EventId in roomid_pduleaves is invalid.'' b) ?scan
      = map (\<lambda>x. Inr (snd x)) ?scan"
    using assms(1) scan by auto
  then have "get_forward_extremities R room s' = Inr (set (map snd ?scan))"
    by (simp only: get_forward_extremities_def collect_res_Inr map_res_simps)
  moreover have "set (map snd ?scan) = set es"
  proof (intro set_eqI iffI)
    fix e
    assume "e \<in> set es"
    then have "(room @ sep # e, e) \<in> set ?scan" using scan by blast
    then show "e \<in> set (map snd ?scan)" by (auto intro: rev_image_eqI)
  qed (use scan in auto)
  ultimately show ?thesis by simp
qed

lemma insert_pdu_run:
  obtains s' where "insert_pdu J short pdu pdu_json s = (Inr (to_be_bytes short @ to_be_bytes (count s + 4)), s')"
    and "room_tables s' = room_tables (s\<lparr>eventid_pduid :=
       kv_insert (event_id pdu) (to_be_bytes short @ to_be_bytes (count s + 4)) (eventid_pduid s)\<rparr>)"
    and "pduid_pdu s' = kv_insert (to_be_bytes short @ to_be_bytes (count s + 4)) (json_print J (JObj pdu_json)) (pduid_pdu s)"
    and "count s' = count s + 4"
proof -
  have "\<exists>s'. insert_pdu J short pdu pdu_json s = (Inr (to_be_bytes short @ to_be_bytes (count s + 4)), s') \<and>
    room_tables s' = room_tables (s\<lparr>eventid_pduid :=
       kv_insert (event_id pdu) (to_be_bytes short @ to_be_bytes (count s + 4)) (eventid_pduid s)\<rparr>) \<and>
    pduid_pdu s' = kv_insert (to_be_bytes short @ to_be_bytes (count s + 4)) (json_print J (JObj pdu_json)) (pduid_pdu s) \<and>
    count s' = count s + 4"
    by (simp add: insert_pdu_def private_read_set_def reset_notification_counts_def append_pdu_db_def bind_apply Let_def
        bump_def room_tables_def count_def) (simp add: add.commute)
  then show thesis by (elim exE conjE) (rule that)
qed

definition timeline_ok :: "'a timeline_db_scheme \<Rightarrow> bool" where
  "timeline_ok s \<longleftrightarrow> pdu_keys_ok s \<and>
     (\<forall>r n. kv_get (pduid_pdu s) (to_be_bytes r @ to_be_bytes n) \<noteq> None \<longrightarrow> n \<le> count s) \<and>
     (\<forall>e k. kv_get (eventid_pduid s) e = Some k \<longrightarrow> kv_get (pduid_pdu s) k \<noteq> None)"

text \<open>What a successful append did, step by step.\<close>

lemma append_pdu_steps:
  assumes "append_pdu J R C P L iter pdu pdu_json leaves s = (Inr pdu_id, s')"
  obtains short json s1 s2 where "get_shortroomid (room_id pdu) s = Inr (Some short)"
    and "with_prev_content J R L iter pdu pdu_json s = (Inr json, s1)"
    and "room_obs s1 = room_obs s" and "count s1 = count s"
    and "insert_pdu J short pdu json (s1
       \<lparr>referencedevents := fold (\<lambda>e. kv_insert (room_id pdu @ e) []) (prev_events pdu) (referencedevents s1),
        roomid_pduleaves := fold (\<lambda>e. kv_insert (room_id pdu @ sep # e) e) leaves
          (kv_remove_prefix (room_id pdu @ [sep]) (roomid_pduleaves s1))\<rparr>) = (Inr pdu_id, s2)"
    and "publish_pdu J R C P L iter short pdu_id pdu s2 = (Inr (), s')"
proof -
  have "\<exists>short. get_shortroomid (room_id pdu) s = Inr (Some short)"
  proof (cases "get_shortroomid (room_id pdu) s")
    case (Inr m)
    then show ?thesis using assms unfolding append_pdu_def by (cases m) (simp_all add: ok_or_def)
  qed (use assms in \<open>simp add: append_pdu_def\<close>)
  then obtain short where short: "get_shortroomid (room_id pdu) s = Inr (Some short)" ..
  obtain r s1 where s1: "with_prev_content J R L iter pdu pdu_json s = (r, s1)" by (rule prod.exhaust)
  have "\<exists>json. r = Inr json"
    using assms short s1 unfolding append_pdu_def by (cases r) (simp_all add: bind_apply [of "with_prev_content J R L iter pdu pdu_json"])
  then obtain json where r: "r = Inr json" ..
  note frame = keeps_result [OF keeps_with_prev_content s1]
  let ?s = "s1\<lparr>referencedevents := fold (\<lambda>e. kv_insert (room_id pdu @ e) []) (prev_events pdu) (referencedevents s1),
        roomid_pduleaves := fold (\<lambda>e. kv_insert (room_id pdu @ sep # e) e) leaves
          (kv_remove_prefix (room_id pdu @ [sep]) (roomid_pduleaves s1))\<rparr>"
  define k where "k = to_be_bytes short @ to_be_bytes (count ?s + 4)"
  obtain s2 where s2: "insert_pdu J short pdu json ?s = (Inr k, s2)"
    unfolding k_def by (rule insert_pdu_run)
  have run: "andthen (publish_pdu J R C P L iter short k pdu) (ret k) s2 = (Inr pdu_id, s')"
    using assms s2 unfolding append_pdu_def
    by (simp add: bind_apply [of "with_prev_content J R L iter pdu pdu_json"] short s1 r mark_as_referenced_run set_forward_extremities_run
        bind_apply [of "insert_pdu J short pdu json"])
  obtain r' s3 where s3: "publish_pdu J R C P L iter short k pdu s2 = (r', s3)" by (rule prod.exhaust)
  with run have "k = pdu_id" "publish_pdu J R C P L iter short pdu_id pdu s2 = (Inr (), s')"
    by (cases r'; simp add: andthen_def bind_apply)+
  with short s1 r s2 frame show thesis by (intro that) simp_all
qed

text \<open>The entry that a redaction rewrites.\<close>

definition redacted_id :: "PduEvent \<Rightarrow> 'a timeline_db_scheme \<Rightarrow> bytes option" where
  "redacted_id pdu s =
     (if kind pdu = ascii ''m.room.redaction'' then Option.bind (redacts pdu) (kv_get (eventid_pduid s)) else None)"

lemma publish_pdu_tables:
  assumes "publish_pdu J R C P L iter short pdu_id pdu s = (r, s')"
  shows "room_tables s' = room_tables s"
    and "kv_get (pduid_pdu s') k \<noteq> None \<longleftrightarrow> kv_get (pduid_pdu s) k \<noteq> None"
    and "redacted_id pdu s' \<noteq> Some k \<Longrightarrow> kv_get (pduid_pdu s') k = kv_get (pduid_pdu s) k"
proof -
  have obs: "redact_obs e k s' = redact_obs e k s"
    if "kind pdu = ascii ''m.room.redaction'' \<Longrightarrow> redacts pdu = Some e \<or> redacts pdu = None" for e
    by (rule keeps_result [OF publish_pdu_frame assms], erule redact_obs_coarser)
       (use that keeps_redaction in \<open>auto\<close>)
  let ?e = "case redacts pdu of Some e \<Rightarrow> e | None \<Rightarrow> []"
  have "redact_obs ?e k s' = redact_obs ?e k s" by (rule obs) (auto split: option.split)
  then show tables: "room_tables s' = room_tables s"
    and "kv_get (pduid_pdu s') k \<noteq> None \<longleftrightarrow> kv_get (pduid_pdu s) k \<noteq> None" by (auto simp: redact_obs_def)
  have same: "eventid_pduid s' = eventid_pduid s" using tables by (simp add: room_tables_def)
  show "kv_get (pduid_pdu s') k = kv_get (pduid_pdu s) k" if other: "redacted_id pdu s' \<noteq> Some k"
  proof (cases "kind pdu = ascii ''m.room.redaction'' \<and> redacts pdu \<noteq> None")
    case True
    then obtain e where e: "redacts pdu = Some e" by auto
    with obs [of e] other True same show ?thesis by (auto simp: redact_obs_def redacted_id_def split: if_splits)
  next
    case False
    have "keeps room_obs (publish_pdu J R C P L iter short pdu_id pdu)"
      by (rule publish_pdu_frame) (use False in auto)
    from keeps_result [OF this assms] show ?thesis by (simp add: room_obs_def)
  qed
qed

lemma count_plus:
  assumes "counts_left n s" and "0 < n"
  shows "count s < count s + of_nat n" and "count s \<noteq> -1" and "0 < count s + of_nat n"
proof -
  have "n < 2 ^ 64" using assms by (simp add: counts_left_def)
  then have "unat (of_nat n :: u64) = n" by (simp add: unat_of_nat)
  then have "unat (count s + of_nat n) = unat (count s) + n"
    using assms by (simp add: counts_left_def unat_word_ariths)
  then show "count s < count s + of_nat n" "0 < count s + of_nat n" using assms by (auto simp: word_less_nat_alt)
  show "count s \<noteq> -1" using assms by (auto simp: counts_left_def unsigned_minus_1_eq_mask mask_eq_exp_minus_1)
qed

text \<open>The tables after an append.\<close>

lemma append_pdu_outcome:
  assumes "append_pdu J R C P L iter pdu pdu_json leaves s = (Inr pdu_id, s')"
  obtains short json where "get_shortroomid (room_id pdu) s = Inr (Some short)"
    and "fst (with_prev_content J R L iter pdu pdu_json s) = Inr json"
    and "pdu_id = to_be_bytes short @ to_be_bytes (count s + 4)"
    and "room_tables s' = room_tables (s
       \<lparr>referencedevents := fold (\<lambda>e. kv_insert (room_id pdu @ e) []) (prev_events pdu) (referencedevents s),
        roomid_pduleaves := fold (\<lambda>e. kv_insert (room_id pdu @ sep # e) e) leaves
          (kv_remove_prefix (room_id pdu @ [sep]) (roomid_pduleaves s)),
        eventid_pduid := kv_insert (event_id pdu) pdu_id (eventid_pduid s)\<rparr>)"
    and "\<forall>k. redacted_id pdu s' \<noteq> Some k \<longrightarrow> kv_get (pduid_pdu s') k =
         (if k = pdu_id then Some (json_print J (JObj json)) else kv_get (pduid_pdu s) k)"
    and "\<forall>k. kv_get (pduid_pdu s') k \<noteq> None \<longleftrightarrow> k = pdu_id \<or> kv_get (pduid_pdu s) k \<noteq> None"
proof -
  obtain short json s1 s2 where short: "get_shortroomid (room_id pdu) s = Inr (Some short)"
    and prev: "with_prev_content J R L iter pdu pdu_json s = (Inr json, s1)"
    and s1: "room_obs s1 = room_obs s" "count s1 = count s"
    and insert: "insert_pdu J short pdu json (s1
       \<lparr>referencedevents := fold (\<lambda>e. kv_insert (room_id pdu @ e) []) (prev_events pdu) (referencedevents s1),
        roomid_pduleaves := fold (\<lambda>e. kv_insert (room_id pdu @ sep # e) e) leaves
          (kv_remove_prefix (room_id pdu @ [sep]) (roomid_pduleaves s1))\<rparr>) = (Inr pdu_id, s2)"
      (is "insert_pdu J short pdu json ?s = _")
    and publish: "publish_pdu J R C P L iter short pdu_id pdu s2 = (Inr (), s')"
    by (rule append_pdu_steps [OF assms])
  note pub = publish_pdu_tables [OF publish]
  have count: "count ?s = count s" using s1(2) by (simp add: count_def)
  obtain s3 where s3: "insert_pdu J short pdu json ?s = (Inr (to_be_bytes short @ to_be_bytes (count ?s + 4)), s3)"
    "room_tables s3 = room_tables (?s\<lparr>eventid_pduid :=
       kv_insert (event_id pdu) (to_be_bytes short @ to_be_bytes (count ?s + 4)) (eventid_pduid ?s)\<rparr>)"
    "pduid_pdu s3 = kv_insert (to_be_bytes short @ to_be_bytes (count ?s + 4)) (json_print J (JObj json)) (pduid_pdu ?s)"
    by (rule insert_pdu_run)
  with insert count have id: "pdu_id = to_be_bytes short @ to_be_bytes (count s + 4)" and "s2 = s3" by simp_all
  have stored: "pduid_pdu s2 = kv_insert pdu_id (json_print J (JObj json)) (pduid_pdu s)"
    using s3(3) id count s1(1) \<open>s2 = s3\<close> by (simp add: room_obs_def)
  show thesis
  proof (rule that [OF short _ id])
    show "fst (with_prev_content J R L iter pdu pdu_json s) = Inr json" using prev by simp
    show "room_tables s' = room_tables (s
       \<lparr>referencedevents := fold (\<lambda>e. kv_insert (room_id pdu @ e) []) (prev_events pdu) (referencedevents s),
        roomid_pduleaves := fold (\<lambda>e. kv_insert (room_id pdu @ sep # e) e) leaves
          (kv_remove_prefix (room_id pdu @ [sep]) (roomid_pduleaves s)),
        eventid_pduid := kv_insert (event_id pdu) pdu_id (eventid_pduid s)\<rparr>)"
      using pub(1) s3(2) id count s1(1) \<open>s2 = s3\<close> by (simp add: obs_simps)
    show "\<forall>k. redacted_id pdu s' \<noteq> Some k \<longrightarrow> kv_get (pduid_pdu s') k =
         (if k = pdu_id then Some (json_print J (JObj json)) else kv_get (pduid_pdu s) k)"
      using pub(3) by (simp add: stored)
    show "\<forall>k. kv_get (pduid_pdu s') k \<noteq> None \<longleftrightarrow> k = pdu_id \<or> kv_get (pduid_pdu s) k \<noteq> None"
      using pub(2) by (simp add: stored)
  qed
qed

lemma distinct_singleton_set:
  assumes "distinct xs" and "set xs = {x}"
  shows "xs = [x]"
proof -
  have "length xs = Suc 0" using distinct_card [OF assms(1)] assms(2) by simp
  then obtain y where "xs = [y]" by (auto simp: length_Suc_conv)
  with assms(2) show ?thesis by simp
qed

lemma old_pdu_id:
  assumes "timeline_ok s" and "kv_get (pduid_pdu s) k \<noteq> None" and "prefix (to_be_bytes short) k"
  obtains n where "k = to_be_bytes short @ to_be_bytes n" and "n \<le> count s"
proof -
  from assms obtain v n where "kv_get (pduid_pdu s) k = Some v" "k = to_be_bytes short @ to_be_bytes n"
    using pdu_key_of_room unfolding timeline_ok_def by blast
  with assms(1) that show thesis by (auto simp: timeline_ok_def)
qed

text \<open>What a sync from the count before an append sees.\<close>

lemma since_new_event:
  assumes "timeline_ok s" and "get_shortroomid room s' = Inr (Some short)"
    and "pdu_id = to_be_bytes short @ to_be_bytes c \<and> count s < c \<and> 0 < c" and "count s \<noteq> -1"
    and "\<forall>k. kv_get (pduid_pdu s') k \<noteq> None \<longleftrightarrow> k = pdu_id \<or> kv_get (pduid_pdu s) k \<noteq> None"
  shows "\<exists>v. kv_get (pduid_pdu s') pdu_id = Some v \<and>
    pdus_since J R user room (count s) s' = Inr [timeline_entry J R user (pdu_id, v)]"
proof -
  let ?es = "takeWhile (\<lambda>e. prefix (to_be_bytes short) (fst e))
      (kv_iter_from (to_be_bytes short @ to_be_bytes (count s + 1)) False (pduid_pdu s'))"
  obtain v where v: "kv_get (pduid_pdu s') pdu_id = Some v" using assms(5) [rule_format, of pdu_id] by auto
  have keys: "pdu_keys_ok s'"
    unfolding pdu_keys_ok_def
  proof (intro allI impI)
    fix k v'
    assume "kv_get (pduid_pdu s') k = Some v'"
    with assms(5) [rule_format, of k] have "k = pdu_id \<or> kv_get (pduid_pdu s) k \<noteq> None" by simp
    with assms(1,3) show "\<exists>r n. k = to_be_bytes r @ to_be_bytes n \<and> 0 < n"
      by (auto simp: timeline_ok_def pdu_keys_ok_def)
  qed
  note range = since_range [OF keys assms(4), where r = short]
  have "(k, v') \<in> set ?es \<longleftrightarrow> k = pdu_id \<and> v' = v" for k v'
  proof
    assume "(k, v') \<in> set ?es"
    then obtain n where k: "kv_get (pduid_pdu s') k = Some v'" "k = to_be_bytes short @ to_be_bytes n" "count s < n"
      unfolding range(2) by auto
    then have "kv_get (pduid_pdu s) k = None" using assms(1) unfolding timeline_ok_def by (meson leD)
    with k assms(5) [rule_format, of k] have "k = pdu_id" by simp
    with k(1) v show "k = pdu_id \<and> v' = v" by simp
  qed (use v assms(3) range(2) in auto)
  then have "set ?es = {(pdu_id, v)}" by auto
  moreover have "distinct (map fst ?es)" using range(1) by (simp add: strict_sorted_iff)
  ultimately have "?es = [(pdu_id, v)]" using distinct_singleton_set by (simp add: distinct_map)
  then have "pdus_since J R user room (count s) s' = Inr [timeline_entry J R user (pdu_id, v)]"
    by (simp add: pdus_since_def room_prefix_def assms(2) ok_or_def Let_def)
  with v show ?thesis by blast
qed

lemma append_pdu_facts:
  assumes "append_pdu J R C P L iter pdu pdu_json leaves s = (Inr pdu_id, s')"
    and "timeline_ok s" and "counts_left 4 s" and "\<forall>e \<in> set leaves. utf8_valid e \<and> is_event_id R e"
  shows "\<exists>short json. get_shortroomid (room_id pdu) s = Inr (Some short) \<and>
      fst (with_prev_content J R L iter pdu pdu_json s) = Inr json \<and>
      pdu_id = to_be_bytes short @ to_be_bytes (count s + 4) \<and>
      (\<forall>k. kv_get (pduid_pdu s) k \<noteq> None \<and> prefix (to_be_bytes short) k \<longrightarrow> k < pdu_id) \<and>
      (\<forall>k. redacted_id pdu s' \<noteq> Some k \<longrightarrow> kv_get (pduid_pdu s') k =
         (if k = pdu_id then Some (json_print J (JObj json)) else kv_get (pduid_pdu s) k)) \<and>
      (\<forall>k. kv_get (pduid_pdu s') k \<noteq> None \<longleftrightarrow> k = pdu_id \<or> kv_get (pduid_pdu s) k \<noteq> None)"
    and "get_pdu_id e s' = (if e = event_id pdu then Inr (Some pdu_id) else get_pdu_id e s)"
    and "get_forward_extremities R (room_id pdu) s' = Inr (set leaves)"
    and "p \<in> set (prev_events pdu) \<Longrightarrow> is_event_referenced (room_id pdu) p s' = Inr True"
    and "\<exists>v. kv_get (pduid_pdu s') pdu_id = Some v \<and>
      pdus_since J R user (room_id pdu) (count s) s' = Inr [timeline_entry J R user (pdu_id, v)]"
proof -
  obtain short json where out: "get_shortroomid (room_id pdu) s = Inr (Some short)"
    "fst (with_prev_content J R L iter pdu pdu_json s) = Inr json"
    "pdu_id = to_be_bytes short @ to_be_bytes (count s + 4)"
    "room_tables s' = room_tables (s
       \<lparr>referencedevents := fold (\<lambda>e. kv_insert (room_id pdu @ e) []) (prev_events pdu) (referencedevents s),
        roomid_pduleaves := fold (\<lambda>e. kv_insert (room_id pdu @ sep # e) e) leaves
          (kv_remove_prefix (room_id pdu @ [sep]) (roomid_pduleaves s)),
        eventid_pduid := kv_insert (event_id pdu) pdu_id (eventid_pduid s)\<rparr>)"
    "\<forall>k. redacted_id pdu s' \<noteq> Some k \<longrightarrow> kv_get (pduid_pdu s') k =
         (if k = pdu_id then Some (json_print J (JObj json)) else kv_get (pduid_pdu s) k)"
    "\<forall>k. kv_get (pduid_pdu s') k \<noteq> None \<longleftrightarrow> k = pdu_id \<or> kv_get (pduid_pdu s) k \<noteq> None"
    by (rule append_pdu_outcome [OF assms(1)])
  note grows = count_plus [OF assms(3), simplified]
  have last: "k < pdu_id" if "kv_get (pduid_pdu s) k \<noteq> None" "prefix (to_be_bytes short) k" for k
  proof -
    note old = that
    obtain n where "k = to_be_bytes short @ to_be_bytes n" "n \<le> count s" by (rule old_pdu_id [OF assms(2) old])
    with le_less_trans [OF _ grows(1)] show ?thesis by (simp add: out(3))
  qed
  show "\<exists>short json. get_shortroomid (room_id pdu) s = Inr (Some short) \<and>
      fst (with_prev_content J R L iter pdu pdu_json s) = Inr json \<and>
      pdu_id = to_be_bytes short @ to_be_bytes (count s + 4) \<and>
      (\<forall>k. kv_get (pduid_pdu s) k \<noteq> None \<and> prefix (to_be_bytes short) k \<longrightarrow> k < pdu_id) \<and>
      (\<forall>k. redacted_id pdu s' \<noteq> Some k \<longrightarrow> kv_get (pduid_pdu s') k =
         (if k = pdu_id then Some (json_print J (JObj json)) else kv_get (pduid_pdu s) k)) \<and>
      (\<forall>k. kv_get (pduid_pdu s') k \<noteq> None \<longleftrightarrow> k = pdu_id \<or> kv_get (pduid_pdu s) k \<noteq> None)"
    by (rule exI [of _ short], rule exI [of _ json], intro conjI out(1-3,5,6)) (use last in blast)
  show "get_pdu_id e s' = (if e = event_id pdu then Inr (Some pdu_id) else get_pdu_id e s)"
    using out(4) by (simp add: room_tables_def get_pdu_id_def)
  show "get_forward_extremities R (room_id pdu) s' = Inr (set leaves)"
    by (rule forward_extremities_set [OF assms(4), of _ _ "roomid_pduleaves s"]) (use out(4) in \<open>simp add: room_tables_def\<close>)
  show "is_event_referenced (room_id pdu) p s' = Inr True" if "p \<in> set (prev_events pdu)"
    using out(4) that by (simp add: room_tables_def is_event_referenced_def kv_get_referenced)
  show "\<exists>v. kv_get (pduid_pdu s') pdu_id = Some v \<and>
      pdus_since J R user (room_id pdu) (count s) s' = Inr [timeline_entry J R user (pdu_id, v)]"
    by (rule since_new_event [OF assms(2) _ _ grows(2) out(6)])
       (use out(1,3,4) grows(1,3) in \<open>simp_all add: room_tables_def get_shortroomid_def\<close>)
qed

text \<open>C9: An event that is appended becomes the last event of its room: its id is larger than every id
  of the room, the event can be found under its event id, the leaves of the room are the given ones and its predecessors count as
  referenced. A sync from the count before the append returns this event and no other. All other events stay
  as they were, except that a redaction may rewrite the event it names.\<close>

theorem append_pdu_files_event:
  assumes "append_pdu J R C P L iter pdu pdu_json leaves s = (Inr pdu_id, s')"
    and "timeline_ok s" and "counts_left 4 s" and "\<forall>e \<in> set leaves. utf8_valid e \<and> is_event_id R e"
  shows "(\<exists>short json. get_shortroomid (room_id pdu) s = Inr (Some short) \<and>
      fst (with_prev_content J R L iter pdu pdu_json s) = Inr json \<and>
      pdu_id = to_be_bytes short @ to_be_bytes (count s + 4) \<and>
      (\<forall>k. kv_get (pduid_pdu s) k \<noteq> None \<and> prefix (to_be_bytes short) k \<longrightarrow> k < pdu_id) \<and>
      (\<forall>k. redacted_id pdu s' \<noteq> Some k \<longrightarrow> kv_get (pduid_pdu s') k =
         (if k = pdu_id then Some (json_print J (JObj json)) else kv_get (pduid_pdu s) k)) \<and>
      (\<forall>k. kv_get (pduid_pdu s') k \<noteq> None \<longleftrightarrow> k = pdu_id \<or> kv_get (pduid_pdu s) k \<noteq> None)) \<and>
    (\<forall>e. get_pdu_id e s' = (if e = event_id pdu then Inr (Some pdu_id) else get_pdu_id e s)) \<and>
    get_forward_extremities R (room_id pdu) s' = Inr (set leaves) \<and>
    (\<forall>p. p \<in> set (prev_events pdu) \<longrightarrow> is_event_referenced (room_id pdu) p s' = Inr True) \<and>
    (\<forall>user. \<exists>v. kv_get (pduid_pdu s') pdu_id = Some v \<and>
      pdus_since J R user (room_id pdu) (count s) s' = Inr [timeline_entry J R user (pdu_id, v)])"
  using append_pdu_facts(1) [OF assms]
  by (rule conjI) (intro conjI allI impI append_pdu_facts(2-) [OF assms])

definition services_init :: "servername \<Rightarrow> config \<Rightarrow> services_db" where
  "services_init name cfg = sending_db.extend (sending_init name) \<lparr>services_db.config = cfg, admin_channel = []\<rparr>"

lemmas services_init_defs = services_init_def sending_db.defs sending_init_defs

definition example_event_lib :: event_lib where
  "example_event_lib =
     \<lparr>canonical_map = Some, push_rules_of = (\<lambda>_. None), server_default_rules = (\<lambda>_. JNull),
      user_with_server_name = (\<lambda>_ _. None), regex_new = (\<lambda>_. None), auth_types_for_event = (\<lambda>_ _ _ _. Some []),
      auth_check = (\<lambda>_ _ _. Some True), room_version_known = (\<lambda>_. True), hash_and_sign_event = (\<lambda>_ ob _. Inr ob),
      reference_hash = (\<lambda>_ _. Some (ascii ''e'')), uint_succ = Suc, values_of = (\<lambda>_. []), alphanumeric = (\<lambda>_. True),
      lowercase = (\<lambda>w. w), yaml_from_slice = (\<lambda>_. None), alias_localpart = (\<lambda>a. a)\<rparr>"

definition example_push :: push_lib where
  "example_push =
     \<lparr>power_levels_of = Some, default_power_levels = JNull, room_name_of = (\<lambda>_. None), user_localpart = (\<lambda>u. u),
      ruleset_actions = (\<lambda>_ _ _. [])\<rparr>"

text \<open>A server with one known room that has no members here.\<close>

definition example_server :: services_db where
  "example_server = (snd (get_or_create_shortroomid (ascii ''!r:h'') (services_init (ascii ''h'') default_config)))
     \<lparr>our_real_users_cache := (\<lambda>_. None)(ascii ''!r:h'' \<mapsto> {})\<rparr>"

lemma example_server_fields [simp]:
  "count example_server = 1" "get_shortroomid (ascii ''!r:h'') example_server = Inr (Some 1)"
  "pduid_pdu example_server = kv_empty" "eventid_pduid example_server = kv_empty"
  "kv_get (roomid_shortstatehash example_server) k = None"
  "our_real_users_cache example_server (ascii ''!r:h'') = Some {}"
  "id_appserviceregistrations example_server = kv_empty"
  by (simp_all add: example_server_def get_or_create_shortroomid_def bump_def bind_apply services_init_defs
      get_shortroomid_def count_def counter_at_def)

definition example_topic :: PduEvent where
  "example_topic = example_pdu\<lparr>kind := ascii ''m.room.topic'', state_key := None\<rparr>"

lemma no_appservices: "id_appserviceregistrations s = kv_empty \<Longrightarrow> all_appservices parse s = Inr []"
  by (simp add: all_appservices_def appservice_ids_def kv_iter_def kv_empty_def map_filter_simps)

lemma publish_quiet:
  assumes "kv_get (roomid_shortstatehash s) (room_id pdu) = None" and "our_real_users_cache s (room_id pdu) = Some {}"
    and "id_appserviceregistrations s = kv_empty" and "kind pdu = ascii ''m.room.topic''" and "iter {} = []"
  shows "\<exists>s'. publish_pdu J R C P L iter short pdu_id pdu s = (Inr (), s')"
  using assms
  by (simp add: publish_pdu_def room_power_levels_def room_state_get_def get_room_shortstatehash_def get_our_real_users_def
      increment_notification_counts_def append_effects_def no_appservices ascii_simps)

lemma append_quiet:
  assumes "kv_get (roomid_shortstatehash s) (room_id pdu) = None" and "our_real_users_cache s (room_id pdu) = Some {}"
    and "id_appserviceregistrations s = kv_empty" and "kind pdu = ascii ''m.room.topic''" and "iter {} = []"
    and "with_prev_content J R L iter pdu pdu_json s = (Inr json, s)" and "get_shortroomid (room_id pdu) s = Inr (Some short)"
  shows "\<exists>s'. append_pdu J R C P L iter pdu pdu_json leaves s = (Inr (to_be_bytes short @ to_be_bytes (count s + 4)), s')"
proof -
  let ?f = "\<lambda>s. (roomid_shortstatehash s, our_real_users_cache s, id_appserviceregistrations s)"
  have quiet: "keeps ?f (insert_pdu J short pdu json)" for json
    unfolding insert_pdu_def private_read_set_def reset_notification_counts_def append_pdu_db_def Let_def
    by (intro keeps_intros) simp_all
  let ?s = "s\<lparr>referencedevents := fold (\<lambda>e. kv_insert (room_id pdu @ e) []) (prev_events pdu) (referencedevents s),
        roomid_pduleaves := fold (\<lambda>e. kv_insert (room_id pdu @ sep # e) e) leaves
          (kv_remove_prefix (room_id pdu @ [sep]) (roomid_pduleaves s))\<rparr>"
  obtain s2 where s2: "insert_pdu J short pdu json ?s = (Inr (to_be_bytes short @ to_be_bytes (count ?s + 4)), s2)"
    by (rule insert_pdu_run)
  from keeps_result [OF quiet s2] have "kv_get (roomid_shortstatehash s2) (room_id pdu) = None"
    "our_real_users_cache s2 (room_id pdu) = Some {}" "id_appserviceregistrations s2 = kv_empty" using assms(1-3) by simp_all
  from publish_quiet [where iter = iter, OF this assms(4,5)]
  have "\<exists>s3. publish_pdu J R C P L iter short (to_be_bytes short @ to_be_bytes (count ?s + 4)) pdu s2 = (Inr (), s3)" .
  then obtain s3 where s3: "publish_pdu J R C P L iter short (to_be_bytes short @ to_be_bytes (count ?s + 4)) pdu s2 = (Inr (), s3)" ..
  have count: "count ?s = count s" by (simp add: count_def)
  show ?thesis
    by (rule exI [of _ s3])
       (use s2 s3 in \<open>simp add: append_pdu_def assms(6,7) mark_as_referenced_run set_forward_extremities_run
          bind_apply [of "insert_pdu J short pdu json"] count\<close>)
qed

theorem append_pdu_files_event_witness:
  "\<exists>s' v. append_pdu example_serde example_ruma example_contents example_push example_event_lib sorted_list_of_set
     example_topic [] [ascii ''$e''] example_server = (Inr (to_be_bytes 1 @ to_be_bytes 5), s') \<and>
   get_pdu_id (ascii ''$e'') s' = Inr (Some (to_be_bytes 1 @ to_be_bytes 5)) \<and>
   get_forward_extremities example_ruma (ascii ''!r:h'') s' = Inr {ascii ''$e''} \<and>
   is_event_referenced (ascii ''!r:h'') (ascii ''$p'') s' = Inr True \<and>
   pdus_since example_serde example_ruma (ascii ''@u:h'') (ascii ''!r:h'') 1 s' =
     Inr [timeline_entry example_serde example_ruma (ascii ''@u:h'') (to_be_bytes 1 @ to_be_bytes 5, v)]"
proof -
  have pdu: "room_id example_topic = ascii ''!r:h''" "event_id example_topic = ascii ''$e''" "state_key example_topic = None"
    "kind example_topic = ascii ''m.room.topic''" "prev_events example_topic = [ascii ''$p'']"
    by (simp_all add: example_topic_def example_pdu_def)
  have "\<exists>s'. append_pdu example_serde example_ruma example_contents example_push example_event_lib sorted_list_of_set
      example_topic [] [ascii ''$e''] example_server = (Inr (to_be_bytes 1 @ to_be_bytes (count example_server + 4)), s')"
    by (rule append_quiet) (simp_all add: pdu with_prev_content_def)
  then obtain s' where run: "append_pdu example_serde example_ruma example_contents example_push example_event_lib
      sorted_list_of_set example_topic [] [ascii ''$e''] example_server = (Inr (to_be_bytes 1 @ to_be_bytes 5), s')"
    by (elim exE) simp
  have ok: "timeline_ok example_server" "counts_left 4 example_server"
    "\<forall>e \<in> set [ascii ''$e'']. utf8_valid e \<and> is_event_id example_ruma e"
    by (simp_all add: timeline_ok_def pdu_keys_ok_def counts_left_def utf8_valid_ascii) (simp add: example_ruma_def ascii_simps)
  note all = append_pdu_files_event [OF run ok]
  note filed = spec [OF conjunct1 [OF conjunct2 [OF all]]] conjunct1 [OF conjunct2 [OF conjunct2 [OF all]]]
    conjunct1 [OF conjunct2 [OF conjunct2 [OF conjunct2 [OF all]]]] conjunct2 [OF conjunct2 [OF conjunct2 [OF conjunct2 [OF all]]]]
  obtain v where "pdus_since example_serde example_ruma (ascii ''@u:h'') (ascii ''!r:h'') 1 s' =
     Inr [timeline_entry example_serde example_ruma (ascii ''@u:h'') (to_be_bytes 1 @ to_be_bytes 5, v)]"
    using spec [OF filed(4), of "ascii ''@u:h''"] by (auto simp: pdu)
  with run filed(1) [of "ascii ''$e''"] filed(2) spec [OF filed(3), of "ascii ''$p''"] show ?thesis
    by (intro exI [of _ s'] exI [of _ v]) (simp add: pdu)
qed

end
