(* ===== verification/NewEvents.thy ===== *)
theory NewEvents
  imports TimelineService
begin

text \<open>
  What becomes of an event that this server creates: the reads that prepare it leave the state tables
  intact, so that \<^const>\<open>build_and_append_pdu\<close> is the abstract step of the room's state map, and the event is filed and queued
  for every other server of the room.
\<close>

section \<open>Reads of the state\<close>

text \<open>An operation that reads states may fill caches, but keeps what the state tables say and draws no count.\<close>

named_theorems reading_intros \<open>rules that an operation only reads states\<close>

definition reading :: "('a accessor_db_scheme, 'b) dop \<Rightarrow> bool" where
  "reading p \<longleftrightarrow> (\<forall>s. compressor_inv s \<longrightarrow> persists s (snd (p s)) \<and> count (snd (p s)) = count s)"

lemma readingD:
  assumes "reading p" and "p s = (r, s')" and "compressor_inv s"
  shows "persists s s'" and "count s' = count s"
  using assms unfolding reading_def by (metis snd_conv)+

lemma reading_basic [reading_intros]:
  "reading (ret x)" "reading (fail e)" "reading (gets g)" "reading (reads g')" "reading (of_res r)"
  by (simp_all add: reading_def persists_refl)

lemma reading_bind [reading_intros]:
  fixes p :: "('a accessor_db_scheme, 'b) dop"
  assumes "reading p" and "\<And>x. reading (k x)"
  shows "reading (bind p k)"
  unfolding reading_def
proof (intro allI impI)
  fix s :: "'a accessor_db_scheme"
  assume inv: "compressor_inv s"
  obtain r s1 where s1: "p s = (r, s1)" by (rule prod.exhaust)
  note one = readingD [OF assms(1) s1 inv]
  show "persists s (snd (bind p k s)) \<and> count (snd (bind p k s)) = count s"
  proof (cases r)
    case (Inr x)
    obtain r' s2 where s2: "k x s1 = (r', s2)" by (rule prod.exhaust)
    from readingD [OF assms(2) s2 persistsD(1) [OF one(1)]] one s1 s2 Inr show ?thesis
      using persists_trans by (simp add: bind_apply) blast
  qed (use one s1 in \<open>simp add: bind_apply\<close>)
qed

lemma reading_andthen [reading_intros]: "reading p \<Longrightarrow> reading q \<Longrightarrow> reading (andthen p q)"
  unfolding andthen_def by (rule reading_bind)

lemma reading_attempt [reading_intros]: "reading p \<Longrightarrow> reading (attempt p)"
  by (simp add: reading_def attempt_apply)

lemma reading_cases [reading_intros]:
  "reading p \<Longrightarrow> reading q \<Longrightarrow> reading (if b then p else q)"
  "reading p \<Longrightarrow> (\<And>x. reading (k x)) \<Longrightarrow> reading (case v of None \<Rightarrow> p | Some x \<Rightarrow> k x)"
  "(\<And>x. reading (m x)) \<Longrightarrow> (\<And>x. reading (m' x)) \<Longrightarrow> reading (case w of Inl x \<Rightarrow> m x | Inr x \<Rightarrow> m' x)"
  "(\<And>x y. reading (k' x y)) \<Longrightarrow> reading (case u of (x, y) \<Rightarrow> k' x y)"
  by (simp_all split: option.split sum.split prod.split)

lemma reading_catching [reading_intros]: "reading p \<Longrightarrow> reading (catching p)"
  unfolding catching_def by (intro reading_intros)

lemma reading_modify:
  assumes "\<And>s. compressor_inv s \<Longrightarrow> compressor_inv (f s)"
    and "\<And>s. eventid_shorteventid (f s) = eventid_shorteventid s" and "\<And>s. statekey_shortstatekey (f s) = statekey_shortstatekey s"
    and "\<And>s. shortstatehash_statediff (f s) = shortstatehash_statediff s"
    and "\<And>s. roomid_shortstatehash (f s) = roomid_shortstatehash s" and "\<And>s. count (f s) = count s"
  shows "reading (modify f)"
  using assms by (simp add: reading_def persists_def)

lemma reading_full_state [reading_intros]: "reading (full_state h :: ('a accessor_db_scheme, _) dop)"
  unfolding reading_def
proof (intro allI impI)
  fix s :: "'a accessor_db_scheme"
  assume inv: "compressor_inv s"
  show "persists s (snd (full_state h s)) \<and> count (snd (full_state h s)) = count s"
  proof (cases "diff_at (shortstatehash_statediff s) h")
    case None
    have "stateinfo_cache s h = None"
    proof (rule ccontr)
      assume "stateinfo_cache s h \<noteq> None"
      then obtain st where "layers (shortstatehash_statediff s) h st"
        using compressor_invD(2) [OF inv] by (auto simp: cache_ok_def)
      from layers_diff_at [OF this] None show False by simp
    qed
    moreover have "\<exists>e. get_statediff h s = Inl e"
      using None by (cases "kv_get (shortstatehash_statediff s) (to_be_bytes h)")
        (auto simp: diff_at_def get_statediff_def res_ok_def ok_or_def split: sum.splits)
    then obtain e where "get_statediff h s = Inl e" ..
    ultimately have "full_state h s = (Inl e, s)"
      by (simp add: full_state_def load_shortstatehash_info_def bind_apply)
    then show ?thesis using persists_refl [OF inv] by simp
  next
    case (Some d)
    then obtain st where "layers (shortstatehash_statediff s) h st"
      using states_okD(4) [OF compressor_invD(3) [OF inv]] by blast
    then have "has_state s h (layer_state (last st))" by (auto simp: has_state_def)
    from full_state_eq [OF inv this] obtain c where
      c: "full_state h s = (Inr (layer_state (last st)), s\<lparr>stateinfo_cache := c\<rparr>)" "compressor_inv (s\<lparr>stateinfo_cache := c\<rparr>)" .
    then have "cache_ok (s\<lparr>stateinfo_cache := c\<rparr>)" using compressor_invD(2) by blast
    from persists_cache [OF inv this] c(1) show ?thesis by (simp add: count_def)
  qed
qed

lemma reading_get_shortstatekey [reading_intros]: "reading (get_shortstatekey ty key :: ('a accessor_db_scheme, _) dop)"
  unfolding reading_def
proof (intro allI impI)
  fix s :: "'a accessor_db_scheme"
  assume inv: "compressor_inv s"
  from get_shortstatekey_eq [OF compressor_invD(1) [OF inv], of ty key] obtain s' where
    s': "get_shortstatekey ty key s = (Inr (id_of (statekey_shortstatekey s) (statekey_enc (ty, key))), s')"
      "short_inv s'" "s' = s \<or> (\<exists>n. s' = statekey_known (ty, key) n s)"
    by (elim exE conjE)
  have "persists s s'"
    by (rule persists_short [OF inv s'(2)]) (use s'(3) in \<open>auto simp: statekey_known_def\<close>)
  moreover have "count s' = count s" using s'(3) by (auto simp: statekey_known_def)
  ultimately show "persists s (snd (get_shortstatekey ty key s)) \<and> count (snd (get_shortstatekey ty key s)) = count s"
    using s'(1) by simp
qed

lemma short_inv_eventid_cached:
  assumes "short_inv s" and "kv_get (shorteventid_eventid s) (to_be_bytes n) = Some e"
  shows "short_inv (s\<lparr>shorteventid_cache := (shorteventid_cache s)(n \<mapsto> e)\<rparr>)"
  using assms by (auto simp: short_inv_def rev_coherent_def count_def)

lemma reading_get_eventid [reading_intros]: "reading (get_eventid_from_short R n :: ('a accessor_db_scheme, _) dop)"
  unfolding reading_def
proof (intro allI impI)
  fix s :: "'a accessor_db_scheme"
  assume inv: "compressor_inv s"
  let ?s = "\<lambda>e. s\<lparr>shorteventid_cache := (shorteventid_cache s)(n \<mapsto> e)\<rparr>"
  have "snd (get_eventid_from_short R n s) = s \<or>
      (\<exists>e. kv_get (shorteventid_eventid s) (to_be_bytes n) = Some e \<and> snd (get_eventid_from_short R n s) = ?s e)"
    by (cases "shorteventid_cache s n"; cases "kv_get (shorteventid_eventid s) (to_be_bytes n)")
       (simp_all add: get_eventid_from_short_def bind_apply ok_or_def id_from_bytes_def parse_id_def string_from_bytes_def)
  moreover have "persists s (?s e) \<and> count (?s e) = count s"
    if "kv_get (shorteventid_eventid s) (to_be_bytes n) = Some e" for e
    using persists_short [OF inv short_inv_eventid_cached [OF compressor_invD(1) [OF inv] that]] by (simp add: count_def)
  ultimately show "persists s (snd (get_eventid_from_short R n s)) \<and> count (snd (get_eventid_from_short R n s)) = count s"
    using persists_refl [OF inv] by auto
qed

lemma reading_parse [reading_intros]: "reading (parse_compressed_state_event R c)"
  unfolding parse_compressed_state_event_def by (intro reading_intros)

lemma compressor_inv_pdu_cache [simp]: "compressor_inv (s\<lparr>pdu_cache := c\<rparr>) = compressor_inv s"
  by (simp add: compressor_inv_def cache_ok_def short_inv_def count_def)

lemma reading_get_pdu [reading_intros]: "reading (get_pdu J R e)"
  unfolding get_pdu_def by (intro reading_intros reading_modify) (simp_all add: count_def)

lemma reading_state_get [reading_intros]: "reading (state_get J R iter h ty key)"
  unfolding state_get_def state_get_id_def by (intro reading_intros)

lemma reading_room_state_get [reading_intros]: "reading (room_state_get J R iter room ty key)"
  unfolding room_state_get_def by (intro reading_intros)

lemma reading_short_auth_keys [reading_intros]: "reading (short_auth_keys tks)"
  by (induction tks rule: short_auth_keys.induct; simp only: short_auth_keys.simps; intro reading_intros)

lemma reading_auth_event_pdus [reading_intros]: "reading (auth_event_pdus J R m ces)"
  by (induction ces arbitrary: m; simp only: auth_event_pdus.simps; intro reading_intros)

lemma reading_get_auth_events [reading_intros]: "reading (get_auth_events J R iter types room ty u key body)"
  unfolding get_auth_events_def by (intro reading_intros)

lemma reading_known_depths [reading_intros]: "reading (known_depths J R es)"
  by (induction es; simp only: known_depths.simps; intro reading_intros)

lemma reading_new_unsigned [reading_intros]: "reading (new_unsigned J R iter room b)"
  unfolding new_unsigned_def Let_def by (intro reading_intros)

lemma reading_room_version [reading_intros]: "reading (room_version_for_new J R C iter room)"
  unfolding room_version_for_new_def by (intro reading_intros)

section \<open>Queueing for other servers\<close>

lemma send_pdu_run:
  obtains s' where "send_pdu servers pdu_id s = (Inr (), s')"
    and "\<forall>server \<in> set servers. \<exists>key. (Normal server, SendPdu pdu_id, key) \<in> set (sending_channel s') \<and>
      kv_get (servernameevent_data s') key \<noteq> None"
proof -
  let ?key = "\<lambda>server. get_prefix (Normal server) @ pdu_id"
  let ?reqs = "map (\<lambda>server. (Normal server, SendPdu pdu_id)) servers"
  have keys: "request_keys ?reqs s = (Inr (map ?key servers), s)" for s :: "'a sending_db_scheme"
    by (induction servers) (simp_all add: request_key_def)
  have msgs: "for_each xs (\<lambda>((k, e), key). send_message (k, e, key)) s =
      (Inr (), s\<lparr>sending_channel := sending_channel s @ map (\<lambda>((k, e), key). (k, e, key)) xs\<rparr>)"
    for xs and s :: "'a sending_db_scheme"
    by (induction xs arbitrary: s) (auto simp: send_message_def)
  let ?t = "kv_insert_batch (zip (map ?key servers) (map (\<lambda>(_, e). stored_value e) ?reqs)) (servernameevent_data s)"
  let ?msgs = "map (\<lambda>((k, e), key). (k, e, key)) (zip ?reqs (map ?key servers))"
  let ?s = "s\<lparr>servernameevent_data := ?t, sending_channel := sending_channel s @ ?msgs\<rparr>"
  show thesis
  proof (rule that [of ?s])
    show "send_pdu servers pdu_id s = (Inr (), ?s)"
      by (simp add: send_pdu_def Let_def queue_requests_def keys msgs del: map_map)
    show "\<forall>server \<in> set servers. \<exists>key. (Normal server, SendPdu pdu_id, key) \<in> set (sending_channel ?s) \<and>
      kv_get (servernameevent_data ?s) key \<noteq> None"
    proof
      fix server
      assume server: "server \<in> set servers"
      have "(Normal server, SendPdu pdu_id, ?key server) \<in> set ?msgs"
        using server by (force simp: zip_map_map zip_same_conv_map)
      moreover have "map_of (rev (zip (map ?key servers) (map (\<lambda>(_, e). stored_value e) ?reqs))) (?key server) \<noteq> None"
        using server by (simp add: map_of_eq_None_iff zip_map_map zip_same_conv_map image_image rev_map [symmetric] set_rev)
      ultimately show "\<exists>key. (Normal server, SendPdu pdu_id, key) \<in> set (sending_channel ?s) \<and>
        kv_get (servernameevent_data ?s) key \<noteq> None"
        by (intro exI [of _ "?key server"]) (auto simp: kv_get_insert_batch)
    qed
  qed
qed

section \<open>Creating an event\<close>

lemma hash_and_sign_ok:
  assumes "hash_and_sign R L v pdu0 s = (Inr (pdu, json), s')"
  obtains e n where "is_event_id R e" and "pdu = pdu0\<lparr>event_id := e\<rparr>"
    and "get_or_create_shorteventid e s = (Inr n, s')"
proof -
  obtain ob where ob: "to_canonical_object L (json_of_pdu pdu0) = Some ob"
    using assms by (cases "to_canonical_object L (json_of_pdu pdu0)") (simp_all add: hash_and_sign_def ok_or_def)
  let ?ob = "obj_insert (ascii ''origin'') (JStr (server_name s)) (obj_remove (ascii ''event_id'') ob)"
  obtain sig where sig: "hash_and_sign_event L (server_name s) ?ob v = Inr sig"
    using assms ob by (cases "hash_and_sign_event L (server_name s) ?ob v")
      (auto simp: hash_and_sign_def ok_or_def Let_def split: sign_error.splits)
  obtain hash where hash: "reference_hash L sig v = Some hash"
    using assms ob sig by (cases "reference_hash L sig v") (simp_all add: hash_and_sign_def ok_or_def Let_def)
  let ?e = "ascii ''$'' @ hash"
  have ok: "is_event_id R ?e"
    and run: "andthen (get_or_create_shorteventid ?e)
      (ret (pdu0\<lparr>event_id := ?e\<rparr>, obj_insert (ascii ''event_id'') (JStr ?e) sig)) s = (Inr (pdu, json), s')"
    using assms ob sig hash by (simp_all add: hash_and_sign_def ok_or_def Let_def split: if_splits)
  from run obtain n s1 where "get_or_create_shorteventid ?e s = (Inr n, s1)"
    "(pdu0\<lparr>event_id := ?e\<rparr>, obj_insert (ascii ''event_id'') (JStr ?e) sig) = (pdu, json)" "s1 = s'"
    by (elim andthen_InrE) simp
  with ok show thesis by (intro that) auto
qed

lemma reading_prepare_event [reading_intros]: "reading (prepare_event J R C L iter now b u room)"
  unfolding prepare_event_def Let_def by (intro reading_intros)

text \<open>What every returned value satisfies, whatever the state.\<close>

definition returning :: "('s, 'a) dop \<Rightarrow> ('a \<Rightarrow> bool) \<Rightarrow> bool" where
  "returning p Q \<longleftrightarrow> (\<forall>s x s'. p s = (Inr x, s') \<longrightarrow> Q x)"

lemma returningD: "returning p Q \<Longrightarrow> p s = (Inr x, s') \<Longrightarrow> Q x"
  unfolding returning_def by blast

lemma returning_fail: "returning (fail e) Q"
  by (simp add: returning_def)

lemma returning_ret: "Q x \<Longrightarrow> returning (ret x) Q"
  by (simp add: returning_def)

lemma returning_bind: "(\<And>x. returning (k x) Q) \<Longrightarrow> returning (bind p k) Q"
  unfolding returning_def by (blast elim: bind_InrE)

lemma returning_of_res: "(\<And>x. r = Inr x \<Longrightarrow> returning (k x) Q) \<Longrightarrow> returning (bind (of_res r) k) Q"
  unfolding returning_def by (cases r) auto

lemma returning_if: "(c \<Longrightarrow> returning p Q) \<Longrightarrow> (\<not> c \<Longrightarrow> returning q Q) \<Longrightarrow> returning (if c then p else q) Q"
  by simp

lemmas returning_intros = returning_fail returning_ret returning_of_res returning_bind returning_if

text \<open>Only what the authorization rules allow is signed.\<close>

lemma ok_or_allowed: "ok_or e m = Inr x \<Longrightarrow> \<not> \<not> x \<Longrightarrow> m = Some True"
  by (simp add: ok_or_def split: option.splits)

lemma prepare_event_authorized:
  "returning (prepare_event J R C L iter now b u room) (\<lambda>(v, pdu).
     (\<exists>auths. auth_check L v pdu auths = Some True) \<and> room_id pdu = room \<and> sender pdu = u \<and>
     kind pdu = event_type b \<and> state_key pdu = builder_state_key b \<and> content pdu = builder_content b \<and>
     length (prev_events pdu) \<le> 20)"
  unfolding prepare_event_def Let_def
  by (intro returning_intros, simp only: split_conv, intro conjI exI, erule (1) ok_or_allowed) simp_all

lemma create_event_ok:
  assumes "create_hash_and_sign_event J R C L iter now b u room s = (Inr (pdu, json), s')"
    and "compressor_inv s" and "counts_left (Suc n) s"
  obtains v pdu0 auths e where "persists s s'" and "counts_left n s'" and "is_event_id R e"
    and "pdu = pdu0\<lparr>event_id := e\<rparr>" and "auth_check L v pdu0 auths = Some True" and "room_id pdu0 = room"
    and "sender pdu0 = u" and "kind pdu0 = event_type b" and "state_key pdu0 = builder_state_key b"
    and "content pdu0 = builder_content b"
proof -
  from assms(1) obtain v pdu0 s1 where prep: "prepare_event J R C L iter now b u room s = (Inr (v, pdu0), s1)"
    and sign: "hash_and_sign R L v pdu0 s1 = (Inr (pdu, json), s')"
    unfolding create_hash_and_sign_event_def by (elim bind_InrE) auto
  note one = readingD [OF reading_prepare_event prep assms(2)]
  from sign obtain e m where e: "is_event_id R e" "pdu = pdu0\<lparr>event_id := e\<rparr>" "get_or_create_shorteventid e s1 = (Inr m, s')"
    by (rule hash_and_sign_ok)
  have left: "counts_left (Suc n) s1" using assms(3) one(2) by (simp add: counts_left_def)
  obtain m' t where "get_or_create_shorteventid e s1 = (Inr m', t)" "persists s1 t" "counts_left n t"
    using intern_event [OF persistsD(1) [OF one(1)] left, of e] .
  with e(3) have two: "persists s1 s'" "counts_left n s'" by simp_all
  from returningD [OF prepare_event_authorized prep] obtain auths where
    "auth_check L v pdu0 auths = Some True" "room_id pdu0 = room" "sender pdu0 = u" "kind pdu0 = event_type b"
    "state_key pdu0 = builder_state_key b" "content pdu0 = builder_content b"
    by auto
  with e two show thesis
    by (intro that [of e pdu0 v auths] persists_trans [OF one(1) two(1)]) simp_all
qed

lemma room_map_cong:
  assumes "eventid_shorteventid s' = eventid_shorteventid s" and "statekey_shortstatekey s' = statekey_shortstatekey s"
    and "shortstatehash_statediff s' = shortstatehash_statediff s"
    and "kv_get (roomid_shortstatehash s') r = kv_get (roomid_shortstatehash s) r"
  shows "room_map R s' r M = room_map R s r M"
proof -
  have "has_state s' h T = has_state s h T" for h T using assms(3) by (simp add: has_state_def)
  then have "room_state s' r T = room_state s r T" for T using assms(4) by (simp add: room_state_def split: option.split)
  moreover have "describes R s' T M = describes R s T M" for T using assms(1,2) by (simp add: describes_def)
  ultimately show ?thesis by (simp add: room_map_def)
qed

lemma room_map_set:
  assumes "has_state s h T" and "describes R s T M"
  shows "room_map R (roomid_shortstatehash_update (kv_insert room (to_be_bytes h)) s) room M"
  using assms by (auto simp: room_map_def room_state_def has_state_def)

lemma mem_oks: "Inr x \<in> set rs \<Longrightarrow> x \<in> set (List.map_filter res_ok rs)"
  by (induction rs) (auto simp: map_filter_simps res_ok_def split: sum.splits)

lemma send_pdu_queues:
  assumes "send_pdu servers pdu_id s = (r, s')" and "server \<in> set servers"
  shows "\<exists>k. (Normal server, SendPdu pdu_id, k) \<in> set (sending_channel s') \<and> kv_get (servernameevent_data s') k \<noteq> None"
proof -
  obtain t where "send_pdu servers pdu_id s = (Inr (), t)"
    "\<forall>server \<in> set servers. \<exists>key. (Normal server, SendPdu pdu_id, key) \<in> set (sending_channel t) \<and>
      kv_get (servernameevent_data t) key \<noteq> None"
    by (rule send_pdu_run)
  with assms show ?thesis by simp
qed

lemma build_steps:
  assumes "build_and_append_pdu J R C P L iter now b u room s = (Inr e, s')"
  obtains pdu json s1 h s2 pdu_id s3 servers where
    "create_hash_and_sign_event J R C L iter now b u room s = (Inr (pdu, json), s1)"
    and "append_to_state iter pdu s1 = (Inr h, s2)" and "append_pdu J R C P L iter pdu json [event_id pdu] s2 = (Inr pdu_id, s3)"
    and "send_pdu (iter (servers - {server_name s3})) pdu_id
      (roomid_shortstatehash_update (kv_insert room (to_be_bytes h)) s3) = (Inr (), s')"
    and "finite servers" and "\<forall>server. Inr server \<in> set (room_servers R room s3) \<longrightarrow> server \<in> servers"
    and "e = event_id pdu"
proof -
  from assms obtain pdu json s1 h s2 pdu_id s3 where
    run: "create_hash_and_sign_event J R C L iter now b u room s = (Inr (pdu, json), s1)"
      "append_to_state iter pdu s1 = (Inr h, s2)" "append_pdu J R C P L iter pdu json [event_id pdu] s2 = (Inr pdu_id, s3)"
    unfolding build_and_append_pdu_def by (elim bind_InrE) (simp only: split_beta, elim bind_InrE, fastforce)
  let ?s4 = "roomid_shortstatehash_update (kv_insert room (to_be_bytes h)) s3"
  let ?base = "set (List.map_filter res_ok (room_servers R room ?s4))"
  define servers where "servers = (if kind pdu = ascii ''m.room.member'' then
                       (case state_key pdu of
                          Some key \<Rightarrow> if is_user_id R key then insert (user_server R key) ?base else ?base
                        | None \<Rightarrow> ?base)
                     else ?base)"
  have "andthen (send_pdu (iter (servers - {server_name s3})) pdu_id) (ret (event_id pdu)) ?s4 = (Inr e, s')"
    using assms run unfolding build_and_append_pdu_def servers_def by (simp add: set_room_state_def Let_def)
  then have "send_pdu (iter (servers - {server_name s3})) pdu_id ?s4 = (Inr (), s')" "e = event_id pdu"
    by (auto elim: andthen_InrE)
  moreover have "?base \<subseteq> servers" "finite servers" by (auto simp: servers_def split: option.split)
  moreover have "room_servers R room ?s4 = room_servers R room s3" by (simp add: room_servers_def)
  then have "server \<in> ?base" if "Inr server \<in> set (room_servers R room s3)" for server
    using that by (simp add: mem_oks)
  ultimately show thesis using run by (intro that [of pdu json s1 h s2 pdu_id s3 servers]) auto
qed

text \<open>The tables after the event was appended and sent.\<close>

lemma build_tables:
  assumes "append_pdu J R C P L iter pdu json leaves s2 = (Inr pdu_id, s3)"
    and "send_pdu servers pdu_id (roomid_shortstatehash_update (kv_insert room h) s3) = (Inr (), s')"
  shows "eventid_shorteventid s' = eventid_shorteventid s2" and "statekey_shortstatekey s' = statekey_shortstatekey s2"
    and "shortstatehash_statediff s' = shortstatehash_statediff s2"
    and "kv_get (roomid_shortstatehash s') r = (if r = room then Some h else kv_get (roomid_shortstatehash s2) r)"
    and "roomid_pduleaves s' = fold (\<lambda>e. kv_insert (room_id pdu @ sep # e) e) leaves
          (kv_remove_prefix (room_id pdu @ [sep]) (roomid_pduleaves s2))"
    and "get_pdu_id (event_id pdu) s' = Inr (Some pdu_id)" and "kv_get (pduid_pdu s') pdu_id \<noteq> None"
    and "server_name s' = server_name s3"
proof -
  obtain short json' where tables: "room_tables s3 = room_tables (s2
       \<lparr>referencedevents := fold (\<lambda>e. kv_insert (room_id pdu @ e) []) (prev_events pdu) (referencedevents s2),
        roomid_pduleaves := fold (\<lambda>e. kv_insert (room_id pdu @ sep # e) e) leaves
          (kv_remove_prefix (room_id pdu @ [sep]) (roomid_pduleaves s2)),
        eventid_pduid := kv_insert (event_id pdu) pdu_id (eventid_pduid s2)\<rparr>)"
    and stored: "\<forall>k. kv_get (pduid_pdu s3) k \<noteq> None \<longleftrightarrow> k = pdu_id \<or> kv_get (pduid_pdu s2) k \<noteq> None"
    using append_pdu_outcome [OF assms(1)] .
  note sent = keeps_result [OF keeps_obs_queueing(2) assms(2)]
  show "eventid_shorteventid s' = eventid_shorteventid s2" "statekey_shortstatekey s' = statekey_shortstatekey s2"
    "shortstatehash_statediff s' = shortstatehash_statediff s2"
    "kv_get (roomid_shortstatehash s') r = (if r = room then Some h else kv_get (roomid_shortstatehash s2) r)"
    "roomid_pduleaves s' = fold (\<lambda>e. kv_insert (room_id pdu @ sep # e) e) leaves
          (kv_remove_prefix (room_id pdu @ [sep]) (roomid_pduleaves s2))"
    "get_pdu_id (event_id pdu) s' = Inr (Some pdu_id)" "server_name s' = server_name s3"
    using sent tables by (simp_all add: obs_simps get_pdu_id_def)
  show "kv_get (pduid_pdu s') pdu_id \<noteq> None" using sent stored by (simp add: room_obs_def)
qed

lemma build_and_append_pdu_facts:
  assumes run: "build_and_append_pdu J R C P L iter now b u room s = (Inr e, s')"
    and inv: "compressor_inv s" and left: "counts_left 5 s" and iter: "iteration iter" and room: "room_map R s room M"
    and key: "builder_state_key b = Some key" and ty: "utf8_valid (event_type b)" and e: "utf8_valid e"
  shows "\<exists>v pdu auths. auth_check L v pdu auths = Some True \<and> room_id pdu = room \<and> sender pdu = u \<and>
      kind pdu = event_type b \<and> state_key pdu = Some key \<and> content pdu = builder_content b"
    and "room_map R s' room (M((event_type b, key) \<mapsto> e))"
    and "r \<noteq> room \<Longrightarrow> room_map R s r M' \<Longrightarrow> room_map R s' r M'"
    and "get_forward_extremities R room s' = Inr {e}"
    and "\<exists>pdu_id. get_pdu_id e s' = Inr (Some pdu_id) \<and> kv_get (pduid_pdu s') pdu_id \<noteq> None \<and>
      (\<forall>server. Inr server \<in> set (room_servers R room s') \<and> server \<noteq> server_name s' \<longrightarrow>
        (\<exists>k. (Normal server, SendPdu pdu_id, k) \<in> set (sending_channel s') \<and> kv_get (servernameevent_data s') k \<noteq> None))"
proof -
  obtain pdu json s1 h s2 pdu_id s3 servers where
    create: "create_hash_and_sign_event J R C L iter now b u room s = (Inr (pdu, json), s1)"
    and state: "append_to_state iter pdu s1 = (Inr h, s2)"
    and append: "append_pdu J R C P L iter pdu json [event_id pdu] s2 = (Inr pdu_id, s3)"
    and send: "send_pdu (iter (servers - {server_name s3})) pdu_id
      (roomid_shortstatehash_update (kv_insert room (to_be_bytes h)) s3) = (Inr (), s')"
    and servers: "finite servers" "\<forall>server. Inr server \<in> set (room_servers R room s3) \<longrightarrow> server \<in> servers"
    and ev: "e = event_id pdu"
    by (rule build_steps [OF run])
  have "counts_left (Suc 4) s" using left by simp
  from create_event_ok [OF create inv this] obtain v pdu0 auths e' where
    s1: "persists s s1" "counts_left 4 s1" "is_event_id R e'"
    and pdu: "pdu = pdu0\<lparr>event_id := e'\<rparr>" "auth_check L v pdu0 auths = Some True" "room_id pdu0 = room"
      "sender pdu0 = u" "kind pdu0 = event_type b" "state_key pdu0 = builder_state_key b" "content pdu0 = builder_content b" .
  from pdu(2-) key show "\<exists>v pdu auths. auth_check L v pdu auths = Some True \<and> room_id pdu = room \<and> sender pdu = u \<and>
      kind pdu = event_type b \<and> state_key pdu = Some key \<and> content pdu = builder_content b"
    by (intro exI [of _ v] exI [of _ pdu0] exI [of _ auths]) simp
  have fields: "event_id pdu = e" "room_id pdu = room" "kind pdu = event_type b" "state_key pdu = Some key" "e' = e"
    using pdu key ev by simp_all
  have M1: "room_map R s1 (room_id pdu) M" using room_map_persists [OF room s1(1)] fields(2) by simp
  have ok: "sep \<notin> set (kind pdu)" "utf8_valid (event_id pdu)" "is_event_id R (event_id pdu)"
    using utf8_no_sep [OF ty] e s1(3) fields by simp_all
  obtain h' T t where "append_to_state iter pdu s1 = (Inr h', t)" "persists s1 t"
      "has_state t h' T" "describes R t T (M((kind pdu, key) \<mapsto> event_id pdu))"
    using append_state_event [OF persistsD(1) [OF s1(1)] s1(2) M1 iter fields(4) ok] .
  with state have s2: "persists s1 s2" "has_state s2 h T" "describes R s2 T (M((event_type b, key) \<mapsto> e))"
    by (simp_all add: fields)
  note same = build_tables [OF append send]
  show "room_map R s' room (M((event_type b, key) \<mapsto> e))"
    using room_map_set [OF s2(2,3), of room]
      room_map_cong [of s' "roomid_shortstatehash_update (kv_insert room (to_be_bytes h)) s2" room] same(1-4)
    by simp
  show "room_map R s' r M'" if "r \<noteq> room" "room_map R s r M'"
    using room_map_persists [OF that(2) persists_trans [OF s1(1) s2(1)]] room_map_cong [OF same(1-3), of r] same(4) [of r] that(1)
    by simp
  show "get_forward_extremities R room s' = Inr {e}"
    using forward_extremities_set [OF _ same(5)] ok(2,3) by (simp add: fields)
  show "\<exists>pdu_id. get_pdu_id e s' = Inr (Some pdu_id) \<and> kv_get (pduid_pdu s') pdu_id \<noteq> None \<and>
      (\<forall>server. Inr server \<in> set (room_servers R room s') \<and> server \<noteq> server_name s' \<longrightarrow>
        (\<exists>k. (Normal server, SendPdu pdu_id, k) \<in> set (sending_channel s') \<and> kv_get (servernameevent_data s') k \<noteq> None))"
  proof (rule exI [of _ pdu_id], intro conjI allI impI)
    show "get_pdu_id e s' = Inr (Some pdu_id)" "kv_get (pduid_pdu s') pdu_id \<noteq> None" using same(6,7) fields(1) by simp_all
    fix server
    assume server: "Inr server \<in> set (room_servers R room s') \<and> server \<noteq> server_name s'"
    have "roomserverids s' = roomserverids s3"
      using keeps_result [OF keeps_queueing(2) [where f = roomserverids] send] by simp
    then have "server \<in> servers - {server_name s3}" using server servers(2) same(8) by (simp add: room_servers_def)
    moreover have "set (iter (servers - {server_name s3})) = servers - {server_name s3}"
      by (rule iterationD [OF iter]) (use servers(1) in simp)
    ultimately show "\<exists>k. (Normal server, SendPdu pdu_id, k) \<in> set (sending_channel s') \<and>
        kv_get (servernameevent_data s') k \<noteq> None"
      using send_pdu_queues [OF send] by simp
  qed
qed


section \<open>A first event\<close>

text \<open>The fields that decide how an append to a room without members and state goes.\<close>

definition quiet_fields where
  "quiet_fields s = (shorteventid_shortstatehash s, our_real_users_cache s, id_appserviceregistrations s,
     roomid_shortroomid s, roomid_shortstatehash s, roomid_pduleaves s)"

lemma keeps_quiet_intern:
  "keeps quiet_fields (get_or_create_shorteventid e)" "keeps quiet_fields (get_or_create_shortstatekey ty key)"
  unfolding get_or_create_shorteventid_def get_or_create_shortstatekey_def
  by (intro keeps_intros; simp add: quiet_fields_def)+

lemma append_to_state_quiet:
  assumes "kv_get (roomid_shortstatehash s) (room_id pdu) = None"
  shows "quiet_fields (snd (append_to_state iter pdu s)) = quiet_fields s"
proof -
  obtain r s1 where s1: "get_or_create_shorteventid (event_id pdu) s = (r, s1)" by (rule prod.exhaust)
  from keeps_result [OF keeps_quiet_intern(1) s1] have q: "quiet_fields s1 = quiet_fields s" .
  then have none: "get_room_shortstatehash (room_id pdu) s1 = Inr None"
    using assms by (simp add: quiet_fields_def get_room_shortstatehash_def)
  have save: "keeps quiet_fields (save_state_from_diff iter h A B n ps)" for h A B n ps
    by (rule keeps_save_state_from_diff) (simp add: quiet_fields_def)
  show ?thesis
  proof (cases r)
    case (Inr n)
    have "keeps quiet_fields (case state_key pdu of
        Some key \<Rightarrow>
          bind (load_parents None) (\<lambda>parents.
          bind (get_or_create_shortstatekey (kind pdu) key) (\<lambda>shortstatekey.
          bind (compress_state_event shortstatekey (event_id pdu)) (\<lambda>new.
          let replaces = (if parents = [] then None
                          else find (\<lambda>b. prefix (to_be_bytes shortstatekey) b) (iter (layer_state (last parents)))) in
          if Some new = replaces then of_res (ok_or (Panic ''must exist'') None)
          else
            bind next_count (\<lambda>shortstatehash.
            andthen (save_state_from_diff iter shortstatehash {new} (set_option replaces) 2 parents)
            (ret shortstatehash)))))
      | None \<Rightarrow> of_res (ok_or (Panic ''first event in room must be a state event'') None))"
      unfolding load_parents_def option.case compress_state_event_def Let_def
      by (intro keeps_intros keeps_quiet_intern save) (simp add: quiet_fields_def)
    from keepsD [OF this, of s1] q s1 Inr none show ?thesis
      by (simp add: append_to_state_def)
  qed (use q s1 in \<open>simp add: append_to_state_def bind_apply\<close>)
qed

definition example_builder :: PduBuilder where
  "example_builder =
     \<lparr>event_type = ascii ''m.room.topic'', builder_content = JObj [], builder_unsigned = None,
      builder_state_key = Some [], builder_redacts = None\<rparr>"

definition example_prepared :: PduEvent where
  "example_prepared =
     \<lparr>event_id = ascii ''$thiswillbefilledinlater'', room_id = ascii ''!r:h'', sender = ascii ''@u:h'', origin_server_ts = 1,
      kind = ascii ''m.room.topic'', content = JObj [], state_key = Some [], prev_events = [], depth = 1,
      auth_events = [], redacts = None, unsigned = None, hashes = ascii ''aaa'', signatures = None\<rparr>"

lemma example_leaves: "roomid_pduleaves example_server = kv_empty"
  by (simp add: example_server_def get_or_create_shortroomid_def bump_def bind_apply services_init_defs)

lemma example_prepare:
  "prepare_event example_serde example_ruma example_contents example_event_lib sorted_list_of_set 1 example_builder
     (ascii ''@u:h'') (ascii ''!r:h'') example_server = (Inr (ascii ''9'', example_prepared), example_server)"
proof -
  have state: "get_room_shortstatehash (ascii ''!r:h'') example_server = Inr None"
    by (simp add: get_room_shortstatehash_def)
  have leaves: "get_forward_extremities example_ruma (ascii ''!r:h'') example_server = Inr {}"
    using forward_extremities_set [of "[]" example_ruma example_server "ascii ''!r:h''" kv_empty]
    by (simp add: get_forward_extremities_def example_leaves kv_scan_prefix_filter kv_iter_def kv_empty_def)
  have version: "default_room_version (config example_server) = V9"
    by (simp add: example_server_def get_or_create_shortroomid_def bump_def bind_apply services_init_defs default_config_def
        default_default_room_version_def)
  show ?thesis
    by (simp add: prepare_event_def leaves room_version_for_new_def room_state_get_def state get_auth_events_def
        new_unsigned_def example_builder_def example_event_lib_def version MAX_UINT_def example_prepared_def)
qed

lemma example_server_inv:
  "compressor_inv example_server" "counts_left 5 example_server" "room_map example_ruma example_server (ascii ''!r:h'') Map.empty"
proof -
  let ?s = "services_init (ascii ''h'') default_config"
  have inv: "short_inv ?s" "count ?s = 0"
    by (simp_all add: short_inv_def id_table_def inverse_trees_def coherent_def rev_coherent_def services_init_defs
        count_def counter_at_def)
  have "id_of (roomid_shortroomid ?s) (ascii ''!r:h'') = None" by (simp add: services_init_defs id_of_def)
  note added = get_or_create_shortroomid_new [OF inv(1) this] short_inv_roomid_added [OF inv(1)]
  have server: "example_server = (roomid_added (ascii ''!r:h'') ?s)\<lparr>our_real_users_cache := (\<lambda>_. None)(ascii ''!r:h'' \<mapsto> {})\<rparr>"
    by (simp add: example_server_def added(1))
  have "short_inv example_server"
    using added(2) inv(2) by (simp add: server has_room_def short_inv_def count_def)
  then show "compressor_inv example_server"
    by (simp add: compressor_inv_def cache_ok_def states_ok_def diff_at_def)
       (simp add: server roomid_added_def services_init_defs)
  show "counts_left 5 example_server" by (simp add: counts_left_def)
  show "room_map example_ruma example_server (ascii ''!r:h'') Map.empty"
    by (simp add: room_map_def room_state_def describes_def)
qed

lemma example_hashes: "shorteventid_shortstatehash example_server = kv_empty"
  by (simp add: example_server_def get_or_create_shortroomid_def bump_def bind_apply services_init_defs)

lemma get_shortroomid_cong:
  "roomid_shortroomid s' = roomid_shortroomid s \<Longrightarrow> get_shortroomid r s' = get_shortroomid r s"
  by (simp add: get_shortroomid_def)

lemma send_then_ret: "\<exists>s'. andthen (send_pdu servers pdu_id) (ret x) s = (Inr x, s')"
proof -
  obtain t where "send_pdu servers pdu_id s = (Inr (), t)" by (rule send_pdu_run)
  then show ?thesis by simp
qed

lemma with_prev_content_first:
  assumes "pdu_shortstatehash (event_id pdu) s = Inr None"
  shows "\<exists>json'. with_prev_content J R L iter pdu json s = (Inr json', s)"
  using assms by (simp add: with_prev_content_def unwrapped_def attempt_apply bind_apply split: option.split json.split)


end
