(* ===== verification/EventHandler.thy ===== *)
theory EventHandler
  imports NewEvents
begin

text \<open>
  \<^verbatim>\<open>service/rooms/event_handler/mod.rs\<close>: what happens to an event that another server sends.
  It is checked against its signatures and its auth events and kept as an outlier, its missing
  predecessors are fetched, the state at the event is determined, and it is authorized again against
  that state and against the current state before it reaches the timeline.

  Answers of other servers are the fields of \<open>federation\<close>. The number of the request is an argument of
  each answer, so a server may answer the same question differently every time. Signature checks, state
  resolution and the topological sort belong to ruma and are parameters too.

  The handlers call each other recursively through the auth events of an event, and remote servers
  decide how deep that goes; \<open>n\<close> bounds the depth and the number of loop rounds, and running out of
  it is the outcome \<open>still_running\<close>. Time is counted in seconds. A \<^verbatim>\<open>pub_key_map\<close> is
  shared by all the checks of one transaction.
\<close>

section \<open>State and parameters\<close>

record federation_db = services_db +
  bad_event_ratelimiter :: "event_id \<Rightarrow> (nat \<times> u32) option"
  bad_signature_ratelimiter :: "bytes list \<Rightarrow> (nat \<times> u32) option"
  roomid_federationhandletime :: "room_id \<Rightarrow> (event_id \<times> nat) option"
  pub_key_map :: "bytes \<Rightarrow> (bytes, bytes) fmap option"
  requests_sent :: nat

datatype Verified = VerifiedAll | VerifiedSignatures

type_synonym state_ids = "u64 \<Rightarrow> event_id option"
type_synonym state_map = "bytes \<times> bytes \<Rightarrow> event_id option"

record federation =
  remote_event :: "nat \<Rightarrow> servername \<Rightarrow> event_id \<Rightarrow> bytes res"
  remote_state_ids :: "nat \<Rightarrow> servername \<Rightarrow> room_id \<Rightarrow> event_id \<Rightarrow> event_id list res"
  remote_server_keys :: "nat \<Rightarrow> servername \<Rightarrow> signing_keys option res"
  notary_keys :: "nat \<Rightarrow> servername \<Rightarrow> servername \<Rightarrow> signing_keys option list res"
  notary_batch :: "nat \<Rightarrow> servername \<Rightarrow> servername list \<Rightarrow> (servername \<times> signing_keys) option list res"
  keys_parse :: "bytes \<Rightarrow> signing_keys option"
  keys_print :: "signing_keys \<Rightarrow> bytes"
  verify_event :: "(bytes \<Rightarrow> (bytes, bytes) fmap option) \<Rightarrow> jobj \<Rightarrow> bytes \<Rightarrow> Verified option"
  redact_json :: "jobj \<Rightarrow> bytes \<Rightarrow> jobj option"
  resolve :: "bytes \<Rightarrow> state_map list \<Rightarrow> event_id list list \<Rightarrow> (event_id \<Rightarrow> PduEvent option) \<Rightarrow> ((bytes \<times> bytes) \<times> event_id) list option"
  topological_sort :: "(event_id \<Rightarrow> event_id set option) \<Rightarrow> (event_id \<Rightarrow> nat) \<Rightarrow> event_id list option"
  acl_allowed :: "json \<Rightarrow> servername \<Rightarrow> bool option"
  state_entries :: "state_ids \<Rightarrow> (u64 \<times> event_id) list"
  fork_entries :: "(u64 \<times> PduEvent) list \<Rightarrow> (u64 \<times> PduEvent) list"

text \<open>Everything outside the repository that the handlers use.\<close>

record env =
  serde_of :: serde
  ruma_of :: ruma
  contents_of :: contents
  push_of :: push_lib
  lib_of :: event_lib
  fed_of :: federation
  iter_of :: "bytes set \<Rightarrow> bytes list"
  short_iter_of :: "u64 set \<Rightarrow> u64 list"
  digest_of :: "bytes \<Rightarrow> bytes"

definition still_running :: error where
  "still_running = Panic ''still running''"

text \<open>\<^verbatim>\<open>send_federation_request\<close>: the destination is only asked if federation is allowed.\<close>

definition send_federation_request :: "(nat \<Rightarrow> 'r res) \<Rightarrow> ('a federation_db_scheme, 'r) dop" where
  "send_federation_request answer =
     bind (gets (\<lambda>s. allow_federation (config s))) (\<lambda>allowed.
     if \<not> allowed then fail (BadConfig ''Federation is disabled.'')
     else bind (gets requests_sent) (\<lambda>k.
       andthen (modify (\<lambda>s. s\<lparr>requests_sent := k + 1\<rparr>))
       (of_res (answer k))))"

section \<open>Backing off\<close>

text \<open>\<^verbatim>\<open>Duration::from_secs(base) * tries * tries\<close>, at most a day.\<close>

definition back_off_time :: "nat \<Rightarrow> u32 \<Rightarrow> nat res" where
  "back_off_time base tries =
     (let secs = base * unat tries * unat tries in
      if secs \<ge> 2 ^ 64 then Inl (Panic ''overflow when multiplying duration by scalar'')
      else Inr (if secs > 60 * 60 * 24 then 60 * 60 * 24 else secs))"

definition backing_off :: "nat \<Rightarrow> nat \<Rightarrow> (nat \<times> u32) option \<Rightarrow> bool res" where
  "backing_off base now entry =
     (case entry of
        None \<Rightarrow> Inr False
      | Some (time, tries) \<Rightarrow> map_res (\<lambda>min_elapsed_duration. now - time < min_elapsed_duration) (back_off_time base tries))"

definition next_try :: "nat \<Rightarrow> (nat \<times> u32) option \<Rightarrow> nat \<times> u32" where
  "next_try now entry = (now, case entry of None \<Rightarrow> 1 | Some (_, tries) \<Rightarrow> tries + 1)"

definition back_off_event :: "nat \<Rightarrow> event_id \<Rightarrow> ('a federation_db_scheme, unit) dop" where
  "back_off_event now e =
     modify (\<lambda>s. s\<lparr>bad_event_ratelimiter := (bad_event_ratelimiter s)(e \<mapsto> next_try now (bad_event_ratelimiter s e))\<rparr>)"

definition back_off_signature :: "nat \<Rightarrow> bytes list \<Rightarrow> ('a federation_db_scheme, unit) dop" where
  "back_off_signature now ids =
     modify (\<lambda>s. s\<lparr>bad_signature_ratelimiter :=
       (bad_signature_ratelimiter s)(ids \<mapsto> next_try now (bad_signature_ratelimiter s ids))\<rparr>)"

section \<open>Signing keys\<close>

definition contains_all_ids :: "bytes list \<Rightarrow> (bytes, bytes) fmap \<Rightarrow> bool" where
  "contains_all_ids signature_ids keys = list_all (\<lambda>i. fmlookup keys i \<noteq> None) signature_ids"

definition extend_keys :: "(bytes, bytes) fmap \<Rightarrow> signing_keys \<Rightarrow> (bytes, bytes) fmap" where
  "extend_keys result k = fmadd (fmadd result (verify_keys k)) (old_verify_keys k)"

fun add_keys ::
    "federation \<Rightarrow> servername \<Rightarrow> signing_keys list \<Rightarrow> (bytes, bytes) fmap \<Rightarrow> ('a federation_db_scheme, (bytes, bytes) fmap) dop" where
  "add_keys F origin [] result = ret result"
| "add_keys F origin (k # ks) result =
     andthen (add_signing_key (keys_parse F) (keys_print F) origin k)
     (add_keys F origin ks (extend_keys result k))"

text \<open>The trusted servers are asked in turn until every key is there.\<close>

fun ask_notaries ::
    "federation \<Rightarrow> servername \<Rightarrow> bytes list \<Rightarrow> servername list \<Rightarrow> (bytes, bytes) fmap \<Rightarrow>
     ('a federation_db_scheme, (bytes, bytes) fmap option) dop" where
  "ask_notaries F origin signature_ids [] result = ret None"
| "ask_notaries F origin signature_ids (server # servers) result =
     bind (catching (send_federation_request (\<lambda>k. notary_keys F k server origin))) (\<lambda>answer.
     case answer of
       Inl _ \<Rightarrow> ask_notaries F origin signature_ids servers result
     | Inr ks \<Rightarrow>
         bind (add_keys F origin (List.map_filter (\<lambda>k. k) ks) result) (\<lambda>result.
         if contains_all_ids signature_ids result then ret (Some result)
         else ask_notaries F origin signature_ids servers result))"

text \<open>The keys of the server itself; None if it did not answer with a well-formed key object.\<close>

definition ask_origin ::
    "federation \<Rightarrow> servername \<Rightarrow> (bytes, bytes) fmap \<Rightarrow> ('a federation_db_scheme, (bytes, bytes) fmap option) dop" where
  "ask_origin F origin result =
     bind (catching (send_federation_request (\<lambda>k. remote_server_keys F k origin))) (\<lambda>answer.
     case answer of
       Inr (Some server_key) \<Rightarrow> bind (add_keys F origin [server_key] result) (\<lambda>result. ret (Some result))
     | _ \<Rightarrow> ret None)"

definition fetch_signing_keys ::
    "federation \<Rightarrow> nat \<Rightarrow> servername \<Rightarrow> bytes list \<Rightarrow> ('a federation_db_scheme, (bytes, bytes) fmap) dop" where
  "fetch_signing_keys F now origin signature_ids =
     bind (gets (\<lambda>s. bad_signature_ratelimiter s signature_ids)) (\<lambda>entry.
     bind (of_res (backing_off 30 now entry)) (\<lambda>wait.
     if wait then fail (BadServerResponse ''bad signature, still backing off'')
     else
       bind (reads (signing_keys_for (keys_parse F) origin)) (\<lambda>result.
       if contains_all_ids signature_ids result then ret result
       else
         bind (ask_origin F origin result) (\<lambda>own.
         if (case own of None \<Rightarrow> False | Some keys \<Rightarrow> contains_all_ids signature_ids keys) then ret (the own)
         else
           bind (gets (\<lambda>s. trusted_servers (config s))) (\<lambda>servers.
           bind (ask_notaries F origin signature_ids servers (case own of None \<Rightarrow> result | Some keys \<Rightarrow> keys)) (\<lambda>found.
           case found of
             Some keys \<Rightarrow> ret keys
           | None \<Rightarrow>
               andthen (back_off_signature now signature_ids)
               (fail (BadServerResponse ''Failed to find public key for server''))))))))"

definition signatures_of :: "jobj \<Rightarrow> jobj res" where
  "signatures_of event =
     bind_res (ok_or (BadServerResponse ''No signatures in server response pdu.'') (obj_get event (ascii ''signatures''))) (\<lambda>sigs.
     ok_or (BadServerResponse ''Invalid signatures object in server response pdu.'') (as_object sigs))"

definition signature_keys :: "json \<Rightarrow> bytes list res" where
  "signature_keys signature =
     map_res (map fst)
       (ok_or (BadServerResponse ''Invalid signatures content object in server response pdu.'') (as_object signature))"

definition set_pub_keys :: "bytes \<Rightarrow> (bytes, bytes) fmap \<Rightarrow> ('a federation_db_scheme, unit) dop" where
  "set_pub_keys server keys = modify (\<lambda>s. s\<lparr>pub_key_map := (pub_key_map s)(server \<mapsto> keys)\<rparr>)"

fun fetch_keys_of :: "env \<Rightarrow> nat \<Rightarrow> jobj \<Rightarrow> ('a federation_db_scheme, unit) dop" where
  "fetch_keys_of W now [] = ret ()"
| "fetch_keys_of W now ((signature_server, signature) # sigs) =
     bind (of_res (signature_keys signature)) (\<lambda>signature_ids.
     if \<not> is_server_name (ruma_of W) signature_server
     then fail (BadServerResponse ''Invalid servername in signatures of server response pdu.'')
     else
       bind (catching (fetch_signing_keys (fed_of W) now signature_server signature_ids)) (\<lambda>fetch_res.
       andthen (case fetch_res of Inl _ \<Rightarrow> ret () | Inr keys \<Rightarrow> set_pub_keys signature_server keys)
       (fetch_keys_of W now sigs)))"

definition fetch_required_signing_keys :: "env \<Rightarrow> nat \<Rightarrow> jobj \<Rightarrow> ('a federation_db_scheme, unit) dop" where
  "fetch_required_signing_keys W now event = bind (of_res (signatures_of event)) (fetch_keys_of W now)"

text \<open>\<^verbatim>\<open>serde_json::from_str::<CanonicalJsonObject>\<close>\<close>

definition parse_canonical :: "env \<Rightarrow> bytes \<Rightarrow> json option" where
  "parse_canonical W raw = map_option JObj (Option.bind (json_parse (serde_of W) raw) (to_canonical_object (lib_of W)))"

definition gen_event_id :: "env \<Rightarrow> bytes \<Rightarrow> bytes \<Rightarrow> (event_id \<times> jobj) res" where
  "gen_event_id W = gen_event_id_canonical_json (ruma_of W) (parse_canonical W) (reference_hash (lib_of W))"

text \<open>
  \<^verbatim>\<open>get_server_keys_from_cache\<close> adds to \<open>servers\<close> the servers whose keys have to be fetched. What it
  added before it failed stays, and its only caller ignores the error.
\<close>

fun cached_keys :: "env \<Rightarrow> jobj \<Rightarrow> servername list \<Rightarrow> ('a federation_db_scheme, servername list \<times> unit res) dop" where
  "cached_keys W [] servers = ret (servers, Inr ())"
| "cached_keys W ((signature_server, signature) # sigs) servers =
     (case signature_keys signature of
        Inl e \<Rightarrow> ret (servers, Inl e)
      | Inr signature_ids \<Rightarrow>
          if \<not> is_server_name (ruma_of W) signature_server
          then ret (servers, Inl (BadServerResponse ''Invalid servername in signatures of server response pdu.''))
          else
            bind (gets (\<lambda>s. pub_key_map s signature_server)) (\<lambda>known.
            if signature_server \<in> set servers \<or> known \<noteq> None then cached_keys W sigs servers
            else
              bind (reads (signing_keys_for (keys_parse (fed_of W)) signature_server)) (\<lambda>result.
              andthen (set_pub_keys signature_server result)
              (cached_keys W sigs
                 (if contains_all_ids signature_ids result then servers else insort signature_server servers)))))"

definition get_server_keys_from_cache ::
    "env \<Rightarrow> nat \<Rightarrow> bytes \<Rightarrow> bytes \<Rightarrow> servername list \<Rightarrow> ('a federation_db_scheme, servername list \<times> unit res) dop" where
  "get_server_keys_from_cache W now room_version pdu servers =
     (case gen_event_id W pdu room_version of
        Inl e \<Rightarrow> if is_panic e then fail e else ret (servers, Inl e)
      | Inr (e, value) \<Rightarrow>
          bind (gets (\<lambda>s. bad_event_ratelimiter s e)) (\<lambda>entry.
          bind (of_res (backing_off 30 now entry)) (\<lambda>wait.
          if wait then ret (servers, Inl (BadServerResponse ''bad event, still backing off''))
          else
            (case signatures_of value of
               Inl err \<Rightarrow> ret (servers, Inl err)
             | Inr sigs \<Rightarrow> cached_keys W sigs servers))))"

fun cached_keys_of_all ::
    "env \<Rightarrow> nat \<Rightarrow> bytes \<Rightarrow> bytes list \<Rightarrow> servername list \<Rightarrow> ('a federation_db_scheme, servername list) dop" where
  "cached_keys_of_all W now room_version [] servers = ret servers"
| "cached_keys_of_all W now room_version (pdu # pdus) servers =
     bind (get_server_keys_from_cache W now room_version pdu servers) (\<lambda>(servers, _).
     cached_keys_of_all W now room_version pdus servers)"

fun take_batch ::
    "federation \<Rightarrow> (servername \<times> signing_keys) option list \<Rightarrow> servername list \<Rightarrow> ('a federation_db_scheme, servername list) dop" where
  "take_batch F [] servers = ret servers"
| "take_batch F (None # ks) servers = take_batch F ks servers"
| "take_batch F (Some (server, k) # ks) servers =
     bind (add_signing_key (keys_parse F) (keys_print F) server k) (\<lambda>result.
     andthen (set_pub_keys server result)
     (take_batch F ks (filter (\<lambda>x. x \<noteq> server) servers)))"

text \<open>The trusted servers are asked until no server is left; what is left is returned.\<close>

fun ask_batches ::
    "federation \<Rightarrow> servername list \<Rightarrow> servername list \<Rightarrow> ('a federation_db_scheme, servername list) dop" where
  "ask_batches F [] servers = ret servers"
| "ask_batches F (notary # notaries) servers =
     bind (catching (send_federation_request (\<lambda>k. notary_batch F k notary servers))) (\<lambda>answer.
     bind (case answer of Inl _ \<Rightarrow> ret servers | Inr ks \<Rightarrow> take_batch F ks servers) (\<lambda>servers.
     if servers = [] then ret [] else ask_batches F notaries servers))"

fun ask_servers :: "federation \<Rightarrow> servername list \<Rightarrow> ('a federation_db_scheme, unit) dop" where
  "ask_servers F [] = ret ()"
| "ask_servers F (origin # origins) =
     bind (catching (send_federation_request (\<lambda>k. remote_server_keys F k origin))) (\<lambda>answer.
     andthen
       (case answer of
          Inl _ \<Rightarrow> ret ()
        | Inr None \<Rightarrow> fail (Panic ''called Result::unwrap() on an Err value'')
        | Inr (Some server_key) \<Rightarrow>
            bind (add_signing_key (keys_parse F) (keys_print F) origin server_key) (set_pub_keys origin))
       (ask_servers F origins))"

definition fetch_join_signing_keys ::
    "env \<Rightarrow> nat \<Rightarrow> bytes list \<Rightarrow> bytes list \<Rightarrow> bytes \<Rightarrow> ('a federation_db_scheme, unit) dop" where
  "fetch_join_signing_keys W now state_events auth_chain room_version =
     bind (cached_keys_of_all W now room_version state_events []) (\<lambda>servers.
     bind (cached_keys_of_all W now room_version auth_chain servers) (\<lambda>servers.
     if servers = [] then ret ()
     else
       bind (gets (\<lambda>s. trusted_servers (config s))) (\<lambda>notaries.
       bind (ask_batches (fed_of W) notaries servers) (\<lambda>servers.
       ask_servers (fed_of W) (iter_of W (set servers))))))"

definition acl_check :: "env \<Rightarrow> servername \<Rightarrow> room_id \<Rightarrow> ('a federation_db_scheme, unit) dop" where
  "acl_check W server room =
     bind (room_state_get (serde_of W) (ruma_of W) (iter_of W) room (ascii ''m.room.server_acl'') []) (\<lambda>acl_event.
     case acl_event of
       None \<Rightarrow> ret ()
     | Some acl \<Rightarrow>
         (case acl_allowed (fed_of W) (content acl) server of
            None \<Rightarrow> ret ()
          | Some True \<Rightarrow> ret ()
          | Some False \<Rightarrow> fail (BadRequest Forbidden ''Server was denied by ACL'')))"

section \<open>Outliers\<close>

text \<open>The loop over the auth events that are not known yet; the top of the stack comes first.\<close>

fun fetch_chain ::
    "nat \<Rightarrow> env \<Rightarrow> nat \<Rightarrow> servername \<Rightarrow> bytes \<Rightarrow> event_id list \<Rightarrow> (event_id \<times> jobj) list \<Rightarrow> event_id list \<Rightarrow>
     ('a federation_db_scheme, (event_id \<times> jobj) list) dop" where
  "fetch_chain n W now origin room_version_id [] events events_all = ret events"
| "fetch_chain 0 W now origin room_version_id (next_id # todo) events events_all = fail still_running"
| "fetch_chain (Suc n) W now origin room_version_id (next_id # todo) events events_all =
     (if next_id \<in> set events_all then fetch_chain n W now origin room_version_id todo events events_all
      else
        bind (catching (get_pdu (serde_of W) (ruma_of W) next_id)) (\<lambda>found.
        if res_ok found \<noteq> None \<and> res_ok found \<noteq> Some None
        then fetch_chain n W now origin room_version_id todo events events_all
        else
          bind (catching (send_federation_request (\<lambda>k. remote_event (fed_of W) k origin next_id))) (\<lambda>answer.
          case answer of
            Inl _ \<Rightarrow>
              andthen (back_off_event now next_id)
              (fetch_chain n W now origin room_version_id todo events events_all)
          | Inr raw \<Rightarrow>
              (case gen_event_id W raw room_version_id of
                 Inl e \<Rightarrow>
                   if is_panic e then fail e
                   else
                     andthen (back_off_event now next_id)
                     (fetch_chain n W now origin room_version_id todo events events_all)
               | Inr (_, value) \<Rightarrow>
                   let auths = (case obj_get value (ascii ''auth_events'') of
                                  Some (JArr js) \<Rightarrow> List.map_filter (p_id (is_event_id (ruma_of W))) js
                                | _ \<Rightarrow> []) in
                   fetch_chain n W now origin room_version_id (rev auths @ todo) ((next_id, value) # events)
                     (next_id # events_all)))))"

text \<open>The fetched events are handled with the deepest auth events first.\<close>

fun handle_fetched ::
    "nat \<Rightarrow> (event_id \<Rightarrow> jobj \<Rightarrow> ('a federation_db_scheme, PduEvent \<times> jobj) dop) \<Rightarrow> event_id \<Rightarrow> (event_id \<times> jobj) list \<Rightarrow>
     (PduEvent \<times> jobj option) list \<Rightarrow> ('a federation_db_scheme, (PduEvent \<times> jobj option) list) dop" where
  "handle_fetched now handle e [] pdus = ret pdus"
| "handle_fetched now handle e ((next_id, value) # events) pdus =
     bind (catching (handle next_id value)) (\<lambda>r.
     case r of
       Inr (pdu, json) \<Rightarrow> handle_fetched now handle e events (if next_id = e then pdus @ [(pdu, Some json)] else pdus)
     | Inl _ \<Rightarrow> andthen (back_off_event now next_id) (handle_fetched now handle e events pdus))"

fun fetch_and_handle_outliers ::
    "nat \<Rightarrow> env \<Rightarrow> nat \<Rightarrow> servername \<Rightarrow> bytes \<Rightarrow>
     (event_id \<Rightarrow> jobj \<Rightarrow> ('a federation_db_scheme, PduEvent \<times> jobj) dop) \<Rightarrow> event_id list \<Rightarrow>
     (PduEvent \<times> jobj option) list \<Rightarrow> ('a federation_db_scheme, (PduEvent \<times> jobj option) list) dop" where
  "fetch_and_handle_outliers n W now origin room_version_id handle [] pdus = ret pdus"
| "fetch_and_handle_outliers n W now origin room_version_id handle (e # es) pdus =
     bind (gets (\<lambda>s. bad_event_ratelimiter s e)) (\<lambda>entry.
     bind (of_res (backing_off (5 * 60) now entry)) (\<lambda>wait.
     if wait then fetch_and_handle_outliers n W now origin room_version_id handle es pdus
     else
       bind (catching (get_pdu (serde_of W) (ruma_of W) e)) (\<lambda>found.
       case found of
         Inr (Some local_pdu) \<Rightarrow>
           fetch_and_handle_outliers n W now origin room_version_id handle es (pdus @ [(local_pdu, None)])
       | _ \<Rightarrow>
           bind (fetch_chain n W now origin room_version_id [e] [] []) (\<lambda>events.
           bind (handle_fetched now handle e events pdus)
             (fetch_and_handle_outliers n W now origin room_version_id handle es)))))"

text \<open>Signatures and content hash; an event whose hash does not match is redacted.\<close>

definition verified_value ::
    "federation \<Rightarrow> (bytes \<Rightarrow> (bytes, bytes) fmap option) \<Rightarrow> jobj \<Rightarrow> bytes \<Rightarrow> jobj res" where
  "verified_value F keys value room_version_id =
     (case verify_event F keys value room_version_id of
        None \<Rightarrow> Inl (BadRequest InvalidParam ''Signature verification failed'')
      | Some VerifiedSignatures \<Rightarrow> ok_or (BadRequest InvalidParam ''Redaction failed'') (redact_json F value room_version_id)
      | Some VerifiedAll \<Rightarrow> Inr value)"

fun auth_event_map ::
    "env \<Rightarrow> event_id list \<Rightarrow> (bytes \<times> bytes \<Rightarrow> PduEvent option) \<Rightarrow>
     ('a federation_db_scheme, bytes \<times> bytes \<Rightarrow> PduEvent option) dop" where
  "auth_event_map W [] m = ret m"
| "auth_event_map W (i # ids) m =
     bind (get_pdu (serde_of W) (ruma_of W) i) (\<lambda>found.
     case found of
       None \<Rightarrow> auth_event_map W ids m
     | Some auth_event \<Rightarrow>
         (case state_key auth_event of
            None \<Rightarrow> fail (Panic ''all auth events have state keys'')
          | Some key \<Rightarrow>
              if m (kind auth_event, key) \<noteq> None
              then fail (BadRequest InvalidParam
                (''Auth event'' @ [CHR 0x27] @ ''s type and state_key combination exists multiple times.''))
              else auth_event_map W ids (m((kind auth_event, key) \<mapsto> auth_event))))"

text \<open>The version of a room; one that is not supported makes \<^verbatim>\<open>RoomVersion::new\<close> fail.\<close>

definition version_of_room :: "env \<Rightarrow> PduEvent \<Rightarrow> bytes res" where
  "version_of_room W create_event =
     bind_res (ok_or (BadDatabase ''Invalid create event in db'') (create_version (contents_of W) (content create_event))) (\<lambda>v.
     if room_version_known (lib_of W) v then Inr v else Inl (Panic ''room version is supported''))"

text \<open>Events are equal if their ids are.\<close>

definition same_event :: "PduEvent option \<Rightarrow> PduEvent \<Rightarrow> bool" where
  "same_event found e = (case found of None \<Rightarrow> False | Some p \<Rightarrow> event_id p = event_id e)"

text \<open>Steps 4 to 7 for an event whose signatures were checked; \<open>fetch\<close> fetches missing auth events.\<close>

definition authorize_outlier ::
    "env \<Rightarrow> PduEvent \<Rightarrow> bytes \<Rightarrow> (event_id list \<Rightarrow> ('a federation_db_scheme, 'b) dop) \<Rightarrow> PduEvent \<Rightarrow> jobj \<Rightarrow>
     ('a federation_db_scheme, PduEvent \<times> jobj) dop" where
  "authorize_outlier W create_event v fetch pdu val =
     andthen (fetch (auth_events pdu))
     (bind (auth_event_map W (auth_events pdu) Map.empty) (\<lambda>auths.
      if \<not> same_event (auths (ascii ''m.room.create'', [])) create_event
      then fail (BadRequest InvalidParam ''Incoming event refers to wrong create event.'')
      else
        bind (of_res (ok_or (BadRequest InvalidParam ''Auth check failed'') (auth_check (lib_of W) v pdu auths))) (\<lambda>allowed.
        if \<not> allowed then fail (BadRequest InvalidParam ''Auth check failed'')
        else
          andthen (add_pdu_outlier (serde_of W) (event_id pdu) val)
          (ret (pdu, val)))))"

definition check_outlier ::
    "env \<Rightarrow> nat \<Rightarrow> PduEvent \<Rightarrow> (bytes \<Rightarrow> event_id list \<Rightarrow> ('a federation_db_scheme, 'b) dop) \<Rightarrow> event_id \<Rightarrow> jobj \<Rightarrow>
     ('a federation_db_scheme, PduEvent \<times> jobj) dop" where
  "check_outlier W now create_event fetch e value =
     (let value = obj_remove (ascii ''unsigned'') value in
      andthen (fetch_required_signing_keys W now value)
      (bind (of_res (version_of_room W create_event)) (\<lambda>v.
       bind (gets pub_key_map) (\<lambda>keys.
       bind (of_res (verified_value (fed_of W) keys value v)) (\<lambda>val.
       let val = obj_insert (ascii ''event_id'') (JStr e) val in
       bind (of_res (ok_or (BadDatabase ''Event is not a valid PDU.'') (pdu_of_json (ruma_of W) (JObj val)))) (\<lambda>pdu.
       authorize_outlier W create_event v (fetch v) pdu val))))))"

primrec handle_outlier_pdu ::
    "nat \<Rightarrow> env \<Rightarrow> nat \<Rightarrow> servername \<Rightarrow> PduEvent \<Rightarrow> event_id \<Rightarrow> jobj \<Rightarrow> ('a federation_db_scheme, PduEvent \<times> jobj) dop" where
  "handle_outlier_pdu 0 W now origin create_event = (\<lambda>e value. fail still_running)"
| "handle_outlier_pdu (Suc n) W now origin create_event =
     check_outlier W now create_event
       (\<lambda>v es. fetch_and_handle_outliers n W now origin v (handle_outlier_pdu n W now origin create_event) es [])"

definition fetch_outliers ::
    "nat \<Rightarrow> env \<Rightarrow> nat \<Rightarrow> servername \<Rightarrow> PduEvent \<Rightarrow> bytes \<Rightarrow> event_id list \<Rightarrow>
     ('a federation_db_scheme, (PduEvent \<times> jobj option) list) dop" where
  "fetch_outliers n W now origin create_event v es =
     fetch_and_handle_outliers n W now origin v (handle_outlier_pdu n W now origin create_event) es []"

section \<open>The state at an event\<close>

definition event_lookup :: "env \<Rightarrow> 'a federation_db_scheme \<Rightarrow> event_id \<Rightarrow> PduEvent option" where
  "event_lookup W s e = (case fst (get_pdu (serde_of W) (ruma_of W) e s) of Inr found \<Rightarrow> found | Inl _ \<Rightarrow> None)"

text \<open>The state after an event, from the state before it.\<close>

definition state_after :: "PduEvent \<Rightarrow> event_id \<Rightarrow> state_ids \<Rightarrow> ('a federation_db_scheme, state_ids) dop" where
  "state_after pdu e st =
     (case state_key pdu of
        None \<Rightarrow> ret st
      | Some key \<Rightarrow> bind (get_or_create_shortstatekey (kind pdu) key) (\<lambda>k. ret (st(k \<mapsto> e))))"

definition state_of_one_prev :: "env \<Rightarrow> event_id \<Rightarrow> ('a federation_db_scheme, state_ids option) dop" where
  "state_of_one_prev W prev_event =
     bind (reads (pdu_shortstatehash prev_event)) (\<lambda>prev_event_sstatehash.
     case prev_event_sstatehash of
       None \<Rightarrow> ret None
     | Some h \<Rightarrow>
         bind (catching (state_full_ids (ruma_of W) (iter_of W) h)) (\<lambda>st.
         case st of
           Inl _ \<Rightarrow> ret None
         | Inr st \<Rightarrow>
             bind (catching (get_pdu (serde_of W) (ruma_of W) prev_event)) (\<lambda>found.
             case found of
               Inr (Some prev_pdu) \<Rightarrow> bind (state_after prev_pdu prev_event st) (\<lambda>st. ret (Some st))
             | _ \<Rightarrow> fail (BadDatabase ''Could not find prev event, but we know the state.''))))"

text \<open>The stored states before the predecessors, one entry for each state; None if one is not known.\<close>

fun extremity_sstatehashes ::
    "env \<Rightarrow> event_id list \<Rightarrow> (u64 \<times> PduEvent) list \<Rightarrow> ('a federation_db_scheme, (u64 \<times> PduEvent) list option) dop" where
  "extremity_sstatehashes W [] acc = ret (Some acc)"
| "extremity_sstatehashes W (prev_eventid # prevs) acc =
     bind (catching (get_pdu (serde_of W) (ruma_of W) prev_eventid)) (\<lambda>found.
     case found of
       Inr (Some prev_event) \<Rightarrow>
         bind (gets (pdu_shortstatehash prev_eventid)) (\<lambda>sstatehash.
         case sstatehash of
           Inr (Some h) \<Rightarrow> extremity_sstatehashes W prevs ((h, prev_event) # filter (\<lambda>entry. fst entry \<noteq> h) acc)
         | _ \<Rightarrow> ret None)
     | _ \<Rightarrow> ret None)"

fun name_entries :: "(u64 \<times> event_id) list \<Rightarrow> state_map \<Rightarrow> ('a federation_db_scheme, state_map) dop" where
  "name_entries [] m = ret m"
| "name_entries ((k, e) # es) m =
     bind (catching (get_statekey_from_short k)) (\<lambda>r.
     name_entries es (case r of Inr tk \<Rightarrow> m(tk \<mapsto> e) | Inl _ \<Rightarrow> m))"

definition auth_chain_of :: "nat \<Rightarrow> env \<Rightarrow> room_id \<Rightarrow> state_ids \<Rightarrow> ('a federation_db_scheme, event_id list) dop" where
  "auth_chain_of n W room st =
     get_auth_chain n (serde_of W) (ruma_of W) (short_iter_of W) room (map snd (state_entries (fed_of W) st))"

fun fork_states ::
    "nat \<Rightarrow> env \<Rightarrow> room_id \<Rightarrow> (u64 \<times> PduEvent) list \<Rightarrow> ('a federation_db_scheme, state_map list \<times> event_id list list) dop" where
  "fork_states n W room [] = ret ([], [])"
| "fork_states n W room ((h, prev_event) # es) =
     bind (state_full_ids (ruma_of W) (iter_of W) h) (\<lambda>leaf_state.
     bind (state_after prev_event (event_id prev_event) leaf_state) (\<lambda>leaf_state.
     bind (name_entries (state_entries (fed_of W) leaf_state) Map.empty) (\<lambda>st.
     bind (auth_chain_of n W room leaf_state) (\<lambda>chain.
     bind (fork_states n W room es) (\<lambda>(states, chains). ret (st # states, chain # chains))))))"

fun intern_entries :: "((bytes \<times> bytes) \<times> event_id) list \<Rightarrow> ('a federation_db_scheme, (u64 \<times> event_id) list) dop" where
  "intern_entries [] = ret []"
| "intern_entries (((ty, key), e) # es) =
     bind (get_or_create_shortstatekey ty key) (\<lambda>k.
     bind (intern_entries es) (\<lambda>rest. ret ((k, e) # rest)))"

definition state_of_prevs ::
    "nat \<Rightarrow> env \<Rightarrow> room_id \<Rightarrow> bytes \<Rightarrow> event_id list \<Rightarrow> ('a federation_db_scheme, state_ids option) dop" where
  "state_of_prevs n W room v prevs =
     bind (extremity_sstatehashes W prevs []) (\<lambda>hashes.
     case hashes of
       None \<Rightarrow> ret None
     | Some hs \<Rightarrow>
         bind (fork_states n W room (fork_entries (fed_of W) hs)) (\<lambda>(states, auth_chain_sets).
         bind (gets (event_lookup W)) (\<lambda>fetch.
         case resolve (fed_of W) v states auth_chain_sets fetch of
           None \<Rightarrow> ret None
         | Some new_state \<Rightarrow> bind (intern_entries new_state) (\<lambda>es. ret (Some (map_of (rev es)))))))"

fun collect_state :: "(PduEvent \<times> jobj option) list \<Rightarrow> state_ids \<Rightarrow> ('a federation_db_scheme, state_ids) dop" where
  "collect_state [] st = ret st"
| "collect_state ((pdu, _) # pdus) st =
     (case state_key pdu of
        None \<Rightarrow> fail (BadDatabase ''Found non-state pdu in state events.'')
      | Some key \<Rightarrow>
          bind (get_or_create_shortstatekey (kind pdu) key) (\<lambda>k.
          if st k \<noteq> None
          then fail (BadDatabase (''State event'' @ [CHR 0x27] @ ''s type and state_key combination exists multiple times.''))
          else collect_state pdus (st(k \<mapsto> event_id pdu))))"

definition state_of_remote ::
    "nat \<Rightarrow> env \<Rightarrow> nat \<Rightarrow> servername \<Rightarrow> PduEvent \<Rightarrow> room_id \<Rightarrow> bytes \<Rightarrow> event_id \<Rightarrow> ('a federation_db_scheme, state_ids) dop" where
  "state_of_remote n W now origin create_event room v e =
     bind (send_federation_request (\<lambda>k. remote_state_ids (fed_of W) k origin room e)) (\<lambda>pdu_ids.
     bind (fetch_outliers n W now origin create_event v pdu_ids) (\<lambda>state_vec.
     bind (collect_state state_vec Map.empty) (\<lambda>st.
     bind (get_shortstatekey (ascii ''m.room.create'') []) (\<lambda>key.
     bind (of_res (ok_or (Panic ''Room exists'') key)) (\<lambda>create_shortstatekey.
     if st create_shortstatekey \<noteq> Some (event_id create_event)
     then fail (BadDatabase ''Incoming event refers to wrong create event.'')
     else ret st)))))"

definition state_at_event ::
    "nat \<Rightarrow> env \<Rightarrow> nat \<Rightarrow> servername \<Rightarrow> PduEvent \<Rightarrow> room_id \<Rightarrow> bytes \<Rightarrow> PduEvent \<Rightarrow> ('a federation_db_scheme, state_ids) dop" where
  "state_at_event n W now origin create_event room v pdu =
     bind (case prev_events pdu of [prev_event] \<Rightarrow> state_of_one_prev W prev_event | prevs \<Rightarrow> state_of_prevs n W room v prevs) (\<lambda>st.
     case st of
       Some st \<Rightarrow> ret st
     | None \<Rightarrow> state_of_remote n W now origin create_event room v (event_id pdu))"

section \<open>From outlier to timeline\<close>

text \<open>The event that holds a type and key in a state, as \<^verbatim>\<open>auth_check\<close> looks it up.\<close>

definition lookup_at :: "env \<Rightarrow> 'a federation_db_scheme \<Rightarrow> state_ids \<Rightarrow> bytes \<times> bytes \<Rightarrow> PduEvent option" where
  "lookup_at W s st tk =
     (case fst (get_shortstatekey (fst tk) (snd tk) s) of
        Inr (Some k) \<Rightarrow> Option.bind (st k) (event_lookup W s)
      | _ \<Rightarrow> None)"

fun compress_entries :: "(u64 \<times> event_id) list \<Rightarrow> ('a federation_db_scheme, CompressedStateEvent set) dop" where
  "compress_entries [] = ret {}"
| "compress_entries ((k, e) # es) =
     bind (compress_state_event k e) (\<lambda>c. bind (compress_entries es) (\<lambda>cs. ret (insert c cs)))"

fun compress_named :: "((bytes \<times> bytes) \<times> event_id) list \<Rightarrow> ('a federation_db_scheme, CompressedStateEvent set) dop" where
  "compress_named [] = ret {}"
| "compress_named (((ty, key), e) # es) =
     bind (get_or_create_shortstatekey ty key) (\<lambda>k.
     bind (compress_state_event k e) (\<lambda>c. bind (compress_named es) (\<lambda>cs. ret (insert c cs))))"

text \<open>Every extremity must have a stored state; the states themselves are not looked at.\<close>

fun check_extremities :: "env \<Rightarrow> event_id list \<Rightarrow> ('a federation_db_scheme, unit) dop" where
  "check_extremities W [] = ret ()"
| "check_extremities W (e # es) =
     bind (get_pdu (serde_of W) (ruma_of W) e) (\<lambda>found.
     case found of
       None \<Rightarrow> fail (BadDatabase ''Missing state snapshot.'')
     | Some leaf_pdu \<Rightarrow>
         bind (reads (pdu_shortstatehash (event_id leaf_pdu))) (\<lambda>h.
         andthen (of_res (ok_or (BadDatabase ''Found pdu with no statehash in db.'') h))
         (check_extremities W es)))"

text \<open>Steps 12 and 14: the current state and the state after the event are resolved into the new state of the room.\<close>

definition resolve_forks ::
    "nat \<Rightarrow> env \<Rightarrow> room_id \<Rightarrow> bytes \<Rightarrow> state_ids \<Rightarrow> state_ids \<Rightarrow> ('a federation_db_scheme, unit) dop" where
  "resolve_forks n W room v current after =
     bind (auth_chain_of n W room current) (\<lambda>chain.
     bind (auth_chain_of n W room after) (\<lambda>chain'.
     bind (name_entries (state_entries (fed_of W) current) Map.empty) (\<lambda>st.
     bind (name_entries (state_entries (fed_of W) after) Map.empty) (\<lambda>st'.
     bind (gets (event_lookup W)) (\<lambda>fetch.
     bind (of_res (ok_or (BadDatabase ''State resolution failed, either an event could not be found or deserialization'')
       (resolve (fed_of W) v [st, st'] [chain, chain'] fetch))) (\<lambda>new_state.
     bind (compress_named new_state) (\<lambda>new_room_state.
     bind (save_state (iter_of W) (digest_of W) room new_room_state) (\<lambda>(h, added, _).
     force_state (serde_of W) (ruma_of W) (contents_of W) (iter_of W) room h added))))))))"

definition derive_room_state ::
    "nat \<Rightarrow> env \<Rightarrow> room_id \<Rightarrow> bytes \<Rightarrow> PduEvent \<Rightarrow> event_id set \<Rightarrow> state_ids \<Rightarrow> ('a federation_db_scheme, unit) dop" where
  "derive_room_state n W room v pdu extremities st =
     bind (reads (get_room_shortstatehash room)) (\<lambda>h.
     bind (of_res (ok_or (Panic ''every room has state'') h)) (\<lambda>current_sstatehash.
     bind (state_full_ids (ruma_of W) (iter_of W) current_sstatehash) (\<lambda>current.
     andthen (check_extremities W (iter_of W extremities))
     (bind (state_after pdu (event_id pdu) st) (\<lambda>after.
      if current = after then andthen (compress_entries (state_entries (fed_of W) current)) (ret ())
      else resolve_forks n W room v current after)))))"

text \<open>Steps 11 to 14 once the state at the event passed; the room is locked.\<close>

definition append_authorized ::
    "nat \<Rightarrow> env \<Rightarrow> room_id \<Rightarrow> bytes \<Rightarrow> PduEvent \<Rightarrow> jobj \<Rightarrow> state_ids \<Rightarrow> ('a federation_db_scheme, bytes option) dop" where
  "append_authorized n W room v pdu val st =
     bind (reads (get_forward_extremities (ruma_of W) room)) (\<lambda>leaves.
     bind (gets (\<lambda>s. {e \<in> leaves - set (prev_events pdu). is_event_referenced room e s \<noteq> Inr True})) (\<lambda>extremities.
     bind (compress_entries (state_entries (fed_of W) st)) (\<lambda>compressed.
     bind (get_auth_events (serde_of W) (ruma_of W) (iter_of W) (auth_types_for_event (lib_of W)) room
       (kind pdu) (sender pdu) (state_key pdu) (content pdu)) (\<lambda>auths.
     bind (of_res (ok_or (BadRequest InvalidParam ''Auth check failed.'') (auth_check (lib_of W) v pdu auths))) (\<lambda>allowed.
     if \<not> allowed then
       andthen (append_incoming_pdu (serde_of W) (ruma_of W) (contents_of W) (push_of W) (lib_of W) (iter_of W) (digest_of W)
         pdu val (iter_of W extremities) compressed True)
       (andthen (mark_event_soft_failed (event_id pdu))
       (fail (BadRequest InvalidParam ''Event has been soft failed'')))
     else
       andthen (if state_key pdu = None then ret () else derive_room_state n W room v pdu extremities st)
       (append_incoming_pdu (serde_of W) (ruma_of W) (contents_of W) (push_of W) (lib_of W) (iter_of W) (digest_of W)
         pdu val (iter_of W (insert (event_id pdu) extremities)) compressed False))))))"

definition upgrade_outlier_to_timeline_pdu ::
    "nat \<Rightarrow> env \<Rightarrow> nat \<Rightarrow> servername \<Rightarrow> PduEvent \<Rightarrow> room_id \<Rightarrow> PduEvent \<Rightarrow> jobj \<Rightarrow>
     ('a federation_db_scheme, bytes option) dop" where
  "upgrade_outlier_to_timeline_pdu n W now origin create_event room pdu val =
     bind (gets (get_pdu_id (event_id pdu))) (\<lambda>known.
     case known of
       Inr (Some pduid) \<Rightarrow> ret (Some pduid)
     | _ \<Rightarrow>
         bind (reads (is_event_soft_failed (event_id pdu))) (\<lambda>failed.
         if failed then fail (BadRequest InvalidParam ''Event has been soft failed'')
         else
           bind (of_res (version_of_room W create_event)) (\<lambda>v.
           bind (state_at_event n W now origin create_event room v pdu) (\<lambda>st.
           bind (gets (\<lambda>s. auth_check (lib_of W) v pdu (lookup_at W s st))) (\<lambda>checked.
           bind (of_res (ok_or (BadRequest InvalidParam ''Auth check failed.'') checked)) (\<lambda>allowed.
           if \<not> allowed then fail (BadDatabase ''Event has failed auth check with state at the event.'')
           else append_authorized n W room v pdu val st))))))"

section \<open>Predecessors\<close>

fun fetch_prevs ::
    "nat \<Rightarrow> env \<Rightarrow> nat \<Rightarrow> servername \<Rightarrow> PduEvent \<Rightarrow> bytes \<Rightarrow> nat \<Rightarrow> event_id list \<Rightarrow> (event_id \<Rightarrow> event_id set option) \<Rightarrow>
     (event_id \<Rightarrow> (PduEvent \<times> jobj) option) \<Rightarrow> 16 word \<Rightarrow>
     ('a federation_db_scheme, (event_id \<Rightarrow> event_id set option) \<times> (event_id \<Rightarrow> (PduEvent \<times> jobj) option)) dop" where
  "fetch_prevs n W now origin create_event v first_ts [] graph info amount = ret (graph, info)"
| "fetch_prevs 0 W now origin create_event v first_ts (prev # todo) graph info amount = fail still_running"
| "fetch_prevs (Suc n) W now origin create_event v first_ts (prev # todo) graph info amount =
     bind (fetch_outliers n W now origin create_event v [prev]) (\<lambda>fetched.
     bind (gets (\<lambda>s. max_fetch_prev_events (config s))) (\<lambda>limit.
     bind (gets (get_outlier_pdu_json (serde_of W) prev)) (\<lambda>stored.
     if fetched = [] \<or> amount > limit
     then fetch_prevs n W now origin create_event v first_ts todo (graph(prev \<mapsto> {})) info amount
     else
       (let (pdu, json_opt) = last fetched in
        case (case json_opt of Some json \<Rightarrow> Some json | None \<Rightarrow> (case stored of Inr json \<Rightarrow> json | Inl _ \<Rightarrow> None)) of
          None \<Rightarrow> fetch_prevs n W now origin create_event v first_ts todo (graph(prev \<mapsto> {})) info amount
        | Some json \<Rightarrow>
            if origin_server_ts pdu > first_ts then
              fetch_prevs n W now origin create_event v first_ts
                (rev (filter (\<lambda>p. graph p = None) (prev_events pdu)) @ todo)
                (graph(prev \<mapsto> set (prev_events pdu))) (info(prev \<mapsto> (pdu, json))) (amount + 1)
            else
              fetch_prevs n W now origin create_event v first_ts todo (graph(prev \<mapsto> {})) (info(prev \<mapsto> (pdu, json))) amount))))"

definition first_event :: "env \<Rightarrow> room_id \<Rightarrow> ('a federation_db_scheme, PduEvent) dop" where
  "first_event W room =
     bind (reads (first_pdu_in_room (serde_of W) (ruma_of W) room)) (\<lambda>first.
     of_res (ok_or (BadDatabase ''Failed to find first pdu in db.'') first))"

definition fetch_unknown_prev_events ::
    "nat \<Rightarrow> env \<Rightarrow> nat \<Rightarrow> servername \<Rightarrow> PduEvent \<Rightarrow> room_id \<Rightarrow> bytes \<Rightarrow> event_id list \<Rightarrow>
     ('a federation_db_scheme, event_id list \<times> (event_id \<Rightarrow> (PduEvent \<times> jobj) option)) dop" where
  "fetch_unknown_prev_events n W now origin create_event room v initial_set =
     bind (first_event W room) (\<lambda>first_pdu.
     bind (fetch_prevs n W now origin create_event v (origin_server_ts first_pdu) (rev initial_set) Map.empty Map.empty 0)
       (\<lambda>(graph, info).
     bind (of_res (ok_or (BadDatabase ''Error sorting prev events'')
       (topological_sort (fed_of W) graph (\<lambda>e. case info e of None \<Rightarrow> 0 | Some (pdu, _) \<Rightarrow> origin_server_ts pdu)))) (\<lambda>sorted_events.
     ret (sorted_events, info))))"

definition set_handle_time :: "room_id \<Rightarrow> (event_id \<times> nat) option \<Rightarrow> ('a federation_db_scheme, unit) dop" where
  "set_handle_time room t = modify (\<lambda>s. s\<lparr>roomid_federationhandletime := (roomid_federationhandletime s)(room := t)\<rparr>)"

definition forbid_disabled :: "room_id \<Rightarrow> ('a federation_db_scheme, unit) dop" where
  "forbid_disabled room =
     bind (reads (is_disabled room)) (\<lambda>disabled.
     if disabled then fail (BadRequest Forbidden ''Federation of this room is currently disabled on this server.'') else ret ())"

text \<open>The predecessors enter the timeline in order, until five of them failed.\<close>

fun handle_prevs ::
    "nat \<Rightarrow> (PduEvent \<Rightarrow> jobj \<Rightarrow> ('a federation_db_scheme, 'b) dop) \<Rightarrow> room_id \<Rightarrow> nat \<Rightarrow> event_id list \<Rightarrow>
     (event_id \<Rightarrow> (PduEvent \<times> jobj) option) \<Rightarrow> nat \<Rightarrow> ('a federation_db_scheme, unit) dop" where
  "handle_prevs now upgrade room first_ts [] info errors = ret ()"
| "handle_prevs now upgrade room first_ts (prev_id # prevs) info errors =
     andthen (forbid_disabled room)
     (bind (gets (\<lambda>s. bad_event_ratelimiter s prev_id)) (\<lambda>entry.
      bind (of_res (backing_off (5 * 60) now entry)) (\<lambda>wait.
      if wait then handle_prevs now upgrade room first_ts prevs info errors
      else if errors \<ge> 5 then ret ()
      else
        (case info prev_id of
           None \<Rightarrow> handle_prevs now upgrade room first_ts prevs info errors
         | Some (pdu, json) \<Rightarrow>
             if origin_server_ts pdu < first_ts
             then handle_prevs now upgrade room first_ts prevs (info(prev_id := None)) errors
             else
               andthen (set_handle_time room (Some (prev_id, now)))
               (bind (catching (upgrade pdu json)) (\<lambda>r.
                bind (case r of Inl _ \<Rightarrow> andthen (back_off_event now prev_id) (ret (errors + 1)) | Inr _ \<Rightarrow> ret errors) (\<lambda>errors.
                andthen (set_handle_time room None)
                (handle_prevs now upgrade room first_ts prevs (info(prev_id := None)) errors))))))))"

section \<open>An incoming event\<close>

text \<open>The steps after the event became an outlier.\<close>

definition handle_timeline_event ::
    "nat \<Rightarrow> env \<Rightarrow> nat \<Rightarrow> servername \<Rightarrow> PduEvent \<Rightarrow> room_id \<Rightarrow> bytes \<Rightarrow> nat \<Rightarrow> event_id \<Rightarrow> PduEvent \<Rightarrow> jobj \<Rightarrow>
     ('a federation_db_scheme, bytes option) dop" where
  "handle_timeline_event n W now origin create_event room v first_ts e pdu val =
     bind (fetch_unknown_prev_events n W now origin create_event room v (prev_events pdu)) (\<lambda>(sorted_prev_events, info).
     andthen (handle_prevs now (upgrade_outlier_to_timeline_pdu n W now origin create_event room) room first_ts
       sorted_prev_events info 0)
     (andthen (set_handle_time room (Some (e, now)))
     (bind (catching (upgrade_outlier_to_timeline_pdu n W now origin create_event room pdu val)) (\<lambda>r.
      andthen (set_handle_time room None)
      (of_res r)))))"

definition handle_incoming_pdu ::
    "nat \<Rightarrow> env \<Rightarrow> nat \<Rightarrow> servername \<Rightarrow> event_id \<Rightarrow> room_id \<Rightarrow> jobj \<Rightarrow> bool \<Rightarrow> ('a federation_db_scheme, bytes option) dop" where
  "handle_incoming_pdu n W now origin e room value is_timeline_event =
     bind (reads (room_exists room)) (\<lambda>exists.
     if \<not> exists then fail (BadRequest NotFound ''Room is unknown to this server'')
     else
       andthen (forbid_disabled room)
       (bind (reads (get_pdu_id e)) (\<lambda>known.
        case known of
          Some pdu_id \<Rightarrow> ret (Some pdu_id)
        | None \<Rightarrow>
            bind (room_state_get (serde_of W) (ruma_of W) (iter_of W) room (ascii ''m.room.create'') []) (\<lambda>create.
            bind (of_res (ok_or (BadDatabase ''Failed to find create event in db.'') create)) (\<lambda>create_event.
            bind (of_res (ok_or (BadDatabase ''Invalid create event in db'')
              (create_version (contents_of W) (content create_event)))) (\<lambda>v.
            bind (first_event W room) (\<lambda>first_pdu.
            bind (handle_outlier_pdu n W now origin create_event e value) (\<lambda>(pdu, val).
            if \<not> is_timeline_event \<or> origin_server_ts pdu < origin_server_ts first_pdu then ret None
            else handle_timeline_event n W now origin create_event room v (origin_server_ts first_pdu) e pdu val))))))))"

end
