(* ===== verification/Incoming.thy ===== *)
theory Incoming
  imports EventHandler
begin

text \<open>
  What the event handler guarantees of events from other servers. Fetching keys, reading states and
  computing auth chains leave the tables of events alone; outliers are only added by a run of
  vetted steps, and an event enters the timeline only by an admission step.
\<close>

section \<open>The tables of events\<close>

definition event_tables where
  "event_tables s = (pduid_pdu s, eventid_pduid s, eventid_outlierpdu s, referencedevents s, softfailedeventids s,
     roomid_pduleaves s, roomid_shortstatehash s)"

interpretation tables: state_read_frame event_tables
  by unfold_locales (simp_all add: event_tables_def)

lemma keeps_catching [keeps_intros]: "keeps f p \<Longrightarrow> keeps f (catching p)"
  unfolding catching_def by (intro keeps_intros)

lemma tables_intern [keeps_intros]:
  "keeps event_tables (get_or_create_shorteventid e)" "keeps event_tables (get_or_create_shortstatekey ty key)"
  "keeps event_tables (get_statekey_from_short k)" "keeps event_tables (get_or_create_shortstatehash h)"
  "keeps event_tables (get_eventid_from_short R k)" "keeps event_tables (compress_state_event k e)"
  unfolding get_or_create_shorteventid_def get_or_create_shortstatekey_def get_statekey_from_short_def
    get_or_create_shortstatehash_def get_eventid_from_short_def compress_state_event_def
  by (intro keeps_intros; simp add: event_tables_def)+

lemmas tables_reads [keeps_intros] = tables.keeps_get_pdu tables.keeps_get_shortstatekey tables.keeps_full_state
  tables.keeps_parse tables.keeps_room_state_get

lemma tables_keys [keeps_intros]: "keeps event_tables (add_signing_key parse print origin k)"
  by (simp add: keeps_def add_signing_key_def event_tables_def Let_def)

lemma tables_request [keeps_intros]: "keeps event_tables (send_federation_request answer)"
  unfolding send_federation_request_def by (intro keeps_intros) (simp add: event_tables_def)

lemma tables_back_off [keeps_intros]:
  "keeps event_tables (back_off_event now e)" "keeps event_tables (back_off_signature now ids)"
  "keeps event_tables (set_pub_keys server keys)" "keeps event_tables (set_handle_time room t)"
  "keeps event_tables (forbid_disabled room)"
  unfolding back_off_event_def back_off_signature_def set_pub_keys_def set_handle_time_def forbid_disabled_def
  by (intro keeps_intros; simp add: event_tables_def)+

lemma tables_add_keys [keeps_intros]: "keeps event_tables (add_keys F origin ks result)"
proof (induction ks arbitrary: result)
  case (Cons k ks)
  show ?case unfolding add_keys.simps by (intro keeps_intros Cons)
qed (simp only: add_keys.simps keeps_basic)

lemma tables_notaries [keeps_intros]: "keeps event_tables (ask_notaries F origin ids servers result)"
proof (induction servers arbitrary: result)
  case (Cons server servers)
  show ?case unfolding ask_notaries.simps by (intro keeps_intros Cons)
qed (simp only: ask_notaries.simps keeps_basic)

lemma tables_fetch_signing_keys [keeps_intros]: "keeps event_tables (fetch_signing_keys F now origin ids)"
  unfolding fetch_signing_keys_def ask_origin_def by (intro keeps_intros)

lemma tables_fetch_keys_of [keeps_intros]: "keeps event_tables (fetch_keys_of W now sigs)"
proof (induction sigs)
  case (Cons sig sigs)
  obtain server signature where "sig = (server, signature)" by (rule prod.exhaust)
  then show ?case by (simp only: fetch_keys_of.simps) (intro keeps_intros Cons)
qed (simp only: fetch_keys_of.simps keeps_basic)

lemma tables_fetch_required [keeps_intros]: "keeps event_tables (fetch_required_signing_keys W now event)"
  unfolding fetch_required_signing_keys_def by (intro keeps_intros)

lemma tables_fetch_chain [keeps_intros]:
  "keeps event_tables (fetch_chain n W now origin v todo events seen)"
proof (induction n arbitrary: todo events seen)
  case 0
  show ?case by (cases todo) (simp_all only: fetch_chain.simps keeps_basic)
next
  case (Suc n)
  show ?case
  proof (cases todo)
    case (Cons next_id todo)
    show ?thesis unfolding Cons fetch_chain.simps Let_def by (intro keeps_intros Suc)
  qed (simp only: fetch_chain.simps keeps_basic)
qed

lemma tables_auth_event_map [keeps_intros]: "keeps event_tables (auth_event_map W ids m)"
proof (induction ids arbitrary: m)
  case (Cons i ids)
  show ?case unfolding auth_event_map.simps by (intro keeps_intros Cons)
qed (simp only: auth_event_map.simps keeps_basic)

section \<open>Auth chains and states\<close>

lemma tables_chain_loop [keeps_intros]: "keeps event_tables (get_auth_chain_inner n J R room e)"
proof -
  have push: "keeps event_tables (push_auth_events es todo found)" for es todo found
  proof (induction es arbitrary: todo found)
    case (Cons e es)
    show ?case unfolding push_auth_events.simps by (intro keeps_intros Cons)
  qed (simp only: push_auth_events.simps keeps_basic)
  have "keeps event_tables (auth_chain_loop n J R room todo found)" for todo found
  proof (induction n arbitrary: todo found)
    case 0
    show ?case by (cases todo) (simp_all only: auth_chain_loop.simps keeps_basic)
  next
    case (Suc n)
    show ?case
    proof (cases todo)
      case (Cons e todo)
      show ?thesis unfolding Cons auth_chain_loop.simps by (intro keeps_intros push Suc)
    qed (simp only: auth_chain_loop.simps keeps_basic)
  qed
  then show ?thesis unfolding get_auth_chain_inner_def .
qed

lemma tables_chain_cache [keeps_intros]:
  "keeps event_tables (get_cached_eventid_authchain key)" "keeps event_tables (cache_auth_chain iter key chain)"
  unfolding get_cached_eventid_authchain_def cache_auth_chain_def
  by (intro keeps_intros; simp add: event_tables_def)+

lemma tables_buckets [keeps_intros]:
  "keeps event_tables (fill_buckets es buckets)" "keeps event_tables (buckets_chain n J R iter room chunks full)"
  "keeps event_tables (read_back R sids)"
proof -
  show "keeps event_tables (fill_buckets es buckets)"
  proof (induction es arbitrary: buckets)
    case (Cons e es)
    show ?case unfolding fill_buckets.simps Let_def by (intro keeps_intros Cons)
  qed (simp only: fill_buckets.simps keeps_basic)
  have chunk: "keeps event_tables (chunk_chain n J R iter room chunk cache)" for chunk cache
  proof (induction chunk arbitrary: cache)
    case (Cons e chunk)
    obtain k i where "e = (k, i)" by (rule prod.exhaust)
    then show ?case by (simp only: chunk_chain.simps) (intro keeps_intros Cons)
  qed (simp only: chunk_chain.simps keeps_basic)
  show "keeps event_tables (buckets_chain n J R iter room chunks full)"
  proof (induction chunks arbitrary: full)
    case (Cons chunk chunks)
    show ?case unfolding buckets_chain.simps Let_def by (intro keeps_intros chunk Cons)
  qed (simp only: buckets_chain.simps keeps_basic)
  show "keeps event_tables (read_back R sids)"
  proof (induction sids)
    case (Cons sid sids)
    show ?case unfolding read_back.simps by (intro keeps_intros Cons)
  qed (simp only: read_back.simps keeps_basic)
qed

lemma tables_state_reads [keeps_intros]:
  "keeps event_tables (auth_chain_of n W room st)" "keeps event_tables (state_full_ids R iter h)"
  "keeps event_tables (state_after pdu e st)"
proof -
  show "keeps event_tables (auth_chain_of n W room st)" "keeps event_tables (state_after pdu e st)"
    unfolding auth_chain_of_def get_auth_chain_def state_after_def by (intro keeps_intros)+
  have "keeps event_tables (parse_all R cs)" for cs
  proof (induction cs)
    case (Cons c cs)
    show ?case unfolding parse_all.simps by (intro keeps_intros Cons)
  qed (simp only: parse_all.simps keeps_basic)
  then show "keeps event_tables (state_full_ids R iter h)"
    unfolding state_full_ids_def by (intro keeps_intros)
qed

lemma tables_entries [keeps_intros]:
  "keeps event_tables (name_entries es m)" "keeps event_tables (intern_entries ns)" "keeps event_tables (compress_entries es)"
  "keeps event_tables (compress_named ns)" "keeps event_tables (collect_state pdus st)"
proof -
  show "keeps event_tables (name_entries es m)"
  proof (induction es arbitrary: m)
    case (Cons e es)
    obtain k i where "e = (k, i)" by (rule prod.exhaust)
    then show ?case by (simp only: name_entries.simps) (intro keeps_intros Cons)
  qed (simp only: name_entries.simps keeps_basic)
  show "keeps event_tables (compress_entries es)"
  proof (induction es)
    case (Cons e es)
    obtain k i where "e = (k, i)" by (rule prod.exhaust)
    then show ?case by (simp only: compress_entries.simps) (intro keeps_intros Cons)
  qed (simp only: compress_entries.simps keeps_basic)
  show "keeps event_tables (collect_state pdus st)"
  proof (induction pdus arbitrary: st)
    case (Cons p pdus)
    obtain pdu j where "p = (pdu, j)" by (rule prod.exhaust)
    then show ?case by (simp only: collect_state.simps) (intro keeps_intros Cons)
  qed (simp only: collect_state.simps keeps_basic)
  show "keeps event_tables (intern_entries ns)"
  proof (induction ns rule: intern_entries.induct)
    case (2 ty key e es)
    show ?case unfolding intern_entries.simps by (intro keeps_intros 2)
  qed (simp only: intern_entries.simps keeps_basic)
  show "keeps event_tables (compress_named ns)"
  proof (induction ns rule: compress_named.induct)
    case (2 ty key e es)
    show ?case unfolding compress_named.simps by (intro keeps_intros 2)
  qed (simp only: compress_named.simps keeps_basic)
qed

lemma tables_forks [keeps_intros]:
  "keeps event_tables (extremity_sstatehashes W prevs acc)" "keeps event_tables (fork_states n W room hs)"
  "keeps event_tables (check_extremities W es)"
proof -
  show "keeps event_tables (extremity_sstatehashes W prevs acc)"
  proof (induction prevs arbitrary: acc)
    case (Cons prev prevs)
    show ?case unfolding extremity_sstatehashes.simps by (intro keeps_intros Cons)
  qed (simp only: extremity_sstatehashes.simps keeps_basic)
  show "keeps event_tables (fork_states n W room hs)"
  proof (induction hs)
    case (Cons e hs)
    obtain h prev where "e = (h, prev)" by (rule prod.exhaust)
    then show ?case by (simp only: fork_states.simps) (intro keeps_intros Cons)
  qed (simp only: fork_states.simps keeps_basic)
  show "keeps event_tables (check_extremities W es)"
  proof (induction es)
    case (Cons e es)
    show ?case unfolding check_extremities.simps by (intro keeps_intros Cons)
  qed (simp only: check_extremities.simps keeps_basic)
qed

lemma tables_known_states [keeps_intros]:
  "keeps event_tables (state_of_one_prev W prev)" "keeps event_tables (state_of_prevs n W room v prevs)"
  unfolding state_of_one_prev_def state_of_prevs_def by (intro keeps_intros)+

section \<open>Runs that only add vetted outliers\<close>

text \<open>The signatures of an event were checked with the keys at hand, and it is the value kept as an outlier.\<close>

definition signed_event :: "env \<Rightarrow> PduEvent \<Rightarrow> 'a federation_db_scheme \<Rightarrow> PduEvent \<Rightarrow> jobj \<Rightarrow> bool" where
  "signed_event W create_event s pdu val \<longleftrightarrow>
     (\<exists>v value val'. version_of_room W create_event = Inr v \<and> verified_value (fed_of W) (pub_key_map s) value v = Inr val' \<and>
        val = obj_insert (ascii ''event_id'') (JStr (event_id pdu)) val' \<and> pdu_of_json (ruma_of W) (JObj val) = Some pdu)"

text \<open>
  The authorization rules allow an event with its auth events: the lookup has the create event of the room, and it
  finds nothing but stored events that the event refers to, each under its own type and key.
\<close>

definition allowed_by :: "env \<Rightarrow> PduEvent \<Rightarrow> 'a federation_db_scheme \<Rightarrow> PduEvent \<Rightarrow> bool" where
  "allowed_by W create_event s pdu \<longleftrightarrow>
     (\<exists>v auths. version_of_room W create_event = Inr v \<and> auth_check (lib_of W) v pdu auths = Some True \<and>
        same_event (auths (ascii ''m.room.create'', [])) create_event \<and>
        (\<forall>k p. auths k = Some p \<longrightarrow> (\<exists>i \<in> set (auth_events pdu). event_lookup W s i = Some p \<and> Some (snd k) = state_key p \<and> fst k = kind p)))"

text \<open>
  The states a run passes through are those that the operations of the handler lead to: fetching keys, reading
  the auth events, backing off, reading an event and fetching unknown auth events. Only a vetted event is stored.
\<close>

inductive outlier_run :: "env \<Rightarrow> PduEvent \<Rightarrow> 'a federation_db_scheme \<Rightarrow> 'a federation_db_scheme \<Rightarrow> bool" for W create_event where
  none: "outlier_run W create_event s s"
| keys: "outlier_run W create_event s (snd (fetch_required_signing_keys W now event s))"
| auths: "outlier_run W create_event s (snd (auth_event_map W ids m s))"
| back_off: "outlier_run W create_event s (snd (back_off_event now e s))"
| known: "outlier_run W create_event s (snd (get_pdu (serde_of W) (ruma_of W) e s))"
| chain: "outlier_run W create_event s (snd (fetch_chain n W now origin v todo events seen s))"
| step: "outlier_run W create_event s t \<Longrightarrow> outlier_run W create_event t u \<Longrightarrow> outlier_run W create_event s u"
| store: "signed_event W create_event s pdu val \<Longrightarrow> outlier_run W create_event s t \<Longrightarrow> allowed_by W create_event t pdu \<Longrightarrow>
    outlier_run W create_event s (t\<lparr>eventid_outlierpdu := kv_insert (event_id pdu) (json_print (serde_of W) (JObj val)) (eventid_outlierpdu t)\<rparr>)"

text \<open>Operations whose effect is a run of a transitive relation that ignores all but an observation.\<close>

definition evolves :: "('s \<Rightarrow> 's \<Rightarrow> bool) \<Rightarrow> ('e, 's, 'a) op \<Rightarrow> bool" where
  "evolves r p \<longleftrightarrow> (\<forall>s. r s (snd (p s)))"

lemma evolvesD: "evolves r p \<Longrightarrow> p s = (x, s') \<Longrightarrow> r s s'"
  unfolding evolves_def by (metis snd_conv)

locale evolution =
  fixes r :: "'s \<Rightarrow> 's \<Rightarrow> bool" and f :: "'s \<Rightarrow> 'v"
  assumes same: "f t = f s \<Longrightarrow> r s t"
    and trans: "r s t \<Longrightarrow> r t u \<Longrightarrow> r s u"
begin

lemma evolves_keeps: "keeps f p \<Longrightarrow> evolves r p"
  by (simp add: keeps_def evolves_def same)

lemma evolves_bind:
  assumes "evolves r p" and "\<And>x. evolves r (k x)"
  shows "evolves r (bind p k)"
  unfolding evolves_def
proof
  fix s
  obtain x t where x: "p s = (x, t)" by (rule prod.exhaust)
  show "r s (snd (bind p k s))"
  proof (cases x)
    case (Inr y)
    have "r t (snd (k y t))" using assms(2) by (simp add: evolves_def)
    with x Inr show ?thesis using trans [OF evolvesD [OF assms(1) x]] by simp
  qed (use x evolvesD [OF assms(1) x] in simp)
qed

lemma evolves_andthen: "evolves r p \<Longrightarrow> evolves r q \<Longrightarrow> evolves r (andthen p q)"
  unfolding andthen_def by (rule evolves_bind)

lemma evolves_attempt: "evolves r p \<Longrightarrow> evolves r (attempt p)"
  by (simp add: evolves_def attempt_apply)

lemma evolves_catching: "evolves r p \<Longrightarrow> evolves r (catching p)"
  unfolding catching_def
  by (rule evolves_bind [OF evolves_attempt], assumption, rule evolves_keeps) (intro keeps_intros)

lemma evolves_cases:
  "evolves r p \<Longrightarrow> evolves r q \<Longrightarrow> evolves r (if c then p else q)"
  "evolves r p \<Longrightarrow> (\<And>x. evolves r (k x)) \<Longrightarrow> evolves r (case m of None \<Rightarrow> p | Some x \<Rightarrow> k x)"
  "(\<And>x y. evolves r (h x y)) \<Longrightarrow> evolves r (case d of (x, y) \<Rightarrow> h x y)"
  "(\<And>x. evolves r (k1 x)) \<Longrightarrow> (\<And>x. evolves r (k2 x)) \<Longrightarrow> evolves r (case e of Inl x \<Rightarrow> k1 x | Inr x \<Rightarrow> k2 x)"
  by (simp_all split: option.split prod.split sum.split)

lemma evolves_then:
  assumes "r s t" and "evolves r p"
  shows "r s (snd (p t))"
  using trans [OF assms(1)] assms(2) by (simp add: evolves_def)

lemmas evolves_intros = evolves_bind evolves_andthen evolves_attempt evolves_catching evolves_cases

end

interpretation outliers: evolution "outlier_run W create_event" "\<lambda>s. s" for W create_event
  by unfold_locales (simp add: outlier_run.none, rule outlier_run.step)

text \<open>What the lookup of the auth events holds.\<close>

lemma event_lookup_get_pdu: "event_lookup W (snd (get_pdu (serde_of W) (ruma_of W) e s)) i = event_lookup W s i"
  using same_events_get_pdu [of "serde_of W" "ruma_of W" s e] by (simp add: event_lookup_def same_events_def)

lemma auth_event_map_found:
  assumes "auth_event_map W ids m s = (Inr auths, s')" and "auths k = Some p"
  shows "m k = Some p \<or> (\<exists>i \<in> set ids. event_lookup W s i = Some p \<and> Some (snd k) = state_key p \<and> fst k = kind p)"
  using assms
proof (induction ids arbitrary: m s)
  case (Cons i ids)
  obtain found t where get: "get_pdu (serde_of W) (ruma_of W) i s = (found, t)" by (rule prod.exhaust)
  have look: "event_lookup W t j = event_lookup W s j" for j using event_lookup_get_pdu [of W i s j] get by simp
  show ?case
  proof (cases found)
    case (Inr got)
    show ?thesis
    proof (cases got)
      case None
      with Cons.prems Inr get Cons.IH [of m t] look show ?thesis by auto
    next
      case (Some a)
      obtain key where key: "state_key a = Some key" "m (kind a, key) = None"
        "auth_event_map W ids (m((kind a, key) \<mapsto> a)) t = (Inr auths, s')"
        using Cons.prems(1) Inr Some get by (auto split: option.splits if_splits)
      have "event_lookup W s i = Some a" using get Inr Some by (simp add: event_lookup_def)
      with Cons.IH [OF key(3) Cons.prems(2)] key(1) look show ?thesis by (auto split: if_splits)
    qed
  qed (use Cons.prems get in simp)
qed simp

lemma pdu_event_id:
  assumes "pdu_of_json R (JObj (obj_insert (ascii ''event_id'') (JStr e) val)) = Some pdu"
  shows "event_id pdu = e"
  using assms by (auto simp: pdu_of_json_def p_id_def as_string_def bind_eq_Some_conv split: if_splits)

lemma lookup_kept: "keeps (event_lookup W) (auth_event_map W ids m)"
proof (induction ids arbitrary: m)
  case (Cons i ids)
  have "keeps (event_lookup W) (get_pdu (serde_of W) (ruma_of W) i)"
    unfolding keeps_def by (intro allI ext) (rule event_lookup_get_pdu)
  then show ?case unfolding auth_event_map.simps by (intro keeps_intros Cons)
qed (simp only: auth_event_map.simps keeps_basic)

lemma authorize_outlier_run:
  assumes "outlier_run W create_event s t" and "signed_event W create_event s pdu val" and "version_of_room W create_event = Inr v"
    and fetch: "\<And>es. evolves (outlier_run W create_event) (fetch es)"
  shows "outlier_run W create_event s (snd (authorize_outlier W create_event v fetch pdu val t))"
proof -
  obtain x t1 where t1: "fetch (auth_events pdu) t = (x, t1)" by (rule prod.exhaust)
  have run1: "outlier_run W create_event s t1" by (rule outlier_run.step [OF assms(1) evolvesD [OF fetch t1]])
  obtain y t2 where t2: "auth_event_map W (auth_events pdu) Map.empty t1 = (y, t2)" by (rule prod.exhaust)
  have run2: "outlier_run W create_event s t2"
    using outlier_run.step [OF run1 outlier_run.auths [of W create_event t1 "auth_events pdu" Map.empty]] t2 by simp
  show ?thesis
  proof (cases "\<exists>u auths. x = Inr u \<and> y = Inr auths \<and> same_event (auths (ascii ''m.room.create'', [])) create_event \<and>
      auth_check (lib_of W) v pdu auths = Some True")
    case True
    then obtain u auths where xy: "x = Inr u" "y = Inr auths" and ok: "same_event (auths (ascii ''m.room.create'', [])) create_event"
      "auth_check (lib_of W) v pdu auths = Some True" by blast
    have "\<exists>i \<in> set (auth_events pdu). event_lookup W t2 i = Some p \<and> Some (snd k) = state_key p \<and> fst k = kind p"
      if "auths k = Some p" for k p
      using auth_event_map_found [of W "auth_events pdu" Map.empty t1 auths t2 k p] t2 xy(2) that keeps_result [OF lookup_kept t2] by simp
    with assms(3) ok have "allowed_by W create_event t2 pdu" unfolding allowed_by_def by blast
    from outlier_run.store [OF assms(2) run2 this] t1 t2 xy ok show ?thesis
      by (simp add: authorize_outlier_def add_pdu_outlier_def)
  next
    case False
    then have "snd (authorize_outlier W create_event v fetch pdu val t) \<in> {t1, t2}"
      using t1 t2 by (cases x; cases y) (auto simp: authorize_outlier_def ok_or_def split: option.split)
    with run1 run2 show ?thesis by auto
  qed
qed

lemma check_outlier_run:
  fixes fetch :: "bytes \<Rightarrow> event_id list \<Rightarrow> ('a federation_db_scheme, 'b) dop"
  assumes fetch: "\<And>v es. evolves (outlier_run W create_event) (fetch v es)"
  shows "evolves (outlier_run W create_event) (check_outlier W now create_event fetch e value)"
  unfolding evolves_def
proof
  fix s :: "'a federation_db_scheme"
  let ?ev = "obj_remove (ascii ''unsigned'') value"
  obtain x t where t: "fetch_required_signing_keys W now ?ev s = (x, t)" by (rule prod.exhaust)
  have run: "outlier_run W create_event s t" using outlier_run.keys [of W create_event s now ?ev] t by simp
  show "outlier_run W create_event s (snd (check_outlier W now create_event fetch e value s))"
  proof (cases "\<exists>u v val' pdu. x = Inr u \<and> version_of_room W create_event = Inr v \<and>
      verified_value (fed_of W) (pub_key_map t) ?ev v = Inr val' \<and>
      pdu_of_json (ruma_of W) (JObj (obj_insert (ascii ''event_id'') (JStr e) val')) = Some pdu")
    case True
    then obtain u v val' pdu where ok: "x = Inr u" "version_of_room W create_event = Inr v"
      "verified_value (fed_of W) (pub_key_map t) ?ev v = Inr val'"
      "pdu_of_json (ruma_of W) (JObj (obj_insert (ascii ''event_id'') (JStr e) val')) = Some pdu" by blast
    let ?val = "obj_insert (ascii ''event_id'') (JStr e) val'"
    have "event_id pdu = e" by (rule pdu_event_id [OF ok(4)])
    with ok have signed: "signed_event W create_event t pdu ?val" unfolding signed_event_def by blast
    have "outlier_run W create_event t (snd (authorize_outlier W create_event v (fetch v) pdu ?val t))"
      by (rule authorize_outlier_run [OF outlier_run.none signed ok(2) fetch])
    then show ?thesis using outlier_run.step [OF run] t ok by (simp add: check_outlier_def Let_def ok_or_def)
  next
    case False
    then have "snd (check_outlier W now create_event fetch e value s) = t"
      using t by (cases x; cases "version_of_room W create_event")
        (auto simp: check_outlier_def Let_def ok_or_def bind_apply split: option.split sum.split)
    with run show ?thesis by simp
  qed
qed

lemma outlier_steps:
  "evolves (outlier_run W create_event) (back_off_event now e)"
  "evolves (outlier_run W create_event) (get_pdu (serde_of W) (ruma_of W) e)"
  "evolves (outlier_run W create_event) (fetch_chain n W now origin v todo events seen)"
  unfolding evolves_def by (intro allI outlier_run.intros)+

lemma handle_fetched_run:
  assumes "\<And>e value. evolves (outlier_run W create_event) (handle e value)"
  shows "evolves (outlier_run W create_event) (handle_fetched now handle e events pdus)"
proof (induction events arbitrary: pdus)
  case Nil
  show ?case by (rule outliers.evolves_keeps) (simp only: handle_fetched.simps keeps_basic)
next
  case (Cons ev events)
  obtain i v where "ev = (i, v)" by (rule prod.exhaust)
  then show ?case
    by (simp only: handle_fetched.simps)
       (intro outliers.evolves_intros assms Cons outlier_steps outliers.evolves_keeps [OF keeps_basic(1)])
qed

lemma fetch_and_handle_run:
  assumes "\<And>e value. evolves (outlier_run W create_event) (handle e value)"
  shows "evolves (outlier_run W create_event) (fetch_and_handle_outliers n W now origin v handle es pdus)"
proof (induction es arbitrary: pdus)
  case Nil
  show ?case by (rule outliers.evolves_keeps) (simp only: fetch_and_handle_outliers.simps keeps_basic)
next
  case (Cons e es)
  note keep = outliers.evolves_keeps [OF keeps_basic(3)] outliers.evolves_keeps [OF keeps_basic(5)]
    outlier_steps
  show ?case
    unfolding fetch_and_handle_outliers.simps
    by (intro outliers.evolves_intros handle_fetched_run assms Cons keep)
qed

lemma handle_outlier_run: "evolves (outlier_run W create_event) (handle_outlier_pdu n W now origin create_event e val)"
proof (induction n arbitrary: e val)
  case 0
  show ?case unfolding handle_outlier_pdu.simps by (rule outliers.evolves_keeps) (rule keeps_basic)
next
  case (Suc n)
  show ?case unfolding handle_outlier_pdu.simps by (intro check_outlier_run fetch_and_handle_run Suc)
qed

definition outlier_frame where
  "outlier_frame s = (pduid_pdu s, eventid_pduid s, roomid_pduleaves s, roomid_shortstatehash s, referencedevents s, softfailedeventids s)"

lemma outlier_frame_tables: "keeps event_tables p \<Longrightarrow> keeps outlier_frame p"
  by (simp add: keeps_def event_tables_def outlier_frame_def)

lemma outlier_frame_kept:
  "outlier_frame (snd (fetch_required_signing_keys W now event s)) = outlier_frame s"
  "outlier_frame (snd (auth_event_map W ids m s)) = outlier_frame s"
  "outlier_frame (snd (back_off_event now e s)) = outlier_frame s"
  "outlier_frame (snd (get_pdu (serde_of W) (ruma_of W) e s)) = outlier_frame s"
  "outlier_frame (snd (fetch_chain n W now origin v todo events seen s)) = outlier_frame s"
  by (intro keepsD [of outlier_frame] outlier_frame_tables keeps_intros)+

lemma outlier_run_tables:
  "outlier_run W create_event s s' \<Longrightarrow> pduid_pdu s' = pduid_pdu s \<and> eventid_pduid s' = eventid_pduid s \<and>
     roomid_pduleaves s' = roomid_pduleaves s \<and> roomid_shortstatehash s' = roomid_shortstatehash s \<and>
     referencedevents s' = referencedevents s \<and> softfailedeventids s' = softfailedeventids s"
proof -
  assume "outlier_run W create_event s s'"
  then have "outlier_frame s' = outlier_frame s"
  proof (induction rule: outlier_run.induct)
    case (store s pdu val t)
    then show ?case by (simp add: outlier_frame_def)
  qed (simp_all add: outlier_frame_kept)
  then show ?thesis by (simp add: outlier_frame_def)
qed

text \<open>A run leads to a state in which the event was signed, and from there to one in which it was allowed.\<close>

definition vetted_in :: "env \<Rightarrow> PduEvent \<Rightarrow> 'a federation_db_scheme \<Rightarrow> PduEvent \<Rightarrow> jobj \<Rightarrow> bool" where
  "vetted_in W create_event s pdu val \<longleftrightarrow>
     (\<exists>t u. outlier_run W create_event s t \<and> signed_event W create_event t pdu val \<and>
        outlier_run W create_event t u \<and> allowed_by W create_event u pdu)"

lemma vetted_later: "outlier_run W create_event s t \<Longrightarrow> vetted_in W create_event t pdu val \<Longrightarrow> vetted_in W create_event s pdu val"
  unfolding vetted_in_def using outlier_run.step by blast

lemma outliers_of_tables: "keeps event_tables p \<Longrightarrow> keeps eventid_outlierpdu p"
  by (simp add: keeps_def event_tables_def)

lemma outliers_kept:
  "eventid_outlierpdu (snd (fetch_required_signing_keys W now event s)) = eventid_outlierpdu s"
  "eventid_outlierpdu (snd (auth_event_map W ids m s)) = eventid_outlierpdu s"
  "eventid_outlierpdu (snd (back_off_event now e s)) = eventid_outlierpdu s"
  "eventid_outlierpdu (snd (get_pdu (serde_of W) (ruma_of W) e s)) = eventid_outlierpdu s"
  "eventid_outlierpdu (snd (fetch_chain n W now origin v todo events seen s)) = eventid_outlierpdu s"
  by (intro keepsD [of eventid_outlierpdu] outliers_of_tables keeps_intros)+

lemma outlier_run_new:
  "outlier_run W create_event s s' \<Longrightarrow> kv_get (eventid_outlierpdu s') i = Some b \<Longrightarrow>
     kv_get (eventid_outlierpdu s) i = Some b \<or>
     (\<exists>pdu val. event_id pdu = i \<and> b = json_print (serde_of W) (JObj val) \<and> vetted_in W create_event s pdu val)"
proof (induction arbitrary: i b rule: outlier_run.induct)
  case (step s t u)
  then show ?case using vetted_later by blast
next
  case (store s pdu val t)
  show ?case
  proof (cases "i = event_id pdu")
    case True
    have "vetted_in W create_event s pdu val"
      unfolding vetted_in_def using outlier_run.none store.hyps by blast
    with True store.prems show ?thesis by auto
  next
    case False
    then show ?thesis using store.IH [of i b] store.prems by simp
  qed
qed (simp_all add: outliers_kept)

lemma handle_outlier_stored:
  assumes "handle_outlier_pdu n W now origin create_event e val s = (Inr (pdu, val'), s')"
  shows "event_id pdu = e \<and> kv_get (eventid_outlierpdu s') e = Some (json_print (serde_of W) (JObj val'))"
proof (cases n)
  case (Suc k)
  from assms [unfolded Suc handle_outlier_pdu.simps check_outlier_def Let_def]
  show ?thesis
    by (elim andthen_InrE bind_InrE)
       (auto simp: ok_or_def authorize_outlier_def add_pdu_outlier_def dest!: pdu_event_id
          elim!: andthen_InrE bind_InrE split: option.splits if_splits sum.splits)
qed (use assms in simp)

text \<open>C3: An event from another server becomes an outlier only if its signatures were verified with the keys at hand and the
  authorization rules allow it with its stored auth events, the create event of the room among them. This holds for the
  event itself and for every event that is fetched on the way, whatever other servers answer and even if the handler fails. The
  timeline, the forward extremities and the state of the room are not touched, and a handled event is stored.\<close>

theorem outliers_are_vetted:
  assumes "handle_outlier_pdu n W now origin create_event e val s = (r, s')"
  shows "(pduid_pdu s' = pduid_pdu s \<and> eventid_pduid s' = eventid_pduid s \<and> roomid_pduleaves s' = roomid_pduleaves s \<and>
      roomid_shortstatehash s' = roomid_shortstatehash s) \<and>
    (\<forall>i b. kv_get (eventid_outlierpdu s') i = Some b \<longrightarrow> kv_get (eventid_outlierpdu s) i = Some b \<or>
      (\<exists>pdu val. event_id pdu = i \<and> b = json_print (serde_of W) (JObj val) \<and> vetted_in W create_event s pdu val)) \<and>
    (\<forall>pdu val'. r = Inr (pdu, val') \<longrightarrow>
      event_id pdu = e \<and> kv_get (eventid_outlierpdu s') e = Some (json_print (serde_of W) (JObj val')))"
proof -
  have run: "outlier_run W create_event s s'" by (rule evolvesD [OF handle_outlier_run assms])
  show ?thesis
    using outlier_run_tables [OF run] outlier_run_new [OF run] handle_outlier_stored [of n W now origin create_event e val s] assms
    by simp
qed

section \<open>An example\<close>

definition example_federation :: federation where
  "example_federation =
     \<lparr>remote_event = (\<lambda>_ _ _. Inl (BadServerResponse '''')), remote_state_ids = (\<lambda>_ _ _ _. Inl (BadServerResponse '''')),
      remote_server_keys = (\<lambda>_ _. Inl (BadServerResponse '''')), notary_keys = (\<lambda>_ _ _. Inl (BadServerResponse '''')),
      notary_batch = (\<lambda>_ _ _. Inl (BadServerResponse '''')), keys_parse = (\<lambda>_. None), keys_print = (\<lambda>_. []),
      verify_event = (\<lambda>_ _ _. Some VerifiedAll), redact_json = (\<lambda>_ _. None), resolve = (\<lambda>_ _ _ _. None),
      topological_sort = (\<lambda>_ _. Some []), acl_allowed = (\<lambda>_ _. None), state_entries = (\<lambda>_. []), fork_entries = (\<lambda>es. es)\<rparr>"

definition example_env :: env where
  "example_env =
     \<lparr>serde_of = example_serde, ruma_of = example_ruma, contents_of = example_contents, push_of = example_push,
      lib_of = example_event_lib, fed_of = example_federation, iter_of = sorted_list_of_set, short_iter_of = sorted_list_of_set,
      digest_of = (\<lambda>b. b)\<rparr>"

definition example_create :: PduEvent where
  "example_create = example_pdu\<lparr>event_id := ascii ''$c'', kind := ascii ''m.room.create'', state_key := Some [], auth_events := []\<rparr>"

text \<open>A server that has the create event of the room at hand.\<close>

definition example_remote :: federation_db where
  "example_remote = services_db.extend (example_server\<lparr>pdu_cache := [ascii ''$c'' \<mapsto> example_create]\<rparr>)
     \<lparr>bad_event_ratelimiter = Map.empty, bad_signature_ratelimiter = Map.empty, roomid_federationhandletime = Map.empty,
      pub_key_map = Map.empty, requests_sent = 0\<rparr>"

definition example_received :: jobj where
  "example_received =
     [(ascii ''auth_events'', JArr [JStr (ascii ''$c'')]), (ascii ''content'', JObj []), (ascii ''depth'', JInt 2),
      (ascii ''hashes'', JObj [(ascii ''sha256'', JStr (ascii ''x''))]), (ascii ''origin_server_ts'', JInt 5),
      (ascii ''prev_events'', JArr []), (ascii ''room_id'', JStr (ascii ''!r:h'')), (ascii ''sender'', JStr (ascii ''@u:h'')),
      (ascii ''signatures'', JObj []), (ascii ''type'', JStr (ascii ''m.room.message''))]"

definition example_sent :: PduEvent where
  "example_sent =
     \<lparr>event_id = ascii ''$e'', room_id = ascii ''!r:h'', sender = ascii ''@u:h'', origin_server_ts = 5,
      kind = ascii ''m.room.message'', content = JObj [], state_key = None, prev_events = [], depth = 2,
      auth_events = [ascii ''$c''], redacts = None, unsigned = None, hashes = ascii ''x'', signatures = Some (JObj [])\<rparr>"

lemma example_ids [simp]:
  "is_event_id example_ruma (ascii ''$e'')" "is_event_id example_ruma (ascii ''$c'')" "is_room_id example_ruma (ascii ''!r:h'')"
  "is_user_id example_ruma (ascii ''@u:h'')"
  by (simp_all add: example_ruma_def ascii_simps)

lemma example_sent_parses:
  "obj_remove (ascii ''unsigned'') example_received = example_received"
  "signatures_of example_received = Inr []"
  "pdu_of_json example_ruma (JObj (obj_insert (ascii ''event_id'') (JStr (ascii ''$e'')) example_received)) = Some example_sent"
proof -
  have get: "obj_get example_received (ascii k) = map_option snd (find (\<lambda>e. fst e = k)
      [(''auth_events'', JArr [JStr (ascii ''$c'')]), (''content'', JObj []), (''depth'', JInt 2),
       (''hashes'', JObj [(ascii ''sha256'', JStr (ascii ''x''))]), (''origin_server_ts'', JInt 5), (''prev_events'', JArr []),
       (''room_id'', JStr (ascii ''!r:h'')), (''sender'', JStr (ascii ''@u:h'')), (''signatures'', JObj []),
       (''type'', JStr (ascii ''m.room.message''))])" for k
    by (simp add: example_received_def)
  show "obj_remove (ascii ''unsigned'') example_received = example_received"
    by (simp add: example_received_def obj_remove_def)
  show "signatures_of example_received = Inr []" by (simp add: signatures_of_def get ok_or_def as_object_def)
  show "pdu_of_json example_ruma (JObj (obj_insert (ascii ''event_id'') (JStr (ascii ''$e'')) example_received)) = Some example_sent"
    by (simp add: pdu_of_json_def obj_get_insert get p_id_def as_string_def p_uint_def p_opt_def p_ids_def p_hash_def
        as_object_def example_sent_def MAX_UINT_def)
qed

lemma example_run:
  "\<exists>s'. handle_outlier_pdu 1 example_env 0 (ascii ''o'') example_create (ascii ''$e'') example_received example_remote =
     (Inr (example_sent, obj_insert (ascii ''event_id'') (JStr (ascii ''$e'')) example_received), s')"
proof -
  have env: "serde_of example_env = example_serde" "ruma_of example_env = example_ruma" "contents_of example_env = example_contents"
    "lib_of example_env = example_event_lib" "fed_of example_env = example_federation" by (simp_all add: example_env_def)
  have v: "version_of_room example_env example_create = Inr (ascii ''6'')"
    by (simp add: version_of_room_def env example_contents_def example_event_lib_def ok_or_def)
  have get: "get_pdu example_serde example_ruma (ascii ''$c'') example_remote = (Inr (Some example_create), example_remote)"
    by (simp add: get_pdu_cases example_remote_def services_db.defs)
  have lim: "bad_event_ratelimiter example_remote = Map.empty" by (simp add: example_remote_def services_db.defs)
  have fetch: "fetch_and_handle_outliers 0 example_env 0 (ascii ''o'') (ascii ''6'') h [ascii ''$c''] [] example_remote =
      (Inr [(example_create, None)], example_remote)" for h
  proof -
    have c: "catching (get_pdu example_serde example_ruma (ascii ''$c'')) example_remote = (Inr (Inr (Some example_create)), example_remote)"
      by (simp add: catching_def bind_apply attempt_apply get)
    have b: "backing_off (5 * 60) 0 (bad_event_ratelimiter example_remote (ascii ''$c'')) = Inr False"
      by (simp add: lim backing_off_def)
    show ?thesis
      unfolding fetch_and_handle_outliers.simps env by (simp only: bind_apply gets_apply of_res_apply b c prod.case sum.case if_False option.case) simp
  qed
  have auths: "auth_event_map example_env [ascii ''$c''] Map.empty example_remote =
      (Inr [(ascii ''m.room.create'', []) \<mapsto> example_create], example_remote)"
    by (simp add: env get example_create_def bind_apply)
  have check: "verified_value example_federation keys ob w = Inr ob" "auth_check example_event_lib w p m = Some True" for keys ob w p m
    by (simp_all add: verified_value_def example_federation_def example_event_lib_def)
  have authorized: "authorize_outlier example_env example_create (ascii ''6'')
      (\<lambda>es. fetch_and_handle_outliers 0 example_env 0 (ascii ''o'') (ascii ''6'') h es []) example_sent val example_remote =
      (Inr (example_sent, val), snd (add_pdu_outlier example_serde (ascii ''$e'') val example_remote))" for h val
    by (simp add: authorize_outlier_def andthen_def bind_apply fetch auths check example_sent_def same_event_def ok_or_def add_pdu_outlier_def env
        del: fetch_and_handle_outliers.simps auth_event_map.simps)
  show ?thesis
    by (simp add: check_outlier_def Let_def fetch_required_signing_keys_def example_sent_parses v check env ok_or_def
        authorized [where h = "\<lambda>e value. fail still_running"] del: fetch_and_handle_outliers.simps auth_event_map.simps)
qed

theorem outliers_are_vetted_witness:
  "\<exists>s'. handle_outlier_pdu 1 example_env 0 (ascii ''o'') example_create (ascii ''$e'') example_received example_remote =
     (Inr (example_sent, obj_insert (ascii ''event_id'') (JStr (ascii ''$e'')) example_received), s') \<and>
     kv_get (eventid_outlierpdu s') (ascii ''$e'') =
       Some (json_print example_serde (JObj (obj_insert (ascii ''event_id'') (JStr (ascii ''$e'')) example_received))) \<and>
     eventid_pduid s' = eventid_pduid example_remote"
proof -
  obtain s' where run: "handle_outlier_pdu 1 example_env 0 (ascii ''o'') example_create (ascii ''$e'') example_received example_remote =
     (Inr (example_sent, obj_insert (ascii ''event_id'') (JStr (ascii ''$e'')) example_received), s')"
    using example_run ..
  have "serde_of example_env = example_serde" by (simp add: example_env_def)
  with run outliers_are_vetted [OF run] show ?thesis by (intro exI [of _ s']) simp
qed

section \<open>Runs that only admit authorized events\<close>

lemma index_tables: "keeps event_tables p \<Longrightarrow> keeps eventid_pduid p"
  by (simp add: keeps_def event_tables_def)

lemma index_entry: "keeps eventid_pduid p \<Longrightarrow> keeps (\<lambda>s. kv_get (eventid_pduid s) e) p"
  by (simp add: keeps_def)

interpretation index: state_read_frame eventid_pduid
  by unfold_locales simp_all

lemma tables_auth_events [keeps_intros]:
  "keeps event_tables (get_auth_events J R iter types room ty from_user key body)"
proof -
  have "keeps event_tables (short_auth_keys tks)" for tks
  proof (induction tks)
    case (Cons tk tks)
    obtain ty key where "tk = (ty, key)" by (rule prod.exhaust)
    then show ?case by (simp only: short_auth_keys.simps) (intro keeps_intros Cons)
  qed (simp only: short_auth_keys.simps keeps_basic)
  moreover have "keeps event_tables (auth_event_pdus J R m ces)" for m ces
  proof (induction ces arbitrary: m)
    case (Cons ce ces)
    show ?case unfolding auth_event_pdus.simps by (intro keeps_intros Cons)
  qed (simp only: auth_event_pdus.simps keeps_basic)
  ultimately show ?thesis unfolding get_auth_events_def by (intro keeps_intros)
qed

lemma tables_load_info [keeps_intros]: "keeps event_tables (load_shortstatehash_info h)"
  unfolding load_shortstatehash_info_def by (rule tables.keeps_load_info)

lemma tables_save [keeps_intros]:
  "keeps event_tables (save_state iter digest room st)" "keeps event_tables (set_event_state iter digest e room st)"
proof -
  have diff: "keeps event_tables (save_state_from_diff iter h A D k parents)" for h A D k parents
    by (rule keeps_save_state_from_diff) (simp add: event_tables_def)
  show "keeps event_tables (save_state iter digest room st)"
    unfolding save_state_def Let_def by (intro keeps_intros diff)
  show "keeps event_tables (set_event_state iter digest e room st)"
    unfolding set_event_state_def load_parents_def set_event_state_db_def
    by (intro keeps_intros diff) (simp add: event_tables_def)
qed

lemma index_force_state: "keeps eventid_pduid (force_state J R C iter room h new)"
proof -
  have "keeps eventid_pduid (update_membership J R C iter room user membership from_user st n)" for user membership from_user st n
    by (rule keeps_coarser [OF keeps_obs_membership]) (simp add: obs_simps)
  then have force: "keeps eventid_pduid (force_event J R C iter room e)" for e
    unfolding force_event_def by (intro keeps_intros)
  have events: "keeps eventid_pduid (force_events J R C iter room news)" for news
  proof (induction news)
    case (Cons new news)
    show ?case unfolding force_events.simps by (intro keeps_intros index.keeps_parse force Cons)
  qed (simp only: force_events.simps keeps_basic)
  have counts: "keeps eventid_pduid (update_joined_count R iter room)"
    by (rule keeps_coarser [OF keeps_obs_counts]) (simp add: obs_simps)
  show ?thesis
    unfolding force_state_def set_room_state_def by (intro keeps_intros events counts) simp
qed

lemma index_derive: "keeps eventid_pduid (derive_room_state n W room v pdu extremities st)"
  unfolding derive_room_state_def resolve_forks_def
  by (intro keeps_intros index_force_state index_tables [OF tables_state_reads(1)] index_tables [OF tables_state_reads(2)]
      index_tables [OF tables_state_reads(3)] index_tables [OF tables_forks(3)] index_tables [OF tables_entries(1)]
      index_tables [OF tables_entries(3)] index_tables [OF tables_entries(4)] index_tables [OF tables_save(1)])

lemma index_append:
  assumes "e \<noteq> event_id pdu"
  shows "keeps (\<lambda>s. kv_get (eventid_pduid s) e) (append_incoming_pdu J R C P L iter digest pdu val leaves ces soft_fail ::
     ('a services_db_scheme, bytes option) dop)"
proof -
  have prev: "keeps (\<lambda>s. kv_get (eventid_pduid s) e) (with_prev_content J R L iter pdu val :: ('a services_db_scheme, jobj) dop)"
    unfolding keeps_def
  proof
    fix s :: "'a services_db_scheme"
    show "kv_get (eventid_pduid (snd (with_prev_content J R L iter pdu val s))) e = kv_get (eventid_pduid s) e"
      using keepsD [OF keeps_with_prev_content, of J R L iter pdu val s] by (simp add: obs_simps)
  qed
  have publish: "keeps (\<lambda>s. kv_get (eventid_pduid s) e) (publish_pdu J R C P L iter short pdu_id pdu)" for short pdu_id
    unfolding keeps_def
  proof
    fix s
    obtain x t where t: "publish_pdu J R C P L iter short pdu_id pdu s = (x, t)" by (rule prod.exhaust)
    show "kv_get (eventid_pduid (snd (publish_pdu J R C P L iter short pdu_id pdu s))) e = kv_get (eventid_pduid s) e"
      using publish_pdu_tables(1) [OF t] t by (simp add: room_tables_def)
  qed
  have insert: "keeps (\<lambda>s. kv_get (eventid_pduid s) e) (insert_pdu J short pdu json)" for short json
    unfolding insert_pdu_def private_read_set_def reset_notification_counts_def append_pdu_db_def Let_def
    by (intro keeps_intros) (use assms in simp_all)
  show ?thesis
    unfolding append_incoming_pdu_def append_pdu_def mark_as_referenced_def set_forward_extremities_def Let_def
    by (intro keeps_intros prev publish insert index_entry [OF index_tables [OF tables_save(2)]]) simp_all
qed

text \<open>
  An event may be admitted in a state in which it is neither in the timeline nor soft-failed, if the authorization rules
  allow it with the state at the event and with the current state of the room.
\<close>

definition admitted :: "env \<Rightarrow> room_id \<Rightarrow> PduEvent \<Rightarrow> 'a federation_db_scheme \<Rightarrow> PduEvent \<Rightarrow> bool" where
  "admitted W room create_event s pdu \<longleftrightarrow>
     kv_get (eventid_pduid s) (event_id pdu) = None \<and> kv_get (softfailedeventids s) (event_id pdu) = None \<and>
     (\<exists>v n now origin st t ces u auths. version_of_room W create_event = Inr v \<and>
        state_at_event n W now origin create_event room v pdu s = (Inr st, t) \<and>
        auth_check (lib_of W) v pdu (lookup_at W t st) = Some True \<and>
        compress_entries (state_entries (fed_of W) st) t = (Inr ces, u) \<and>
        fst (get_auth_events (serde_of W) (ruma_of W) (iter_of W) (auth_types_for_event (lib_of W)) room
          (kind pdu) (sender pdu) (state_key pdu) (content pdu) u) = Inr auths \<and>
        auth_check (lib_of W) v pdu auths = Some True)"

text \<open>The states a run of the handler passes through: those its operations lead to.\<close>

inductive timeline_run :: "env \<Rightarrow> room_id \<Rightarrow> PduEvent \<Rightarrow> 'a federation_db_scheme \<Rightarrow> 'a federation_db_scheme \<Rightarrow> bool"
  for W room create_event where
  none: "timeline_run W room create_event s s"
| next_run: "timeline_run W room create_event s t \<Longrightarrow> timeline_run W room create_event t u \<Longrightarrow> timeline_run W room create_event s u"
| outlier: "outlier_run W create_event s t \<Longrightarrow> timeline_run W room create_event s t"
| create: "timeline_run W room create_event s
    (snd (room_state_get (serde_of W) (ruma_of W) (iter_of W) room (ascii ''m.room.create'') [] s))"
| handle_time: "timeline_run W room create_event s (snd (set_handle_time r time s))"
| upgrade: "timeline_run W room create_event s (snd (upgrade_outlier_to_timeline_pdu n W now origin create_event room pdu val s))"

interpretation timeline: evolution "timeline_run W room create_event" "\<lambda>s. s" for W room create_event
  by unfold_locales (simp add: timeline_run.none, rule timeline_run.next_run)

lemma timeline_outliers: "evolves (outlier_run W create_event) p \<Longrightarrow> evolves (timeline_run W room create_event) p"
  unfolding evolves_def by (intro allI timeline_run.outlier) (erule spec)

lemma index_outlier_run: "evolves (outlier_run W create_event) p \<Longrightarrow> keeps eventid_pduid p"
  unfolding evolves_def keeps_def by (intro allI conjunct1 [OF conjunct2 [OF outlier_run_tables]]) (erule spec)

lemma index_soft_fail: "keeps eventid_pduid (append_incoming_pdu J R C P L iter digest pdu val leaves ces True)"
  unfolding append_incoming_pdu_def mark_as_referenced_def set_forward_extremities_def
  by (simp only: if_True) (intro keeps_intros index_tables [OF tables_save(2)]; simp)

lemma index_fetch: "keeps eventid_pduid (fetch_outliers n W now origin create_event v es)"
  unfolding fetch_outliers_def by (rule index_outlier_run [OF fetch_and_handle_run [OF handle_outlier_run]])

lemma index_state_at: "keeps eventid_pduid (state_at_event n W now origin create_event room v pdu)"
  unfolding state_at_event_def state_of_remote_def
  by (intro keeps_intros index_fetch index_tables [OF tables_known_states(1)] index_tables [OF tables_known_states(2)]
      index_tables [OF tables_request] index_tables [OF tables_entries(5)] index.keeps_get_shortstatekey)

text \<open>Upgrading an outlier changes the index only for the event itself, and only if it is admitted.\<close>

lemma append_authorized_index:
  fixes s t :: "'a federation_db_scheme"
  assumes "kv_get (eventid_pduid s) (event_id pdu) = None" and "kv_get (softfailedeventids s) (event_id pdu) = None"
    and v: "version_of_room W create_event = Inr v"
    and st: "state_at_event n W now origin create_event room v pdu s = (Inr st, t)"
    and "auth_check (lib_of W) v pdu (lookup_at W t st) = Some True"
  shows "kv_get (eventid_pduid (snd (append_authorized k W room v pdu val st t))) i = kv_get (eventid_pduid s) i \<or>
    admitted W room create_event s pdu \<and> event_id pdu = i"
proof -
  have t: "eventid_pduid t = eventid_pduid s" by (rule keeps_result [OF index_state_at st])
  obtain x u where u: "compress_entries (state_entries (fed_of W) st) t = (x, u)" by (rule prod.exhaust)
  let ?get = "get_auth_events (serde_of W) (ruma_of W) (iter_of W) (auth_types_for_event (lib_of W)) room
      (kind pdu) (sender pdu) (state_key pdu) (content pdu)"
  obtain y w where w: "?get u = (y, w)" by (rule prod.exhaust)
  have same: "eventid_pduid u = eventid_pduid s" "eventid_pduid w = eventid_pduid s"
    using keeps_result [OF index_tables [OF tables_entries(3)] u] keeps_result [OF index_tables [OF tables_auth_events] w] t by simp_all
  show ?thesis
  proof (cases "\<exists>ces auths. x = Inr ces \<and> y = Inr auths \<and> auth_check (lib_of W) v pdu auths = Some True")
    case True
    then obtain ces auths where ok: "x = Inr ces" "y = Inr auths" "auth_check (lib_of W) v pdu auths = Some True" by blast
    have "kv_get (eventid_pduid (snd (append_authorized k W room v pdu val st t))) e = kv_get (eventid_pduid s) e" if "e \<noteq> event_id pdu" for e
    proof -
      have "keeps (\<lambda>s. kv_get (eventid_pduid s) e) (append_authorized k W room v pdu val st :: ('a federation_db_scheme, bytes option) dop)"
        unfolding append_authorized_def mark_event_soft_failed_def
        by (intro keeps_intros index_append [OF that] index_entry [OF index_derive] index_entry [OF index_tables [OF tables_entries(3)]]
            index_entry [OF index_tables [OF tables_auth_events]]) simp
      from keepsD [OF this, of t] t show ?thesis by simp
    qed
    note others = this
    have "fst (?get u) = Inr auths" using w ok(2) by simp
    with assms u ok have "admitted W room create_event s pdu"
      unfolding admitted_def
      by (intro conjI exI [of _ v] exI [of _ n] exI [of _ now] exI [of _ origin] exI [of _ st] exI [of _ t] exI [of _ ces]
          exI [of _ u] exI [of _ auths]) simp_all
    with others [of i] show ?thesis by (cases "i = event_id pdu") simp_all
  next
    case False
    let ?fail = "\<lambda>ces leaves. andthen (append_incoming_pdu (serde_of W) (ruma_of W) (contents_of W) (push_of W) (lib_of W)
        (iter_of W) (digest_of W) pdu val leaves ces True)
      (andthen (mark_event_soft_failed (event_id pdu)) (fail (BadRequest InvalidParam ''Event has been soft failed'')))
      :: ('a federation_db_scheme, bytes option) dop"
    have failed: "eventid_pduid (snd (?fail cs ls w)) = eventid_pduid w" for cs ls
      by (rule keepsD) (unfold mark_event_soft_failed_def, intro keeps_intros index_soft_fail, simp)
    have "eventid_pduid (snd (append_authorized k W room v pdu val st t)) = eventid_pduid s"
    proof (cases "get_forward_extremities (ruma_of W) room t")
      case (Inr leaves)
      show ?thesis
      proof (cases x)
        case (Inr ces)
        show ?thesis
        proof (cases y)
          case (Inr auths)
          show ?thesis
            using False \<open>x = Inr ces\<close> Inr u w same \<open>get_forward_extremities (ruma_of W) room t = Inr leaves\<close>
            by (cases "auth_check (lib_of W) v pdu auths") (simp_all add: append_authorized_def ok_or_def failed)
        qed (use \<open>x = Inr ces\<close> u w same \<open>get_forward_extremities (ruma_of W) room t = Inr leaves\<close> in \<open>simp add: append_authorized_def\<close>)
      qed (use Inr u same in \<open>simp add: append_authorized_def\<close>)
    qed (use t in \<open>simp add: append_authorized_def\<close>)
    then show ?thesis by simp
  qed
qed

lemma bind_reads: "bind (reads f) k s = (case f s of Inl e \<Rightarrow> (Inl e, s) | Inr x \<Rightarrow> k x s)"
  by (simp add: bind_apply split: sum.split)

lemma bind_of_res: "bind (of_res r) k s = (case r of Inl e \<Rightarrow> (Inl e, s) | Inr x \<Rightarrow> k x s)"
  by (simp add: bind_apply split: sum.split)

lemma upgrade_index:
  fixes s :: "'a federation_db_scheme"
  shows "kv_get (eventid_pduid (snd (upgrade_outlier_to_timeline_pdu n W now origin create_event room pdu val s))) i = kv_get (eventid_pduid s) i \<or>
    admitted W room create_event s pdu \<and> event_id pdu = i"
proof -
  note upgrade = upgrade_outlier_to_timeline_pdu_def get_pdu_id_def is_event_soft_failed_def bind_reads bind_of_res
  show ?thesis
  proof (cases "kv_get (eventid_pduid s) (event_id pdu) = None \<and> kv_get (softfailedeventids s) (event_id pdu) = None")
    case new: True
    show ?thesis
    proof (cases "version_of_room W create_event")
      case (Inr v)
      obtain x t where t: "state_at_event n W now origin create_event room v pdu s = (x, t)" by (rule prod.exhaust)
      show ?thesis
      proof (cases "\<exists>st. x = Inr st \<and> auth_check (lib_of W) v pdu (lookup_at W t st) = Some True")
        case True
        then obtain st where st: "x = Inr st" "auth_check (lib_of W) v pdu (lookup_at W t st) = Some True" by blast
        with new Inr t have "upgrade_outlier_to_timeline_pdu n W now origin create_event room pdu val s = append_authorized n W room v pdu val st t"
          by (simp add: upgrade ok_or_def)
        with append_authorized_index [OF conjunct1 [OF new] conjunct2 [OF new] Inr t [unfolded st(1)] st(2)] show ?thesis by simp
      next
        case False
        then have "snd (upgrade_outlier_to_timeline_pdu n W now origin create_event room pdu val s) = t"
          using new Inr t by (cases x) (auto simp: upgrade ok_or_def split: option.split)
        with keeps_result [OF index_state_at t] show ?thesis by simp
      qed
    qed (use new in \<open>simp add: upgrade\<close>)
  next
    case False
    then have "snd (upgrade_outlier_to_timeline_pdu n W now origin create_event room pdu val s) = s"
      by (cases "kv_get (eventid_pduid s) (event_id pdu)") (auto simp: upgrade)
    then show ?thesis by simp
  qed
qed

lemma timeline_basic:
  "evolves (timeline_run W room create_event) (ret x)" "evolves (timeline_run W room create_event) (fail y)"
  "evolves (timeline_run W room create_event) (gets f)" "evolves (timeline_run W room create_event) (reads g)"
  "evolves (timeline_run W room create_event) (of_res z)"
  by (rule timeline.evolves_keeps, rule keeps_basic)+

lemma timeline_forbid: "evolves (timeline_run W room create_event) (forbid_disabled r)"
  unfolding forbid_disabled_def by (intro timeline.evolves_bind timeline.evolves_cases timeline_basic)

lemma timeline_handle_time: "evolves (timeline_run W room create_event) (set_handle_time r time)"
  unfolding evolves_def by (rule allI, rule timeline_run.handle_time)

lemma timeline_upgrade:
  "evolves (timeline_run W room create_event) (upgrade_outlier_to_timeline_pdu n W now origin create_event room pdu val)"
  unfolding evolves_def by (rule allI, rule timeline_run.upgrade)

lemmas timeline_steps = timeline_basic timeline_forbid timeline_handle_time timeline_upgrade timeline_outliers [OF outlier_steps(1)]

lemma handle_prevs_run:
  assumes "\<And>pdu val. evolves (timeline_run W room create_event) (upgrade pdu val)"
  shows "evolves (timeline_run W room create_event) (handle_prevs now upgrade room' first_ts prevs info errors)"
proof (induction prevs arbitrary: info errors)
  case Nil
  show ?case by (simp only: handle_prevs.simps timeline_steps)
next
  case (Cons prev prevs)
  show ?case
    unfolding handle_prevs.simps by (intro timeline.evolves_intros Cons assms timeline_steps)
qed

lemma fetch_prevs_run: "evolves (outlier_run W create_event) (fetch_unknown_prev_events n W now origin create_event room v es)"
proof -
  note quiet = outliers.evolves_keeps [OF keeps_basic(1)] outliers.evolves_keeps [OF keeps_basic(2)] outliers.evolves_keeps [OF keeps_basic(3)]
    outliers.evolves_keeps [OF keeps_basic(4)] outliers.evolves_keeps [OF keeps_basic(5)]
  have fetch: "evolves (outlier_run W create_event) (fetch_outliers k W now origin create_event v ids)" for k ids
    unfolding fetch_outliers_def by (rule fetch_and_handle_run [OF handle_outlier_run])
  have "evolves (outlier_run W create_event) (fetch_prevs n W now origin create_event v first_ts todo graph info amount)" for first_ts todo graph info amount
  proof (induction n arbitrary: todo graph info amount)
    case 0
    show ?case by (cases todo) (simp_all only: fetch_prevs.simps quiet)
  next
    case (Suc n)
    show ?case
    proof (cases todo)
      case (Cons prev todo)
      show ?thesis unfolding Cons fetch_prevs.simps Let_def by (intro outliers.evolves_intros fetch Suc quiet)
    qed (simp only: fetch_prevs.simps quiet)
  qed
  then show ?thesis unfolding fetch_unknown_prev_events_def first_event_def by (intro outliers.evolves_intros quiet)
qed

lemma handle_timeline_run:
  "evolves (timeline_run W room create_event) (handle_timeline_event n W now origin create_event room v first_ts e pdu val)"
  unfolding handle_timeline_event_def
  by (intro timeline.evolves_intros handle_prevs_run timeline_steps timeline_outliers [OF fetch_prevs_run])

lemma index_kept:
  "eventid_pduid (snd (room_state_get J R iter room ty key s)) = eventid_pduid s"
  "eventid_pduid (snd (set_handle_time r time s)) = eventid_pduid s"
  by (rule keepsD [OF index.keeps_room_state_get], rule keepsD [OF index_tables [OF tables_back_off(4)]])

lemma timeline_run_new:
  "timeline_run W room create_event s s' \<Longrightarrow> kv_get (eventid_pduid s') e \<noteq> kv_get (eventid_pduid s) e \<Longrightarrow>
     \<exists>t pdu. timeline_run W room create_event s t \<and> admitted W room create_event t pdu \<and> event_id pdu = e"
proof (induction rule: timeline_run.induct)
  case (next_run s t u)
  show ?case
  proof (cases "kv_get (eventid_pduid t) e = kv_get (eventid_pduid s) e")
    case True
    with next_run.prems have "kv_get (eventid_pduid u) e \<noteq> kv_get (eventid_pduid t) e" by simp
    from next_run.IH(2) [OF this] obtain v pdu where v: "timeline_run W room create_event t v"
      and admitted: "admitted W room create_event v pdu" "event_id pdu = e" by (elim exE conjE)
    show ?thesis by (intro exI conjI, rule timeline_run.next_run [OF next_run.hyps(1) v]) (rule admitted)+
  qed (rule next_run.IH(1))
next
  case (outlier s t)
  from outlier_run_tables [OF outlier.hyps] outlier.prems show ?case by simp
next
  case (upgrade s n now origin pdu val)
  with upgrade_index [of n W now origin create_event room pdu val s e]
  have admitted: "admitted W room create_event s pdu" "event_id pdu = e" by simp_all
  show ?case by (intro exI conjI, rule timeline_run.none) (rule admitted)+
qed (simp_all add: index_kept)

lemma handle_incoming_run:
  assumes "fst (room_state_get (serde_of W) (ruma_of W) (iter_of W) room (ascii ''m.room.create'') [] s) = Inr (Some create_event)"
  shows "timeline_run W room create_event s (snd (handle_incoming_pdu n W now origin e room val is_timeline s))"
proof -
  let ?goal = "\<lambda>s'. timeline_run W room create_event s s'"
  have refl: "?goal s" by (rule timeline_run.none)
  obtain t where t: "room_state_get (serde_of W) (ruma_of W) (iter_of W) room (ascii ''m.room.create'') [] s = (Inr (Some create_event), t)"
    using assms by (cases "room_state_get (serde_of W) (ruma_of W) (iter_of W) room (ascii ''m.room.create'') [] s") simp
  have at: "?goal t" using timeline_run.create [of W room create_event s] t by simp
  let ?rest = "\<lambda>v. bind (first_event W room) (\<lambda>first_pdu.
      bind (handle_outlier_pdu n W now origin create_event e val) (\<lambda>(pdu, val).
      if \<not> is_timeline \<or> origin_server_ts pdu < origin_server_ts first_pdu then ret None
      else handle_timeline_event n W now origin create_event room v (origin_server_ts first_pdu) e pdu val))"
  have "evolves (timeline_run W room create_event) (first_event W room)"
    unfolding first_event_def by (intro timeline.evolves_intros timeline_steps)
  then have "evolves (timeline_run W room create_event) (?rest v)" for v
    by (intro timeline.evolves_intros handle_timeline_run timeline_steps timeline_outliers [OF handle_outlier_run])
  then have rest: "?goal (snd (?rest v t))" for v by (rule timeline.evolves_then [OF at])
  show ?thesis
  proof (cases "room_exists room s = Inr True \<and> is_disabled room s = Inr False \<and> get_pdu_id e s = Inr None")
    case True
    with rest at t show ?thesis
      by (cases "create_version (contents_of W) (content create_event)")
         (simp_all add: handle_incoming_pdu_def forbid_disabled_def bind_reads bind_of_res andthen_def [of "bind (reads f) k" for f k]
            bind_apply [of "bind (reads f) k" for f k] ok_or_def)
  next
    case False
    then have "snd (handle_incoming_pdu n W now origin e room val is_timeline s) = s"
      by (auto simp: handle_incoming_pdu_def forbid_disabled_def bind_reads andthen_def [of "bind (reads f) k" for f k]
            bind_apply [of "bind (reads f) k" for f k] is_disabled_def get_pdu_id_def split: sum.split option.split)
    with refl show ?thesis by simp
  qed
qed


definition example_joined :: federation_db where
  "example_joined = example_remote
     \<lparr>statekeyshort_cache := [(ascii ''m.room.create'', []) \<mapsto> 1], shorteventid_cache := [2 \<mapsto> ascii ''$c''],
      stateinfo_cache := [3 \<mapsto> [(3, {to_be_bytes 1 @ to_be_bytes 2}, {to_be_bytes 1 @ to_be_bytes 2}, {})]],
      roomid_shortstatehash := kv_insert (ascii ''!r:h'') (to_be_bytes 3) kv_empty\<rparr>"


end
