(* ===== verification/Api.thy ===== *)
theory Api
  imports Incoming
begin

text \<open>
  \<^verbatim>\<open>api/ruma_wrapper\<close>: what happens to every request before its handler runs. The sender is
  identified by an access token, by the token of an application service or by the signature of another
  server, and the body of a request that continues an interactive authentication is completed with the
  fields of the request that started it.

  \<open>api\<close> collects what the handlers use of other crates besides the environment of the event handler.
\<close>

section \<open>Parameters\<close>

record api =
  env_of :: env
  uiaa_of :: uiaa_codec
  password_ok :: "bytes \<Rightarrow> bytes \<Rightarrow> bool"
  password_digest :: "bytes \<Rightarrow> bytes option"
  verify_json :: "(bytes \<Rightarrow> (bytes, bytes) fmap option) \<Rightarrow> jobj \<Rightarrow> bool"
  canonical_value :: "json \<Rightarrow> json option"
  device_parse :: "bytes \<Rightarrow> Device option"
  device_print :: "Device \<Rightarrow> bytes"
  otk_print :: "bytes \<Rightarrow> bytes"
  otk_parse :: "bytes \<Rightarrow> bytes option"
  otk_algorithm :: "bytes \<Rightarrow> bytes"
  cross_key_values :: "json \<Rightarrow> bytes list option"

abbreviation jsn :: "'z api_scheme \<Rightarrow> serde" where "jsn A \<equiv> serde_of (env_of A)"
abbreviation rma :: "'z api_scheme \<Rightarrow> ruma" where "rma A \<equiv> ruma_of (env_of A)"
abbreviation cts :: "'z api_scheme \<Rightarrow> contents" where "cts A \<equiv> contents_of (env_of A)"
abbreviation lbr :: "'z api_scheme \<Rightarrow> event_lib" where "lbr A \<equiv> lib_of (env_of A)"
abbreviation fdr :: "'z api_scheme \<Rightarrow> federation" where "fdr A \<equiv> fed_of (env_of A)"
abbreviation itr :: "'z api_scheme \<Rightarrow> bytes set \<Rightarrow> bytes list" where "itr A \<equiv> iter_of (env_of A)"

section \<open>The X-Matrix header\<close>

record XMatrix =
  x_origin :: servername
  x_key :: bytes
  x_sig :: bytes

text \<open>\<^verbatim>\<open>str::trim_start\<close>: the characters with the property \<open>White_Space\<close>, in UTF-8.\<close>

definition white_space :: "bytes list" where
  "white_space =
     [[0x09], [0x0a], [0x0b], [0x0c], [0x0d], [0x20], [0xc2, 0x85], [0xc2, 0xa0], [0xe1, 0x9a, 0x80],
      [0xe2, 0x80, 0x80], [0xe2, 0x80, 0x81], [0xe2, 0x80, 0x82], [0xe2, 0x80, 0x83], [0xe2, 0x80, 0x84], [0xe2, 0x80, 0x85],
      [0xe2, 0x80, 0x86], [0xe2, 0x80, 0x87], [0xe2, 0x80, 0x88], [0xe2, 0x80, 0x89], [0xe2, 0x80, 0x8a],
      [0xe2, 0x80, 0xa8], [0xe2, 0x80, 0xa9], [0xe2, 0x80, 0xaf], [0xe2, 0x81, 0x9f], [0xe3, 0x80, 0x80]]"

function trim_start :: "bytes \<Rightarrow> bytes" where
  "trim_start b = (case find (\<lambda>w. prefix w b) white_space of None \<Rightarrow> b | Some w \<Rightarrow> trim_start (drop (length w) b))"
  by pat_completeness auto

termination
proof (relation "measure length", simp)
  fix b w
  assume "find (\<lambda>w. prefix w b) white_space = Some w"
  then have "w \<in> set white_space" "prefix w b" by (auto simp: find_Some_iff)
  then have "0 < length w" "length w \<le> length b" by (auto simp: white_space_def prefix_length_le)
  then show "(drop (length w) b, b) \<in> measure length" by (simp del: length_greater_0_conv)
qed

declare trim_start.simps [simp del]

text \<open>\<^verbatim>\<open>split_once\<close> and the removal of quotes.\<close>

definition split_once :: "byte \<Rightarrow> bytes \<Rightarrow> (bytes \<times> bytes) option" where
  "split_once c b = (if c \<in> set b then Some (takeWhile (\<lambda>x. x \<noteq> c) b, tl (dropWhile (\<lambda>x. x \<noteq> c) b)) else None)"

definition unquote :: "bytes \<Rightarrow> bytes" where
  "unquote b =
     (case b of
        q # rest \<Rightarrow> if q = 0x22 \<and> rest \<noteq> [] \<and> last rest = 0x22 then butlast rest else b
      | [] \<Rightarrow> b)"

fun x_fields ::
    "ruma \<Rightarrow> bytes list \<Rightarrow> servername option \<times> bytes option \<times> bytes option \<Rightarrow>
     (servername option \<times> bytes option \<times> bytes option) option" where
  "x_fields R [] acc = Some acc"
| "x_fields R (entry # es) (origin, key, sig) =
     (case split_once 0x3d entry of
        None \<Rightarrow> None
      | Some (name, val) \<Rightarrow>
          let val = unquote val in
          if name = ascii ''origin'' then
            (if is_server_name R val then x_fields R es (Some val, key, sig) else None)
          else if name = ascii ''key'' then x_fields R es (origin, Some val, sig)
          else if name = ascii ''sig'' then x_fields R es (origin, key, Some val)
          else x_fields R es (origin, key, sig))"

definition x_decode :: "ruma \<Rightarrow> bytes \<Rightarrow> XMatrix option" where
  "x_decode R header =
     (if \<not> prefix (ascii ''X-Matrix '') header then None
      else
        let parameters = drop 9 header in
        if \<not> utf8_valid parameters then None
        else
          (case x_fields R (split_terminator (\<lambda>c. c = 0x2c) (trim_start parameters)) (None, None, None) of
             Some (Some origin, Some key, Some sig) \<Rightarrow> Some \<lparr>x_origin = origin, x_key = key, x_sig = sig\<rparr>
           | _ \<Rightarrow> None))"

section \<open>Identifying the sender\<close>

datatype AuthScheme = AccessToken | ServerSignatures | NoAuthentication

record http_request =
  bearer_token :: "bytes option"
  authorization_header :: "bytes option"
  query_params :: "(bytes option \<times> bytes option) option" \<comment> \<open>access token and user id\<close>
  http_body :: "bytes option"
  http_method :: bytes
  http_uri :: bytes

record sender_info =
  sender_user :: "user_id option"
  sender_device :: "device_id option"
  sender_servername :: "servername option"
  from_appservice :: bool

definition given_token :: "http_request \<Rightarrow> bytes option" where
  "given_token req =
     (case bearer_token req of Some t \<Rightarrow> Some t | None \<Rightarrow> Option.bind (query_params req) fst)"

definition request_json :: "api \<Rightarrow> bytes \<Rightarrow> json option" where
  "request_json A raw = Option.bind (json_parse (jsn A) raw) (canonical_value A)"

text \<open>The JSON that the signature of a federation request covers.\<close>

definition request_map :: "XMatrix \<Rightarrow> http_request \<Rightarrow> json option \<Rightarrow> servername \<Rightarrow> jobj" where
  "request_map x req json_body name =
     obj_of
       ([(ascii ''method'', JStr (http_method req)), (ascii ''uri'', JStr (http_uri req)),
         (ascii ''origin'', JStr (x_origin x)), (ascii ''destination'', JStr name),
         (ascii ''signatures'', JObj [(x_origin x, JObj [(x_key x, JStr (x_sig x))])])]
        @ (case json_body of None \<Rightarrow> [] | Some j \<Rightarrow> [(ascii ''content'', j)]))"

definition appservice_user :: "api \<Rightarrow> bytes option \<Rightarrow> json \<Rightarrow> servername \<Rightarrow> user_id res" where
  "appservice_user A query_user registration name =
     (case query_user of
        Some u \<Rightarrow> if is_user_id (rma A) u then Inr u else Inl (Panic ''called Result::unwrap() on an Err value'')
      | None \<Rightarrow>
          (case yaml_str registration (ascii ''sender_localpart'') of
             None \<Rightarrow> Inl (Panic ''called Option::unwrap() on a None value'')
           | Some localpart \<Rightarrow>
               ok_or (Panic ''called Result::unwrap() on an Err value'') (user_with_server_name (lbr A) localpart name)))"

definition appservice_sender ::
    "api \<Rightarrow> AuthScheme \<Rightarrow> bytes option \<Rightarrow> json \<Rightarrow> ('a federation_db_scheme, sender_info) dop" where
  "appservice_sender A scheme query_user registration =
     (case scheme of
        AccessToken \<Rightarrow>
          bind (gets server_name) (\<lambda>name.
          bind (of_res (appservice_user A query_user registration name)) (\<lambda>user.
          bind (unwrapped (reads (user_exists user))) (\<lambda>exists.
          if \<not> exists then fail (BadRequest Forbidden ''User does not exist.'')
          else ret \<lparr>sender_user = Some user, sender_device = None, sender_servername = None, from_appservice = True\<rparr>)))
      | _ \<Rightarrow> ret \<lparr>sender_user = None, sender_device = None, sender_servername = None, from_appservice = True\<rparr>)"

definition token_sender :: "api \<Rightarrow> bytes option \<Rightarrow> ('a federation_db_scheme, sender_info) dop" where
  "token_sender A token =
     (case token of
        None \<Rightarrow> fail (BadRequest MissingToken ''Missing access token.'')
      | Some token \<Rightarrow>
          bind (unwrapped (reads (find_from_token (rma A) token))) (\<lambda>found.
          case found of
            None \<Rightarrow> fail (BadRequest (UnknownToken False) ''Unknown access token.'')
          | Some (user, device) \<Rightarrow>
              ret \<lparr>sender_user = Some user, sender_device = Some device, sender_servername = None, from_appservice = False\<rparr>))"

definition server_sender ::
    "api \<Rightarrow> nat \<Rightarrow> http_request \<Rightarrow> json option \<Rightarrow> ('a federation_db_scheme, sender_info) dop" where
  "server_sender A now req json_body =
     (case authorization_header req of
        None \<Rightarrow> fail (BadRequest Forbidden ''Missing Authorization header.'')
      | Some header \<Rightarrow>
          (case x_decode (rma A) header of
             None \<Rightarrow> fail (BadRequest Forbidden ''Invalid X-Matrix signatures.'')
           | Some x \<Rightarrow>
               bind (catching (fetch_signing_keys (fdr A) now (x_origin x) [x_key x])) (\<lambda>keys_result.
               case keys_result of
                 Inl _ \<Rightarrow> fail (BadRequest Forbidden ''Failed to fetch signing keys.'')
               | Inr keys \<Rightarrow>
                   bind (gets server_name) (\<lambda>name.
                   if verify_json A [x_origin x \<mapsto> keys] (request_map x req json_body name)
                   then ret \<lparr>sender_user = None, sender_device = None, sender_servername = Some (x_origin x), from_appservice = False\<rparr>
                   else fail (BadRequest Forbidden ''Failed to verify X-Matrix signatures.'')))))"

definition find_appservice :: "bytes option \<Rightarrow> (bytes \<times> json) list \<Rightarrow> (bytes \<times> json) option" where
  "find_appservice token appservices =
     find (\<lambda>(_, registration). case yaml_str registration (ascii ''as_token'') of
       Some as_token \<Rightarrow> token = Some as_token | None \<Rightarrow> False) appservices"

definition identify ::
    "api \<Rightarrow> nat \<Rightarrow> AuthScheme \<Rightarrow> http_request \<Rightarrow> bytes option \<Rightarrow> bytes option \<Rightarrow> json option \<Rightarrow> ('a federation_db_scheme, sender_info) dop" where
  "identify A now scheme req token query_user json_body =
     bind (unwrapped (reads (all_appservices (yaml_from_slice (lbr A))))) (\<lambda>appservices.
     case find_appservice token appservices of
       Some (_, registration) \<Rightarrow> appservice_sender A scheme query_user registration
     | None \<Rightarrow>
         (case scheme of
            AccessToken \<Rightarrow> token_sender A token
          | ServerSignatures \<Rightarrow> server_sender A now req json_body
          | NoAuthentication \<Rightarrow>
              ret \<lparr>sender_user = None, sender_device = None, sender_servername = None, from_appservice = False\<rparr>))"

section \<open>Completing the body\<close>

text \<open>Fields of the first request of an interactive authentication are added where they are missing.\<close>

definition merge_fields :: "jobj \<Rightarrow> jobj \<Rightarrow> jobj" where
  "merge_fields initial ob = fold (\<lambda>(k, v) ob. if obj_get ob k = None then obj_insert k v ob else ob) initial ob"

definition auth_session_of :: "jobj \<Rightarrow> bytes option" where
  "auth_session_of ob =
     Option.bind (Option.bind (obj_get ob (ascii ''auth'')) as_object) (\<lambda>auth.
     Option.bind (obj_get auth (ascii ''session'')) as_string)"

definition complete_body ::
    "api \<Rightarrow> sender_info \<Rightarrow> bytes \<Rightarrow> json option \<Rightarrow> 'a federation_db_scheme \<Rightarrow> (bytes \<times> json option) res" where
  "complete_body A info body json_body s =
     (case json_body of
        Some (JObj ob) \<Rightarrow>
          bind_res (case sender_user info of
                      Some u \<Rightarrow> Inr u
                    | None \<Rightarrow> ok_or (Panic ''we know this is valid'') (user_with_server_name (lbr A) [] (server_name s))) (\<lambda>user.
          let device = (case sender_device info of Some d \<Rightarrow> d | None \<Rightarrow> []);
              initial = Option.bind (auth_session_of ob) (\<lambda>session. get_uiaa_request user device session s);
              ob' = (case initial of Some (JObj fs) \<Rightarrow> merge_fields fs ob | _ \<Rightarrow> ob)
          in Inr (json_print (jsn A) (JObj ob'), Some (JObj ob')))
      | _ \<Rightarrow> Inr (body, json_body))"

text \<open>\<^verbatim>\<open>Ruma::from_request\<close>; \<open>parse\<close> reads the request of the endpoint from the body.\<close>

definition from_request ::
    "api \<Rightarrow> nat \<Rightarrow> AuthScheme \<Rightarrow> (bytes \<Rightarrow> 'b option) \<Rightarrow> http_request \<Rightarrow>
     ('a federation_db_scheme, 'b \<times> sender_info \<times> json option) dop" where
  "from_request A now scheme parse req =
     (case query_params req of
        None \<Rightarrow> fail (BadRequest Unknown ''Failed to read query parameters'')
      | Some (query_token, query_user) \<Rightarrow>
          (case http_body req of
             None \<Rightarrow> fail (BadRequest MissingToken ''Missing token.'')
           | Some body \<Rightarrow>
               let json_body = request_json A body in
               bind (identify A now scheme req (given_token req) query_user json_body) (\<lambda>info.
               bind (reads (complete_body A info body json_body)) (\<lambda>(body, json_body).
               bind (of_res (ok_or (BadRequest (OtherKind ''BadJson'') ''Failed to deserialize request.'') (parse body))) (\<lambda>request.
               ret (request, info, json_body))))))"

section \<open>Who a request comes from\<close>

text \<open>Fetched signing keys cover the signatures they were asked for.\<close>

lemma ask_notaries_complete:
  "ask_notaries F origin ids servers result s = (Inr (Some keys), s') \<Longrightarrow> contains_all_ids ids keys"
proof (induction servers arbitrary: result s)
  case (Cons server servers)
  from Cons.prems show ?case
    unfolding ask_notaries.simps
    by (elim bind_InrE) (auto split: sum.splits if_splits elim!: bind_InrE dest: Cons.IH)
qed simp

lemma fetch_signing_keys_complete:
  assumes "fetch_signing_keys F now origin ids s = (Inr keys, s')"
  shows "contains_all_ids ids keys"
  using assms unfolding fetch_signing_keys_def
  by (elim bind_InrE) (auto split: if_splits option.splits elim!: bind_InrE andthen_InrE, (rule ask_notaries_complete, assumption)+)

lemma catching_Inr: "catching p s = (Inr (Inr x), s') \<Longrightarrow> p s = (Inr x, s')"
  unfolding catching_def by (cases "p s") (auto simp: bind_apply attempt_apply split: sum.splits if_splits)

lemma unwrapped_reads: "unwrapped (reads f) s = (Inr x, s') \<Longrightarrow> f s = Inr x \<and> s' = s"
  unfolding unwrapped_def by (auto simp: bind_apply attempt_apply split: sum.splits)

lemma server_sender_verified:
  assumes "server_sender A now req json_body s = (Inr info, s')"
  obtains x keys header t where "authorization_header req = Some header" and "x_decode (rma A) header = Some x"
    and "fetch_signing_keys (fdr A) now (x_origin x) [x_key x] s = (Inr keys, t)"
    and "verify_json A [x_origin x \<mapsto> keys] (request_map x req json_body (server_name t))"
    and "info = \<lparr>sender_user = None, sender_device = None, sender_servername = Some (x_origin x), from_appservice = False\<rparr>"
  using assms unfolding server_sender_def
  by (auto split: option.splits sum.splits if_splits elim!: bind_InrE dest!: catching_Inr)

text \<open>
  What identifies the sender of a request: a stored access token, the token of a registered application service, or a
  signature over the request that verifies with the keys of the server that sent it.
\<close>

definition identified :: "api \<Rightarrow> nat \<Rightarrow> AuthScheme \<Rightarrow> http_request \<Rightarrow> bytes \<Rightarrow> 'a federation_db_scheme \<Rightarrow> sender_info \<Rightarrow> bool" where
  "identified A now scheme req body s info =
     (if from_appservice info then
        \<exists>token appservices i registration. given_token req = Some token \<and>
          all_appservices (yaml_from_slice (lbr A)) s = Inr appservices \<and> (i, registration) \<in> set appservices \<and>
          yaml_str registration (ascii ''as_token'') = Some token \<and> sender_servername info = None \<and>
          (scheme = AccessToken \<longleftrightarrow> sender_user info \<noteq> None)
      else
        (case scheme of
           AccessToken \<Rightarrow>
             \<exists>token user device. given_token req = Some token \<and> find_from_token (rma A) token s = Inr (Some (user, device)) \<and>
               sender_user info = Some user \<and> sender_device info = Some device \<and> sender_servername info = None
         | ServerSignatures \<Rightarrow>
             \<exists>header x keys t. authorization_header req = Some header \<and> x_decode (rma A) header = Some x \<and>
               fetch_signing_keys (fdr A) now (x_origin x) [x_key x] s = (Inr keys, t) \<and> fmlookup keys (x_key x) \<noteq> None \<and>
               verify_json A [x_origin x \<mapsto> keys] (request_map x req (request_json A body) (server_name t)) \<and>
               sender_servername info = Some (x_origin x) \<and> sender_user info = None
         | NoAuthentication \<Rightarrow> sender_user info = None \<and> sender_servername info = None))"

lemma identify_identified:
  assumes "identify A now scheme req (given_token req) query_user (request_json A body) s = (Inr info, s')"
  shows "identified A now scheme req body s info"
proof -
  from assms obtain appservices where all: "all_appservices (yaml_from_slice (lbr A)) s = Inr appservices"
    and rest: "(case find_appservice (given_token req) appservices of
       Some (_, registration) \<Rightarrow> appservice_sender A scheme query_user registration
     | None \<Rightarrow>
         (case scheme of
            AccessToken \<Rightarrow> token_sender A (given_token req)
          | ServerSignatures \<Rightarrow> server_sender A now req (request_json A body)
          | NoAuthentication \<Rightarrow>
              ret \<lparr>sender_user = None, sender_device = None, sender_servername = None, from_appservice = False\<rparr>)) s = (Inr info, s')"
    unfolding identify_def by (auto elim!: bind_InrE dest: unwrapped_reads)
  show ?thesis
  proof (cases "find_appservice (given_token req) appservices")
    case (Some found)
    obtain i registration where found: "found = (i, registration)" by (rule prod.exhaust)
    with Some have mem: "(i, registration) \<in> set appservices" and token: "yaml_str registration (ascii ''as_token'') = given_token req"
      "given_token req \<noteq> None"
      by (auto simp: find_appservice_def find_Some_iff split: option.splits)
    have "from_appservice info" "sender_servername info = None" "scheme = AccessToken \<longleftrightarrow> sender_user info \<noteq> None"
      using rest Some found by (auto simp: appservice_sender_def split: AuthScheme.splits if_splits elim!: bind_InrE)
    moreover obtain t where "given_token req = Some t" using token(2) by blast
    ultimately show ?thesis
      unfolding identified_def using mem token(1) all
      by (simp only: if_True) (intro exI [of _ t] exI [of _ appservices] exI [of _ i] exI [of _ registration] conjI; simp)
  next
    case None
    show ?thesis
    proof (cases scheme)
      case AccessToken
      with rest None show ?thesis
        unfolding identified_def token_sender_def
        by (auto split: option.splits elim!: bind_InrE dest!: unwrapped_reads)
    next
      case ServerSignatures
      with rest None have "server_sender A now req (request_json A body) s = (Inr info, s')" by simp
      then show ?thesis
      proof (rule server_sender_verified)
        fix x :: XMatrix and keys header t
        assume "fetch_signing_keys (fdr A) now (x_origin x) [x_key x] s = (Inr keys, t)"
        moreover from fetch_signing_keys_complete [OF this] have "fmlookup keys (x_key x) \<noteq> None" by (simp add: contains_all_ids_def)
        moreover assume "authorization_header req = Some header" "x_decode (rma A) header = Some x"
          "verify_json A [x_origin x \<mapsto> keys] (request_map x req (request_json A body) (server_name t))"
          "info = \<lparr>sender_user = None, sender_device = None, sender_servername = Some (x_origin x), from_appservice = False\<rparr>"
        ultimately show ?thesis using ServerSignatures unfolding identified_def by auto
      qed
    next
      case NoAuthentication
      with rest None show ?thesis unfolding identified_def by auto
    qed
  qed
qed


section \<open>An example\<close>

definition example_api :: api where
  "example_api =
     \<lparr>env_of = example_env, uiaa_of = example_uiaa, password_ok = (\<lambda>_ _. False), password_digest = (\<lambda>p. Some p),
      verify_json = (\<lambda>_ _. True), canonical_value = (\<lambda>_. None), device_parse = (\<lambda>_. None), device_print = (\<lambda>_. []),
      otk_print = (\<lambda>k. k), otk_parse = Some, otk_algorithm = (\<lambda>k. k), cross_key_values = (\<lambda>_. None)\<rparr>"

definition example_signed_in :: federation_db where
  "example_signed_in = example_remote\<lparr>token_userdeviceid := kv_insert (ascii ''t'') (ascii ''@u:h'' @ sep # ascii ''d'') kv_empty\<rparr>"

definition example_request :: http_request where
  "example_request =
     \<lparr>bearer_token = Some (ascii ''t''), authorization_header = None, query_params = Some (None, None), http_body = Some [],
      http_method = ascii ''GET'', http_uri = ascii ''/''\<rparr>"


end
