(* ===== verification/KeysApi.thy ===== *)
theory KeysApi
  imports Api
begin

text \<open>
  \<^verbatim>\<open>api/client_server/keys.rs\<close>: uploading, querying, claiming and signing end-to-end encryption keys.
  The handlers for queries and claims are shared with the federation API. Maps of a request are lists in the
  order of their keys; maps of a response are functions.

  What other servers answer is a parameter, as is the order in which the answers arrive.
\<close>

section \<open>Senders and interactive authentication\<close>

definition authenticated_user :: "sender_info \<Rightarrow> user_id res" where
  "authenticated_user info = ok_or (Panic ''user is authenticated'') (sender_user info)"

definition authenticated_device :: "sender_info \<Rightarrow> device_id res" where
  "authenticated_device info = ok_or (Panic ''user is authenticated'') (sender_device info)"

definition authenticated_server :: "sender_info \<Rightarrow> servername res" where
  "authenticated_server info = ok_or (Panic ''server is authenticated'') (sender_servername info)"

text \<open>
  The handlers that need the password begin alike: without authentication data the request is stored under a new session and the
  client is told the flows. \<open>random\<close> is the session id drawn.
\<close>

definition require_auth ::
    "api \<Rightarrow> bytes \<Rightarrow> AuthType list list \<Rightarrow> user_id \<Rightarrow> device_id \<Rightarrow> auth_data option \<Rightarrow> json option \<Rightarrow> ('a federation_db_scheme, unit) dop" where
  "require_auth A random stages user device auth json_body =
     (let uiaainfo = \<lparr>flows = stages, completed = [], session = None, auth_error = None\<rparr> in
      case auth of
        Some auth \<Rightarrow>
          bind (try_auth (uiaa_of A) (password_ok A) (user_with_server_name (lbr A)) random user device auth uiaainfo) (\<lambda>(worked, uiaainfo).
          if \<not> worked then fail (Uiaa uiaainfo) else ret ())
      | None \<Rightarrow>
          (case json_body of
             Some json_body \<Rightarrow>
               let uiaainfo = uiaainfo\<lparr>session := Some random\<rparr> in
               andthen (create_session (uiaa_of A) user device uiaainfo json_body) (fail (Uiaa uiaainfo))
           | None \<Rightarrow> fail (BadRequest (OtherKind ''NotJson'') ''Not json.'')))"

section \<open>Uploading keys\<close>

definition upload_keys_route ::
    "api \<Rightarrow> sender_info \<Rightarrow> (bytes \<times> json) list \<Rightarrow> json option \<Rightarrow> ('a federation_db_scheme, bytes \<Rightarrow> nat) dop" where
  "upload_keys_route A info one_time_keys device_keys =
     bind (of_res (authenticated_user info)) (\<lambda>me.
     bind (of_res (authenticated_device info)) (\<lambda>my_device.
     andthen (for_each one_time_keys (\<lambda>(key_key, key_value).
       add_one_time_key (jsn A) (otk_print A) me my_device key_key key_value))
     (andthen
       (case device_keys of
          None \<Rightarrow> ret ()
        | Some device_keys \<Rightarrow>
            bind (reads (get_device_keys (jsn A) me my_device)) (\<lambda>known.
            if known = None then add_device_keys (jsn A) (rma A) (itr A) me my_device device_keys else ret ()))
     (reads (count_one_time_keys (otk_parse A) (otk_algorithm A) me my_device)))))"

definition upload_signing_keys_route ::
    "api \<Rightarrow> bytes \<Rightarrow> sender_info \<Rightarrow> auth_data option \<Rightarrow> json option \<Rightarrow> json option \<Rightarrow> json option \<Rightarrow> json option \<Rightarrow>
     ('a federation_db_scheme, unit) dop" where
  "upload_signing_keys_route A random info auth json_body master_key self_signing_key user_signing_key =
     bind (of_res (authenticated_user info)) (\<lambda>me.
     bind (of_res (authenticated_device info)) (\<lambda>my_device.
     andthen (require_auth A random [[AuthPassword]] me my_device auth json_body)
     (case master_key of
        None \<Rightarrow> ret ()
      | Some master_key \<Rightarrow>
          add_cross_signing_keys (jsn A) (rma A) (itr A) (cross_key_values A) me master_key self_signing_key user_signing_key)))"

section \<open>Uploading signatures\<close>

text \<open>A master key is not signed here; a key with a malformed usage counts as one.\<close>

definition is_signed_key :: "json \<Rightarrow> bool" where
  "is_signed_key key =
     (case Option.bind (as_object key) (\<lambda>ob. obj_get ob (ascii ''usage'')) of
        Some usage \<Rightarrow> (case usage of JArr us \<Rightarrow> JStr (ascii ''master'') \<notin> set us | _ \<Rightarrow> False)
      | None \<Rightarrow> True)"

definition signatures_by :: "user_id \<Rightarrow> json \<Rightarrow> jobj res" where
  "signatures_by me key =
     bind_res (ok_or (BadRequest InvalidParam ''Missing signatures field.'')
       (Option.bind (as_object key) (\<lambda>ob. obj_get ob (ascii ''signatures'')))) (\<lambda>sigs.
     bind_res (ok_or (BadRequest InvalidParam ''Invalid user in signatures field.'')
       (Option.bind (as_object sigs) (\<lambda>ob. obj_get ob me))) (\<lambda>own.
     ok_or (BadRequest InvalidParam ''Invalid signature.'') (as_object own)))"

definition upload_signature ::
    "api \<Rightarrow> user_id \<Rightarrow> user_id \<Rightarrow> bytes \<Rightarrow> bytes \<times> json \<Rightarrow> ('a federation_db_scheme, unit) dop" where
  "upload_signature A me user key_id signature =
     bind (of_res (ok_or (BadRequest InvalidParam ''Invalid signature value.'') (as_string (snd signature)))) (\<lambda>sig.
     sign_key (jsn A) (rma A) (itr A) user key_id (fst signature, sig) me)"

definition upload_signed_key ::
    "api \<Rightarrow> user_id \<Rightarrow> user_id \<Rightarrow> bytes \<times> json \<Rightarrow> ('a federation_db_scheme, unit) dop" where
  "upload_signed_key A me user = (\<lambda>(key_id, key).
     if \<not> is_signed_key key then ret ()
     else bind (of_res (signatures_by me key)) (\<lambda>sigs. for_each sigs (upload_signature A me user key_id)))"

definition upload_signatures_route ::
    "api \<Rightarrow> sender_info \<Rightarrow> (user_id \<times> (bytes \<times> json) list) list \<Rightarrow> ('a federation_db_scheme, unit) dop" where
  "upload_signatures_route A info signed_keys =
     bind (of_res (authenticated_user info)) (\<lambda>me.
     for_each signed_keys (\<lambda>(user, keys). for_each keys (upload_signed_key A me user)))"

section \<open>Changes of device lists\<close>

text \<open>\<^verbatim>\<open>str::parse::<u64>\<close>: an optional plus sign and at least one digit, without overflow.\<close>

fun parse_digits :: "nat \<Rightarrow> bytes \<Rightarrow> nat option" where
  "parse_digits n [] = Some n"
| "parse_digits n (c # cs) =
     (if 48 \<le> c \<and> c \<le> 57 \<and> 10 * n + unat (c - 48) < 2 ^ 64 then parse_digits (10 * n + unat (c - 48)) cs else None)"

definition parse_u64 :: "bytes \<Rightarrow> u64 option" where
  "parse_u64 b =
     (let ds = (case b of c # cs \<Rightarrow> if c = 0x2b then cs else b | [] \<Rightarrow> [])
      in if ds = [] then None else map_option of_nat (parse_digits 0 ds))"

text \<open>The tokens are parsed again for every room.\<close>

definition changed_since :: "api \<Rightarrow> bytes \<Rightarrow> bytes \<Rightarrow> bytes \<Rightarrow> 'a federation_db_scheme \<Rightarrow> user_id set res" where
  "changed_since A from_token to_token user_or_room s =
     bind_res (ok_or (BadRequest InvalidParam ''Invalid `from`.'') (parse_u64 from_token)) (\<lambda>since.
     bind_res (ok_or (BadRequest InvalidParam ''Invalid `to`.'') (parse_u64 to_token)) (\<lambda>until.
     Inr (set (List.map_filter res_ok (keys_changed (rma A) user_or_room since (Some until) s)))))"

definition get_key_changes_route ::
    "api \<Rightarrow> sender_info \<Rightarrow> bytes \<Rightarrow> bytes \<Rightarrow> 'a federation_db_scheme \<Rightarrow> user_id set res" where
  "get_key_changes_route A info from_token to_token s =
     bind_res (authenticated_user info) (\<lambda>me.
     map_res (\<lambda>sets. \<Union> (set sets))
       (collect_res (map (\<lambda>user_or_room. changed_since A from_token to_token user_or_room s)
          (me # List.map_filter res_ok (rooms_joined (rma A) me s)))))"

section \<open>Querying keys\<close>

record keys_response =
  master_keys :: "user_id \<Rightarrow> json option"
  self_signing_keys :: "user_id \<Rightarrow> json option"
  user_signing_keys :: "user_id \<Rightarrow> json option"
  device_keys :: "user_id \<Rightarrow> (device_id \<Rightarrow> json option) option"
  key_failures :: "servername set"

type_synonym key_query = "(user_id \<times> device_id list) list"
type_synonym key_claim = "(user_id \<times> (device_id \<times> bytes) list) list"
type_synonym claimed_keys = "user_id \<Rightarrow> (device_id \<Rightarrow> (bytes \<times> json) option) option"

record keys_remote =
  remote_keys :: "nat \<Rightarrow> servername \<Rightarrow> key_query \<Rightarrow> keys_response res"
  remote_claims :: "nat \<Rightarrow> servername \<Rightarrow> key_claim \<Rightarrow> claimed_keys res"
  completion :: "servername list \<Rightarrow> servername list"

definition add_unsigned_device_display_name :: "json \<Rightarrow> Device \<Rightarrow> json option" where
  "add_unsigned_device_display_name keys metadata =
     (case display_name metadata of
        None \<Rightarrow> Some keys
      | Some name \<Rightarrow>
          Option.bind (as_object keys) (\<lambda>ob.
          let unsigned = (case obj_get ob (ascii ''unsigned'') of None \<Rightarrow> JObj [] | Some u \<Rightarrow> u);
              unsigned = (case unsigned of JObj u \<Rightarrow> JObj (obj_insert (ascii ''device_display_name'') (JStr name) u) | u \<Rightarrow> u)
          in Some (JObj (obj_insert (ascii ''unsigned'') unsigned ob))))"

text \<open>The keys of a device with its name, if it has keys; \<open>missing\<close> is the error for keys without a device.\<close>

definition named_keys :: "api \<Rightarrow> error \<Rightarrow> user_id \<Rightarrow> device_id \<Rightarrow> 'a federation_db_scheme \<Rightarrow> json option res" where
  "named_keys A missing user device s =
     bind_res (get_device_keys (jsn A) user device s) (\<lambda>keys.
     case keys of
       None \<Rightarrow> Inr None
     | Some keys \<Rightarrow>
         bind_res (get_device_metadata (device_parse A) user device s) (\<lambda>found.
         bind_res (ok_or missing found) (\<lambda>metadata.
         map_res Some (ok_or (BadDatabase ''invalid device keys in database'') (add_unsigned_device_display_name keys metadata)))))"

fun keys_of_all ::
    "api \<Rightarrow> user_id \<Rightarrow> device_id res list \<Rightarrow> (device_id \<Rightarrow> json option) \<Rightarrow> 'a federation_db_scheme \<Rightarrow> (device_id \<Rightarrow> json option) res" where
  "keys_of_all A user [] container s = Inr container"
| "keys_of_all A user (d # ds) container s =
     bind_res d (\<lambda>device.
     bind_res (named_keys A (BadDatabase ''all_device_keys contained nonexistent device.'') user device s) (\<lambda>keys.
     keys_of_all A user ds (case keys of None \<Rightarrow> container | Some keys \<Rightarrow> container(device \<mapsto> keys)) s))"

text \<open>The loop over the devices asked for starts a new container for each of them.\<close>

fun keys_of_listed ::
    "api \<Rightarrow> user_id \<Rightarrow> device_id list \<Rightarrow> keys_response \<Rightarrow> 'a federation_db_scheme \<Rightarrow> keys_response res" where
  "keys_of_listed A user [] r s = Inr r"
| "keys_of_listed A user (device # ds) r s =
     bind_res (named_keys A (BadRequest InvalidParam ''Tried to get keys for nonexistent device.'') user device s) (\<lambda>keys.
     keys_of_listed A user ds
       (r\<lparr>device_keys := (device_keys r)(user \<mapsto> (case keys of None \<Rightarrow> Map.empty | Some keys \<Rightarrow> [device \<mapsto> keys]))\<rparr>) s)"

definition put_key :: "user_id \<Rightarrow> json option \<Rightarrow> (user_id \<Rightarrow> json option) \<Rightarrow> user_id \<Rightarrow> json option" where
  "put_key user key m = (case key of None \<Rightarrow> m | Some k \<Rightarrow> m(user \<mapsto> k))"

definition local_keys ::
    "api \<Rightarrow> user_id option \<Rightarrow> (user_id \<Rightarrow> bool) \<Rightarrow> user_id \<Rightarrow> device_id list \<Rightarrow> keys_response \<Rightarrow> 'a federation_db_scheme \<Rightarrow> keys_response res" where
  "local_keys A me allowed user device_ids r s =
     bind_res (if device_ids = []
               then map_res (\<lambda>container. r\<lparr>device_keys := (device_keys r)(user \<mapsto> container)\<rparr>)
                      (keys_of_all A user (all_device_ids user s) Map.empty s)
               else keys_of_listed A user device_ids r s) (\<lambda>r.
     bind_res (get_master_key (jsn A) (rma A) allowed user s) (\<lambda>master.
     bind_res (get_self_signing_key (jsn A) (rma A) allowed user s) (\<lambda>self_signing.
     let r = r\<lparr>master_keys := put_key user master (master_keys r), self_signing_keys := put_key user self_signing (self_signing_keys r)\<rparr> in
     if Some user = me
     then map_res (\<lambda>k. r\<lparr>user_signing_keys := put_key user k (user_signing_keys r)\<rparr>) (get_user_signing_key (jsn A) user s)
     else Inr r)))"

fun all_local_keys ::
    "api \<Rightarrow> user_id option \<Rightarrow> (user_id \<Rightarrow> bool) \<Rightarrow> key_query \<Rightarrow> keys_response \<Rightarrow> 'a federation_db_scheme \<Rightarrow> keys_response res" where
  "all_local_keys A me allowed [] r s = Inr r"
| "all_local_keys A me allowed ((user, device_ids) # input) r s =
     (if user_server (rma A) user \<noteq> server_name s then all_local_keys A me allowed input r s
      else bind_res (local_keys A me allowed user device_ids r s) (\<lambda>r. all_local_keys A me allowed input r s))"

text \<open>\<^verbatim>\<open>get_over_federation\<close>: what each other server is asked for.\<close>

definition asked_of :: "ruma \<Rightarrow> servername \<Rightarrow> (user_id \<times> 'b) list \<Rightarrow> (user_id \<times> 'b) list" where
  "asked_of R server input = filter (\<lambda>(user, _). user_server R user = server) input"

definition other_servers :: "ruma \<Rightarrow> servername \<Rightarrow> (user_id \<times> 'b) list \<Rightarrow> servername list" where
  "other_servers R name input = filter (\<lambda>server. server \<noteq> name) (remdups (map (\<lambda>(user, _). user_server R user) input))"

definition merge_keys :: "servername \<Rightarrow> keys_response res \<Rightarrow> keys_response \<Rightarrow> keys_response" where
  "merge_keys server answer r =
     (case answer of
        Inr a \<Rightarrow> r\<lparr>master_keys := master_keys r ++ master_keys a, self_signing_keys := self_signing_keys r ++ self_signing_keys a,
                   device_keys := device_keys r ++ device_keys a\<rparr>
      | Inl _ \<Rightarrow> r\<lparr>key_failures := insert server (key_failures r)\<rparr>)"

fun remote_queries :: "api \<Rightarrow> keys_remote \<Rightarrow> key_query \<Rightarrow> servername list \<Rightarrow> keys_response \<Rightarrow> ('a federation_db_scheme, keys_response) dop" where
  "remote_queries A K input [] r = ret r"
| "remote_queries A K input (server # servers) r =
     bind (catching (send_federation_request (\<lambda>k. remote_keys K k server (asked_of (rma A) server input)))) (\<lambda>answer.
     remote_queries A K input servers (merge_keys server answer r))"

definition empty_response :: keys_response where
  "empty_response = \<lparr>master_keys = Map.empty, self_signing_keys = Map.empty, user_signing_keys = Map.empty, device_keys = Map.empty, key_failures = {}\<rparr>"

definition get_keys_helper ::
    "api \<Rightarrow> keys_remote \<Rightarrow> user_id option \<Rightarrow> key_query \<Rightarrow> (user_id \<Rightarrow> bool) \<Rightarrow> ('a federation_db_scheme, keys_response) dop" where
  "get_keys_helper A K me input allowed =
     bind (reads (all_local_keys A me allowed input empty_response)) (\<lambda>r.
     bind (gets server_name) (\<lambda>name.
     remote_queries A K input (completion K (other_servers (rma A) name input)) r))"

definition get_keys_route :: "api \<Rightarrow> keys_remote \<Rightarrow> sender_info \<Rightarrow> key_query \<Rightarrow> ('a federation_db_scheme, keys_response) dop" where
  "get_keys_route A K info input =
     bind (of_res (authenticated_user info)) (\<lambda>me.
     get_keys_helper A K (Some me) input (\<lambda>u. u = me))"

section \<open>Claiming one-time keys\<close>

fun take_keys ::
    "api \<Rightarrow> user_id \<Rightarrow> (device_id \<times> bytes) list \<Rightarrow> (device_id \<Rightarrow> (bytes \<times> json) option) \<Rightarrow>
     ('a federation_db_scheme, device_id \<Rightarrow> (bytes \<times> json) option) dop" where
  "take_keys A user [] container = ret container"
| "take_keys A user ((device, algorithm) # m) container =
     bind (take_one_time_key (jsn A) (otk_parse A) user device algorithm) (\<lambda>key.
     take_keys A user m (case key of None \<Rightarrow> container | Some key \<Rightarrow> container(device \<mapsto> key)))"

text \<open>Users of other servers are looked up here as well, before their server is asked.\<close>

fun local_claims :: "api \<Rightarrow> key_claim \<Rightarrow> claimed_keys \<Rightarrow> ('a federation_db_scheme, claimed_keys) dop" where
  "local_claims A [] claimed = ret claimed"
| "local_claims A ((user, m) # input) claimed =
     bind (take_keys A user m Map.empty) (\<lambda>container. local_claims A input (claimed(user \<mapsto> container)))"

fun remote_claim_loop ::
    "api \<Rightarrow> keys_remote \<Rightarrow> key_claim \<Rightarrow> servername list \<Rightarrow> claimed_keys \<times> servername set \<Rightarrow>
     ('a federation_db_scheme, claimed_keys \<times> servername set) dop" where
  "remote_claim_loop A K input [] r = ret r"
| "remote_claim_loop A K input (server # servers) (claimed, failures) =
     bind (catching (send_federation_request (\<lambda>k. remote_claims K k server (asked_of (rma A) server input)))) (\<lambda>answer.
     remote_claim_loop A K input servers
       (case answer of Inr keys \<Rightarrow> (claimed ++ keys, failures) | Inl _ \<Rightarrow> (claimed, insert server failures)))"

definition claim_keys_helper ::
    "api \<Rightarrow> keys_remote \<Rightarrow> key_claim \<Rightarrow> ('a federation_db_scheme, claimed_keys \<times> servername set) dop" where
  "claim_keys_helper A K input =
     bind (local_claims A input Map.empty) (\<lambda>claimed.
     bind (gets server_name) (\<lambda>name.
     remote_claim_loop A K input (completion K (other_servers (rma A) name input)) (claimed, {})))"

definition claim_keys_route ::
    "api \<Rightarrow> keys_remote \<Rightarrow> key_claim \<Rightarrow> ('a federation_db_scheme, claimed_keys \<times> servername set) dop" where
  "claim_keys_route A K input = claim_keys_helper A K input"

section \<open>What a query returns\<close>

text \<open>Keys of a user of this server, as the loop over the query adds them.\<close>

definition answered :: "api \<Rightarrow> user_id option \<Rightarrow> (user_id \<Rightarrow> bool) \<Rightarrow> user_id \<Rightarrow> device_id list \<Rightarrow> 'a federation_db_scheme \<Rightarrow> keys_response \<Rightarrow> bool" where
  "answered A me allowed user ds s r \<longleftrightarrow>
     get_master_key (jsn A) (rma A) allowed user s = Inr (master_keys r user) \<and>
     get_self_signing_key (jsn A) (rma A) allowed user s = Inr (self_signing_keys r user) \<and>
     (if Some user = me then get_user_signing_key (jsn A) user s = Inr (user_signing_keys r user) else user_signing_keys r user = None) \<and>
     (if ds = [] then map_res Some (keys_of_all A user (all_device_ids user s) Map.empty s) = Inr (device_keys r user)
      else \<exists>keys. named_keys A (BadRequest InvalidParam ''Tried to get keys for nonexistent device.'') user (last ds) s = Inr keys \<and>
        device_keys r user = Some (case keys of None \<Rightarrow> Map.empty | Some keys \<Rightarrow> [last ds \<mapsto> keys]))"

definition same_keys :: "user_id \<Rightarrow> keys_response \<Rightarrow> keys_response \<Rightarrow> bool" where
  "same_keys user r r' \<longleftrightarrow> master_keys r' user = master_keys r user \<and> self_signing_keys r' user = self_signing_keys r user \<and>
     user_signing_keys r' user = user_signing_keys r user \<and> device_keys r' user = device_keys r user"

lemma same_keys_trans: "same_keys u r r' \<Longrightarrow> same_keys u r' r'' \<Longrightarrow> same_keys u r r''"
  by (simp add: same_keys_def)

lemma answered_same: "same_keys u r r' \<Longrightarrow> answered A me allowed u ds s r \<Longrightarrow> answered A me allowed u ds s r'"
  by (simp add: same_keys_def answered_def)

lemma bind_res_InrE:
  assumes "bind_res m f = Inr y"
  obtains x where "m = Inr x" and "f x = Inr y"
  using assms by (cases m) (simp_all add: bind_res_def)

lemma map_res_InrE:
  assumes "map_res f m = Inr y"
  obtains x where "m = Inr x" and "y = f x"
  using assms by (cases m) (auto simp: map_res_def)

lemma put_key_apply: "put_key user k m u = (if u = user then (case k of None \<Rightarrow> m u | Some _ \<Rightarrow> k) else m u)"
  by (simp add: put_key_def split: option.split)

lemma put_key_same [simp]: "m user = None \<Longrightarrow> put_key user k m user = k"
  by (simp add: put_key_apply split: option.split)

lemma put_key_other [simp]: "u \<noteq> user \<Longrightarrow> put_key user k m u = m u"
  by (simp add: put_key_apply)

lemma keys_of_listed_result:
  assumes "keys_of_listed A user ds r s = Inr r'"
  shows "master_keys r' = master_keys r \<and> self_signing_keys r' = self_signing_keys r \<and> user_signing_keys r' = user_signing_keys r \<and>
    (\<forall>u. u \<noteq> user \<longrightarrow> device_keys r' u = device_keys r u) \<and>
    (ds \<noteq> [] \<longrightarrow> (\<exists>keys. named_keys A (BadRequest InvalidParam ''Tried to get keys for nonexistent device.'') user (last ds) s = Inr keys \<and>
      device_keys r' user = Some (case keys of None \<Rightarrow> Map.empty | Some keys \<Rightarrow> [last ds \<mapsto> keys])))"
  using assms
proof (induction ds arbitrary: r)
  case (Cons device ds)
  from Cons.prems obtain keys where keys: "named_keys A (BadRequest InvalidParam ''Tried to get keys for nonexistent device.'') user device s = Inr keys"
    and rest: "keys_of_listed A user ds (r\<lparr>device_keys := (device_keys r)(user \<mapsto> (case keys of None \<Rightarrow> Map.empty | Some keys \<Rightarrow> [device \<mapsto> keys]))\<rparr>) s = Inr r'"
    by (auto elim: bind_res_InrE)
  from Cons.IH [OF rest] rest keys show ?case by (cases "ds = []") (auto split: option.split)
qed simp

lemma local_keys_result:
  assumes "local_keys A me allowed user ds r s = Inr r'"
    and "master_keys r user = None" and "self_signing_keys r user = None" and "user_signing_keys r user = None"
  shows "answered A me allowed user ds s r' \<and> (\<forall>u. u \<noteq> user \<longrightarrow> same_keys u r r')"
proof -
  from assms(1) obtain r1 master self_signing where
    devices: "(if ds = [] then map_res (\<lambda>container. r\<lparr>device_keys := (device_keys r)(user \<mapsto> container)\<rparr>)
        (keys_of_all A user (all_device_ids user s) Map.empty s) else keys_of_listed A user ds r s) = Inr r1"
    and keys: "get_master_key (jsn A) (rma A) allowed user s = Inr master" "get_self_signing_key (jsn A) (rma A) allowed user s = Inr self_signing"
    and rest: "(let r = r1\<lparr>master_keys := put_key user master (master_keys r1), self_signing_keys := put_key user self_signing (self_signing_keys r1)\<rparr> in
      if Some user = me then map_res (\<lambda>k. r\<lparr>user_signing_keys := put_key user k (user_signing_keys r)\<rparr>) (get_user_signing_key (jsn A) user s)
      else Inr r) = Inr r'"
    unfolding local_keys_def by (elim bind_res_InrE) fast
  have r1: "master_keys r1 = master_keys r \<and> self_signing_keys r1 = self_signing_keys r \<and> user_signing_keys r1 = user_signing_keys r \<and>
      (\<forall>u. u \<noteq> user \<longrightarrow> device_keys r1 u = device_keys r u) \<and>
      (if ds = [] then map_res Some (keys_of_all A user (all_device_ids user s) Map.empty s) = Inr (device_keys r1 user)
       else \<exists>keys. named_keys A (BadRequest InvalidParam ''Tried to get keys for nonexistent device.'') user (last ds) s = Inr keys \<and>
         device_keys r1 user = Some (case keys of None \<Rightarrow> Map.empty | Some keys \<Rightarrow> [last ds \<mapsto> keys]))"
    using devices keys_of_listed_result [of A user ds r s r1] by (cases "ds = []") (auto elim!: map_res_InrE)
  show ?thesis
  proof (cases "Some user = me")
    case True
    with rest obtain k where "get_user_signing_key (jsn A) user s = Inr k"
      and "r' = r1\<lparr>master_keys := put_key user master (master_keys r1), self_signing_keys := put_key user self_signing (self_signing_keys r1),
        user_signing_keys := put_key user k (user_signing_keys r1)\<rparr>"
      by (auto simp: Let_def elim!: map_res_InrE)
    with True keys r1 assms(2-4) show ?thesis unfolding answered_def same_keys_def by simp
  next
    case False
    with rest have "r' = r1\<lparr>master_keys := put_key user master (master_keys r1), self_signing_keys := put_key user self_signing (self_signing_keys r1)\<rparr>"
      by (simp add: Let_def)
    with False keys r1 assms(2-4) show ?thesis unfolding answered_def same_keys_def by simp
  qed
qed

lemma all_local_keys_result:
  assumes "all_local_keys A me allowed input r s = Inr r'" and "distinct (map fst input)"
    and "\<forall>u \<in> fst ` set input. master_keys r u = None \<and> self_signing_keys r u = None \<and> user_signing_keys r u = None"
  shows "(\<forall>(u, ds) \<in> set input. user_server (rma A) u = server_name s \<longrightarrow> answered A me allowed u ds s r') \<and>
    (\<forall>u. u \<notin> fst ` set input \<or> user_server (rma A) u \<noteq> server_name s \<longrightarrow> same_keys u r r')"
  using assms
proof (induction input arbitrary: r)
  case (Cons q input)
  obtain user ds where q: "q = (user, ds)" by (rule prod.exhaust)
  show ?case
  proof (cases "user_server (rma A) user = server_name s")
    case True
    with Cons.prems(1) q obtain r1 where step: "local_keys A me allowed user ds r s = Inr r1" and rest: "all_local_keys A me allowed input r1 s = Inr r'"
      by (auto elim: bind_res_InrE)
    from Cons.prems(3) q have "answered A me allowed user ds s r1" and same: "u \<noteq> user \<Longrightarrow> same_keys u r r1" for u
      using local_keys_result [OF step] by auto
    moreover have "(\<forall>(u, ds) \<in> set input. user_server (rma A) u = server_name s \<longrightarrow> answered A me allowed u ds s r') \<and>
        (\<forall>u. u \<notin> fst ` set input \<or> user_server (rma A) u \<noteq> server_name s \<longrightarrow> same_keys u r1 r')"
    proof (rule Cons.IH [OF rest])
      show "distinct (map fst input)" using Cons.prems(2) by simp
      show "\<forall>u \<in> fst ` set input. master_keys r1 u = None \<and> self_signing_keys r1 u = None \<and> user_signing_keys r1 u = None"
      proof
        fix u assume u: "u \<in> fst ` set input"
        with Cons.prems(2) q have "u \<noteq> user" by auto
        with same Cons.prems(3) u show "master_keys r1 u = None \<and> self_signing_keys r1 u = None \<and> user_signing_keys r1 u = None"
          by (auto simp: same_keys_def)
      qed
    qed
    moreover have "user \<notin> fst ` set input" using Cons.prems(2) q by simp
    ultimately show ?thesis using q True by (auto intro: answered_same same_keys_trans [OF same])
  next
    case False
    with Cons.prems q have "(\<forall>(u, ds) \<in> set input. user_server (rma A) u = server_name s \<longrightarrow> answered A me allowed u ds s r') \<and>
        (\<forall>u. u \<notin> fst ` set input \<or> user_server (rma A) u \<noteq> server_name s \<longrightarrow> same_keys u r r')"
      by (intro Cons.IH) auto
    with False q show ?thesis by auto
  qed
qed (simp add: same_keys_def)

lemma send_federation_request_result:
  assumes "catching (send_federation_request f) s = (Inr answer, s')"
  shows "(\<exists>n. s' = s\<lparr>requests_sent := n\<rparr>) \<and>
    (if allow_federation (config s) then answer = f (requests_sent s) else answer = Inl (BadConfig ''Federation is disabled.''))"
proof (cases "allow_federation (config s)")
  case True
  with assms have "(case f (requests_sent s) of Inl e \<Rightarrow> if is_panic e then fail e else ret (f (requests_sent s)) | Inr _ \<Rightarrow> ret (f (requests_sent s)))
      (s\<lparr>requests_sent := requests_sent s + 1\<rparr>) = (Inr answer, s')"
    by (simp add: catching_def send_federation_request_def bind_apply andthen_def attempt_apply)
  then have "answer = f (requests_sent s) \<and> s' = s\<lparr>requests_sent := requests_sent s + 1\<rparr>" by (simp split: sum.splits if_splits)
  with True show ?thesis by (intro conjI exI [of _ "requests_sent s + 1"]) simp_all
next
  case False
  with assms have "answer = Inl (BadConfig ''Federation is disabled.'') \<and> s' = s"
    by (simp add: catching_def send_federation_request_def bind_apply attempt_apply)
  with False show ?thesis by (intro conjI exI [of _ "requests_sent s"]) simp_all
qed

definition silent_about :: "keys_remote \<Rightarrow> servername \<Rightarrow> user_id \<Rightarrow> bool" where
  "silent_about K server u \<longleftrightarrow> (\<forall>k q a. remote_keys K k server q = Inr a \<longrightarrow>
     master_keys a u = None \<and> self_signing_keys a u = None \<and> device_keys a u = None)"

lemma merge_keys_silent:
  assumes "silent_about K server u" and "answer = remote_keys K k server q \<or> answer = Inl e"
  shows "same_keys u r (merge_keys server answer r)"
proof (cases answer)
  case (Inr a)
  with assms have "master_keys a u = None" "self_signing_keys a u = None" "device_keys a u = None"
    unfolding silent_about_def by (metis sum.distinct(1))+
  with Inr show ?thesis by (simp add: merge_keys_def same_keys_def map_add_def)
qed (simp add: merge_keys_def same_keys_def)

lemma merge_keys_signing: "user_signing_keys (merge_keys server answer r) = user_signing_keys r"
  by (simp add: merge_keys_def split: sum.split)

lemma remote_queries_result:
  assumes "remote_queries A K input servers r s = (Inr r', s')"
  shows "user_signing_keys r' = user_signing_keys r \<and> (\<forall>u. (\<forall>server \<in> set servers. silent_about K server u) \<longrightarrow> same_keys u r r')"
  using assms
proof (induction servers arbitrary: r s)
  case (Cons server servers)
  from Cons.prems obtain answer t where req: "catching (send_federation_request (\<lambda>k. remote_keys K k server (asked_of (rma A) server input))) s = (Inr answer, t)"
    and rest: "remote_queries A K input servers (merge_keys server answer r) t = (Inr r', s')"
    by (auto elim: bind_InrE)
  have answer: "answer = remote_keys K (requests_sent s) server (asked_of (rma A) server input) \<or> answer = Inl (BadConfig ''Federation is disabled.'')"
    using send_federation_request_result [OF req] by (auto split: if_splits)
  have "same_keys u r r'" if "\<forall>server \<in> set (server # servers). silent_about K server u" for u
  proof (rule same_keys_trans)
    show "same_keys u r (merge_keys server answer r)" by (rule merge_keys_silent [OF _ answer]) (use that in simp)
    show "same_keys u (merge_keys server answer r) r'" using Cons.IH [OF rest] that by simp
  qed
  with Cons.IH [OF rest] show ?case by (simp add: merge_keys_signing)
qed (simp add: same_keys_def)

lemma remote_queries_last:
  assumes "remote_queries A K input (servers @ [server]) r s = (Inr r', s')" and "allow_federation (config s)"
    and "\<forall>k q. \<exists>a. remote_keys K k server q = Inr a \<and> master_keys a u = Some key"
  shows "master_keys r' u = Some key"
  using assms(1,2)
proof (induction servers arbitrary: r s)
  case Nil
  then obtain answer t where req: "catching (send_federation_request (\<lambda>k. remote_keys K k server (asked_of (rma A) server input))) s = (Inr answer, t)"
    and r': "r' = merge_keys server answer r" by (auto elim: bind_InrE)
  from assms(3) obtain a where "remote_keys K (requests_sent s) server (asked_of (rma A) server input) = Inr a" "master_keys a u = Some key" by blast
  with send_federation_request_result [OF req] Nil r' show ?case by (simp add: merge_keys_def)
next
  case (Cons other servers)
  then obtain answer t where req: "catching (send_federation_request (\<lambda>k. remote_keys K k other (asked_of (rma A) other input))) s = (Inr answer, t)"
    and rest: "remote_queries A K input (servers @ [server]) (merge_keys other answer r) t = (Inr r', s')"
    by (auto elim: bind_InrE)
  show ?case by (rule Cons.IH [OF rest]) (use send_federation_request_result [OF req] Cons.prems(2) in auto)
qed

text \<open>C16: A key query answers about each user of this server from the stored keys, with the signatures the asker may see, unless another
  server speaks about that user. User-signing keys go to their owner only. Of a list of devices only the last one is answered. What
  another server answers is never checked against the users it was asked about: the last answer decides the master key of any user.\<close>

theorem key_query_answer:
  assumes "get_keys_helper A K me input allowed s = (Inr r, s')" and "distinct (map fst input)"
  shows "(\<forall>u k. user_signing_keys r u = Some k \<longrightarrow> Some u = me \<and> get_user_signing_key (jsn A) u s = Inr (Some k)) \<and>
    (\<forall>(u, ds) \<in> set input. user_server (rma A) u = server_name s \<and>
       (\<forall>server \<in> set (completion K (other_servers (rma A) (server_name s) input)). silent_about K server u) \<longrightarrow> answered A me allowed u ds s r) \<and>
    (\<forall>u key servers server. completion K (other_servers (rma A) (server_name s) input) = servers @ [server] \<and> allow_federation (config s) \<and>
       (\<forall>k q. \<exists>a. remote_keys K k server q = Inr a \<and> master_keys a u = Some key) \<longrightarrow> master_keys r u = Some key)"
proof -
  from assms(1) obtain r1 where loc: "all_local_keys A me allowed input empty_response s = Inr r1"
    and rest: "remote_queries A K input (completion K (other_servers (rma A) (server_name s) input)) r1 s = (Inr r, s')"
    unfolding get_keys_helper_def by (auto elim!: bind_InrE)
  have "\<forall>u \<in> fst ` set input. master_keys empty_response u = None \<and> self_signing_keys empty_response u = None \<and> user_signing_keys empty_response u = None"
    by (simp add: empty_response_def)
  note own = all_local_keys_result [OF loc assms(2) this]
  note remote = remote_queries_result [OF rest]
  have signing: "Some u = me \<and> get_user_signing_key (jsn A) u s = Inr (Some k)" if "user_signing_keys r u = Some k" for u k
  proof (cases "u \<in> fst ` set input \<and> user_server (rma A) u = server_name s")
    case True
    then obtain ds where "(u, ds) \<in> set input" by auto
    with True own have "answered A me allowed u ds s r1" by auto
    with remote that show ?thesis by (auto simp: answered_def split: if_splits)
  next
    case False
    with own have "same_keys u empty_response r1" by simp
    with remote that show ?thesis by (simp add: same_keys_def empty_response_def)
  qed
  have local: "answered A me allowed u ds s r" if "(u, ds) \<in> set input" "user_server (rma A) u = server_name s"
    "\<forall>server \<in> set (completion K (other_servers (rma A) (server_name s) input)). silent_about K server u" for u ds
  proof (rule answered_same)
    show "answered A me allowed u ds s r1" using own that by auto
    show "same_keys u r1 r" using remote that by simp
  qed
  have last: "master_keys r u = Some key" if "completion K (other_servers (rma A) (server_name s) input) = servers @ [server]"
    "allow_federation (config s)" "\<forall>k q. \<exists>a. remote_keys K k server q = Inr a \<and> master_keys a u = Some key" for u key servers server
    by (rule remote_queries_last [OF rest [unfolded that(1)] that(2,3)])
  have "\<forall>u k. user_signing_keys r u = Some k \<longrightarrow> Some u = me \<and> get_user_signing_key (jsn A) u s = Inr (Some k)"
    by (intro allI impI signing)
  moreover have "\<forall>(u, ds) \<in> set input. user_server (rma A) u = server_name s \<and>
       (\<forall>server \<in> set (completion K (other_servers (rma A) (server_name s) input)). silent_about K server u) \<longrightarrow> answered A me allowed u ds s r"
    by (clarify, rule local)
  moreover have "\<forall>u key servers server. completion K (other_servers (rma A) (server_name s) input) = servers @ [server] \<and> allow_federation (config s) \<and>
       (\<forall>k q. \<exists>a. remote_keys K k server q = Inr a \<and> master_keys a u = Some key) \<longrightarrow> master_keys r u = Some key"
    by (intro allI impI, elim conjE, rule last)
  ultimately show ?thesis by (intro conjI)
qed

definition example_impostor :: keys_remote where
  "example_impostor =
     \<lparr>remote_keys = (\<lambda>_ _ _. Inr (empty_response\<lparr>master_keys := [ascii ''@u:h'' \<mapsto> JStr [0]]\<rparr>)),
      remote_claims = (\<lambda>_ _ _. Inr Map.empty), completion = (\<lambda>servers. servers)\<rparr>"

definition example_keyless :: federation_db where
  "example_keyless = example_remote
     \<lparr>server_name := ascii ''h'', userid_masterkeyid := kv_empty, userid_selfsigningkeyid := kv_empty, userid_usersigningkeyid := kv_empty,
      userdeviceid_metadata := kv_empty, config := (config example_remote)\<lparr>allow_federation := True\<rparr>\<rparr>"

theorem key_query_answer_witness:
  "\<exists>r s'. get_keys_helper example_api example_impostor None [(ascii ''@u:h'', []), (ascii ''@v:o'', [])] (\<lambda>_. True) example_keyless = (Inr r, s') \<and>
     get_master_key (jsn example_api) (rma example_api) (\<lambda>_. True) (ascii ''@u:h'') example_keyless = Inr None \<and>
     master_keys r (ascii ''@u:h'') = Some (JStr [0])"
proof -
  let ?q = "[(ascii ''@u:h'', []), (ascii ''@v:o'', [])] :: key_query"
  have server: "user_server (rma example_api) (ascii ''@u:h'') = ascii ''h''" "user_server (rma example_api) (ascii ''@v:o'') = ascii ''o''"
    by (simp_all add: example_api_def example_env_def example_ruma_def ascii_simps)
  have names: "ascii ''h'' \<noteq> ascii ''o''" "ascii ''@u:h'' \<noteq> ascii ''@v:o''" "server_name example_keyless = ascii ''h''"
    by (simp_all add: ascii_simps example_keyless_def)
  have keys: "get_master_key (jsn example_api) (rma example_api) (\<lambda>_. True) (ascii ''@u:h'') example_keyless = Inr None"
    "get_self_signing_key (jsn example_api) (rma example_api) (\<lambda>_. True) (ascii ''@u:h'') example_keyless = Inr None"
    "all_device_ids (ascii ''@u:h'') example_keyless = []"
    by (simp_all add: get_master_key_def get_self_signing_key_def cleaned_key_def all_device_ids_def example_keyless_def)
  have others: "completion example_impostor (other_servers (rma example_api) (server_name example_keyless) ?q) = [] @ [ascii ''o'']"
    using server names by (simp add: other_servers_def example_impostor_def)
  have "\<exists>r. all_local_keys example_api None (\<lambda>_. True) ?q empty_response example_keyless = Inr r"
    using server names keys by (simp add: local_keys_def Let_def)
  then obtain r0 where "all_local_keys example_api None (\<lambda>_. True) ?q empty_response example_keyless = Inr r0" by (elim exE)
  moreover have "allow_federation (config example_keyless)" by (simp add: example_keyless_def)
  moreover have "remote_keys example_impostor k server q \<noteq> Inl e" for k server q e by (simp add: example_impostor_def)
  ultimately have "\<exists>r s'. get_keys_helper example_api example_impostor None ?q (\<lambda>_. True) example_keyless = (Inr r, s')"
    using others by (auto simp: get_keys_helper_def bind_reads catching_def send_federation_request_def bind_apply andthen_def attempt_apply split: sum.split)
  then obtain r s' where run: "get_keys_helper example_api example_impostor None ?q (\<lambda>_. True) example_keyless = (Inr r, s')" by (elim exE)
  have "distinct (map fst ?q)" using names by simp
  from key_query_answer [OF run this] have "master_keys r (ascii ''@u:h'') = Some (JStr [0])"
    unfolding others by (elim conjE allE [of _ "ascii ''@u:h''"] allE [of _ "JStr [0]"] allE [of _ "[]"] allE [of _ "ascii ''o''"])
      (simp add: example_impostor_def example_keyless_def)
  with run keys show ?thesis by (intro exI [of _ r] exI [of _ s']) simp
qed

end
