(* ===== verification/DirectoryApi.thy ===== *)
theory DirectoryApi
  imports KeysApi "HOL-Library.Multiset"
begin

text \<open>
  \<^verbatim>\<open>api/client_server/directory.rs\<close>: the public room directory. A page of it is cut from the list
  of all public rooms, ordered by the number of joined members.

  \<open>room_contents\<close> reads the contents of state events. The inner option of a content is that of the field.
\<close>

section \<open>Rooms of the directory\<close>

datatype JoinRule = RuleInvite | RuleKnock | RulePrivate | RulePublic | RuleRestricted | RuleKnockRestricted | OtherRule bytes

record room_contents =
  canonical_alias_content :: "json \<Rightarrow> bytes option option"
  name_content :: "json \<Rightarrow> bytes option option"
  topic_content :: "json \<Rightarrow> bytes option"
  visibility_content :: "json \<Rightarrow> bytes option"
  guest_content :: "json \<Rightarrow> bytes option"
  avatar_content :: "json \<Rightarrow> bytes option option"
  join_rule_content :: "json \<Rightarrow> JoinRule option"
  room_type_content :: "json \<Rightarrow> bytes option option"

record PublicRoomsChunk =
  chunk_alias :: "bytes option"
  chunk_name :: "bytes option"
  num_joined_members :: nat
  chunk_topic :: "bytes option"
  world_readable :: bool
  guest_can_join :: bool
  chunk_avatar :: "bytes option"
  chunk_join_rule :: JoinRule
  chunk_room_type :: "bytes option"
  chunk_room :: room_id

text \<open>The content of a state event, \<open>missing\<close> if the room has none.\<close>

definition state_content ::
    "api \<Rightarrow> room_id \<Rightarrow> bytes \<Rightarrow> 'b \<Rightarrow> (json \<Rightarrow> 'b option) \<Rightarrow> string \<Rightarrow> ('a federation_db_scheme, 'b) dop" where
  "state_content A room ty missing parse message =
     bind (room_state_get (jsn A) (rma A) (itr A) room ty []) (\<lambda>ev.
     case ev of None \<Rightarrow> ret missing | Some pdu \<Rightarrow> of_res (ok_or (BadDatabase message) (parse (content pdu))))"

definition joined_members :: "room_id \<Rightarrow> 'a federation_db_scheme \<Rightarrow> nat res" where
  "joined_members room s =
     bind_res (room_joined_count room s) (\<lambda>c.
     let n = (case c of None \<Rightarrow> 0 | Some c \<Rightarrow> unat c) in
     if n \<le> MAX_UINT then Inr n else Inl (Panic ''user count should not be that big''))"

definition public_join_rule :: "JoinRule \<Rightarrow> JoinRule option" where
  "public_join_rule rule = (case rule of RulePublic \<Rightarrow> Some RulePublic | RuleKnock \<Rightarrow> Some RuleKnock | _ \<Rightarrow> None)"

definition room_chunk :: "api \<Rightarrow> room_contents \<Rightarrow> room_id \<Rightarrow> ('a federation_db_scheme, PublicRoomsChunk) dop" where
  "room_chunk A D room =
     bind (state_content A room (ascii ''m.room.canonical_alias'') None (canonical_alias_content D) ''Invalid canonical alias event in database.'') (\<lambda>al.
     bind (state_content A room (ascii ''m.room.name'') None (name_content D) ''Invalid room name event in database.'') (\<lambda>name.
     bind (reads (joined_members room)) (\<lambda>joined.
     bind (state_content A room (ascii ''m.room.topic'') None (\<lambda>c. map_option Some (topic_content D c)) ''Invalid room topic event in database.'') (\<lambda>topic.
     bind (state_content A room (ascii ''m.room.history_visibility'') False
       (\<lambda>c. map_option (\<lambda>v. v = ascii ''world_readable'') (visibility_content D c)) ''Invalid room history visibility event in database.'') (\<lambda>readable.
     bind (state_content A room (ascii ''m.room.guest_access'') False
       (\<lambda>c. map_option (\<lambda>g. g = ascii ''can_join'') (guest_content D c)) ''Invalid room guest access event in database.'') (\<lambda>guests.
     bind (state_content A room (ascii ''m.room.avatar'') None (avatar_content D) ''Invalid room avatar event in database.'') (\<lambda>avatar.
     bind (state_content A room (ascii ''m.room.join_rules'') None
       (\<lambda>c. map_option public_join_rule (join_rule_content D c)) ''Invalid room join rule event in database.'') (\<lambda>rule.
     bind (of_res (ok_or (BadDatabase ''Missing room join rule event for room.'') rule)) (\<lambda>rule.
     bind (state_content A room (ascii ''m.room.create'') None (room_type_content D) ''Invalid room create event in database.'') (\<lambda>ty.
     ret \<lparr>chunk_alias = al, chunk_name = name, num_joined_members = joined, chunk_topic = topic, world_readable = readable,
          guest_can_join = guests, chunk_avatar = avatar, chunk_join_rule = rule, chunk_room_type = ty, chunk_room = room\<rparr>))))))))))"

text \<open>Rooms that cannot be read are left out.\<close>

fun room_chunks :: "api \<Rightarrow> room_contents \<Rightarrow> room_id res list \<Rightarrow> ('a federation_db_scheme, PublicRoomsChunk list) dop" where
  "room_chunks A D [] = ret []"
| "room_chunks A D (r # rs) =
     bind (catching (bind (of_res r) (room_chunk A D))) (\<lambda>chunk.
     bind (room_chunks A D rs) (\<lambda>chunks.
     ret (case chunk of Inl _ \<Rightarrow> chunks | Inr chunk \<Rightarrow> chunk # chunks)))"

section \<open>Searching\<close>

definition str_contains :: "'b list \<Rightarrow> 'b list \<Rightarrow> bool" where
  "str_contains query text \<longleftrightarrow> list_ex (prefix query) (suffixes text)"

definition matches_term :: "api \<Rightarrow> bytes option \<Rightarrow> PublicRoomsChunk \<Rightarrow> bool" where
  "matches_term A search_term chunk =
     (case search_term of
        None \<Rightarrow> True
      | Some q \<Rightarrow>
          let low = (\<lambda>b. lowercase (lbr A) (chars b));
              hit = (\<lambda>field. case field of None \<Rightarrow> False | Some text \<Rightarrow> str_contains (low q) (low text))
          in hit (chunk_name chunk) \<or> hit (chunk_topic chunk) \<or> hit (chunk_alias chunk))"

section \<open>Pages\<close>

record public_rooms_page =
  page_chunk :: "PublicRoomsChunk list"
  prev_batch :: "bytes option"
  next_batch :: "bytes option"
  total_room_count_estimate :: nat

definition first_room :: "u64 \<Rightarrow> bytes option \<Rightarrow> u64 res" where
  "first_room limit since =
     (case since of
        None \<Rightarrow> Inr 0
      | Some [] \<Rightarrow> Inl (BadRequest InvalidParam ''Invalid `since` token'')
      | Some (c # number) \<Rightarrow>
          if c \<noteq> 0x6e \<and> c \<noteq> 0x70 then Inl (BadRequest InvalidParam ''Invalid `since` token'')
          else
            map_res (\<lambda>n. if c = 0x70 then (if limit \<le> n then n - limit else 0) else n)
              (ok_or (BadRequest InvalidParam ''Invalid `since` token.'') (parse_u64 number)))"

definition cut_page :: "u64 \<Rightarrow> u64 \<Rightarrow> PublicRoomsChunk list \<Rightarrow> public_rooms_page" where
  "cut_page limit num_since all_rooms =
     (let chunk = take (unat limit) (drop (unat num_since) all_rooms)
      in \<lparr>page_chunk = chunk,
          prev_batch = (if num_since = 0 then None else Some (ascii ''p'' @ decimal num_since)),
          next_batch = (if length chunk < unat limit then None else Some (ascii ''n'' @ decimal (num_since + limit))),
          total_room_count_estimate = length all_rooms mod 2 ^ 32\<rparr>)"

definition local_public_rooms ::
    "api \<Rightarrow> room_contents \<Rightarrow> u64 option \<Rightarrow> bytes option \<Rightarrow> bytes option \<Rightarrow> ('a federation_db_scheme, public_rooms_page) dop" where
  "local_public_rooms A D limit since search_term =
     (let limit = (case limit of None \<Rightarrow> 10 | Some l \<Rightarrow> l) in
      bind (of_res (first_room limit since)) (\<lambda>num_since.
      bind (gets (public_rooms (rma A))) (\<lambda>rooms.
      bind (room_chunks A D rooms) (\<lambda>chunks.
      ret (cut_page limit num_since (sort_key (\<lambda>c. - int (num_joined_members c)) (filter (matches_term A search_term) chunks)))))))"

text \<open>\<open>remote_rooms\<close> is what another server answers.\<close>

definition get_public_rooms_filtered_helper ::
    "api \<Rightarrow> room_contents \<Rightarrow> (nat \<Rightarrow> servername \<Rightarrow> u64 option \<Rightarrow> bytes option \<Rightarrow> bytes option \<Rightarrow> public_rooms_page res) \<Rightarrow>
     servername option \<Rightarrow> u64 option \<Rightarrow> bytes option \<Rightarrow> bytes option \<Rightarrow> ('a federation_db_scheme, public_rooms_page) dop" where
  "get_public_rooms_filtered_helper A D remote_rooms server limit since search_term =
     bind (gets server_name) (\<lambda>name.
     case server of
       Some other \<Rightarrow>
         if other \<noteq> name then send_federation_request (\<lambda>k. remote_rooms k other limit since search_term)
         else local_public_rooms A D limit since search_term
     | None \<Rightarrow> local_public_rooms A D limit since search_term)"

definition get_public_rooms_route ::
    "api \<Rightarrow> room_contents \<Rightarrow> (nat \<Rightarrow> servername \<Rightarrow> u64 option \<Rightarrow> bytes option \<Rightarrow> bytes option \<Rightarrow> public_rooms_page res) \<Rightarrow>
     servername option \<Rightarrow> u64 option \<Rightarrow> bytes option \<Rightarrow> ('a federation_db_scheme, public_rooms_page) dop" where
  "get_public_rooms_route A D remote_rooms server limit since =
     get_public_rooms_filtered_helper A D remote_rooms server limit since None"

section \<open>Visibility\<close>

datatype Visibility = PublicRoom | PrivateRoom | OtherVisibility bytes

definition set_room_visibility_route :: "sender_info \<Rightarrow> room_id \<Rightarrow> Visibility \<Rightarrow> ('a federation_db_scheme, unit) dop" where
  "set_room_visibility_route info room visibility =
     bind (of_res (authenticated_user info)) (\<lambda>me.
     bind (reads (room_exists room)) (\<lambda>exists.
     if \<not> exists then fail (BadRequest NotFound ''Room not found'')
     else
       (case visibility of
          PublicRoom \<Rightarrow> set_public room
        | PrivateRoom \<Rightarrow> set_not_public room
        | OtherVisibility _ \<Rightarrow> fail (BadRequest InvalidParam ''Room visibility type is not supported.''))))"

definition get_room_visibility_route :: "room_id \<Rightarrow> 'a federation_db_scheme \<Rightarrow> Visibility res" where
  "get_room_visibility_route room s =
     bind_res (room_exists room s) (\<lambda>exists.
     if \<not> exists then Inl (BadRequest NotFound ''Room not found'')
     else map_res (\<lambda>public. if public then PublicRoom else PrivateRoom) (is_public_room room s))"

section \<open>Numbers\<close>

lemma parse_digits_append: "parse_digits n (xs @ ys) = Option.bind (parse_digits n xs) (\<lambda>m. parse_digits m ys)"
  by (induction n xs rule: parse_digits.induct) simp_all

lemma digit_bounds:
  assumes "n < 10"
  shows "48 \<le> (of_nat (48 + n) :: byte)" and "(of_nat (48 + n) :: byte) \<le> 57" and "unat ((of_nat (48 + n) :: byte) - 48) = n"
proof -
  have "n \<in> {0, 1, 2, 3, 4, 5, 6, 7, 8, 9}" using assms by auto
  then show "48 \<le> (of_nat (48 + n) :: byte)" "(of_nat (48 + n) :: byte) \<le> 57" "unat ((of_nat (48 + n) :: byte) - 48) = n" by auto
qed

lemma parse_decimal_nat: "n < 2 ^ 64 \<Longrightarrow> parse_digits 0 (decimal_nat n) = Some n"
proof (induction n rule: decimal_nat.induct)
  case (1 n)
  show ?case
  proof (cases "n < 10")
    case True
    then show ?thesis using digit_bounds [of n] by (simp add: decimal_nat.simps [of n] del: of_nat_add)
  next
    case False
    then have "parse_digits 0 (decimal_nat (n div 10)) = Some (n div 10)" using 1 by simp
    moreover have "n mod 10 < 10" by simp
    ultimately show ?thesis using False 1(2) digit_bounds [of "n mod 10"]
      by (simp add: decimal_nat.simps [of n] parse_digits_append del: of_nat_add)
  qed
qed

lemma decimal_nat_digits: "c \<in> set (decimal_nat n) \<Longrightarrow> 48 \<le> c"
  by (induction n rule: decimal_nat.induct)
     (subst (asm) decimal_nat.simps, auto split: if_splits simp del: of_nat_add simp: digit_bounds(1))

lemma parse_decimal [simp]: "parse_u64 (decimal n) = Some n"
proof -
  have ne: "decimal_nat (unat n) \<noteq> []" by (subst decimal_nat.simps) simp
  then obtain c cs where cs: "decimal_nat (unat n) = c # cs" by (cases "decimal_nat (unat n)") auto
  then have "48 \<le> c" by (intro decimal_nat_digits [of _ "unat n"]) simp
  then have "c \<noteq> 0x2b" by auto
  moreover have "unat n < 2 ^ 64" using unsigned_less [of n, where ?'a = nat] by simp
  ultimately show ?thesis using cs parse_decimal_nat [of "unat n"] by (simp add: parse_u64_def decimal_def Let_def)
qed

section \<open>Paging\<close>

lemma first_room_next: "first_room limit (Some (ascii ''n'' @ decimal n)) = Inr n"
  by (simp add: first_room_def ascii_simps ok_or_def)

lemma first_room_prev: "first_room limit (Some (ascii ''p'' @ decimal n)) = Inr (if limit \<le> n then n - limit else 0)"
  by (simp add: first_room_def ascii_simps ok_or_def)

text \<open>C18: A page of the public room directory shows the public rooms that can be read and match the search, most joined members first,
  from the place its token names. The token for the next page continues where this one ends, no token is given when the rooms are
  exhausted, and the token for the previous page goes back by the length of a page.\<close>

theorem public_rooms_paged:
  assumes "local_public_rooms A D (Some limit) since search_term s = (Inr page, s')"
  shows "\<exists>chunks rooms num_since. room_chunks A D (public_rooms (rma A) s) s = (Inr chunks, s') \<and> first_room limit since = Inr num_since \<and>
    mset rooms = mset (filter (matches_term A search_term) chunks) \<and>
    sorted_wrt (\<lambda>c d. num_joined_members d \<le> num_joined_members c) rooms \<and>
    page_chunk page = take (unat limit) (drop (unat num_since) rooms) \<and>
    (case next_batch page of
       Some token \<Rightarrow> first_room limit (Some token) = Inr (num_since + limit) \<and> (0 < limit \<longrightarrow> unat num_since + unat limit \<le> length rooms)
     | None \<Rightarrow> length rooms < unat num_since + unat limit) \<and>
    (case prev_batch page of
       Some token \<Rightarrow> first_room limit (Some token) = Inr (if limit \<le> num_since then num_since - limit else 0)
     | None \<Rightarrow> num_since = 0)"
proof -
  from assms obtain num_since chunks where since: "first_room limit since = Inr num_since"
    and chunks: "room_chunks A D (public_rooms (rma A) s) s = (Inr chunks, s')"
    and page: "page = cut_page limit num_since (sort_key (\<lambda>c. - int (num_joined_members c)) (filter (matches_term A search_term) chunks))"
    unfolding local_public_rooms_def by (auto simp: Let_def elim!: bind_InrE)
  let ?rooms = "sort_key (\<lambda>c. - int (num_joined_members c)) (filter (matches_term A search_term) chunks)"
  have "sorted_wrt (\<lambda>c d. - int (num_joined_members c) \<le> - int (num_joined_members d)) ?rooms"
    using sorted_sort_key [of "\<lambda>c. - int (num_joined_members c)" "filter (matches_term A search_term) chunks"] by (simp only: sorted_map)
  then have sorted: "sorted_wrt (\<lambda>c d. num_joined_members d \<le> num_joined_members c) ?rooms" by simp
  have "0 < unat limit" if "0 < limit" using that by (simp add: word_less_nat_alt)
  then have "case next_batch page of
       Some token \<Rightarrow> first_room limit (Some token) = Inr (num_since + limit) \<and> (0 < limit \<longrightarrow> unat num_since + unat limit \<le> length ?rooms)
     | None \<Rightarrow> length ?rooms < unat num_since + unat limit"
    by (auto simp: page cut_page_def Let_def first_room_next)
  moreover have "case prev_batch page of
       Some token \<Rightarrow> first_room limit (Some token) = Inr (if limit \<le> num_since then num_since - limit else 0) | None \<Rightarrow> num_since = 0"
    by (simp add: page cut_page_def Let_def first_room_prev)
  moreover have "page_chunk page = take (unat limit) (drop (unat num_since) ?rooms)" by (simp add: page cut_page_def Let_def)
  moreover have "mset ?rooms = mset (filter (matches_term A search_term) chunks)" by (rule mset_sort)
  ultimately show ?thesis using since chunks sorted by blast
qed

definition example_room_contents :: room_contents where
  "example_room_contents =
     \<lparr>canonical_alias_content = (\<lambda>_. Some None), name_content = (\<lambda>_. Some None), topic_content = (\<lambda>_. Some []),
      visibility_content = (\<lambda>_. Some (ascii ''shared'')), guest_content = (\<lambda>_. Some (ascii ''forbidden'')), avatar_content = (\<lambda>_. Some None),
      join_rule_content = (\<lambda>_. Some RulePublic), room_type_content = (\<lambda>_. Some None)\<rparr>"

theorem public_rooms_paged_witness:
  "\<exists>page. local_public_rooms example_api example_room_contents (Some 2) (Some (ascii ''p5'')) None (example_keyless\<lparr>publicroomids := kv_empty\<rparr>) =
      (Inr page, example_keyless\<lparr>publicroomids := kv_empty\<rparr>) \<and> page_chunk page = [] \<and> next_batch page = None"
proof -
  let ?s = "example_keyless\<lparr>publicroomids := kv_empty\<rparr>"
  have "parse_u64 (ascii ''5'') = Some 5" by (simp add: parse_u64_def ascii_simps)
  then have "first_room 2 (Some (ascii ''p5'')) = Inr 3" by (simp add: first_room_def ascii_simps ok_or_def)
  moreover have rooms: "public_rooms (rma example_api) ?s = []" by (simp add: public_rooms_def kv_iter_def kv_empty_def)
  ultimately obtain page where run: "local_public_rooms example_api example_room_contents (Some 2) (Some (ascii ''p5'')) None ?s = (Inr page, ?s)"
    by (simp add: local_public_rooms_def Let_def)
  from public_rooms_paged [OF run] rooms have "page_chunk page = []" "next_batch page = None" by (auto split: option.splits)
  with run show ?thesis by (intro exI [of _ page]) simp
qed

end
