(* ===== verification/FederationApi.thy ===== *)
theory FederationApi
  imports DirectoryApi
begin

text \<open>
  \<^verbatim>\<open>api/server_server.rs\<close>: the requests other servers make. Every handler first checks that federation is
  switched on; those that read a room check that the server takes part in it and is not denied by the room's ACL.

  \<open>fed_lib\<close> collects what ruma contributes: the ephemeral events of a transaction, the JSON of receipts and member
  contents, and the names of room versions. The fuel \<open>n\<close> of an auth chain or of the event handler is that of the
  services.
\<close>

section \<open>Parameters\<close>

datatype edu =
    EduPresence
  | EduReceipt "(room_id \<times> (user_id \<times> event_id list \<times> json) list) list"
  | EduTyping user_id room_id bool
  | EduDeviceListUpdate user_id
  | EduDirectToDevice user_id bytes bytes "(user_id \<times> (device_id option \<times> bytes) list) list"
  | EduSigningKeyUpdate user_id "json option" "json option"
  | EduCustom

record RoomMemberEventContent =
  membership :: MembershipState
  member_displayname :: "bytes option"
  member_avatar_url :: "bytes option"
  member_blurhash :: "bytes option"
  member_is_direct :: "bool option"
  member_reason :: "bytes option"
  third_party_invite :: "json option"
  join_authorized_via_users_server :: "user_id option"

record fed_lib =
  edu_parse :: "bytes \<Rightarrow> edu option"
  receipt_json :: "room_id \<Rightarrow> event_id \<Rightarrow> user_id \<Rightarrow> json \<Rightarrow> json"
  member_print :: "RoomMemberEventContent \<Rightarrow> json"
  version_str :: "RoomVersionId \<Rightarrow> bytes"

section \<open>Guards\<close>

definition federation_on :: "('a federation_db_scheme, unit) dop" where
  "federation_on =
     bind (gets (\<lambda>s. allow_federation (config s))) (\<lambda>allowed.
     if allowed then ret () else fail (BadConfig ''Federation is disabled.''))"

definition require_server_in_room :: "string \<Rightarrow> servername \<Rightarrow> room_id \<Rightarrow> ('a federation_db_scheme, unit) dop" where
  "require_server_in_room message server room =
     bind (reads (server_in_room server room)) (\<lambda>inside.
     if inside then ret () else fail (BadRequest Forbidden message))"

text \<open>The beginning of the handlers that read a room.\<close>

definition room_guard :: "api \<Rightarrow> string \<Rightarrow> sender_info \<Rightarrow> room_id \<Rightarrow> ('a federation_db_scheme, servername) dop" where
  "room_guard A message info room =
     andthen federation_on
     (bind (of_res (authenticated_server info)) (\<lambda>server.
      andthen (require_server_in_room message server room)
      (andthen (acl_check (env_of A) server room)
      (ret server))))"

definition event_room :: "ruma \<Rightarrow> jobj \<Rightarrow> room_id res" where
  "event_room R event =
     bind_res (ok_or (BadDatabase ''Invalid event in database'') (Option.bind (obj_get event (ascii ''room_id'')) as_string)) (\<lambda>str.
     map_err (BadDatabase ''Invalid room id field in event in database'') (parse_id (is_room_id R) str))"

section \<open>Transactions\<close>

type_synonym resolved_map = "event_id \<Rightarrow> unit res option"

definition pdu_room :: "ruma \<Rightarrow> jobj \<Rightarrow> room_id option" where
  "pdu_room R val = Option.bind (Option.bind (obj_get val (ascii ''room_id'')) as_string) (\<lambda>str. if is_room_id R str then Some str else None)"

definition accept_transaction_pdu ::
    "nat \<Rightarrow> api \<Rightarrow> nat \<Rightarrow> servername \<Rightarrow> room_id \<Rightarrow> event_id \<Rightarrow> jobj \<Rightarrow> resolved_map \<Rightarrow> ('a federation_db_scheme, resolved_map) dop" where
  "accept_transaction_pdu n A now server room e val resolved =
     bind (acl_check (env_of A) server room) (\<lambda>_.
     bind (catching (handle_incoming_pdu n (env_of A) now server e room val True)) (\<lambda>result.
     ret (resolved(e \<mapsto> map_res (\<lambda>_. ()) result))))"

definition handle_transaction_pdu ::
    "nat \<Rightarrow> api \<Rightarrow> nat \<Rightarrow> servername \<Rightarrow> bytes \<Rightarrow> resolved_map \<Rightarrow> ('a federation_db_scheme, resolved_map) dop" where
  "handle_transaction_pdu n A now server pdu resolved =
     bind (of_res (ok_or (BadServerResponse ''Invalid PDU in server response'')
       (Option.bind (parse_canonical (env_of A) pdu) as_object))) (\<lambda>val.
     case pdu_room (rma A) val of
       None \<Rightarrow> ret resolved
     | Some room \<Rightarrow>
         bind (catching (get_room_version (jsn A) (rma A) (cts A) (itr A) room)) (\<lambda>found.
         case found of
           Inl _ \<Rightarrow> ret resolved
         | Inr room_version_id \<Rightarrow>
             bind (catching (of_res (gen_event_id (env_of A) pdu room_version_id))) (\<lambda>converted.
             case converted of
               Inl _ \<Rightarrow> ret resolved
             | Inr (e, val) \<Rightarrow> accept_transaction_pdu n A now server room e val resolved)))"

fun handle_transaction_pdus ::
    "nat \<Rightarrow> api \<Rightarrow> nat \<Rightarrow> servername \<Rightarrow> bytes list \<Rightarrow> resolved_map \<Rightarrow> ('a federation_db_scheme, resolved_map) dop" where
  "handle_transaction_pdus n A now server [] resolved = ret resolved"
| "handle_transaction_pdus n A now server (pdu # pdus) resolved =
     bind (handle_transaction_pdu n A now server pdu resolved) (handle_transaction_pdus n A now server pdus)"

text \<open>\<^verbatim>\<open>max_by_key\<close> returns the last of several maxima.\<close>

definition latest_known :: "event_id list \<Rightarrow> 'a federation_db_scheme \<Rightarrow> (event_id \<times> u64) option" where
  "latest_known ids s =
     fold (\<lambda>x best. case best of None \<Rightarrow> Some x | Some b \<Rightarrow> if snd b \<le> snd x then Some x else Some b)
       (List.map_filter (\<lambda>e. case get_pdu_count e s of Inr (Some c) \<Rightarrow> Some (e, c) | _ \<Rightarrow> None) ids) None"

definition handle_receipt ::
    "api \<Rightarrow> fed_lib \<Rightarrow> room_id \<Rightarrow> user_id \<times> event_id list \<times> json \<Rightarrow> ('a federation_db_scheme, unit) dop" where
  "handle_receipt A L room = (\<lambda>(user, ids, data).
     bind (gets (latest_known ids)) (\<lambda>found.
     case found of
       None \<Rightarrow> ret ()
     | Some (e, _) \<Rightarrow> readreceipt_update (jsn A) user room (receipt_json L room e user data)))"

definition handle_typing :: "u64 \<Rightarrow> user_id \<Rightarrow> room_id \<Rightarrow> bool \<Rightarrow> ('a federation_db_scheme, unit) dop" where
  "handle_typing millis user room is_typing =
     bind (reads (is_joined user room)) (\<lambda>joined.
     if \<not> joined then ret ()
     else if is_typing then typing_add user room (3000 + millis) else typing_remove user room)"

definition deliver_to_device ::
    "api \<Rightarrow> user_id \<Rightarrow> bytes \<Rightarrow> user_id \<Rightarrow> bytes \<Rightarrow> device_id \<Rightarrow> ('a federation_db_scheme, unit) dop" where
  "deliver_to_device A from_user ev_type target event device =
     bind (of_res (ok_or (BadRequest InvalidParam ''Event is invalid'') (json_parse (jsn A) event))) (\<lambda>body.
     add_to_device_event (jsn A) from_user target device ev_type body)"

definition deliver_message ::
    "api \<Rightarrow> user_id \<Rightarrow> bytes \<Rightarrow> user_id \<Rightarrow> device_id option \<times> bytes \<Rightarrow> ('a federation_db_scheme, unit) dop" where
  "deliver_message A from_user ev_type target = (\<lambda>(device, event).
     case device of
       Some device \<Rightarrow> deliver_to_device A from_user ev_type target event device
     | None \<Rightarrow>
         bind (gets (all_device_ids target)) (\<lambda>devices.
         for_each devices (\<lambda>d. bind (of_res d) (deliver_to_device A from_user ev_type target event))))"

definition handle_direct_to_device ::
    "api \<Rightarrow> user_id \<Rightarrow> bytes \<Rightarrow> bytes \<Rightarrow> (user_id \<times> (device_id option \<times> bytes) list) list \<Rightarrow> ('a federation_db_scheme, unit) dop" where
  "handle_direct_to_device A from_user ev_type message_id messages =
     bind (reads (existing_txnid from_user None message_id)) (\<lambda>known.
     if known \<noteq> None then ret ()
     else
       andthen (for_each messages (\<lambda>(target, m). for_each m (deliver_message A from_user ev_type target)))
       (add_txnid from_user None message_id []))"

fun handle_edu :: "api \<Rightarrow> fed_lib \<Rightarrow> u64 \<Rightarrow> servername \<Rightarrow> edu \<Rightarrow> ('a federation_db_scheme, unit) dop" where
  "handle_edu A L millis server EduPresence = ret ()"
| "handle_edu A L millis server (EduReceipt receipts) =
     for_each receipts (\<lambda>(room, updates). for_each updates (handle_receipt A L room))"
| "handle_edu A L millis server (EduTyping user room is_typing) = handle_typing millis user room is_typing"
| "handle_edu A L millis server (EduDeviceListUpdate user) = mark_device_key_update (jsn A) (rma A) (itr A) user"
| "handle_edu A L millis server (EduDirectToDevice from_user ev_type message_id messages) =
     handle_direct_to_device A from_user ev_type message_id messages"
| "handle_edu A L millis server (EduSigningKeyUpdate user master_key self_signing_key) =
     (if user_server (rma A) user \<noteq> server then ret ()
      else
        (case master_key of
           None \<Rightarrow> ret ()
         | Some key \<Rightarrow> add_cross_signing_keys (jsn A) (rma A) (itr A) (cross_key_values A) user key self_signing_key None))"
| "handle_edu A L millis server EduCustom = ret ()"

definition send_transaction_message_route ::
    "nat \<Rightarrow> api \<Rightarrow> fed_lib \<Rightarrow> nat \<Rightarrow> u64 \<Rightarrow> sender_info \<Rightarrow> bytes list \<Rightarrow> bytes list \<Rightarrow> ('a federation_db_scheme, resolved_map) dop" where
  "send_transaction_message_route n A L now millis info pdus edus =
     andthen federation_on
     (bind (of_res (authenticated_server info)) (\<lambda>server.
      andthen (modify (\<lambda>s. s\<lparr>pub_key_map := Map.empty\<rparr>))
      (bind (handle_transaction_pdus n A now server pdus Map.empty) (\<lambda>resolved.
       andthen (for_each (List.map_filter (edu_parse L) edus) (handle_edu A L millis server))
       (ret resolved)))))"

section \<open>Reading events\<close>

definition get_event_route :: "api \<Rightarrow> sender_info \<Rightarrow> event_id \<Rightarrow> ('a federation_db_scheme, json) dop" where
  "get_event_route A info e =
     andthen federation_on
     (bind (of_res (authenticated_server info)) (\<lambda>server.
      bind (reads (get_pdu_json (jsn A) e)) (\<lambda>found.
      bind (of_res (ok_or (BadRequest NotFound ''Event not found.'') found)) (\<lambda>event.
      bind (of_res (event_room (rma A) event)) (\<lambda>room.
      andthen (require_server_in_room ''Server is not in room'' server room)
      (ret (convert_to_outgoing_federation_event event)))))))"

definition previous_events :: "ruma \<Rightarrow> jobj \<Rightarrow> event_id list res" where
  "previous_events R pdu =
     bind_res (ok_or (BadDatabase ''Event in db has no prev_events field.'') (obj_get pdu (ascii ''prev_events''))) (\<lambda>j.
     ok_or (BadDatabase ''Invalid prev_events content in pdu in db.'') (p_ids (is_event_id R) j))"

text \<open>The queue grows only when an event is taken into the answer, which happens at most \<open>limit\<close> times.\<close>

function (sequential) missing_events ::
    "serde \<Rightarrow> ruma \<Rightarrow> room_id \<Rightarrow> event_id list \<Rightarrow> nat \<Rightarrow> 'a federation_db_scheme \<Rightarrow> event_id list \<Rightarrow> json list \<Rightarrow> json list res" where
  "missing_events J R room earliest limit s [] events = Inr events"
| "missing_events J R room earliest limit s (e # queue) events =
     (if limit \<le> length events then Inr events
      else
        (case get_pdu_json J e s of
           Inl err \<Rightarrow> Inl err
         | Inr None \<Rightarrow> missing_events J R room earliest limit s queue events
         | Inr (Some pdu) \<Rightarrow>
             (case event_room R pdu of
                Inl err \<Rightarrow> Inl err
              | Inr r \<Rightarrow>
                  if r \<noteq> room then Inl (BadRequest InvalidParam ''Evil event detected'')
                  else if e \<in> set earliest then missing_events J R room earliest limit s queue events
                  else
                    (case previous_events R pdu of
                       Inl err \<Rightarrow> Inl err
                     | Inr prevs \<Rightarrow>
                         missing_events J R room earliest limit s (queue @ prevs)
                           (events @ [convert_to_outgoing_federation_event pdu])))))"
  by pat_completeness auto

termination
  by (relation "measures [\<lambda>(J, R, room, earliest, limit, s, queue, events). limit - length events,
       \<lambda>(J, R, room, earliest, limit, s, queue, events). length queue]") auto

definition get_missing_events_route ::
    "api \<Rightarrow> sender_info \<Rightarrow> room_id \<Rightarrow> event_id list \<Rightarrow> event_id list \<Rightarrow> nat \<Rightarrow> ('a federation_db_scheme, json list) dop" where
  "get_missing_events_route A info room earliest latest limit =
     bind (room_guard A ''Server is not in room'' info room) (\<lambda>_.
     reads (\<lambda>s. missing_events (jsn A) (rma A) room earliest limit s latest []))"

text \<open>Events of a list that are stored, as they are sent to other servers.\<close>

definition outgoing_events :: "serde \<Rightarrow> event_id list \<Rightarrow> 'a federation_db_scheme \<Rightarrow> json list" where
  "outgoing_events J ids s =
     List.map_filter (\<lambda>e. case get_pdu_json J e s of Inr (Some pdu) \<Rightarrow> Some (convert_to_outgoing_federation_event pdu) | _ \<Rightarrow> None) ids"

definition auth_chain_of :: "nat \<Rightarrow> api \<Rightarrow> room_id \<Rightarrow> event_id list \<Rightarrow> ('a federation_db_scheme, event_id list) dop" where
  "auth_chain_of n A room es = get_auth_chain n (jsn A) (rma A) (short_iter_of (env_of A)) room es"

definition get_event_authorization_route :: "nat \<Rightarrow> api \<Rightarrow> sender_info \<Rightarrow> room_id \<Rightarrow> event_id \<Rightarrow> ('a federation_db_scheme, json list) dop" where
  "get_event_authorization_route n A info room e =
     bind (room_guard A ''Server is not in room.'' info room) (\<lambda>_.
     bind (reads (get_pdu_json (jsn A) e)) (\<lambda>found.
     bind (of_res (ok_or (BadRequest NotFound ''Event not found.'') found)) (\<lambda>event.
     bind (of_res (event_room (rma A) event)) (\<lambda>own_room.
     bind (auth_chain_of n A own_room [e]) (\<lambda>ids.
     gets (outgoing_events (jsn A) ids))))))"

section \<open>Reading state\<close>

text \<open>The ids of the state at an event.\<close>

definition state_ids_at :: "api \<Rightarrow> event_id \<Rightarrow> ('a federation_db_scheme, event_id list) dop" where
  "state_ids_at A e =
     bind (reads (pdu_shortstatehash e)) (\<lambda>found.
     bind (of_res (ok_or (BadRequest NotFound ''Pdu state not found.'') found)) (\<lambda>shortstatehash.
     bind (state_full_ids (rma A) (itr A) shortstatehash) (\<lambda>ids.
     ret (map snd (state_entries (fdr A) ids)))))"

definition stored_event :: "serde \<Rightarrow> 'a federation_db_scheme \<Rightarrow> event_id \<Rightarrow> json res" where
  "stored_event J s e =
     (case get_pdu_json J e s of
        Inr (Some pdu) \<Rightarrow> Inr (convert_to_outgoing_federation_event pdu)
      | Inr None \<Rightarrow> Inl (Panic ''called Option::unwrap() on a None value'')
      | Inl _ \<Rightarrow> Inl (Panic ''called Result::unwrap() on an Err value''))"

definition get_room_state_route ::
    "nat \<Rightarrow> api \<Rightarrow> sender_info \<Rightarrow> room_id \<Rightarrow> event_id \<Rightarrow> ('a federation_db_scheme, json list \<times> json list) dop" where
  "get_room_state_route n A info room e =
     bind (room_guard A ''Server is not in room.'' info room) (\<lambda>_.
     bind (state_ids_at A e) (\<lambda>state_ids.
     bind (reads (\<lambda>s. collect_res (map (stored_event (jsn A) s) state_ids))) (\<lambda>pdus.
     bind (auth_chain_of n A room [e]) (\<lambda>ids.
     bind (gets (outgoing_events (jsn A) ids)) (\<lambda>auth_chain.
     ret (auth_chain, pdus))))))"

definition get_room_state_ids_route ::
    "nat \<Rightarrow> api \<Rightarrow> sender_info \<Rightarrow> room_id \<Rightarrow> event_id \<Rightarrow> ('a federation_db_scheme, event_id list \<times> event_id list) dop" where
  "get_room_state_ids_route n A info room e =
     bind (room_guard A ''Server is not in room.'' info room) (\<lambda>_.
     bind (state_ids_at A e) (\<lambda>pdu_ids.
     bind (auth_chain_of n A room [e]) (\<lambda>ids.
     ret (ids, pdu_ids))))"

section \<open>Joining\<close>

definition refuse_restricted :: "api \<Rightarrow> room_contents \<Rightarrow> room_id \<Rightarrow> ('a federation_db_scheme, unit) dop" where
  "refuse_restricted A D room =
     bind (state_content A room (ascii ''m.room.join_rules'') None (\<lambda>c. map_option Some (join_rule_content D c)) ''Invalid join rules event in db.'') (\<lambda>rule.
     if rule = Some RuleRestricted \<or> rule = Some RuleKnockRestricted
     then fail (BadRequest (OtherKind ''UnableToAuthorizeJoin'') ''Conduit does not support restricted rooms yet.'')
     else ret ())"

definition known_room :: "room_id \<Rightarrow> ('a federation_db_scheme, unit) dop" where
  "known_room room =
     bind (reads (room_exists room)) (\<lambda>exists.
     if exists then ret () else fail (BadRequest NotFound ''Room is unknown to this server.''))"

definition member_content :: "MembershipState \<Rightarrow> RoomMemberEventContent" where
  "member_content state =
     \<lparr>membership = state, member_displayname = None, member_avatar_url = None, member_blurhash = None, member_is_direct = None,
      member_reason = None, third_party_invite = None, join_authorized_via_users_server = None\<rparr>"

definition create_join_event_template_route ::
    "api \<Rightarrow> room_contents \<Rightarrow> fed_lib \<Rightarrow> nat \<Rightarrow> sender_info \<Rightarrow> room_id \<Rightarrow> user_id \<Rightarrow> bytes list \<Rightarrow> ('a federation_db_scheme, bytes \<times> json) dop" where
  "create_join_event_template_route A D L millis info room user ver =
     andthen federation_on
     (andthen (known_room room)
     (bind (of_res (authenticated_server info)) (\<lambda>server.
      andthen (acl_check (env_of A) server room)
      (andthen (refuse_restricted A D room)
      (bind (get_room_version (jsn A) (rma A) (cts A) (itr A) room) (\<lambda>room_version_id.
       if room_version_id \<notin> set ver
       then fail (BadRequest (OtherKind ''IncompatibleRoomVersion'') ''Room version not supported.'')
       else
         bind (create_hash_and_sign_event (jsn A) (rma A) (cts A) (lbr A) (itr A) millis
           \<lparr>event_type = ascii ''m.room.member'', builder_content = member_print L (member_content Join), builder_unsigned = None,
            builder_state_key = Some user, builder_redacts = None\<rparr> user room) (\<lambda>(_, pdu_json).
         ret (room_version_id, JObj (obj_remove (ascii ''event_id'') pdu_json)))))))))"

record remote_room_state =
  room_auth_chain :: "json list"
  room_state_events :: "json list"

definition event_origin :: "ruma \<Rightarrow> jobj \<Rightarrow> servername res" where
  "event_origin R val =
     bind_res (ok_or (BadRequest InvalidParam ''Event needs an origin field.'') (obj_get val (ascii ''origin''))) (\<lambda>j.
     ok_or (BadRequest InvalidParam ''Origin field is invalid.'') (p_id (is_server_name R) j))"

definition create_join_event ::
    "nat \<Rightarrow> api \<Rightarrow> room_contents \<Rightarrow> nat \<Rightarrow> servername \<Rightarrow> room_id \<Rightarrow> bytes \<Rightarrow> ('a federation_db_scheme, remote_room_state) dop" where
  "create_join_event n A D now server room pdu =
     andthen federation_on
     (andthen (known_room room)
     (andthen (acl_check (env_of A) server room)
     (andthen (refuse_restricted A D room)
     (bind (reads (get_room_shortstatehash room)) (\<lambda>found.
      bind (of_res (ok_or (BadRequest NotFound ''Pdu state not found.'') found)) (\<lambda>shortstatehash.
      andthen (modify (\<lambda>s. s\<lparr>pub_key_map := Map.empty\<rparr>))
      (bind (get_room_version (jsn A) (rma A) (cts A) (itr A) room) (\<lambda>room_version_id.
      bind (catching (of_res (gen_event_id (env_of A) pdu room_version_id))) (\<lambda>converted.
      bind (of_res (map_err (BadRequest InvalidParam ''Could not convert event to canonical json.'') converted)) (\<lambda>(e, val).
      bind (of_res (event_origin (rma A) val)) (\<lambda>origin.
      bind (handle_incoming_pdu n (env_of A) now origin e room val True) (\<lambda>handled.
      bind (of_res (ok_or (BadRequest InvalidParam ''Could not accept incoming PDU as timeline event.'') handled)) (\<lambda>pdu_id.
      bind (state_full_ids (rma A) (itr A) shortstatehash) (\<lambda>ids.
      let state_ids = map snd (state_entries (fdr A) ids) in
      bind (auth_chain_of n A room state_ids) (\<lambda>auth_chain_ids.
      bind (gets (\<lambda>s. filter (\<lambda>server. server \<noteq> server_name s) (List.map_filter res_ok (room_servers (rma A) room s)))) (\<lambda>servers.
      andthen (send_pdu servers pdu_id)
      (gets (\<lambda>s. \<lparr>room_auth_chain = outgoing_events (jsn A) auth_chain_ids s,
                  room_state_events = outgoing_events (jsn A) state_ids s\<rparr>))))))))))))))))))"

definition create_join_event_route ::
    "nat \<Rightarrow> api \<Rightarrow> room_contents \<Rightarrow> nat \<Rightarrow> sender_info \<Rightarrow> room_id \<Rightarrow> bytes \<Rightarrow> ('a federation_db_scheme, remote_room_state) dop" where
  "create_join_event_route n A D now info room pdu =
     bind (of_res (authenticated_server info)) (\<lambda>server. create_join_event n A D now server room pdu)"

section \<open>Invites\<close>

definition invite_field :: "ruma \<Rightarrow> jobj \<Rightarrow> string \<Rightarrow> string \<Rightarrow> string \<Rightarrow> user_id res" where
  "invite_field R event name missing invalid =
     bind_res (ok_or (BadRequest InvalidParam missing) (obj_get event (ascii name))) (\<lambda>j.
     ok_or (BadRequest InvalidParam invalid) (p_id (is_user_id R) j))"

text \<open>The event, hashed and signed with this server's key and given its id.\<close>

definition sign_invite :: "api \<Rightarrow> bytes \<Rightarrow> bytes \<Rightarrow> servername \<Rightarrow> jobj res" where
  "sign_invite A raw version name =
     bind_res (ok_or (BadRequest InvalidParam ''Invite event is invalid.'')
       (Option.bind (json_parse (jsn A) raw) (to_canonical_object (lbr A)))) (\<lambda>event.
     bind_res (case hash_and_sign_event (lbr A) name event version of
       Inl _ \<Rightarrow> Inl (BadRequest InvalidParam ''Failed to sign event.'') | Inr ob \<Rightarrow> Inr ob) (\<lambda>signed_event.
     bind_res (ok_or (Panic ''ruma can calculate reference hashes'') (reference_hash (lbr A) signed_event version)) (\<lambda>hash.
     let e = ascii ''$'' @ hash in
     if is_event_id (rma A) e then Inr (obj_insert (ascii ''event_id'') (JStr e) signed_event)
     else Inl (Panic ''ruma's reference hashes are valid event ids''))))"

definition stripped_invite :: "api \<Rightarrow> bytes \<Rightarrow> json res" where
  "stripped_invite A raw =
     bind_res (ok_or (BadRequest InvalidParam ''Invalid invite event bytes.'') (Option.bind (json_parse (jsn A) raw) as_object)) (\<lambda>event.
     map_res to_stripped_state_event
       (ok_or (BadRequest InvalidParam ''Invalid invite event.'')
         (pdu_of_json (rma A) (JObj (obj_insert (ascii ''event_id'') (JStr (ascii ''$dummy'')) event)))))"

definition create_invite_route ::
    "api \<Rightarrow> fed_lib \<Rightarrow> sender_info \<Rightarrow> room_id \<Rightarrow> RoomVersionId \<Rightarrow> bytes \<Rightarrow> json list \<Rightarrow> ('a federation_db_scheme, json) dop" where
  "create_invite_route A L info room version raw invite_room_state =
     andthen federation_on
     (bind (of_res (authenticated_server info)) (\<lambda>server.
      andthen (acl_check (env_of A) server room)
      (bind (gets (\<lambda>s. supported_room_versions (config s))) (\<lambda>supported.
       if version \<notin> set supported
       then fail (BadRequest (OtherKind ''IncompatibleRoomVersion'') ''Server does not support this room version.'')
       else
         bind (gets server_name) (\<lambda>name.
         bind (of_res (sign_invite A raw (version_str L version) name)) (\<lambda>signed_event.
         bind (of_res (invite_field (rma A) signed_event ''sender'' ''Event had no sender field.'' ''sender is not a user id.'')) (\<lambda>inviter.
         bind (of_res (invite_field (rma A) signed_event ''state_key'' ''Event had no state_key field.'' ''state_key is not a user id.'')) (\<lambda>invited_user.
         bind (of_res (stripped_invite A raw)) (\<lambda>stripped.
         bind (reads (server_in_room name room)) (\<lambda>inside.
         andthen (if inside then ret ()
                  else update_membership (jsn A) (rma A) (cts A) (itr A) room invited_user Invite inviter (Some (invite_room_state @ [stripped])) True)
         (ret (convert_to_outgoing_federation_event signed_event))))))))))))"

section \<open>Devices, aliases and profiles\<close>

record devices_response =
  stream_id :: nat
  user_devices :: "(device_id \<times> json \<times> bytes option) list"
  devices_master_key :: "json option"
  devices_self_signing_key :: "json option"

definition get_devices_route :: "api \<Rightarrow> sender_info \<Rightarrow> user_id \<Rightarrow> ('a federation_db_scheme, devices_response) dop" where
  "get_devices_route A info user =
     andthen federation_on
     (bind (of_res (authenticated_server info)) (\<lambda>server.
      let allowed = (\<lambda>u. user_server (rma A) u = server) in
      bind (reads (get_devicelist_version user)) (\<lambda>version.
      let version = (case version of None \<Rightarrow> 0 | Some v \<Rightarrow> unat v) in
      if MAX_UINT < version then fail (Panic ''version will not grow that large'')
      else
        bind (gets (\<lambda>s. List.map_filter (\<lambda>metadata. case get_device_keys (jsn A) user (device_name metadata) s of
                Inr (Some keys) \<Rightarrow> Some (device_name metadata, keys, display_name metadata) | _ \<Rightarrow> None)
              (List.map_filter res_ok (all_devices_metadata (device_parse A) user s)))) (\<lambda>devices.
        bind (reads (get_master_key (jsn A) (rma A) allowed user)) (\<lambda>master.
        bind (reads (get_self_signing_key (jsn A) (rma A) allowed user)) (\<lambda>self_signing.
        ret \<lparr>stream_id = version, user_devices = devices, devices_master_key = master, devices_self_signing_key = self_signing\<rparr>))))))"

definition get_room_information_route ::
    "api \<Rightarrow> bytes \<Rightarrow> ('a federation_db_scheme, room_id \<times> servername list) dop" where
  "get_room_information_route A room_alias =
     andthen federation_on
     (bind (reads (resolve_local_alias (rma A) (alias_localpart (lbr A)) room_alias)) (\<lambda>found.
      bind (of_res (ok_or (BadRequest NotFound ''Room alias not found.'') found)) (\<lambda>room.
      bind (gets server_name) (\<lambda>name. ret (room, [name])))))"

datatype ProfileField = FieldDisplayName | FieldAvatarUrl | OtherField bytes

record profile_response =
  profile_blurhash :: "bytes option"
  profile_displayname :: "bytes option"
  profile_avatar_url :: "bytes option"

definition get_profile_information_route ::
    "user_id \<Rightarrow> ProfileField option \<Rightarrow> ('a federation_db_scheme, profile_response) dop" where
  "get_profile_information_route user field =
     (let names = (field = None \<or> field = Some FieldDisplayName); pictures = (field = None \<or> field = Some FieldAvatarUrl) in
      andthen federation_on
      (bind (if names then reads (displayname user) else ret None) (\<lambda>name.
       bind (if pictures then reads (avatar_url user) else ret None) (\<lambda>avatar.
       bind (if pictures then reads (blurhash user) else ret None) (\<lambda>hash.
       ret \<lparr>profile_blurhash = hash, profile_displayname = name, profile_avatar_url = avatar\<rparr>)))))"

section \<open>Keys and the directory\<close>

definition federation_get_keys_route ::
    "api \<Rightarrow> keys_remote \<Rightarrow> sender_info \<Rightarrow> key_query \<Rightarrow> ('a federation_db_scheme, keys_response) dop" where
  "federation_get_keys_route A K info input =
     andthen federation_on
     (get_keys_helper A K None input (\<lambda>u. Some (user_server (rma A) u) = sender_servername info))"

definition federation_claim_keys_route :: "api \<Rightarrow> keys_remote \<Rightarrow> key_claim \<Rightarrow> ('a federation_db_scheme, claimed_keys) dop" where
  "federation_claim_keys_route A K input =
     andthen federation_on (bind (claim_keys_helper A K input) (\<lambda>(claimed, _). ret claimed))"

definition federation_public_rooms_filtered_route ::
    "api \<Rightarrow> room_contents \<Rightarrow> (nat \<Rightarrow> servername \<Rightarrow> u64 option \<Rightarrow> bytes option \<Rightarrow> bytes option \<Rightarrow> public_rooms_page res) \<Rightarrow>
     u64 option \<Rightarrow> bytes option \<Rightarrow> bytes option \<Rightarrow> ('a federation_db_scheme, public_rooms_page) dop" where
  "federation_public_rooms_filtered_route A D remote_rooms limit since search_term =
     andthen federation_on (get_public_rooms_filtered_helper A D remote_rooms None limit since search_term)"

definition federation_public_rooms_route ::
    "api \<Rightarrow> room_contents \<Rightarrow> (nat \<Rightarrow> servername \<Rightarrow> u64 option \<Rightarrow> bytes option \<Rightarrow> bytes option \<Rightarrow> public_rooms_page res) \<Rightarrow>
     u64 option \<Rightarrow> bytes option \<Rightarrow> ('a federation_db_scheme, public_rooms_page) dop" where
  "federation_public_rooms_route A D remote_rooms limit since =
     andthen federation_on (get_public_rooms_filtered_helper A D remote_rooms None limit since None)"

section \<open>Missing events\<close>

text \<open>The events a request can reach: backwards from the latest ones, not beyond the earliest ones.\<close>

inductive prev_reach ::
    "serde \<Rightarrow> ruma \<Rightarrow> 'a federation_db_scheme \<Rightarrow> event_id list \<Rightarrow> event_id list \<Rightarrow> event_id \<Rightarrow> bool"
  for J R s earliest latest where
  latest: "e \<in> set latest \<Longrightarrow> prev_reach J R s earliest latest e"
| previous: "prev_reach J R s earliest latest e \<Longrightarrow> e \<notin> set earliest \<Longrightarrow> get_pdu_json J e s = Inr (Some pdu) \<Longrightarrow>
    previous_events R pdu = Inr prevs \<Longrightarrow> p \<in> set prevs \<Longrightarrow> prev_reach J R s earliest latest p"

lemma prev_reach_mono:
  "prev_reach J R s earliest latest e \<Longrightarrow> set latest \<subseteq> Collect (prev_reach J R s earliest latest') \<Longrightarrow> prev_reach J R s earliest latest' e"
  by (induction rule: prev_reach.induct) (auto intro: prev_reach.intros)

lemma prev_reach_skip:
  assumes "prev_reach J R s earliest (e # queue) x" and "get_pdu_json J e s = Inr None \<or> e \<in> set earliest"
  shows "x = e \<or> prev_reach J R s earliest queue x"
  using assms by (induction rule: prev_reach.induct) (auto intro: prev_reach.intros)

lemma prev_reach_take:
  assumes "prev_reach J R s earliest (e # queue) x" and "get_pdu_json J e s = Inr (Some pdu)" and "previous_events R pdu = Inr prevs"
  shows "x = e \<or> prev_reach J R s earliest (queue @ prevs) x"
  using assms by (induction rule: prev_reach.induct) (auto intro: prev_reach.intros)

text \<open>An event as it may be sent: stored in the room and not among the earliest ones.\<close>

definition sendable :: "serde \<Rightarrow> ruma \<Rightarrow> room_id \<Rightarrow> event_id list \<Rightarrow> 'a federation_db_scheme \<Rightarrow> (event_id \<Rightarrow> bool) \<Rightarrow> json \<Rightarrow> bool" where
  "sendable J R room earliest s reached ev \<longleftrightarrow> (\<exists>e pdu. reached e \<and> e \<notin> set earliest \<and> get_pdu_json J e s = Inr (Some pdu) \<and>
     event_room R pdu = Inr room \<and> ev = convert_to_outgoing_federation_event pdu)"

lemma missing_events_ConsE:
  assumes "missing_events J R room earliest limit s (e # queue) events = Inr evs" and "\<not> limit \<le> length events"
  obtains (unknown) "get_pdu_json J e s = Inr None" "missing_events J R room earliest limit s queue events = Inr evs"
  | (stop) pdu where "get_pdu_json J e s = Inr (Some pdu)" "event_room R pdu = Inr room" "e \<in> set earliest"
    "missing_events J R room earliest limit s queue events = Inr evs"
  | (more) pdu prevs where "get_pdu_json J e s = Inr (Some pdu)" "event_room R pdu = Inr room" "e \<notin> set earliest"
    "previous_events R pdu = Inr prevs"
    "missing_events J R room earliest limit s (queue @ prevs) (events @ [convert_to_outgoing_federation_event pdu]) = Inr evs"
proof (cases "get_pdu_json J e s")
  case (Inr found)
  show thesis
  proof (cases found)
    case None
    with assms Inr show thesis by (intro unknown) simp_all
  next
    case (Some pdu)
    with assms Inr have room: "event_room R pdu = Inr room" by (auto split: sum.splits if_splits)
    show thesis
    proof (cases "e \<in> set earliest")
      case True
      with assms Inr Some room show thesis by (intro stop) simp_all
    next
      case False
      then obtain prevs where "previous_events R pdu = Inr prevs" using assms Inr Some room by (auto split: sum.splits)
      with False assms Inr Some room show thesis by (intro more) simp_all
    qed
  qed
qed (use assms in simp)

lemma missing_events_sound:
  assumes "missing_events J R room earliest limit s queue events = Inr evs"
    and "\<forall>e \<in> set queue. prev_reach J R s earliest latest e" and "length events \<le> limit"
    and "\<forall>ev \<in> set events. sendable J R room earliest s (prev_reach J R s earliest latest) ev"
  shows "length evs \<le> limit \<and> (\<forall>ev \<in> set evs. sendable J R room earliest s (prev_reach J R s earliest latest) ev)"
  using assms
proof (induction J R room earliest limit s queue events rule: missing_events.induct)
  case (2 J R room earliest limit s e queue events)
  note reached = prev_reach.previous [of J R s earliest latest e]
  show ?case
  proof (cases "limit \<le> length events")
    case False
    from 2(4) False show ?thesis
    proof (cases rule: missing_events_ConsE)
      case unknown
      from 2(1) [OF False unknown(1) refl unknown(2)] 2(5,6,7) show ?thesis by simp
    next
      case (stop pdu)
      from 2(2) [OF False stop(1) refl stop(2) _ stop(3,4)] 2(5,6,7) show ?thesis by simp
    next
      case (more pdu prevs)
      have e: "prev_reach J R s earliest latest e" using 2(5) by simp
      show ?thesis
      proof (rule 2(3) [OF False more(1) refl more(2) _ more(3,4,5)])
        show "\<forall>e \<in> set (queue @ prevs). prev_reach J R s earliest latest e"
          using 2(5) reached [OF e more(3,1,4)] by auto
        show "\<forall>ev \<in> set (events @ [convert_to_outgoing_federation_event pdu]). sendable J R room earliest s (prev_reach J R s earliest latest) ev"
          using 2(7) e more by (auto simp: sendable_def)
      qed (use False in simp_all)
    qed
  qed (use 2(4,6,7) in simp)
qed simp

lemma missing_events_complete:
  assumes "missing_events J R room earliest limit s queue events = Inr evs" and "length evs < limit"
  shows "set events \<subseteq> set evs \<and> (\<forall>e pdu. prev_reach J R s earliest queue e \<and> e \<notin> set earliest \<and> get_pdu_json J e s = Inr (Some pdu) \<longrightarrow>
    convert_to_outgoing_federation_event pdu \<in> set evs)"
  using assms
proof (induction J R room earliest limit s queue events rule: missing_events.induct)
  case (1 J R room earliest limit s events)
  have "\<not> prev_reach J R s earliest [] e" for e
    by (rule notI, induct rule: prev_reach.induct) simp_all
  with 1 show ?case by simp
next
  case (2 J R room earliest limit s e queue events)
  from 2(4,5) have going: "\<not> limit \<le> length events" by auto
  from 2(4) going show ?case
  proof (cases rule: missing_events_ConsE)
    case unknown
    with 2(1) [OF going unknown(1) refl] 2(5) show ?thesis by (auto dest!: prev_reach_skip)
  next
    case (stop pdu)
    with 2(2) [OF going stop(1) refl stop(2)] 2(5) show ?thesis by (auto dest!: prev_reach_skip)
  next
    case (more pdu prevs)
    from 2(3) [OF going more(1) refl more(2) _ more(3,4,5) 2(5)] have events: "set events \<subseteq> set evs" "convert_to_outgoing_federation_event pdu \<in> set evs"
      and rest: "\<And>x q. prev_reach J R s earliest (queue @ prevs) x \<Longrightarrow> x \<notin> set earliest \<Longrightarrow> get_pdu_json J x s = Inr (Some q) \<Longrightarrow>
        convert_to_outgoing_federation_event q \<in> set evs" by simp_all
    show ?thesis
    proof (intro conjI allI impI, rule events(1))
      fix x q
      assume x: "prev_reach J R s earliest (e # queue) x \<and> x \<notin> set earliest \<and> get_pdu_json J x s = Inr (Some q)"
      with prev_reach_take [OF _ more(1,4), of earliest queue x] show "convert_to_outgoing_federation_event q \<in> set evs"
        using events(2) rest [of x q] more(1) by auto
    qed
  qed
qed

lemma federation_on_Inr: "federation_on s = (Inr x, s') \<Longrightarrow> allow_federation (config s) \<and> s' = s"
  by (auto simp: federation_on_def split: if_splits)

lemma room_guard_passed:
  assumes "room_guard A message info room s = (Inr server, s')"
  shows "allow_federation (config s) \<and> sender_servername info = Some server \<and> server_in_room server room s = Inr True \<and>
    acl_check (env_of A) server room s = (Inr (), s')"
  using assms unfolding room_guard_def require_server_in_room_def authenticated_server_def
  by (elim andthen_InrE bind_InrE) (auto simp: ok_or_def split: option.splits if_splits elim!: andthen_InrE bind_InrE dest!: federation_on_Inr)

text \<open>C15: A server that asks for missing events gets them only for a room it takes part in and whose ACL does not deny it. It gets at most as
  many as it asked for, each of them stored in that room and reached backwards from the latest events without going beyond the
  earliest ones; if it gets fewer, it gets every such event. The search always ends.\<close>

theorem missing_events_answer:
  assumes "get_missing_events_route A info room earliest latest limit s = (Inr evs, s')"
  shows "\<exists>server. sender_servername info = Some server \<and> allow_federation (config s) \<and> server_in_room server room s = Inr True \<and>
      acl_check (env_of A) server room s = (Inr (), s') \<and> length evs \<le> limit \<and>
      (\<forall>ev \<in> set evs. sendable (jsn A) (rma A) room earliest s' (prev_reach (jsn A) (rma A) s' earliest latest) ev) \<and>
      (length evs < limit \<longrightarrow> (\<forall>e pdu. prev_reach (jsn A) (rma A) s' earliest latest e \<and> e \<notin> set earliest \<and>
        get_pdu_json (jsn A) e s' = Inr (Some pdu) \<longrightarrow> convert_to_outgoing_federation_event pdu \<in> set evs))"
proof -
  from assms obtain server where guard: "room_guard A ''Server is not in room'' info room s = (Inr server, s')"
    and evs: "missing_events (jsn A) (rma A) room earliest limit s' latest [] = Inr evs"
    unfolding get_missing_events_route_def by (auto elim!: bind_InrE)
  show ?thesis
    using room_guard_passed [OF guard] missing_events_complete [OF evs]
      missing_events_sound [OF evs, of latest] prev_reach.latest [of _ latest "jsn A" "rma A" s' earliest]
    by (intro exI [of _ server]) simp
qed

section \<open>Effect of a transaction on the timeline\<close>

text \<open>The states a transaction passes through: those its operations lead to. An event is handled only
  after the ACL of its room let the sending server in.\<close>

inductive transaction_run :: "api \<Rightarrow> fed_lib \<Rightarrow> servername \<Rightarrow> 'a federation_db_scheme \<Rightarrow> 'a federation_db_scheme \<Rightarrow> bool"
  for A L server where
  none: "transaction_run A L server s s"
| next_run: "transaction_run A L server s t \<Longrightarrow> transaction_run A L server t u \<Longrightarrow> transaction_run A L server s u"
| start: "transaction_run A L server s (s\<lparr>pub_key_map := Map.empty\<rparr>)"
| version: "transaction_run A L server s (snd (get_room_version (jsn A) (rma A) (cts A) (itr A) room s))"
| acl: "transaction_run A L server s (snd (acl_check (env_of A) server room s))"
| edu: "transaction_run A L server s (snd (handle_edu A L millis server edu s))"
| accept: "acl_check (env_of A) server room s = (Inr (), t) \<Longrightarrow>
    transaction_run A L server s (snd (handle_incoming_pdu n (env_of A) now server e room val True t))"

interpretation transaction: evolution "transaction_run A L server" "\<lambda>s. s" for A L server
  by unfold_locales (simp add: transaction_run.none, rule transaction_run.next_run)

lemma handle_incoming_no_create:
  assumes "\<And>create_event. fst (room_state_get (serde_of W) (ruma_of W) (iter_of W) room (ascii ''m.room.create'') [] s) \<noteq> Inr (Some create_event)"
  shows "eventid_pduid (snd (handle_incoming_pdu n W now origin e room val is_timeline s)) = eventid_pduid s"
proof -
  obtain r t where t: "room_state_get (serde_of W) (ruma_of W) (iter_of W) room (ascii ''m.room.create'') [] s = (r, t)" by (rule prod.exhaust)
  have kept: "eventid_pduid t = eventid_pduid s" by (rule keeps_result [OF index.keeps_room_state_get t])
  have r: "r = Inr None \<or> (\<exists>err. r = Inl err)" using assms t by (cases r) (auto split: option.splits)
  show ?thesis
  proof (cases "room_exists room s = Inr True \<and> is_disabled room s = Inr False \<and> get_pdu_id e s = Inr None")
    case True
    with t r kept show ?thesis
      by (auto simp: handle_incoming_pdu_def forbid_disabled_def bind_reads bind_of_res andthen_def [of "bind (reads f) k" for f k]
            bind_apply [of "bind (reads f) k" for f k] ok_or_def)
  next
    case False
    then show ?thesis
      by (auto simp: handle_incoming_pdu_def forbid_disabled_def bind_reads andthen_def [of "bind (reads f) k" for f k]
            bind_apply [of "bind (reads f) k" for f k] is_disabled_def get_pdu_id_def split: sum.split option.split)
  qed
qed

lemma index_acl_check: "keeps eventid_pduid (acl_check W server room)"
  unfolding acl_check_def by (intro keeps_intros index.keeps_room_state_get) (simp add: keeps_basic split: bool.split)

lemma index_mark: "keeps eventid_pduid (mark_device_key_update J R iter user)"
proof -
  have "keeps eventid_pduid (mark_room J R iter user c room)" for c room
    unfolding mark_room_def by (intro keeps_intros index.keeps_room_state_get) simp
  then show ?thesis unfolding mark_device_key_update_def by (intro keeps_intros) simp_all
qed

lemma index_cross_signing: "keeps eventid_pduid (add_cross_signing_keys J R iter key_values user master_key self_signing_key user_signing_key)"
  unfolding add_cross_signing_keys_def by (intro keeps_intros index_mark) simp_all

lemma index_deliver: "keeps eventid_pduid (deliver_message A from_user ev_type target m)"
proof -
  have "keeps eventid_pduid (deliver_to_device A from_user ev_type target event device)" for event device
    unfolding deliver_to_device_def add_to_device_event_def by (intro keeps_intros) simp_all
  then show ?thesis unfolding deliver_message_def by (intro keeps_intros)
qed

lemma index_receipt: "keeps eventid_pduid (handle_receipt A L room update)"
  unfolding handle_receipt_def readreceipt_update_def by (intro keeps_intros) simp_all

lemma index_edu: "keeps eventid_pduid (handle_edu A L millis server edu)"
proof (cases edu)
  case (EduTyping user room is_typing)
  show ?thesis
    unfolding EduTyping handle_edu.simps handle_typing_def typing_add_def typing_remove_def touch_typing_def by (intro keeps_intros) simp_all
next
  case (EduDirectToDevice from_user ev_type message_id messages)
  show ?thesis
    unfolding EduDirectToDevice handle_edu.simps handle_direct_to_device_def add_txnid_def by (intro keeps_intros index_deliver) simp
qed (simp_all only: handle_edu.simps, (intro keeps_intros index_mark index_cross_signing index_receipt)+)

section \<open>What a transaction does\<close>

text \<open>An event that a transaction adds: the ACL let the server in, and then the event handler admitted the event.\<close>

definition admitted_for :: "api \<Rightarrow> servername \<Rightarrow> event_id \<Rightarrow> 'a federation_db_scheme \<Rightarrow> bool" where
  "admitted_for A server e s0 \<longleftrightarrow>
     (\<exists>t u room create_event pdu. acl_check (env_of A) server room s0 = (Inr (), t) \<and>
        fst (room_state_get (jsn A) (rma A) (itr A) room (ascii ''m.room.create'') [] t) = Inr (Some create_event) \<and>
        timeline_run (env_of A) room create_event t u \<and> admitted (env_of A) room create_event u pdu \<and> event_id pdu = e)"

lemma accept_new:
  assumes "acl_check (env_of A) server room s = (Inr (), t)"
    and "kv_get (eventid_pduid (snd (handle_incoming_pdu n (env_of A) now server i room val True t))) e \<noteq> kv_get (eventid_pduid s) e"
  shows "admitted_for A server e s"
proof -
  let ?create = "fst (room_state_get (jsn A) (rma A) (itr A) room (ascii ''m.room.create'') [] t)"
  have changed: "kv_get (eventid_pduid (snd (handle_incoming_pdu n (env_of A) now server i room val True t))) e \<noteq> kv_get (eventid_pduid t) e"
    using assms(2) keeps_result [OF index_acl_check assms(1)] by simp
  then have "\<exists>create_event. ?create = Inr (Some create_event)"
    using handle_incoming_no_create [of "env_of A" room t n now server i val True] by metis
  then obtain create_event where c: "?create = Inr (Some create_event)" by (elim exE)
  from timeline_run_new [OF handle_incoming_run [OF c] changed] obtain u pdu
    where u: "timeline_run (env_of A) room create_event t u" "admitted (env_of A) room create_event u pdu" "event_id pdu = e"
    by (elim exE conjE)
  show ?thesis unfolding admitted_for_def by (intro exI conjI, rule assms(1), rule c) (rule u)+
qed

lemma transaction_index_kept:
  "eventid_pduid (snd (get_room_version J R C iter room s)) = eventid_pduid s"
  "eventid_pduid (snd (acl_check W server room s)) = eventid_pduid s"
  "eventid_pduid (snd (handle_edu A L millis server edu s)) = eventid_pduid s"
proof -
  have "keeps eventid_pduid (get_room_version J R C iter room)"
    unfolding get_room_version_def by (intro keeps_intros index.keeps_room_state_get)
  then show "eventid_pduid (snd (get_room_version J R C iter room s)) = eventid_pduid s" by (rule keepsD)
qed (rule keepsD [OF index_acl_check], rule keepsD [OF index_edu])

lemma transaction_run_new:
  assumes "transaction_run A L server s s'" and "kv_get (eventid_pduid s') e \<noteq> kv_get (eventid_pduid s) e"
  shows "\<exists>s0. transaction_run A L server s s0 \<and> admitted_for A server e s0"
  using assms
proof (induction rule: transaction_run.induct)
  case (next_run s t u)
  show ?case
  proof (cases "kv_get (eventid_pduid t) e = kv_get (eventid_pduid s) e")
    case True
    with next_run.prems have "kv_get (eventid_pduid u) e \<noteq> kv_get (eventid_pduid t) e" by simp
    from next_run.IH(2) [OF this] obtain s0 where s0: "transaction_run A L server t s0" "admitted_for A server e s0" by (elim exE conjE)
    show ?thesis by (intro exI conjI, rule transaction_run.next_run [OF next_run.hyps(1) s0(1)]) (rule s0(2))
  qed (rule next_run.IH(1))
next
  case (accept room s t n now i val)
  show ?case by (intro exI conjI, rule transaction_run.none) (rule accept_new [OF accept])
qed (simp_all add: transaction_index_kept)

lemma transaction_basic:
  "evolves (transaction_run A L server) (ret x)" "evolves (transaction_run A L server) (of_res y)"
  by (rule transaction.evolves_keeps, rule keeps_basic)+

lemma accept_pdu_run: "evolves (transaction_run A L server) (accept_transaction_pdu n A now server room e val resolved)"
  unfolding evolves_def
proof
  fix s
  let ?run = "accept_transaction_pdu n A now server room e val resolved s"
  obtain r t where acl: "acl_check (env_of A) server room s = (r, t)" by (rule prod.exhaust)
  show "transaction_run A L server s (snd ?run)"
  proof (cases r)
    case (Inr x)
    then have acl': "acl_check (env_of A) server room s = (Inr (), t)" using acl by simp
    have "snd ?run = snd (handle_incoming_pdu n (env_of A) now server e room val True t)"
      by (simp add: accept_transaction_pdu_def acl' catching_def bind_apply attempt_apply split: sum.split)
    with transaction_run.accept [OF acl'] show ?thesis by simp
  next
    case (Inl err)
    then show ?thesis using transaction_run.acl [of A L server s room] acl by (simp add: accept_transaction_pdu_def)
  qed
qed

lemma transaction_pdus_run: "evolves (transaction_run A L server) (handle_transaction_pdus n A now server pdus resolved)"
proof -
  have "evolves (transaction_run A L server) (get_room_version (jsn A) (rma A) (cts A) (itr A) room)" for room
    unfolding evolves_def by (rule allI) (rule transaction_run.version)
  then have pdu: "evolves (transaction_run A L server) (handle_transaction_pdu n A now server pdu resolved)" for pdu resolved
    unfolding handle_transaction_pdu_def by (intro transaction.evolves_intros transaction_basic accept_pdu_run)
  show ?thesis
    by (induction pdus arbitrary: resolved) (simp_all only: handle_transaction_pdus.simps, (intro transaction.evolves_bind transaction_basic pdu)+)
qed

lemma transaction_edus_run: "evolves (transaction_run A L server) (for_each edus (handle_edu A L millis server))"
proof -
  have edu: "evolves (transaction_run A L server) (handle_edu A L millis server edu)" for edu
    unfolding evolves_def by (rule allI) (rule transaction_run.edu)
  show ?thesis
    by (induction edus) (simp_all only: for_each.simps, (intro transaction.evolves_intros transaction_basic edu)+)
qed

section \<open>Examples and theorems\<close>

definition example_fed_lib :: fed_lib where
  "example_fed_lib =
     \<lparr>edu_parse = (\<lambda>_. None), receipt_json = (\<lambda>_ _ _ d. d), member_print = (\<lambda>_. JObj []), version_str = (\<lambda>_. ascii ''6'')\<rparr>"

definition example_stored :: jobj where
  "example_stored = [(ascii ''prev_events'', JArr []), (ascii ''room_id'', JStr (ascii ''!r:h''))]"

definition example_in_room :: federation_db where
  "example_in_room = example_keyless
     \<lparr>serverroomids := kv_insert (ascii ''o'' @ sep # ascii ''!r:h'') [] kv_empty, roomid_shortstatehash := kv_empty,
      eventid_pduid := kv_empty, eventid_outlierpdu := kv_insert (ascii ''$e'') (json_print example_serde (JObj example_stored)) kv_empty,
      userdevicetxnid_response := kv_empty\<rparr>"

text \<open>C4: A transaction is refused as a whole when federation is switched off. Otherwise, every event it adds to the timeline is one that the event
  handler admitted in its room, for a server that the ACL of the room lets in, in the state that the operations of the transaction have led to; ephemeral events add nothing to the timeline.\<close>

theorem transaction_effect:
  fixes s :: "'a federation_db_scheme"
  assumes "send_transaction_message_route n A L now millis info pdus edus s = (r, s')"
  shows "(\<not> allow_federation (config s) \<longrightarrow> r = Inl (BadConfig ''Federation is disabled.'') \<and> s' = s) \<and>
    (\<forall>e. kv_get (eventid_pduid s') e \<noteq> kv_get (eventid_pduid s) e \<longrightarrow>
      (\<exists>server s0. sender_servername info = Some server \<and> transaction_run A L server s s0 \<and> admitted_for A server e s0))"
proof (cases "allow_federation (config s)")
  case False
  with assms show ?thesis by (simp add: send_transaction_message_route_def federation_on_def andthen_def)
next
  case True
  then have on: "federation_on s = (Inr (), s)" by (simp add: federation_on_def)
  show ?thesis
  proof (cases "sender_servername info")
    case None
    with assms on have "s' = s" by (simp add: send_transaction_message_route_def andthen_def authenticated_server_def ok_or_def)
    with True show ?thesis by simp
  next
    case (Some server)
    let ?rest = "andthen (modify (\<lambda>s. s\<lparr>pub_key_map := Map.empty\<rparr>))
      (bind (handle_transaction_pdus n A now server pdus Map.empty) (\<lambda>resolved.
       andthen (for_each (List.map_filter (edu_parse L) edus) (handle_edu A L millis server))
       (ret resolved)))"
    have "evolves (transaction_run A L server) (modify (\<lambda>s :: 'a federation_db_scheme. s\<lparr>pub_key_map := Map.empty\<rparr>))"
      unfolding evolves_def by (simp add: transaction_run.start)
    then have "evolves (transaction_run A L server) (?rest :: ('a federation_db_scheme, resolved_map) dop)"
      by (intro transaction.evolves_andthen transaction.evolves_bind transaction_pdus_run transaction_edus_run transaction_basic)
    moreover have "?rest s = (r, s')" using assms on Some by (simp add: send_transaction_message_route_def andthen_def authenticated_server_def ok_or_def)
    ultimately have "transaction_run A L server s s'" by (rule evolvesD)
    from transaction_run_new [OF this] Some True show ?thesis by simp
  qed
qed

theorem transaction_effect_witness:
  "send_transaction_message_route 1 example_api example_fed_lib
     0 0 \<lparr>sender_user = None, sender_device = None, sender_servername = Some (ascii ''o''), from_appservice = False\<rparr> [ascii ''{}''] []
     (example_keyless\<lparr>config := (config example_keyless)\<lparr>allow_federation := False\<rparr>\<rparr>) =
   (Inl (BadConfig ''Federation is disabled.''), example_keyless\<lparr>config := (config example_keyless)\<lparr>allow_federation := False\<rparr>\<rparr>)"
    (is "?run = (_, ?s)")
proof -
  obtain r s' where "?run = (r, s')" by (rule prod.exhaust)
  with transaction_effect [OF this] show ?thesis by simp
qed

text \<open>C19: A direct-to-device message that another server repeats under the same message id is delivered once: handling it again changes nothing.\<close>

theorem to_device_message_once:
  assumes "handle_edu A L millis server (EduDirectToDevice from_user ev_type message_id messages) s = (Inr (), s')"
  shows "handle_edu A L millis' server' (EduDirectToDevice from_user ev_type' message_id messages') s' = (Inr (), s')"
proof -
  have known: "existing_txnid from_user None message_id s' = Inr (Some x) \<Longrightarrow>
      handle_edu A L millis' server' (EduDirectToDevice from_user ev_type' message_id messages') s' = (Inr (), s')" for x
    by (simp add: handle_direct_to_device_def bind_reads)
  show ?thesis
  proof (cases "existing_txnid from_user None message_id s")
    case (Inr found)
    show ?thesis
    proof (cases found)
      case None
      with assms Inr obtain t where "add_txnid from_user None message_id [] t = (Inr (), s')"
        by (auto simp: handle_direct_to_device_def bind_reads elim!: andthen_InrE)
      then show ?thesis by (intro known [of "[]"]) (auto simp: existing_txnid_def add_txnid_def)
    next
      case (Some x)
      with assms Inr have "s' = s" by (simp add: handle_direct_to_device_def bind_reads)
      with Inr Some show ?thesis by (intro known) simp
    qed
  qed (use assms in \<open>simp add: handle_direct_to_device_def bind_reads\<close>)
qed

theorem to_device_message_once_witness:
  "\<exists>s'. handle_edu example_api example_fed_lib 0 (ascii ''o'') (EduDirectToDevice (ascii ''@v:o'') [] (ascii ''m'') [(ascii ''@u:h'', [(None, [])])]) example_in_room = (Inr (), s') \<and>
     s' \<noteq> example_in_room \<and>
     handle_edu example_api example_fed_lib 0 (ascii ''o'') (EduDirectToDevice (ascii ''@v:o'') [] (ascii ''m'') [(ascii ''@u:h'', [(None, [])])]) s' = (Inr (), s')"
proof -
  let ?edu = "EduDirectToDevice (ascii ''@v:o'') [] (ascii ''m'') [(ascii ''@u:h'', [(None, [])])]"
  let ?key = "txn_key (ascii ''@v:o'') None (ascii ''m'')"
  let ?s' = "userdevicetxnid_response_update (kv_insert ?key []) example_in_room"
  have "all_device_ids (ascii ''@u:h'') example_in_room = []" "kv_get (userdevicetxnid_response example_in_room) ?key = None"
    by (simp_all add: all_device_ids_def example_in_room_def example_keyless_def)
  then have run: "handle_edu example_api example_fed_lib 0 (ascii ''o'') ?edu example_in_room = (Inr (), ?s')"
    by (simp add: handle_direct_to_device_def bind_reads existing_txnid_def deliver_message_def andthen_def add_txnid_def)
  have "userdevicetxnid_response ?s' \<noteq> userdevicetxnid_response example_in_room"
  proof
    assume "userdevicetxnid_response ?s' = userdevicetxnid_response example_in_room"
    then have "kv_get (userdevicetxnid_response ?s') ?key = kv_get (userdevicetxnid_response example_in_room) ?key" by simp
    then show False by (simp add: example_in_room_def)
  qed
  then have "?s' \<noteq> example_in_room" by metis
  with run to_device_message_once [OF run, of 0 "ascii ''o''" "[]" "[(ascii ''@u:h'', [(None, [])])]"] show ?thesis
    by (intro exI [of _ ?s'] conjI)
qed

theorem missing_events_answer_witness:
  "\<exists>s'. get_missing_events_route example_api \<lparr>sender_user = None, sender_device = None, sender_servername = Some (ascii ''o''), from_appservice = False\<rparr>
       (ascii ''!r:h'') [] [ascii ''$e''] 2 example_in_room = (Inr [JObj example_stored], s') \<and>
     sendable example_serde example_ruma (ascii ''!r:h'') [] s' (prev_reach example_serde example_ruma s' [] [ascii ''$e'']) (JObj example_stored)"
proof -
  let ?info = "\<lparr>sender_user = None, sender_device = None, sender_servername = Some (ascii ''o''), from_appservice = False\<rparr>"
  have env: "jsn example_api = example_serde" "rma example_api = example_ruma" "serde_of (env_of example_api) = example_serde"
    "ruma_of (env_of example_api) = example_ruma" by (simp_all add: example_api_def example_env_def)
  have "json_ok (JObj example_stored)" by (simp add: example_stored_def ascii_simps)
  then have "json_parse example_serde (json_print example_serde (JObj example_stored)) = Some (JObj example_stored)" by (rule serde_okD [OF example_serde_ok])
  then have stored: "get_pdu_json example_serde (ascii ''$e'') example_in_room = Inr (Some example_stored)"
    by (simp add: get_pdu_json_def event_bytes_def timeline_bytes_def example_in_room_def object_from_slice_def decode_opt_def)
  have "obj_get example_stored (ascii ''room_id'') = Some (JStr (ascii ''!r:h''))" "obj_get example_stored (ascii ''prev_events'') = Some (JArr [])"
    by (simp_all add: example_stored_def ascii_simps)
  then have room: "event_room example_ruma example_stored = Inr (ascii ''!r:h'')" "previous_events example_ruma example_stored = Inr []"
    by (simp_all add: event_room_def previous_events_def ok_or_def p_ids_def)
  have outgoing: "convert_to_outgoing_federation_event example_stored = JObj example_stored"
    by (simp add: convert_to_outgoing_federation_event_def example_stored_def obj_remove_def ascii_simps)
  have "acl_check (env_of example_api) (ascii ''o'') (ascii ''!r:h'') example_in_room = (Inr (), example_in_room)"
    by (simp add: acl_check_def room_state_get_def get_room_shortstatehash_def bind_reads example_in_room_def)
  moreover have "federation_on example_in_room = (Inr (), example_in_room)" by (simp add: federation_on_def example_in_room_def example_keyless_def)
  moreover have "server_in_room (ascii ''o'') (ascii ''!r:h'') example_in_room = Inr True" by (simp add: server_in_room_def example_in_room_def)
  ultimately have run: "get_missing_events_route example_api ?info (ascii ''!r:h'') [] [ascii ''$e''] 2 example_in_room = (Inr [JObj example_stored], example_in_room)"
    by (simp add: get_missing_events_route_def room_guard_def andthen_def authenticated_server_def ok_or_def require_server_in_room_def bind_reads env
        stored room outgoing)
  from missing_events_answer [OF run] have "sendable example_serde example_ruma (ascii ''!r:h'') [] example_in_room
      (prev_reach example_serde example_ruma example_in_room [] [ascii ''$e'']) (JObj example_stored)" by (simp add: env)
  with run show ?thesis by (intro exI [of _ example_in_room]) simp
qed

end
