(* ===== verification/SendRequest.thy ===== *)
theory SendRequest
  imports FederationApi
begin

text \<open>
  The first part of \<^verbatim>\<open>api/server_server.rs\<close>: how a request to another server is addressed, signed and sent.
  The textual forms of network addresses, DNS, HTTP and the signature are parameters in \<open>net\<close>.
\<close>

section \<open>Destinations\<close>

type_synonym u16 = "16 word"

record SocketAddr =
  addr_ip :: bytes
  addr_port :: u16

datatype FedDest = Literal SocketAddr | Named bytes bytes

record http_answer =
  answer_status :: nat
  answer_body :: bytes

record net =
  parse_socket :: "bytes \<Rightarrow> SocketAddr option"
  parse_ip :: "bytes \<Rightarrow> bytes option"
  socket_str :: "SocketAddr \<Rightarrow> bytes"
  srv_lookup :: "bytes \<Rightarrow> (bytes \<times> u16) option"
  lookup_ip :: "bytes \<Rightarrow> bytes list option"
  http_get :: "bytes \<Rightarrow> bytes option"
  error_text :: "http_answer \<Rightarrow> string"
  sign_json :: "servername \<Rightarrow> jobj \<Rightarrow> jobj option"
  execute :: "bytes \<Rightarrow> bytes \<Rightarrow> bytes \<Rightarrow> bytes option \<Rightarrow> bytes \<Rightarrow> http_answer res"

text \<open>Resolved destinations, and the addresses that a server name is forced to.\<close>

record outgoing_db = federation_db +
  actual_destination_cache :: "servername \<Rightarrow> (FedDest \<times> bytes) option"
  tls_name_override :: "bytes \<Rightarrow> (bytes list \<times> u16) option"

definition into_uri_string :: "net \<Rightarrow> FedDest \<Rightarrow> bytes" where
  "into_uri_string N d = (case d of Literal addr \<Rightarrow> socket_str N addr | Named host port \<Rightarrow> host @ port)"

definition into_https_string :: "net \<Rightarrow> FedDest \<Rightarrow> bytes" where
  "into_https_string N d = ascii ''https://'' @ into_uri_string N d"

definition dest_hostname :: "FedDest \<Rightarrow> bytes" where
  "dest_hostname d = (case d of Literal addr \<Rightarrow> addr_ip addr | Named host _ \<Rightarrow> host)"

definition parse_u16 :: "bytes \<Rightarrow> u16 option" where
  "parse_u16 b =
     (let ds = (case b of c # cs \<Rightarrow> if c = 0x2b then cs else b | [] \<Rightarrow> [])
      in if ds = [] then None
         else (case parse_digits 0 ds of Some n \<Rightarrow> if n < 2 ^ 16 then Some (of_nat n) else None | None \<Rightarrow> None))"

definition dest_port :: "FedDest \<Rightarrow> u16 option res" where
  "dest_port d =
     (case d of
        Literal addr \<Rightarrow> Inr (Some (addr_port addr))
      | Named _ port \<Rightarrow> (case port of [] \<Rightarrow> Inl (Panic ''byte index 1 is out of bounds'') | _ # digits \<Rightarrow> Inr (parse_u16 digits)))"

definition get_ip_with_port :: "net \<Rightarrow> bytes \<Rightarrow> FedDest option" where
  "get_ip_with_port N str =
     (case parse_socket N str of
        Some destination \<Rightarrow> Some (Literal destination)
      | None \<Rightarrow> map_option (\<lambda>ip. Literal \<lparr>addr_ip = ip, addr_port = 8448\<rparr>) (parse_ip N str))"

text \<open>\<^verbatim>\<open>find(':')\<close> and \<^verbatim>\<open>split_at\<close>: the port keeps its colon.\<close>

definition split_port :: "bytes \<Rightarrow> (bytes \<times> bytes) option" where
  "split_port str = (if 0x3a \<in> set str then Some (takeWhile (\<lambda>c. c \<noteq> 0x3a) str, dropWhile (\<lambda>c. c \<noteq> 0x3a) str) else None)"

definition add_port_to_hostname :: "bytes \<Rightarrow> FedDest" where
  "add_port_to_hostname str = (case split_port str of None \<Rightarrow> Named str (ascii '':8448'') | Some (host, port) \<Rightarrow> Named host port)"

definition query_srv_record :: "net \<Rightarrow> bytes \<Rightarrow> FedDest option" where
  "query_srv_record N hostname =
     map_option (\<lambda>(target, port). Named (rev (dropWhile (\<lambda>c. c = 0x2e) (rev target))) (ascii '':'' @ decimal_nat (unat port)))
       (srv_lookup N (ascii ''_matrix._tcp.'' @ hostname))"

definition request_well_known :: "api \<Rightarrow> net \<Rightarrow> bytes \<Rightarrow> bytes option" where
  "request_well_known A N destination =
     Option.bind (http_get N (ascii ''https://'' @ destination @ ascii ''/.well-known/matrix/server'')) (\<lambda>text.
     Option.bind (json_parse (jsn A) text) (\<lambda>body.
     Option.bind (as_object body) (\<lambda>ob. Option.bind (obj_get ob (ascii ''m.server'')) as_string)))"

text \<open>A service record found for \<open>hostname\<close>: its addresses override those of the name.\<close>

definition use_srv_record :: "net \<Rightarrow> bytes \<Rightarrow> FedDest \<Rightarrow> ('a outgoing_db_scheme, FedDest) dop" where
  "use_srv_record N hostname hostname_override =
     bind (of_res (dest_port hostname_override)) (\<lambda>force_port.
     andthen
       (case lookup_ip N (dest_hostname hostname_override) of
          None \<Rightarrow> ret ()
        | Some override_ip \<Rightarrow>
            modify (\<lambda>s. s\<lparr>tls_name_override := (tls_name_override s)(hostname \<mapsto> (override_ip, case force_port of None \<Rightarrow> 8448 | Some p \<Rightarrow> p))\<rparr>))
     (ret (case force_port of
             Some port \<Rightarrow> Named hostname (ascii '':'' @ decimal_nat (unat port))
           | None \<Rightarrow> add_port_to_hostname hostname)))"

definition resolve_delegated :: "net \<Rightarrow> bytes \<Rightarrow> ('a outgoing_db_scheme, FedDest) dop" where
  "resolve_delegated N delegated_hostname =
     (case get_ip_with_port N delegated_hostname of
        Some host_and_port \<Rightarrow> ret host_and_port
      | None \<Rightarrow>
          (case split_port delegated_hostname of
             Some (host, port) \<Rightarrow> ret (Named host port)
           | None \<Rightarrow>
               (case query_srv_record N delegated_hostname of
                  Some hostname_override \<Rightarrow> use_srv_record N delegated_hostname hostname_override
                | None \<Rightarrow> ret (add_port_to_hostname delegated_hostname))))"

definition host_header :: "net \<Rightarrow> bytes \<Rightarrow> FedDest" where
  "host_header N hostname =
     (case parse_socket N hostname of
        Some addr \<Rightarrow> Literal addr
      | None \<Rightarrow>
          (case parse_ip N hostname of
             Some ip \<Rightarrow> Named ip (ascii '':8448'')
           | None \<Rightarrow>
               (case split_port hostname of
                  Some (host, port) \<Rightarrow> Named host port
                | None \<Rightarrow> Named hostname (ascii '':8448''))))"

definition find_actual_destination :: "api \<Rightarrow> net \<Rightarrow> servername \<Rightarrow> ('a outgoing_db_scheme, FedDest \<times> FedDest) dop" where
  "find_actual_destination A N destination =
     (case get_ip_with_port N destination of
        Some host_port \<Rightarrow> ret (host_port, host_header N destination)
      | None \<Rightarrow>
          (case split_port destination of
             Some (host, port) \<Rightarrow> ret (Named host port, host_header N destination)
           | None \<Rightarrow>
               (case request_well_known A N destination of
                  Some delegated_hostname \<Rightarrow>
                    bind (resolve_delegated N delegated_hostname) (\<lambda>actual.
                    ret (actual, host_header N (into_uri_string N (add_port_to_hostname delegated_hostname))))
                | None \<Rightarrow>
                    bind (case query_srv_record N destination of
                            Some hostname_override \<Rightarrow> use_srv_record N destination hostname_override
                          | None \<Rightarrow> ret (add_port_to_hostname destination)) (\<lambda>actual.
                    ret (actual, host_header N destination)))))"

section \<open>Signed requests\<close>

text \<open>
  A request: its method, the path and body it has for a base URL (\<open>None\<close> if it cannot be built), and how an answer is read.
\<close>

record 'r outgoing_request =
  out_method :: bytes
  out_http :: "bytes \<Rightarrow> (bytes \<times> bytes) option"
  out_response :: "bytes \<Rightarrow> 'r option"

definition outgoing_map :: "bytes \<Rightarrow> bytes \<Rightarrow> json option \<Rightarrow> servername \<Rightarrow> servername \<Rightarrow> jobj" where
  "outgoing_map method uri body origin destination =
     obj_of
       ((case body of None \<Rightarrow> [] | Some j \<Rightarrow> [(ascii ''content'', j)])
        @ [(ascii ''method'', JStr method), (ascii ''uri'', JStr uri), (ascii ''origin'', JStr origin), (ascii ''destination'', JStr destination)])"

definition signature_header :: "servername \<Rightarrow> bytes \<Rightarrow> bytes \<Rightarrow> bytes" where
  "signature_header origin key sig =
     ascii ''X-Matrix origin='' @ origin @ ascii '',key='' @ [0x22] @ key @ [0x22] @ ascii '',sig='' @ [0x22] @ sig @ [0x22]"

text \<open>Every signature overwrites the header, so the last one is sent.\<close>

definition signature_pairs :: "jobj \<Rightarrow> (bytes \<times> bytes) list res" where
  "signature_pairs signed_json =
     bind_res (ok_or (Panic ''no entry found for key'') (obj_get signed_json (ascii ''signatures''))) (\<lambda>sigs.
     bind_res (ok_or (Panic ''called Option::unwrap() on a None value'') (as_object sigs)) (\<lambda>servers.
     map_res concat (collect_res (map (\<lambda>(_, v).
       bind_res (ok_or (Panic ''called Option::unwrap() on a None value'') (as_object v)) (\<lambda>keys.
       collect_res (map (\<lambda>(k, sig). map_res (\<lambda>sig. (k, sig)) (ok_or (Panic ''called Option::unwrap() on a None value'') (as_string sig))) keys)))
       servers))))"

definition authorization_for :: "servername \<Rightarrow> jobj \<Rightarrow> bytes option res" where
  "authorization_for origin signed_json =
     map_res (\<lambda>sigs. if sigs = [] then None else Some (signature_header origin (fst (last sigs)) (snd (last sigs))))
       (signature_pairs signed_json)"

definition resolve_destination :: "api \<Rightarrow> net \<Rightarrow> servername \<Rightarrow> ('a outgoing_db_scheme, bool \<times> FedDest \<times> bytes) dop" where
  "resolve_destination A N destination =
     bind (gets (\<lambda>s. actual_destination_cache s destination)) (\<lambda>cached.
     case cached of
       Some (actual, host) \<Rightarrow> ret (False, actual, host)
     | None \<Rightarrow>
         bind (find_actual_destination A N destination) (\<lambda>(actual, host). ret (True, actual, into_uri_string N host)))"

definition request_signature ::
    "api \<Rightarrow> net \<Rightarrow> bytes \<Rightarrow> bytes \<Rightarrow> bytes \<Rightarrow> servername \<Rightarrow> 'a outgoing_db_scheme \<Rightarrow> bytes option res" where
  "request_signature A N method uri body destination s =
     bind_res (if body = [] then Inr None
               else map_res Some (ok_or (Panic ''body is valid json, we just created it'') (json_parse (jsn A) body))) (\<lambda>content_json.
     bind_res (ok_or (Panic ''our request json is what ruma expects'')
       (sign_json N (server_name s) (outgoing_map method uri content_json (server_name s) destination))) (\<lambda>signed_json.
     authorization_for (server_name s) signed_json))"

definition send_request :: "api \<Rightarrow> net \<Rightarrow> servername \<Rightarrow> 'r outgoing_request \<Rightarrow> ('a outgoing_db_scheme, 'r) dop" where
  "send_request A N destination request =
     andthen federation_on
     (bind (resolve_destination A N destination) (\<lambda>(write_destination_to_cache, actual_destination, host).
      let url = into_https_string N actual_destination in
      bind (of_res (ok_or (BadServerResponse ''Invalid destination'') (out_http request url))) (\<lambda>(uri, body).
      bind (reads (request_signature A N (out_method request) uri body destination)) (\<lambda>header.
      bind (of_res (execute N url (out_method request) uri header body)) (\<lambda>answer.
      if answer_status answer \<noteq> 200
      then fail (FederationError destination (answer_status answer) (error_text N answer))
      else
        andthen
          (if out_response request (answer_body answer) \<noteq> None \<and> write_destination_to_cache
           then modify (\<lambda>s. s\<lparr>actual_destination_cache := (actual_destination_cache s)(destination \<mapsto> (actual_destination, host))\<rparr>)
           else ret ())
        (of_res (ok_or (BadServerResponse ''Server returned bad 200 response.'') (out_response request (answer_body answer)))))))))"

section \<open>Ports\<close>

definition has_port :: "FedDest \<Rightarrow> bool" where
  "has_port d = (case d of Literal _ \<Rightarrow> True | Named _ port \<Rightarrow> \<exists>digits. port = 0x3a # digits)"

lemma dest_port_safe: "has_port d \<Longrightarrow> \<exists>p. dest_port d = Inr p"
  by (cases d) (auto simp: has_port_def dest_port_def)

lemma split_port_has_port:
  assumes "split_port str = Some (host, port)"
  shows "has_port (Named host port)"
proof -
  from assms have "0x3a \<in> set str" and port: "port = dropWhile (\<lambda>c. c \<noteq> 0x3a) str" by (auto simp: split_port_def split: if_splits)
  then have "port \<noteq> []" by (auto simp: dropWhile_eq_Nil_conv)
  moreover from this have "hd port = 0x3a" using hd_dropWhile [of "\<lambda>c. c \<noteq> 0x3a" str] unfolding port by simp
  ultimately show ?thesis by (simp add: has_port_def neq_Nil_conv) (metis list.sel(1))
qed

lemma has_port_default: "has_port (Literal addr)" "has_port (Named host (ascii '':8448''))" "has_port (Named host (ascii '':'' @ digits))"
  by (simp_all add: has_port_def ascii_simps)

lemma add_port_has_port: "has_port (add_port_to_hostname str)"
  by (auto simp: add_port_to_hostname_def has_port_default split: option.split dest: split_port_has_port)

lemma get_ip_has_port: "get_ip_with_port N str = Some d \<Longrightarrow> has_port d"
  by (auto simp: get_ip_with_port_def has_port_def split: option.splits)

lemma host_header_has_port: "has_port (host_header N hostname)"
  by (auto simp: host_header_def has_port_default split: option.split dest: split_port_has_port)

lemma srv_has_port: "query_srv_record N hostname = Some d \<Longrightarrow> has_port d"
  by (auto simp: query_srv_record_def has_port_default)

lemma use_srv_record_ok:
  assumes "has_port d"
  shows "\<exists>d' s'. use_srv_record N hostname d s = (Inr d', s') \<and> has_port d'"
proof -
  obtain p where "dest_port d = Inr p" using dest_port_safe [OF assms] by (elim exE)
  then show ?thesis by (auto simp: use_srv_record_def andthen_def has_port_default add_port_has_port split: option.split)
qed

lemma resolve_delegated_ok: "\<exists>d s'. resolve_delegated N hostname s = (Inr d, s') \<and> has_port d"
proof -
  have "\<exists>d' s'. use_srv_record N hostname d s = (Inr d', s') \<and> has_port d'" if "query_srv_record N hostname = Some d" for d
    by (rule use_srv_record_ok [OF srv_has_port [OF that]])
  then show ?thesis
    by (auto simp: resolve_delegated_def add_port_has_port split: option.split dest: get_ip_has_port split_port_has_port)
qed

lemma find_actual_destination_ok:
  "\<exists>actual host s'. find_actual_destination A N destination s = (Inr (actual, host), s') \<and> has_port actual \<and> has_port host"
proof -
  have srv: "\<exists>d' s'. use_srv_record N destination d s = (Inr d', s') \<and> has_port d'" if "query_srv_record N destination = Some d" for d
    by (rule use_srv_record_ok [OF srv_has_port [OF that]])
  have del: "\<exists>d s'. resolve_delegated N hostname s = (Inr d, s') \<and> has_port d" for hostname by (rule resolve_delegated_ok)
  show ?thesis
  proof (cases "get_ip_with_port N destination")
    case None
    show ?thesis
    proof (cases "split_port destination")
      case split: None
      show ?thesis
      proof (cases "request_well_known A N destination")
        case well_known: None
        show ?thesis
        proof (cases "query_srv_record N destination")
          case (Some d)
          from srv [OF Some] obtain d' s' where "use_srv_record N destination d s = (Inr d', s')" "has_port d'" by (elim exE conjE)
          with None split well_known Some show ?thesis by (simp add: find_actual_destination_def host_header_has_port)
        qed (use None split well_known in \<open>simp add: find_actual_destination_def host_header_has_port add_port_has_port\<close>)
      next
        case (Some hostname)
        from del [of hostname] obtain d s' where "resolve_delegated N hostname s = (Inr d, s')" "has_port d" by (elim exE conjE)
        with None split Some show ?thesis by (simp add: find_actual_destination_def host_header_has_port)
      qed
    qed (use None in \<open>auto simp: find_actual_destination_def host_header_has_port dest: split_port_has_port\<close>)
  qed (auto simp: find_actual_destination_def host_header_has_port dest: get_ip_has_port)
qed

section \<open>Signatures\<close>

lemma utf8_valid_append: "utf8_valid a \<Longrightarrow> utf8_valid b \<Longrightarrow> utf8_valid (a @ b)"
proof (induction a rule: utf8_valid.induct)
  case (2 x bs)
  consider "x \<le> 0x7F" | "\<not> x \<le> 0x7F" "0xC2 \<le> x \<and> x \<le> 0xDF" | "\<not> x \<le> 0x7F" "\<not> (0xC2 \<le> x \<and> x \<le> 0xDF)" "0xE0 \<le> x \<and> x \<le> 0xEF"
    | "\<not> x \<le> 0x7F" "\<not> (0xC2 \<le> x \<and> x \<le> 0xDF)" "\<not> (0xE0 \<le> x \<and> x \<le> 0xEF)" "0xF0 \<le> x \<and> x \<le> 0xF4"
    using 2(5) by (auto split: if_splits)
  then show ?case
  proof cases
    case 1
    with 2 show ?thesis by simp
  next
    case two: 2
    with 2(5) obtain c r where "bs = c # r" "utf8_cont c" "utf8_valid r" by (cases bs) auto
    with 2(2) [OF two] 2(6) two show ?thesis by simp
  next
    case three: 3
    with 2(5) obtain c d r where "bs = c # d # r" "utf8_cont c" "x = 0xE0 \<longrightarrow> 0xA0 \<le> c" "x = 0xED \<longrightarrow> c \<le> 0x9F" "utf8_cont d" "utf8_valid r"
      by (auto split: list.splits)
    moreover from this 2(3) [OF three] 2(6) have "utf8_valid (r @ b)" by simp
    moreover have "(x \<le> 0x7F) = False" "(0xC2 \<le> x \<and> x \<le> 0xDF) = False" "(0xE0 \<le> x \<and> x \<le> 0xEF) = True" using three by blast+
    ultimately show ?thesis by (simp only: append_Cons utf8_valid.simps(2) [of x] if_False if_True list.case)
  next
    case four: 4
    with 2(5) obtain c d e r where "bs = c # d # e # r" "utf8_cont c" "x = 0xF0 \<longrightarrow> 0x90 \<le> c" "x = 0xF4 \<longrightarrow> c \<le> 0x8F" "utf8_cont d" "utf8_cont e" "utf8_valid r"
      by (auto split: list.splits)
    moreover from this 2(4) [OF four] 2(6) have "utf8_valid (r @ b)" by simp
    moreover have "(x \<le> 0x7F) = False" "(0xC2 \<le> x \<and> x \<le> 0xDF) = False" "(0xE0 \<le> x \<and> x \<le> 0xEF) = False"
      "(0xF0 \<le> x \<and> x \<le> 0xF4) = True" using four by blast+
    ultimately show ?thesis by (simp only: append_Cons utf8_valid.simps(2) [of x] if_False if_True list.case)
  qed
qed simp

lemma split_once_key: "c \<notin> set name \<Longrightarrow> split_once c (name @ c # val) = Some (name, val)"
  by (induction name) (auto simp: split_once_def)

lemma unquote_quoted: "unquote (0x22 # val @ [0x22]) = val"
  by (simp add: unquote_def)

lemma unquote_plain: "0x22 \<notin> set val \<Longrightarrow> unquote val = val"
  by (cases val) (auto simp: unquote_def)

lemma split_on_plain: "\<forall>c \<in> set w. \<not> p c \<Longrightarrow> split_on p w = [w]"
  by (induction w) auto

lemma split_on_piece: "\<forall>c \<in> set w. \<not> p c \<Longrightarrow> p c \<Longrightarrow> split_on p (w @ c # rest) = w # split_on p rest"
  by (induction w) auto

lemma trim_start_letter:
  assumes "0x21 \<le> c" and "c < 0x80"
  shows "trim_start (c # cs) = c # cs"
proof -
  have firsts: "\<forall>w \<in> set white_space. w \<noteq> [] \<and> (hd w < 0x21 \<or> 0x80 \<le> hd w)" by (simp add: white_space_def)
  have "find (\<lambda>w. prefix w (c # cs)) white_space = None"
  proof (unfold find_None_iff, rule notI, elim exE conjE)
    fix w assume w: "w \<in> set white_space" "prefix w (c # cs)"
    with firsts have "w \<noteq> []" "hd w < 0x21 \<or> 0x80 \<le> hd w" by auto
    moreover have "hd w = c" using w(2) \<open>w \<noteq> []\<close> by (cases w) auto
    ultimately show False using assms by auto
  qed
  then show ?thesis by (subst trim_start.simps) simp
qed

lemma x_decode_header:
  assumes "is_server_name R origin" and valid: "utf8_valid origin" "utf8_valid key" "utf8_valid sig"
    and comma: "0x2c \<notin> set origin" "0x2c \<notin> set key" "0x2c \<notin> set sig" and "0x22 \<notin> set origin"
  shows "x_decode R (signature_header origin key sig) = Some \<lparr>x_origin = origin, x_key = key, x_sig = sig\<rparr>"
proof -
  let ?o = "ascii ''origin='' @ origin" and ?k = "ascii ''key='' @ 0x22 # key @ [0x22]" and ?s = "ascii ''sig='' @ 0x22 # sig @ [0x22]"
  have header: "signature_header origin key sig = ascii ''X-Matrix '' @ ?o @ 0x2c # ?k @ 0x2c # ?s"
    by (simp add: signature_header_def ascii_simps)
  have quote: "utf8_valid [0x22]" "utf8_valid [0x2c]" by simp_all
  have parts: "utf8_valid (?o @ [0x2c] @ (ascii ''key='' @ [0x22] @ key @ [0x22]) @ [0x2c] @ (ascii ''sig='' @ [0x22] @ sig @ [0x22]))"
    by (intro utf8_valid_append valid quote utf8_valid_ascii) simp_all
  then have parameters: "utf8_valid (?o @ 0x2c # ?k @ 0x2c # ?s)" by simp
  have "trim_start (?o @ 0x2c # ?k @ 0x2c # ?s) = ?o @ 0x2c # ?k @ 0x2c # ?s"
    using trim_start_letter by (simp add: ascii_simps)
  moreover have "split_terminator (\<lambda>c. c = 0x2c) (?o @ 0x2c # ?k @ 0x2c # ?s) = [?o, ?k, ?s]"
  proof -
    have "\<forall>c \<in> set ?o. c \<noteq> 0x2c" "\<forall>c \<in> set ?k. c \<noteq> 0x2c" "\<forall>c \<in> set ?s. c \<noteq> 0x2c" using comma by (auto simp: ascii_simps)
    then have "split_on (\<lambda>c. c = 0x2c) (?o @ 0x2c # ?k @ 0x2c # ?s) = [?o, ?k, ?s]"
      using split_on_piece [of ?o "\<lambda>c. c = 0x2c"] split_on_piece [of ?k "\<lambda>c. c = 0x2c"] split_on_plain [of ?s "\<lambda>c. c = 0x2c"] by simp
    then show ?thesis by (simp add: split_terminator_def Let_def)
  qed
  moreover have "split_once 0x3d ?o = Some (ascii ''origin'', origin)" "split_once 0x3d ?k = Some (ascii ''key'', 0x22 # key @ [0x22])"
    "split_once 0x3d ?s = Some (ascii ''sig'', 0x22 # sig @ [0x22])"
    using split_once_key [of "0x3d" "ascii ''origin''" origin] split_once_key [of "0x3d" "ascii ''key''" "0x22 # key @ [0x22]"]
      split_once_key [of "0x3d" "ascii ''sig''" "0x22 # sig @ [0x22]"] by (simp_all add: ascii_simps)
  moreover have "prefix (ascii ''X-Matrix '') (signature_header origin key sig)"
    "drop 9 (signature_header origin key sig) = ?o @ 0x2c # ?k @ 0x2c # ?s"
    by (simp_all add: header) (simp add: ascii_simps)
  ultimately show ?thesis
    using assms(1,8) parameters by (simp add: x_decode_def Let_def unquote_quoted unquote_plain)
qed

lemma request_map_signed:
  "request_map \<lparr>x_origin = origin, x_key = key, x_sig = sig\<rparr> req body destination =
     obj_insert (ascii ''signatures'') (JObj [(origin, JObj [(key, JStr sig)])])
       (outgoing_map (http_method req) (http_uri req) body origin destination)"
  by (cases body) (simp_all add: request_map_def outgoing_map_def obj_of_def ascii_simps)

text \<open>C17: A request that this server signs is one the destination verifies: the header it sends decodes to its name, key and signature, and the
  JSON that the destination builds from the request is the very JSON that was signed.\<close>

theorem signed_requests_roundtrip:
  assumes "sign_json N (server_name s) (outgoing_map method uri body_json (server_name s) destination) = Some signed_json"
    and "signed_json = obj_insert (ascii ''signatures'') (JObj [(server_name s, JObj [(key, JStr sig)])])
      (outgoing_map method uri body_json (server_name s) destination)"
    and "body = [] \<and> body_json = None \<or> body \<noteq> [] \<and> body_json \<noteq> None \<and> json_parse (jsn A) body = body_json"
    and "is_server_name (rma A) (server_name s)" and "utf8_valid (server_name s)" and "utf8_valid key" and "utf8_valid sig"
    and "0x2c \<notin> set (server_name s)" and "0x2c \<notin> set key" and "0x2c \<notin> set sig" and "0x22 \<notin> set (server_name s)"
  shows "\<exists>header x. request_signature A N method uri body destination s = Inr (Some header) \<and> x_decode (rma A) header = Some x \<and>
    x_origin x = server_name s \<and>
    (\<forall>req. http_method req = method \<and> http_uri req = uri \<longrightarrow> request_map x req body_json destination = signed_json)"
proof -
  let ?header = "signature_header (server_name s) key sig"
  have "signature_pairs signed_json = Inr [(key, sig)]"
    by (simp add: signature_pairs_def assms(2) ok_or_def)
  then have "request_signature A N method uri body destination s = Inr (Some ?header)"
    using assms(1,3) by (auto simp: request_signature_def authorization_for_def ok_or_def)
  moreover have "x_decode (rma A) ?header = Some \<lparr>x_origin = server_name s, x_key = key, x_sig = sig\<rparr>"
    by (rule x_decode_header [OF assms(4-11)])
  ultimately show ?thesis
    by (intro exI [of _ ?header] exI [of _ "\<lparr>x_origin = server_name s, x_key = key, x_sig = sig\<rparr>"]) (auto simp: request_map_signed assms(2))
qed

definition example_net :: net where
  "example_net =
     \<lparr>parse_socket = (\<lambda>_. None), parse_ip = (\<lambda>_. None), socket_str = addr_ip, srv_lookup = (\<lambda>_. None), lookup_ip = (\<lambda>_. None),
      http_get = (\<lambda>_. None), error_text = (\<lambda>_. []),
      sign_json = (\<lambda>name ob. Some (obj_insert (ascii ''signatures'') (JObj [(name, JObj [(ascii ''ed25519:1'', JStr (ascii ''c2ln''))])]) ob)),
      execute = (\<lambda>_ _ _ _ _. Inl (ReqwestError []))\<rparr>"

definition example_outgoing :: outgoing_db where
  "example_outgoing = federation_db.extend example_keyless \<lparr>actual_destination_cache = Map.empty, tls_name_override = Map.empty\<rparr>"

theorem signed_requests_roundtrip_witness:
  "\<exists>header x. request_signature example_api example_net (ascii ''GET'') (ascii ''/'') [] (ascii ''o'') example_outgoing = Inr (Some header) \<and>
     x_decode example_ruma header = Some x \<and> x_origin x = ascii ''h''"
proof -
  have name: "server_name example_outgoing = ascii ''h''" by (simp add: example_outgoing_def federation_db.defs example_keyless_def)
  have ruma: "rma example_api = example_ruma" by (simp add: example_api_def example_env_def)
  show ?thesis
    using signed_requests_roundtrip [of example_net example_outgoing "ascii ''GET''" "ascii ''/''" None "ascii ''o''" _ "ascii ''ed25519:1''" "ascii ''c2ln''" "[]" example_api]
    by (auto simp: name ruma example_net_def example_ruma_def ascii_simps)
qed

end
