(* ===== verification/Spec2Isabelle.thy ===== *)
theory Spec2Isabelle
  imports SendRequest
begin

text \<open>
  Conduit, a Matrix homeserver: its persistent state and the services over it.
\<close>

end
